(* ===== verification/Prelude.thy ===== *)
theory Prelude
  imports Main "HOL-Library.Word"
begin

text \<open>
  Shared vocabulary of the development: the machine types of the Rust code, byte strings and
  their big-endian integers (\<open>to_be_bytes\<close> and \<open>from_be_bytes\<close> of the standard library), the
  early-return operator \<open>?\<close> on results, the parts of the standard library that several
  components use (\<open>strip_prefix\<close>, \<open>partition_point\<close>, casts to \<open>i64\<close>), and the generic
  lemmas about lists and words that the component proofs share.

  A \<open>Result<T, E>\<close> of the source is a value of \<open>'e + 'a\<close>, with \<open>Inl\<close> for \<open>Err\<close> and
  \<open>Inr\<close> for \<open>Ok\<close>.
\<close>

named_theorems wire_defs \<open>definitions of the byte layouts\<close>
named_theorems invar_intros \<open>preservation of component invariants\<close>

type_synonym u8 = "8 word"
type_synonym u32 = "32 word"
type_synonym u64 = "64 word"
type_synonym bytes = "8 word list"

section \<open>Results\<close>

text \<open>The question-mark operator: the first error is returned, a value is passed on.\<close>

fun try_res :: "'e + 'a \<Rightarrow> ('a \<Rightarrow> 'e + 'b) \<Rightarrow> 'e + 'b" where
  "try_res (Inl e) f = Inl e"
| "try_res (Inr a) f = f a"

lemma try_res_Inr_iff: "try_res r f = Inr b \<longleftrightarrow> (\<exists>a. r = Inr a \<and> f a = Inr b)"
  by (cases r) auto

lemma try_res_Inl_iff:
  "try_res r f = Inl e \<longleftrightarrow> r = Inl e \<or> (\<exists>a. r = Inr a \<and> f a = Inl e)"
  by (cases r) auto

definition is_ok :: "'e + 'a \<Rightarrow> bool" where
  "is_ok r = (case r of Inl _ \<Rightarrow> False | Inr _ \<Rightarrow> True)"

lemma is_ok_simps [simp]: "is_ok (Inr a)" "\<not> is_ok (Inl e)"
  by (simp_all add: is_ok_def)

section \<open>Big-endian integers\<close>

text \<open>
  The \<open>n\<close> bytes of a number, most significant first, and the number a byte string denotes.
\<close>

fun be_enc :: "nat \<Rightarrow> nat \<Rightarrow> bytes" where
  "be_enc 0 v = []"
| "be_enc (Suc n) v = be_enc n (v div 256) @ [word_of_nat v]"

definition be_dec :: "bytes \<Rightarrow> nat" where
  "be_dec bs = foldl (\<lambda>acc b. acc * 256 + unat b) 0 bs"

lemma length_be_enc [simp]: "length (be_enc n v) = n"
  by (induction n arbitrary: v) auto

lemma be_dec_Nil [simp]: "be_dec [] = 0"
  by (simp add: be_dec_def)

lemma be_dec_snoc [simp]: "be_dec (bs @ [b]) = be_dec bs * 256 + unat b"
  by (simp add: be_dec_def)

lemma unat_u8_bound: "unat (b :: u8) < 256"
  using unsigned_less[of b, where ?'a = nat] by simp

lemma be_dec_bound: "be_dec bs < 256 ^ length bs"
proof (induction bs rule: rev_induct)
  case (snoc b bs)
  have "be_dec bs * 256 + unat b < be_dec bs * 256 + 256"
    using unat_u8_bound[of b] by simp
  also have "\<dots> = (be_dec bs + 1) * 256" by simp
  also have "\<dots> \<le> 256 ^ length bs * 256" using snoc by (intro mult_right_mono) simp_all
  finally show ?case by simp
qed simp

lemma unat_byte_of_nat: "unat (word_of_nat v :: u8) = v mod 256"
  by (simp add: unat_of_nat)

lemma be_dec_enc: "be_dec (be_enc n v) = v mod 256 ^ n"
proof (induction n arbitrary: v)
  case (Suc n)
  have "be_dec (be_enc (Suc n) v) = (v div 256 mod 256 ^ n) * 256 + v mod 256"
    by (simp add: Suc unat_byte_of_nat)
  also have "\<dots> = v mod (256 * 256 ^ n)"
    by (subst mod_mult2_eq) (simp add: mult.commute)
  finally show ?case by simp
qed simp

lemma be_enc_dec: "be_enc (length bs) (be_dec bs) = bs"
proof (induction bs rule: rev_induct)
  case (snoc b bs)
  have "(be_dec bs * 256 + unat b) div 256 = be_dec bs"
    using unat_u8_bound[of b] by simp
  moreover have "word_of_nat (be_dec bs * 256 + unat b) = b"
    by (simp only: word_unat_eq_iff unat_byte_of_nat) (use unat_u8_bound[of b] in simp)
  ultimately show ?case using snoc by simp
qed simp

text \<open>\<open>u32::to_be_bytes\<close>, \<open>u32::from_be_bytes\<close> and the same of \<open>u64\<close>.\<close>

definition be32 :: "u32 \<Rightarrow> bytes" where
  "be32 w = be_enc 4 (unat w)"

definition from_be32 :: "bytes \<Rightarrow> u32" where
  "from_be32 bs = word_of_nat (be_dec bs)"

definition be64 :: "u64 \<Rightarrow> bytes" where
  "be64 w = be_enc 8 (unat w)"

definition from_be64 :: "bytes \<Rightarrow> u64" where
  "from_be64 bs = word_of_nat (be_dec bs)"

lemma length_be32 [simp]: "length (be32 w) = 4"
  by (simp add: be32_def)

lemma length_be64 [simp]: "length (be64 w) = 8"
  by (simp add: be64_def)

lemma from_be32_be32 [simp]: "from_be32 (be32 w) = w"
proof -
  have "unat w mod 256 ^ 4 = unat w" using unsigned_less[of w, where ?'a = nat] by simp
  then show ?thesis by (simp add: from_be32_def be32_def be_dec_enc)
qed

lemma from_be64_be64 [simp]: "from_be64 (be64 w) = w"
proof -
  have "unat w mod 256 ^ 8 = unat w" using unsigned_less[of w, where ?'a = nat] by simp
  then show ?thesis by (simp add: from_be64_def be64_def be_dec_enc)
qed

lemma be32_from_be32: "length bs = 4 \<Longrightarrow> be32 (from_be32 bs) = bs"
  using be_dec_bound[of bs] be_enc_dec[of bs]
  by (simp add: be32_def from_be32_def unat_of_nat)

lemma be64_from_be64: "length bs = 8 \<Longrightarrow> be64 (from_be64 bs) = bs"
  using be_dec_bound[of bs] be_enc_dec[of bs]
  by (simp add: be64_def from_be64_def unat_of_nat)

section \<open>Slices of byte arrays\<close>

text \<open>\<open>buf[i..j]\<close>, for indices within the array.\<close>

definition slice :: "nat \<Rightarrow> nat \<Rightarrow> 'a list \<Rightarrow> 'a list" where
  "slice i j xs = take (j - i) (drop i xs)"

lemma slice_append_left: "j \<le> length xs \<Longrightarrow> slice i j (xs @ ys) = slice i j xs"
proof -
  assume j: "j \<le> length xs"
  show ?thesis
  proof (cases "i \<le> length xs")
    case True
    with j show ?thesis by (simp add: slice_def)
  next
    case False
    with j show ?thesis by (simp add: slice_def)
  qed
qed

lemma slice_append_right:
  "length xs \<le> i \<Longrightarrow> slice i j (xs @ ys) = slice (i - length xs) (j - length xs) ys"
  by (simp add: slice_def)

lemma slice_whole: "slice 0 (length xs) xs = xs"
  by (simp add: slice_def)

lemma slice_all: "length xs = n \<Longrightarrow> slice 0 n xs = xs"
  by (simp add: slice_def)

lemma length_slice [simp]: "j \<le> length xs \<Longrightarrow> length (slice i j xs) = j - i"
  by (simp add: slice_def)

lemma slice_0: "slice 0 n xs = take n xs"
  by (simp add: slice_def)

lemmas slice_layout = slice_append_left slice_append_right slice_all

section \<open>Casts and saturating arithmetic\<close>

text \<open>\<open>n as u32\<close> for a \<open>usize\<close>, and \<open>n as i64\<close> for an unsigned integer.\<close>

definition as_u32 :: "nat \<Rightarrow> u32" where
  "as_u32 n = word_of_nat n"

lemma unat_as_u32: "n < 2 ^ 32 \<Longrightarrow> unat (as_u32 n) = n"
  by (simp add: as_u32_def unat_of_nat)

definition as_i64 :: "nat \<Rightarrow> int" where
  "as_i64 n = (let m = int n mod 2 ^ 64 in if m < 2 ^ 63 then m else m - 2 ^ 64)"

lemma as_i64_small [simp]: "n < 2 ^ 63 \<Longrightarrow> as_i64 n = int n"
  by (simp add: as_i64_def)

section \<open>Conversions between widths\<close>

lemma ucast_u32_u64 [simp]: "ucast (ucast (w :: u32) :: u64) = w"
  by (rule ucast_up_ucast_id) (simp add: is_up)

lemma unat_ucast_u64 [simp]: "unat (ucast (w :: u32) :: u64) = unat w"
  by (simp add: unsigned_ucast_eq take_bit_nat_eq_self unsigned_less order_less_le_trans[OF unsigned_less])

lemma ucast_u64_small: "unat (w :: u64) < 2 ^ 32 \<Longrightarrow> ucast (ucast w :: u32) = w"
  by (simp add: word_unat_eq_iff unsigned_ucast_eq take_bit_nat_eq_self unsigned_take_bit_eq)

lemma ucast_u64_inject [simp]: "(ucast (v :: u32) :: u64) = ucast w \<longleftrightarrow> v = w"
  by (metis ucast_u32_u64)

section \<open>Order on words\<close>

lemma unat_word_of_nat: "n < 2 ^ LENGTH('a) \<Longrightarrow> unat (word_of_nat n :: 'a::len word) = n"
  by (simp add: unat_of_nat)

lemma unat_word_of_nat_add:
  assumes "n + unat d < 2 ^ LENGTH('a)"
  shows "unat (word_of_nat n + d :: 'a::len word) = n + unat d"
proof -
  have "word_of_nat n + d = (word_of_nat (n + unat d) :: 'a word)" by simp
  then show ?thesis using unat_word_of_nat[OF assms] by (simp only:)
qed

lemma Suc_unat_word: "1 + (w :: 'a::len word) \<noteq> 0 \<Longrightarrow> unat (w + 1) = Suc (unat w)"
  using unatSuc[of w] by (simp add: add.commute)

lemma succ_word_neq_0: "(w :: 'a::len word) < v \<Longrightarrow> 1 + w \<noteq> 0"
proof
  assume "w < v" and "1 + w = 0"
  then have "w = - 1" by (simp add: eq_neg_iff_add_eq_0 add.commute)
  with \<open>w < v\<close> show False using max_word_max[of v] by simp
qed

lemma unat_Suc_word: "(w :: 'a::len word) < v \<Longrightarrow> unat (w + 1) = Suc (unat w)"
  by (rule Suc_unat_word) (rule succ_word_neq_0)

section \<open>Prefixes of lists\<close>

text \<open>\<open>str::strip_prefix\<close> and \<open>str::strip_suffix\<close>.\<close>

fun strip_prefix :: "'a list \<Rightarrow> 'a list \<Rightarrow> 'a list option" where
  "strip_prefix [] xs = Some xs"
| "strip_prefix (p # ps) [] = None"
| "strip_prefix (p # ps) (x # xs) = (if p = x then strip_prefix ps xs else None)"

lemma strip_prefix_Some_iff: "strip_prefix p xs = Some ys \<longleftrightarrow> xs = p @ ys"
  by (induction p xs rule: strip_prefix.induct) auto

lemma strip_prefix_append [simp]: "strip_prefix p (p @ ys) = Some ys"
  by (simp add: strip_prefix_Some_iff)

definition strip_suffix :: "'a list \<Rightarrow> 'a list \<Rightarrow> 'a list option" where
  "strip_suffix s xs = map_option rev (strip_prefix (rev s) (rev xs))"

lemma strip_suffix_Some_iff: "strip_suffix s xs = Some ys \<longleftrightarrow> xs = ys @ s"
proof -
  have "strip_suffix s xs = Some ys \<longleftrightarrow> strip_prefix (rev s) (rev xs) = Some (rev ys)"
    by (cases "strip_prefix (rev s) (rev xs)") (auto simp: strip_suffix_def rev_swap)
  also have "\<dots> \<longleftrightarrow> rev xs = rev (ys @ s)" by (simp add: strip_prefix_Some_iff)
  finally show ?thesis by (simp only: rev_is_rev_conv)
qed

section \<open>The partition point of a sequence\<close>

text \<open>
  \<open>partition_point\<close> of the standard library: a binary search for the first element for which
  the predicate fails. On a sequence partitioned by the predicate it is the length of the
  longest prefix satisfying it.
\<close>

function ppoint :: "('a \<Rightarrow> bool) \<Rightarrow> 'a list \<Rightarrow> nat \<Rightarrow> nat \<Rightarrow> nat" where
  "ppoint p xs lo hi =
     (if lo < hi then
        (let mid = lo + (hi - lo) div 2
         in if p (xs ! mid) then ppoint p xs (mid + 1) hi else ppoint p xs lo mid)
      else lo)"
  by pat_completeness auto
termination
  by (relation "measure (\<lambda>(p, xs, lo, hi). hi - lo)") auto

declare ppoint.simps [simp del]

definition partition_point :: "('a \<Rightarrow> bool) \<Rightarrow> 'a list \<Rightarrow> nat" where
  "partition_point p xs = ppoint p xs 0 (length xs)"

lemma ppoint_correct:
  assumes "lo \<le> k" "k \<le> hi"
    and "\<And>i. i < k \<Longrightarrow> p (xs ! i)" and "\<And>i. k \<le> i \<Longrightarrow> i < hi \<Longrightarrow> \<not> p (xs ! i)"
  shows "ppoint p xs lo hi = k"
  using assms
proof (induction p xs lo hi rule: ppoint.induct)
  case (1 p xs lo hi)
  show ?case
  proof (cases "lo < hi")
    case False
    with 1(3,4) show ?thesis by (simp add: ppoint.simps[of p xs lo hi])
  next
    case True
    define mid where "mid = lo + (hi - lo) div 2"
    have bounds: "lo \<le> mid" "mid < hi" using True by (auto simp: mid_def)
    show ?thesis
    proof (cases "p (xs ! mid)")
      case True
      with 1(6)[of mid] bounds have "mid < k" by (metis not_less)
      with 1 True bounds \<open>lo < hi\<close> have "ppoint p xs (mid + 1) hi = k"
        by (simp add: mid_def)
      with True \<open>lo < hi\<close> show ?thesis
        by (simp add: ppoint.simps[of p xs lo hi] mid_def Let_def)
    next
      case False
      with 1(5)[of mid] have "k \<le> mid" by (metis not_less)
      with 1 False bounds \<open>lo < hi\<close> have "ppoint p xs lo mid = k"
        by (simp add: mid_def)
      with False \<open>lo < hi\<close> show ?thesis
        by (simp add: ppoint.simps[of p xs lo hi] mid_def Let_def)
    qed
  qed
qed

lemma partition_point_takeWhile:
  assumes "\<And>i j. i \<le> j \<Longrightarrow> j < length xs \<Longrightarrow> p (xs ! j) \<Longrightarrow> p (xs ! i)"
  shows "partition_point p xs = length (takeWhile p xs)"
  unfolding partition_point_def
proof (rule ppoint_correct)
  show "length (takeWhile p xs) \<le> length xs" by (rule length_takeWhile_le)
next
  fix i assume "i < length (takeWhile p xs)"
  then show "p (xs ! i)" by (metis nth_mem set_takeWhileD takeWhile_nth)
next
  fix i assume i: "length (takeWhile p xs) \<le> i" "i < length xs"
  then have "\<not> p (xs ! length (takeWhile p xs))"
    by (meson le_less_trans nth_length_takeWhile)
  with assms[OF i] show "\<not> p (xs ! i)" by blast
qed simp

lemma drop_length_takeWhile: "drop (length (takeWhile p xs)) xs = dropWhile p xs"
  by (metis dropWhile_eq_drop)

end
