(* ===== verification/Errors.thy ===== *)
theory Errors
  imports Prelude
begin

text \<open>
  \<open>src/src/error.rs\<close>: the errors of the runtime, one constructor per variant of the enum
  \<open>Error\<close>, and the texts its \<open>Display\<close> gives. An I/O error is represented by its
  \<open>ErrorKind\<close>; the text of an I/O error belongs to the standard library and is a parameter of
  the display function.
\<close>

datatype io_kind =
    ConnectionRefused | ConnectionReset | ConnectionAborted | UnexpectedEof
  | InvalidInput | Unsupported | BrokenPipe | OtherIo string

datatype am_error =
    Io io_kind
  | Codec string
  | FrameTooLarge nat
  | UnsupportedFrameVersion u8
  | UnsupportedCodec u8
  | NoCommonCodec
  | TooManyCodecs nat
  | BadHandshakeMagic
  | UnknownMessage string
  | CompactFieldCount nat nat
  | InvalidMessage string
  | ConnectTimeout "am_error option"
  | RecvTimeout
  | TypeMismatch string string
  | Closed
  | Remote string string
  | HandlerTaskBusy
  | ConcurrentRecv
  | UnsupportedTransport string
  | ResumeRejected string

section \<open>Decimal numbers\<close>

text \<open>\<open>Display\<close> of the unsigned integers.\<close>

definition digit_char :: "nat \<Rightarrow> char" where
  "digit_char d = char_of (48 + d)"

fun show_nat :: "nat \<Rightarrow> string" where
  "show_nat n = (if n < 10 then [digit_char n] else show_nat (n div 10) @ [digit_char (n mod 10)])"

declare show_nat.simps [simp del]

definition char_digit :: "char \<Rightarrow> nat" where
  "char_digit c = of_char c - 48"

definition read_nat :: "string \<Rightarrow> nat" where
  "read_nat s = foldl (\<lambda>acc c. acc * 10 + char_digit c) 0 s"

lemma char_digit_digit_char: "d < 10 \<Longrightarrow> char_digit (digit_char d) = d"
  by (simp add: char_digit_def digit_char_def)

lemma read_nat_show_nat: "read_nat (show_nat n) = n"
proof (induction n rule: show_nat.induct)
  case (1 n)
  show ?case
  proof (cases "n < 10")
    case True
    then show ?thesis
      by (simp add: show_nat.simps[of n] read_nat_def char_digit_digit_char)
  next
    case False
    with 1 have "read_nat (show_nat (n div 10)) = n div 10" by simp
    with False show ?thesis
      by (simp add: show_nat.simps[of n] read_nat_def char_digit_digit_char)
  qed
qed

lemma show_nat_inject: "show_nat m = show_nat n \<Longrightarrow> m = n"
  by (metis read_nat_show_nat)

section \<open>Display\<close>

text \<open>
  The \<open>#[error(...)]\<close> texts; \<open>cause_suffix\<close> shows the last failed dial of a connect timeout.
\<close>

fun error_display :: "(io_kind \<Rightarrow> string) \<Rightarrow> am_error \<Rightarrow> string" where
  "error_display io (Io k) = ''io error: '' @ io k"
| "error_display io (Codec s) = ''codec error: '' @ s"
| "error_display io (FrameTooLarge n) = ''frame too large: '' @ show_nat n"
| "error_display io (UnsupportedFrameVersion v) = ''unsupported frame version: '' @ show_nat (unat v)"
| "error_display io (UnsupportedCodec c) = ''unsupported codec: '' @ show_nat (unat c)"
| "error_display io NoCommonCodec = ''no common codec''"
| "error_display io (TooManyCodecs n) = ''too many codecs: '' @ show_nat n"
| "error_display io BadHandshakeMagic = ''invalid handshake magic''"
| "error_display io (UnknownMessage s) = ''unknown message type: '' @ s"
| "error_display io (CompactFieldCount e g) =
     ''compact field count mismatch: expected '' @ show_nat e @ '', got '' @ show_nat g"
| "error_display io (InvalidMessage s) = ''invalid message: '' @ s"
| "error_display io (ConnectTimeout None) = ''connect timeout''"
| "error_display io (ConnectTimeout (Some e)) = ''connect timeout: '' @ error_display io e"
| "error_display io RecvTimeout = ''recv timeout''"
| "error_display io (TypeMismatch e g) =
     ''message type mismatch: expected '' @ e @ '', got '' @ g"
| "error_display io Closed = ''connection closed''"
| "error_display io (Remote c m) = ''remote error: '' @ c @ '': '' @ m"
| "error_display io HandlerTaskBusy = ''only one handler task allowed per stream''"
| "error_display io ConcurrentRecv = ''concurrent recv on stream''"
| "error_display io (UnsupportedTransport s) = ''unsupported transport: '' @ s"
| "error_display io (ResumeRejected s) = ''resume rejected: '' @ s"

lemma error_display_nonempty: "error_display io e \<noteq> []"
  by (cases "(io, e)" rule: error_display.cases) auto

end
