(* ===== verification/CodecRegistry.thy ===== *)
theory CodecRegistry
  imports Errors
begin

text \<open>
  \<open>src/src/codec_registry.rs\<close> with the registration calls of \<open>codec_msgpack.rs\<close> and
  \<open>codec_postcard.rs\<close>: the process-wide table of codecs, filled with the built-in ones on first
  use. A codec is its ID and its name; what the codecs do with messages is in \<open>Messages\<close>.
\<close>

type_synonym codec_id = u8

record codec_impl =
  ci_id :: codec_id
  ci_name :: string

record codec_registry =
  reg_codecs :: "codec_id \<rightharpoonup> codec_impl"
  reg_builtin :: bool

definition CodecMsgpackCompact :: codec_id where "CodecMsgpackCompact = 1"
definition CodecMsgpackMap :: codec_id where "CodecMsgpackMap = 2"
definition CodecPostcard :: codec_id where "CodecPostcard = 64"

lemmas codec_id_defs = CodecMsgpackCompact_def CodecMsgpackMap_def CodecPostcard_def

definition msgpack_map_codec :: codec_impl where
  "msgpack_map_codec = \<lparr>ci_id = CodecMsgpackMap, ci_name = ''map''\<rparr>"

definition msgpack_compact_codec :: codec_impl where
  "msgpack_compact_codec = \<lparr>ci_id = CodecMsgpackCompact, ci_name = ''compact''\<rparr>"

definition postcard_codec :: codec_impl where
  "postcard_codec = \<lparr>ci_id = CodecPostcard, ci_name = ''postcard''\<rparr>"

lemmas builtin_codec_defs = msgpack_map_codec_def msgpack_compact_codec_def postcard_codec_def

definition register_codec :: "codec_impl \<Rightarrow> codec_registry \<Rightarrow> am_error + codec_registry" where
  "register_codec c reg =
     (if ci_id c = 0 then Inl (InvalidMessage ''codec ID must be non-zero'')
      else if ci_name c = [] then Inl (InvalidMessage ''codec name must be non-empty'')
      else if reg_codecs reg (ci_id c) \<noteq> None then Inl (InvalidMessage ''codec already registered'')
      else Inr (reg\<lparr>reg_codecs := (reg_codecs reg)(ci_id c \<mapsto> c)\<rparr>))"

text \<open>
  A module's \<open>register_builtin_codecs\<close> stops at the first registration that fails; the codecs
  registered before it stay, and the error is dropped by the caller.
\<close>

fun register_in_order :: "codec_impl list \<Rightarrow> codec_registry \<Rightarrow> codec_registry" where
  "register_in_order [] reg = reg"
| "register_in_order (c # cs) reg =
     (case register_codec c reg of Inl _ \<Rightarrow> reg | Inr reg' \<Rightarrow> register_in_order cs reg')"

definition register_msgpack_codecs :: "codec_registry \<Rightarrow> codec_registry" where
  "register_msgpack_codecs = register_in_order [msgpack_map_codec, msgpack_compact_codec]"

definition register_postcard_codecs :: "codec_registry \<Rightarrow> codec_registry" where
  "register_postcard_codecs = register_in_order [postcard_codec]"

definition ensure_builtin_codecs :: "codec_registry \<Rightarrow> codec_registry" where
  "ensure_builtin_codecs reg =
     (if reg_builtin reg then reg
      else (register_postcard_codecs (register_msgpack_codecs reg))\<lparr>reg_builtin := True\<rparr>)"

definition codec_by_id :: "codec_id \<Rightarrow> codec_registry \<Rightarrow> codec_impl option \<times> codec_registry" where
  "codec_by_id i reg = (let reg' = ensure_builtin_codecs reg in (reg_codecs reg' i, reg'))"

definition new_codec_registry :: codec_registry where
  "new_codec_registry = \<lparr>reg_codecs = (\<lambda>_. None), reg_builtin = False\<rparr>"

definition codec_known :: "codec_registry \<Rightarrow> codec_id \<Rightarrow> bool" where
  "codec_known reg i = (fst (codec_by_id i reg) \<noteq> None)"

text \<open>\<open>CodecID::name\<close>.\<close>

definition codec_name :: "codec_registry \<Rightarrow> codec_id \<Rightarrow> string" where
  "codec_name reg i = (case fst (codec_by_id i reg) of Some c \<Rightarrow> ci_name c | None \<Rightarrow> ''unknown'')"

text \<open>Every entry is stored under its own non-zero ID and has a name.\<close>

definition registry_ok :: "codec_registry \<Rightarrow> bool" where
  "registry_ok reg \<longleftrightarrow>
     (\<forall>i c. reg_codecs reg i = Some c \<longrightarrow> ci_id c = i \<and> i \<noteq> 0 \<and> ci_name c \<noteq> [])"

lemma registry_ok_new [invar_intros]: "registry_ok new_codec_registry"
  by (simp add: registry_ok_def new_codec_registry_def)

lemma register_codec_ok [invar_intros]:
  "registry_ok reg \<Longrightarrow> register_codec c reg = Inr reg' \<Longrightarrow> registry_ok reg'"
  by (fastforce simp: registry_ok_def register_codec_def split: if_splits)

lemma registry_ok_builtin [simp]: "registry_ok (reg\<lparr>reg_builtin := b\<rparr>) = registry_ok reg"
  by (simp add: registry_ok_def)

lemma register_codec_keeps:
  "register_codec c reg = Inr reg' \<Longrightarrow> reg_codecs reg \<subseteq>\<^sub>m reg_codecs reg'"
  by (auto simp: register_codec_def map_le_def split: if_splits)

lemma register_in_order_ok: "registry_ok reg \<Longrightarrow> registry_ok (register_in_order cs reg)"
  by (induction cs arbitrary: reg) (auto split: sum.splits intro: register_codec_ok)

lemma register_in_order_keeps: "reg_codecs reg \<subseteq>\<^sub>m reg_codecs (register_in_order cs reg)"
  by (induction cs arbitrary: reg)
    (auto split: sum.splits dest: register_codec_keeps intro: map_le_trans)

lemma ensure_builtin_ok [invar_intros]: "registry_ok reg \<Longrightarrow> registry_ok (ensure_builtin_codecs reg)"
  by (simp add: ensure_builtin_codecs_def register_msgpack_codecs_def register_postcard_codecs_def
      register_in_order_ok del: register_in_order.simps)

lemma ensure_builtin_idem [simp]:
  "ensure_builtin_codecs (ensure_builtin_codecs reg) = ensure_builtin_codecs reg"
  by (simp add: ensure_builtin_codecs_def)

lemma codec_by_id_stable [simp]: "codec_by_id i (snd (codec_by_id j reg)) = codec_by_id i reg"
  by (simp add: codec_by_id_def Let_def)

lemma builtin_codecs_known:
  "codec_known new_codec_registry i \<longleftrightarrow>
     i = CodecMsgpackCompact \<or> i = CodecMsgpackMap \<or> i = CodecPostcard"
  by (simp add: codec_known_def codec_by_id_def ensure_builtin_codecs_def new_codec_registry_def
      register_msgpack_codecs_def register_postcard_codecs_def register_codec_def
      builtin_codec_defs codec_id_defs)

lemma codec_known_nonzero: "registry_ok reg \<Longrightarrow> codec_known reg i \<Longrightarrow> i \<noteq> 0"
  using ensure_builtin_ok[of reg] by (auto simp: codec_known_def codec_by_id_def registry_ok_def Let_def)

end
