(* ===== verification/ByteIO.thy ===== *)
theory ByteIO
  imports Errors
begin

text \<open>
  The two halves of a transport as the code uses them (\<open>AsyncReadExt\<close>, \<open>AsyncWriteExt\<close>).

  The reader holds the bytes that will still arrive, cut into the chunks in which the transport
  delivers them, and how it ends: \<open>None\<close> for a close by the peer (end of file), \<open>Some k\<close> for an
  I/O error. \<open>read_some\<close> is \<open>read\<close>: at most \<open>n\<close> bytes of the first chunk, nothing only at
  the end of file. \<open>read_exact\<close> gathers exactly \<open>n\<close> bytes over as many chunks as it takes. The
  lemmas show that its result depends on the bytes only, not on the chunks.

  The writer holds the bytes accepted so far, the number of further bytes the transport accepts
  before it fails (if it does), and the error of the next flush (if any).
\<close>

record reader =
  rd_chunks :: "bytes list"
  rd_end :: "io_kind option"

definition rd_bytes :: "reader \<Rightarrow> bytes" where
  "rd_bytes r = concat (rd_chunks r)"

section \<open>Reading\<close>

fun read_some_chunks :: "nat \<Rightarrow> bytes list \<Rightarrow> bytes \<times> bytes list" where
  "read_some_chunks n [] = ([], [])"
| "read_some_chunks n (c # cs) =
     (if c = [] then read_some_chunks n cs
      else (take n c, if length c \<le> n then cs else drop n c # cs))"

definition read_some :: "nat \<Rightarrow> reader \<Rightarrow> am_error + (bytes \<times> reader)" where
  "read_some n r = (case read_some_chunks n (rd_chunks r) of
     (bs, cs) \<Rightarrow>
       (if bs = [] \<and> cs = [] then
          (case rd_end r of None \<Rightarrow> Inr ([], r\<lparr>rd_chunks := cs\<rparr>) | Some k \<Rightarrow> Inl (Io k))
        else Inr (bs, r\<lparr>rd_chunks := cs\<rparr>)))"

fun read_exact_chunks :: "nat \<Rightarrow> bytes list \<Rightarrow> (bytes \<times> bytes list) option" where
  "read_exact_chunks n [] = (if n = 0 then Some ([], []) else None)"
| "read_exact_chunks n (c # cs) =
     (if length c \<le> n
      then map_option (\<lambda>(bs, rest). (c @ bs, rest)) (read_exact_chunks (n - length c) cs)
      else Some (take n c, drop n c # cs))"

definition eof_error :: "reader \<Rightarrow> am_error" where
  "eof_error r = Io (case rd_end r of None \<Rightarrow> UnexpectedEof | Some k \<Rightarrow> k)"

definition read_exact :: "nat \<Rightarrow> reader \<Rightarrow> am_error + (bytes \<times> reader)" where
  "read_exact n r = (case read_exact_chunks n (rd_chunks r) of
     None \<Rightarrow> Inl (eof_error r)
   | Some (bs, cs) \<Rightarrow> Inr (bs, r\<lparr>rd_chunks := cs\<rparr>))"

lemma read_some_chunks_concat:
  "read_some_chunks n cs = (bs, cs') \<Longrightarrow> concat cs = bs @ concat cs'"
  by (induction cs arbitrary: bs cs') (auto split: if_splits)

lemma read_some_chunks_length: "read_some_chunks n cs = (bs, cs') \<Longrightarrow> length bs \<le> n"
  by (induction cs arbitrary: bs cs') (auto split: if_splits)

lemma read_some_chunks_empty:
  "0 < n \<Longrightarrow> read_some_chunks n cs = (bs, cs') \<Longrightarrow> bs = [] \<longleftrightarrow> concat cs = []"
  by (induction cs arbitrary: bs cs') (auto split: if_splits)

lemma read_some_chunks_Nil_rest:
  "0 < n \<Longrightarrow> read_some_chunks n cs = ([], cs') \<Longrightarrow> cs' = []"
  by (induction cs arbitrary: cs') (auto split: if_splits)

lemma read_exact_chunks_None: "read_exact_chunks n cs = None \<longleftrightarrow> length (concat cs) < n"
  by (induction n cs rule: read_exact_chunks.induct) auto

lemma read_exact_chunks_Some:
  "read_exact_chunks n cs = Some (bs, cs') \<Longrightarrow> concat cs = bs @ concat cs' \<and> length bs = n"
proof (induction n cs arbitrary: bs cs' rule: read_exact_chunks.induct)
  case (1 n)
  then show ?case by (simp split: if_splits)
next
  case (2 n c cs)
  show ?case
  proof (cases "length c \<le> n")
    case True
    with 2(2) obtain bs0 where e: "read_exact_chunks (n - length c) cs = Some (bs0, cs')" "bs = c @ bs0"
      by auto
    from 2(1)[OF True e(1)] e(2) True show ?thesis by simp
  next
    case False
    with 2(2) show ?thesis by auto
  qed
qed

text \<open>\<open>read_exact\<close> in terms of the bytes alone.\<close>

lemma read_exact_ok:
  assumes "n \<le> length (rd_bytes r)"
  shows "\<exists>r'. read_exact n r = Inr (take n (rd_bytes r), r') \<and>
           rd_bytes r' = drop n (rd_bytes r) \<and> rd_end r' = rd_end r"
proof -
  from assms obtain bs cs where e: "read_exact_chunks n (rd_chunks r) = Some (bs, cs)"
    using read_exact_chunks_None[of n "rd_chunks r"] by (fastforce simp: rd_bytes_def)
  from read_exact_chunks_Some[OF e]
  have "concat (rd_chunks r) = bs @ concat cs" "length bs = n" by simp_all
  with e show ?thesis by (auto simp: read_exact_def rd_bytes_def)
qed

lemma read_exact_eof:
  "length (rd_bytes r) < n \<Longrightarrow> read_exact n r = Inl (eof_error r)"
  by (simp add: read_exact_def rd_bytes_def read_exact_chunks_None[THEN iffD2])

lemma read_exact_Inr:
  assumes "read_exact n r = Inr (bs, r')"
  shows "rd_bytes r = bs @ rd_bytes r'" "length bs = n" "rd_end r' = rd_end r"
  using assms read_exact_chunks_Some[of n "rd_chunks r"]
  by (auto simp: read_exact_def rd_bytes_def split: option.splits)

lemma read_exact_append:
  assumes "rd_bytes r = bs @ rest" "length bs = n"
  obtains r' where "read_exact n r = Inr (bs, r')" "rd_bytes r' = rest" "rd_end r' = rd_end r"
  using read_exact_ok[of n r] assms by auto

lemma read_some_Inr_Nil:
  assumes "0 < n"
  shows "(\<exists>r'. read_some n r = Inr ([], r')) \<longleftrightarrow> rd_bytes r = [] \<and> rd_end r = None"
proof -
  obtain bs cs where e: "read_some_chunks n (rd_chunks r) = (bs, cs)" by fastforce
  show ?thesis
    using read_some_chunks_empty[OF assms e] read_some_chunks_Nil_rest[OF assms, of "rd_chunks r" cs] e
    by (auto simp: read_some_def rd_bytes_def split: option.splits)
qed

lemma read_some_Inr:
  assumes "read_some n r = Inr (bs, r')"
  shows "rd_bytes r = bs @ rd_bytes r'" "length bs \<le> n" "rd_end r' = rd_end r"
  using assms read_some_chunks_concat[of n "rd_chunks r"] read_some_chunks_length[of n "rd_chunks r"]
  by (auto simp: read_some_def rd_bytes_def split: prod.splits option.splits if_splits)

lemma read_some_available:
  assumes "0 < n" "rd_bytes r \<noteq> []"
  obtains bs r' where "read_some n r = Inr (bs, r')" "bs \<noteq> []"
proof -
  obtain bs cs where e: "read_some_chunks n (rd_chunks r) = (bs, cs)" by fastforce
  with read_some_chunks_empty[OF assms(1) e] assms(2) have "bs \<noteq> []"
    by (simp only: rd_bytes_def) blast
  with e have "read_some n r = Inr (bs, r\<lparr>rd_chunks := cs\<rparr>)" by (simp add: read_some_def)
  with \<open>bs \<noteq> []\<close> that show thesis by blast
qed

section \<open>Writing\<close>

record writer =
  wr_out :: bytes
  wr_room :: "(nat \<times> io_kind) option"
  wr_flush_error :: "io_kind option"
  wr_shut :: bool

definition write_all :: "bytes \<Rightarrow> writer \<Rightarrow> (am_error + unit) \<times> writer" where
  "write_all bs w = (case wr_room w of
     None \<Rightarrow> (Inr (), w\<lparr>wr_out := wr_out w @ bs\<rparr>)
   | Some (n, k) \<Rightarrow>
       (if length bs \<le> n
        then (Inr (), w\<lparr>wr_out := wr_out w @ bs, wr_room := Some (n - length bs, k)\<rparr>)
        else (Inl (Io k), w\<lparr>wr_out := wr_out w @ take n bs, wr_room := Some (0, k)\<rparr>)))"

definition flush :: "writer \<Rightarrow> am_error + unit" where
  "flush w = (case wr_flush_error w of None \<Rightarrow> Inr () | Some k \<Rightarrow> Inl (Io k))"

definition shutdown :: "writer \<Rightarrow> (am_error + unit) \<times> writer" where
  "shutdown w = (flush w, if is_ok (flush w) then w\<lparr>wr_shut := True\<rparr> else w)"

definition good_writer :: "writer \<Rightarrow> bool" where
  "good_writer w \<longleftrightarrow> wr_room w = None \<and> wr_flush_error w = None"

lemma write_all_ok: "write_all bs w = (Inr u, w') \<Longrightarrow> wr_out w' = wr_out w @ bs"
  by (auto simp: write_all_def split: option.splits if_splits)

lemma write_all_prefix:
  "write_all bs w = (res, w') \<Longrightarrow> \<exists>n. wr_out w' = wr_out w @ take n bs"
  by (auto simp: write_all_def split: option.splits if_splits) (metis append.right_neutral take0 take_all_iff nle_le)+

lemma write_all_good [simp]:
  "good_writer w \<Longrightarrow> write_all bs w = (Inr (), w\<lparr>wr_out := wr_out w @ bs\<rparr>)"
  by (simp add: write_all_def good_writer_def)

lemma flush_good [simp]: "good_writer w \<Longrightarrow> flush w = Inr ()"
  by (simp add: flush_def good_writer_def)

lemma good_writer_out [simp]: "good_writer (w\<lparr>wr_out := bs\<rparr>) = good_writer w"
  by (simp add: good_writer_def)

end
