(* ===== verification/Frame.thy ===== *)
theory Frame
  imports Errors
begin

unbundle bit_operations_syntax

text \<open>
  \<open>src/src/frame.rs\<close>: the frame header of protocol versions 2 and 3. \<open>build_header\<close> fills the
  18-byte array of the source (a version 2 header uses its first 10 bytes); \<open>parse_header\<close> reads
  a header slice, where indexing past its end would panic: that outcome is \<open>None\<close>.
\<close>

definition PROTOCOL_VERSION_V2 :: u8 where "PROTOCOL_VERSION_V2 = 2"
definition PROTOCOL_VERSION_V3 :: u8 where "PROTOCOL_VERSION_V3 = 3"
definition FRAME_HEADER_LEN_V2 :: nat where "FRAME_HEADER_LEN_V2 = 10"
definition FRAME_HEADER_LEN_V3 :: nat where "FRAME_HEADER_LEN_V3 = 18"
definition FRAME_FLAG_FIN :: u8 where "FRAME_FLAG_FIN = 1"
definition FRAME_FLAG_META :: u8 where "FRAME_FLAG_META = 2"
definition FRAME_FLAG_EXT :: u8 where "FRAME_FLAG_EXT = 128"
definition SUPPORTED_FRAME_FLAGS :: u8 where "SUPPORTED_FRAME_FLAGS = FRAME_FLAG_FIN"

lemmas version_defs = PROTOCOL_VERSION_V2_def PROTOCOL_VERSION_V3_def
lemmas header_len_defs = FRAME_HEADER_LEN_V2_def FRAME_HEADER_LEN_V3_def
lemmas flag_defs = FRAME_FLAG_FIN_def FRAME_FLAG_META_def FRAME_FLAG_EXT_def SUPPORTED_FRAME_FLAGS_def

definition build_header ::
  "u8 \<Rightarrow> u32 \<Rightarrow> u64 \<Rightarrow> u8 \<Rightarrow> nat \<Rightarrow> u32 \<Rightarrow> am_error + bytes" where
  "build_header version stream_id seq flags payload_len max_frame =
     (if 2 ^ 32 - 1 < payload_len then Inl (FrameTooLarge payload_len)
      else if max_frame < as_u32 payload_len then Inl (FrameTooLarge payload_len)
      else Inr ([version, flags] @ be32 stream_id @ be32 (as_u32 payload_len) @
                (if version = PROTOCOL_VERSION_V3 then be64 seq else replicate 8 0)))"

definition frame_header_len_for_version :: "u8 \<Rightarrow> am_error + nat" where
  "frame_header_len_for_version version =
     (if version = PROTOCOL_VERSION_V2 then Inr FRAME_HEADER_LEN_V2
      else if version = PROTOCOL_VERSION_V3 then Inr FRAME_HEADER_LEN_V3
      else Inl (UnsupportedFrameVersion version))"

definition parse_header ::
  "bytes \<Rightarrow> u8 \<Rightarrow> (am_error + (u32 \<times> u64 \<times> u8 \<times> nat)) option" where
  "parse_header header expected_version =
     (case header of
        [] \<Rightarrow> None
      | version # rest \<Rightarrow>
          if version \<noteq> expected_version then Some (Inl (UnsupportedFrameVersion version))
          else (case rest of
            [] \<Rightarrow> None
          | flags # _ \<Rightarrow>
              if flags AND NOT SUPPORTED_FRAME_FLAGS \<noteq> 0
              then Some (Inl (InvalidMessage ''unsupported frame flags''))
              else Some (try_res (frame_header_len_for_version version) (\<lambda>expected_len.
                if length header < expected_len
                then Inl (InvalidMessage ''invalid frame header length'')
                else
                  let stream_id = from_be32 (slice 2 6 header);
                      len = unat (from_be32 (slice 6 10 header));
                      seq = (if version = PROTOCOL_VERSION_V3
                             then from_be64 (slice 10 18 header) else 0)
                  in Inr (stream_id, seq, flags, len)))))"

section \<open>Building\<close>

lemma build_header_Inr:
  assumes "build_header v sid seq fl n mx = Inr h"
  shows "n < 2 ^ 32" "n \<le> unat mx"
    "h = [v, fl] @ be32 sid @ be32 (as_u32 n) @
         (if v = PROTOCOL_VERSION_V3 then be64 seq else replicate 8 0)"
proof -
  from assms show n: "n < 2 ^ 32" by (auto simp: build_header_def split: if_splits)
  from assms have "as_u32 n \<le> mx" by (auto simp: build_header_def split: if_splits)
  then show "n \<le> unat mx" using unat_as_u32[OF n] by (simp add: word_le_nat_alt)
  from assms show "h = [v, fl] @ be32 sid @ be32 (as_u32 n) @
         (if v = PROTOCOL_VERSION_V3 then be64 seq else replicate 8 0)"
    by (simp add: build_header_def split: if_splits)
qed

lemma unat_u32_bound: "unat (m :: u32) < 2 ^ 32"
  using unsigned_less[of m, where ?'a = nat] by simp

lemma build_header_ok_iff: "is_ok (build_header v sid seq fl n mx) \<longleftrightarrow> n \<le> unat mx"
proof
  assume "is_ok (build_header v sid seq fl n mx)"
  then show "n \<le> unat mx"
    by (cases "build_header v sid seq fl n mx") (auto dest: build_header_Inr)
next
  assume n: "n \<le> unat mx"
  with unat_u32_bound[of mx] have n32: "n < 2 ^ 32" by simp
  then have "as_u32 n \<le> mx" using n by (simp add: word_le_nat_alt unat_as_u32)
  with n32 show "is_ok (build_header v sid seq fl n mx)" by (simp add: build_header_def not_less)
qed

lemma build_header_error:
  "build_header v sid seq fl n mx = Inl e \<longleftrightarrow> e = FrameTooLarge n \<and> unat mx < n"
  using build_header_ok_iff[of v sid seq fl n mx]
  by (auto simp: build_header_def split: if_splits)

lemma length_build_header: "build_header v sid seq fl n mx = Inr h \<Longrightarrow> length h = 18"
  by (drule build_header_Inr(3)) simp

section \<open>Parsing\<close>

lemma parse_header_no_panic: "2 \<le> length h \<Longrightarrow> parse_header h v \<noteq> None"
  by (cases h) (auto simp: parse_header_def split: list.splits)

text \<open>A header of at least the version's length reads back the fields it was laid out with.\<close>

lemma parse_layout_v2:
  assumes "fl AND NOT SUPPORTED_FRAME_FLAGS = 0" "n < 2 ^ 32"
  shows "parse_header ([PROTOCOL_VERSION_V2, fl] @ be32 sid @ be32 (as_u32 n) @ rest)
           PROTOCOL_VERSION_V2 = Some (Inr (sid, 0, fl, n))"
  using assms
  by (simp add: parse_header_def frame_header_len_for_version_def header_len_defs version_defs
        slice_def unat_as_u32)

lemma parse_layout_v3:
  assumes "fl AND NOT SUPPORTED_FRAME_FLAGS = 0" "n < 2 ^ 32"
  shows "parse_header ([PROTOCOL_VERSION_V3, fl] @ be32 sid @ be32 (as_u32 n) @ be64 seq @ rest)
           PROTOCOL_VERSION_V3 = Some (Inr (sid, seq, fl, n))"
  using assms
  by (simp add: parse_header_def frame_header_len_for_version_def header_len_defs version_defs
        slice_def unat_as_u32)

lemma parse_header_accepts:
  assumes "parse_header h v = Some (Inr (sid, seq, fl, n))"
  shows "hd h = v" "fl AND NOT SUPPORTED_FRAME_FLAGS = 0" "n < 2 ^ 32"
    "v = PROTOCOL_VERSION_V2 \<and> seq = 0 \<or> v = PROTOCOL_VERSION_V3"
  using assms unat_u32_bound
  by (auto simp: parse_header_def frame_header_len_for_version_def try_res_Inr_iff Let_def
      version_defs split: list.splits if_splits)

end
