(* ===== verification/Handshake.thy ===== *)
theory Handshake
  imports CodecRegistry ByteIO Frame
begin

text \<open>
  \<open>src/src/protocol.rs\<close>: the version and codec handshake. Both sides are functions of the bytes
  the peer sends and of the writer: a result and the writer after everything that was written,
  replies written on error paths included. The codec table is a parameter, as the code's is a
  process-wide static.
\<close>

definition HANDSHAKE_HEADER_LEN :: nat where "HANDSHAKE_HEADER_LEN = 12"
definition MAX_CODEC_COUNT :: nat where "MAX_CODEC_COUNT = 16"
definition DEFAULT_MAX_FRAME :: u32 where "DEFAULT_MAX_FRAME = 16777216"
definition HANDSHAKE_MAGIC :: bytes where "HANDSHAKE_MAGIC = [65, 77]"

record handshake_config =
  hc_version :: u8
  hc_codec_id :: codec_id
  hc_max_frame :: u32

section \<open>The pure helpers\<close>

definition is_supported_protocol_version :: "u8 \<Rightarrow> bool" where
  "is_supported_protocol_version v \<longleftrightarrow> v = PROTOCOL_VERSION_V2 \<or> v = PROTOCOL_VERSION_V3"

definition supported_protocol_version :: "bool \<Rightarrow> u8" where
  "supported_protocol_version recovery_enabled =
     (if recovery_enabled then PROTOCOL_VERSION_V3 else PROTOCOL_VERSION_V2)"

fun validate_codec_ids :: "codec_registry \<Rightarrow> codec_id list \<Rightarrow> am_error + unit" where
  "validate_codec_ids reg [] = Inr ()"
| "validate_codec_ids reg (c # cs) =
     (if c = 0 then Inl (InvalidMessage ''codec ID must be non-zero'')
      else if \<not> codec_known reg c then Inl (UnsupportedCodec c)
      else validate_codec_ids reg cs)"

definition validate_codec_list :: "codec_registry \<Rightarrow> codec_id list \<Rightarrow> am_error + unit" where
  "validate_codec_list reg codecs =
     (if codecs = [] then Inl (InvalidMessage ''codec list must be non-empty'')
      else if MAX_CODEC_COUNT < length codecs then Inl (TooManyCodecs (length codecs))
      else validate_codec_ids reg codecs)"

definition negotiate_max_frame :: "u32 \<Rightarrow> u32 \<Rightarrow> u32" where
  "negotiate_max_frame client_max server_max =
     (if client_max = 0 then 0
      else if client_max < server_max then client_max else server_max)"

definition contains_codec :: "codec_id list \<Rightarrow> codec_id \<Rightarrow> bool" where
  "contains_codec codecs i = list_ex (\<lambda>c. c = i) codecs"

fun select_supported :: "u8 \<Rightarrow> codec_id list \<Rightarrow> codec_id option" where
  "select_supported raw [] = None"
| "select_supported raw (s # ss) = (if raw = s then Some s else select_supported raw ss)"

fun select_codec :: "bytes \<Rightarrow> codec_id list \<Rightarrow> codec_id option" where
  "select_codec [] supported = None"
| "select_codec (raw # rest) supported =
     (case select_supported raw supported of Some s \<Rightarrow> Some s | None \<Rightarrow> select_codec rest supported)"

section \<open>The two sides\<close>

definition handshake_reply :: "u8 \<Rightarrow> u8 \<Rightarrow> codec_id \<Rightarrow> u32 \<Rightarrow> bytes" where
  [wire_defs]: "handshake_reply accept version codec max_frame =
     HANDSHAKE_MAGIC @ [accept, version, codec, 0, 0, 0] @ be32 max_frame"

definition write_handshake_reply ::
  "u8 \<Rightarrow> u8 \<Rightarrow> codec_id \<Rightarrow> u32 \<Rightarrow> writer \<Rightarrow> (am_error + unit) \<times> writer" where
  "write_handshake_reply accept version codec max_frame w =
     (case write_all (handshake_reply accept version codec max_frame) w of
        (Inl e, w') \<Rightarrow> (Inl e, w')
      | (Inr _, w') \<Rightarrow> (flush w', w'))"

definition handshake_request :: "codec_id list \<Rightarrow> u32 \<Rightarrow> u8 \<Rightarrow> bytes" where
  [wire_defs]: "handshake_request codecs max_frame version =
     HANDSHAKE_MAGIC @ [version, word_of_nat (length codecs), 0, 0, 0, 0] @ be32 max_frame"

definition handshake_client_reply ::
  "codec_registry \<Rightarrow> codec_id list \<Rightarrow> u8 \<Rightarrow> reader \<Rightarrow> am_error + (handshake_config \<times> reader)" where
  "handshake_client_reply reg codecs requested r =
     try_res (read_exact HANDSHAKE_HEADER_LEN r) (\<lambda>(response, r').
       if slice 0 2 response \<noteq> HANDSHAKE_MAGIC then Inl BadHandshakeMagic
       else
         let accept = response ! 2; version = response ! 3; selected = response ! 4;
             server_max = from_be32 (slice 8 12 response)
         in if version \<noteq> requested then Inl (UnsupportedFrameVersion version)
            else if accept = 0 then Inl NoCommonCodec
            else if \<not> contains_codec codecs selected then Inl NoCommonCodec
            else if \<not> codec_known reg selected then Inl (UnsupportedCodec selected)
            else Inr (\<lparr>hc_version = version, hc_codec_id = selected, hc_max_frame = server_max\<rparr>, r'))"

definition handshake_client ::
  "codec_registry \<Rightarrow> codec_id list \<Rightarrow> u32 \<Rightarrow> u8 \<Rightarrow> reader \<Rightarrow> writer \<Rightarrow>
     (am_error + (handshake_config \<times> reader)) \<times> writer" where
  "handshake_client reg codecs max_frame version r w =
     (case validate_codec_list reg codecs of
        Inl e \<Rightarrow> (Inl e, w)
      | Inr _ \<Rightarrow>
          if \<not> is_supported_protocol_version version then (Inl (UnsupportedFrameVersion version), w)
          else (case write_all (handshake_request codecs max_frame version) w of
            (Inl e, w1) \<Rightarrow> (Inl e, w1)
          | (Inr _, w1) \<Rightarrow> (case write_all codecs w1 of
              (Inl e, w2) \<Rightarrow> (Inl e, w2)
            | (Inr _, w2) \<Rightarrow> (case flush w2 of
                Inl e \<Rightarrow> (Inl e, w2)
              | Inr _ \<Rightarrow> (handshake_client_reply reg codecs version r, w2)))))"

definition handshake_server ::
  "codec_registry \<Rightarrow> codec_id list \<Rightarrow> u32 \<Rightarrow> bool \<Rightarrow> reader \<Rightarrow> writer \<Rightarrow>
     (am_error + (handshake_config \<times> reader)) \<times> writer" where
  "handshake_server reg codecs max_frame recovery_enabled r w =
     (case validate_codec_list reg codecs of
        Inl e \<Rightarrow> (Inl e, w)
      | Inr _ \<Rightarrow> (case read_exact HANDSHAKE_HEADER_LEN r of
        Inl e \<Rightarrow> (Inl e, w)
      | Inr (request, r1) \<Rightarrow>
        if slice 0 2 request \<noteq> HANDSHAKE_MAGIC then (Inl BadHandshakeMagic, w)
        else
          let version = request ! 2;
              reply_version = supported_protocol_version recovery_enabled;
              codec_count = unat (request ! 3);
              client_max = from_be32 (slice 8 12 request)
          in if \<not> is_supported_protocol_version version \<or>
                version = PROTOCOL_VERSION_V3 \<and> \<not> recovery_enabled
             then (case (if 0 < codec_count then read_exact codec_count r1 else Inr ([], r1)) of
                 Inl e \<Rightarrow> (Inl e, w)
               | Inr _ \<Rightarrow> (Inl (UnsupportedFrameVersion version),
                            snd (write_handshake_reply 0 reply_version 0 0 w)))
             else if codec_count = 0
             then (Inl NoCommonCodec, snd (write_handshake_reply 0 version 0 0 w))
             else if MAX_CODEC_COUNT < codec_count
             then (case read_exact codec_count r1 of
                 Inl e \<Rightarrow> (Inl e, w)
               | Inr _ \<Rightarrow> (Inl (TooManyCodecs codec_count),
                            snd (write_handshake_reply 0 version 0 0 w)))
             else (case read_exact codec_count r1 of
                 Inl e \<Rightarrow> (Inl e, w)
               | Inr (client_codecs, r2) \<Rightarrow> (case select_codec client_codecs codecs of
                   None \<Rightarrow> (Inl NoCommonCodec, snd (write_handshake_reply 0 version 0 0 w))
                 | Some selected \<Rightarrow>
                     let negotiated_max = negotiate_max_frame client_max max_frame
                     in (case write_handshake_reply 1 version selected negotiated_max w of
                         (Inl e, w') \<Rightarrow> (Inl e, w')
                       | (Inr _, w') \<Rightarrow>
                           if \<not> codec_known reg selected then (Inl (UnsupportedCodec selected), w')
                           else (Inr (\<lparr>hc_version = version, hc_codec_id = selected,
                                       hc_max_frame = negotiated_max\<rparr>, r2), w'))))))"

section \<open>The helpers against their specifications\<close>

lemma negotiate_max_frame_min: "negotiate_max_frame c s = min c s"
  by (simp add: negotiate_max_frame_def min_def not_less word_le_less_eq) (auto)

lemma contains_codec_iff [simp]: "contains_codec codecs i \<longleftrightarrow> i \<in> set codecs"
  by (auto simp: contains_codec_def list_ex_iff)

lemma select_supported_eq: "select_supported raw ss = (if raw \<in> set ss then Some raw else None)"
  by (induction ss) auto

text \<open>The codec chosen is the first one of the client's list that the server supports.\<close>

lemma select_codec_find: "select_codec cs ss = find (\<lambda>c. c \<in> set ss) cs"
  by (induction cs) (auto simp: select_supported_eq)

lemma select_codec_Some:
  "select_codec cs ss = Some c \<Longrightarrow> c \<in> set cs \<and> c \<in> set ss"
  by (auto simp: select_codec_find find_Some_iff)

lemma select_codec_None: "select_codec cs ss = None \<longleftrightarrow> set cs \<inter> set ss = {}"
  by (auto simp: select_codec_find find_None_iff)

lemma validate_codec_ids_iff:
  "validate_codec_ids reg cs = Inr () \<longleftrightarrow> (\<forall>c \<in> set cs. c \<noteq> 0 \<and> codec_known reg c)"
  by (induction cs) auto

lemma validate_codec_list_iff:
  "validate_codec_list reg cs = Inr () \<longleftrightarrow>
     cs \<noteq> [] \<and> length cs \<le> 16 \<and> (\<forall>c \<in> set cs. c \<noteq> 0 \<and> codec_known reg c)"
  by (auto simp: validate_codec_list_def validate_codec_ids_iff MAX_CODEC_COUNT_def)

lemma length_handshake_reply [simp]: "length (handshake_reply a v c m) = 12"
  by (simp add: wire_defs HANDSHAKE_MAGIC_def)

lemma length_handshake_request [simp]: "length (handshake_request cs m v) = 12"
  by (simp add: wire_defs HANDSHAKE_MAGIC_def)

lemma handshake_reply_fields [simp]:
  "slice 0 2 (handshake_reply a v c m) = HANDSHAKE_MAGIC"
  "handshake_reply a v c m ! 2 = a" "handshake_reply a v c m ! 3 = v"
  "handshake_reply a v c m ! 4 = c" "from_be32 (slice 8 12 (handshake_reply a v c m)) = m"
  by (simp_all add: wire_defs HANDSHAKE_MAGIC_def slice_def)

lemma handshake_request_fields [simp]:
  "slice 0 2 (handshake_request cs m v) = HANDSHAKE_MAGIC"
  "handshake_request cs m v ! 2 = v"
  "handshake_request cs m v ! 3 = word_of_nat (length cs)"
  "from_be32 (slice 8 12 (handshake_request cs m v)) = m"
  by (simp_all add: wire_defs HANDSHAKE_MAGIC_def slice_def)

section \<open>What each side guarantees whatever the peer sends\<close>

lemma write_handshake_reply_good:
  "good_writer w \<Longrightarrow> write_handshake_reply a v c m w =
     (Inr (), w\<lparr>wr_out := wr_out w @ handshake_reply a v c m\<rparr>)"
  by (simp add: write_handshake_reply_def)

lemma handshake_client_reply_Inr:
  assumes "handshake_client_reply reg codecs v r = Inr (cfg, r')"
  shows "hc_version cfg = v" "hc_codec_id cfg \<in> set codecs" "codec_known reg (hc_codec_id cfg)"
  using assms by (auto simp: handshake_client_reply_def try_res_Inr_iff Let_def split: if_splits)

lemma handshake_client_writes:
  assumes "validate_codec_list reg codecs = Inr ()" "is_supported_protocol_version v" "good_writer w"
  shows "handshake_client reg codecs mx v r w =
    (handshake_client_reply reg codecs v r,
     w\<lparr>wr_out := wr_out w @ handshake_request codecs mx v @ codecs\<rparr>)"
  using assms by (simp add: handshake_client_def)

lemma handshake_client_on_reply:
  assumes "rd_bytes r = handshake_reply a v' c m @ rest"
  shows "\<exists>r'. handshake_client_reply reg codecs v r =
    (if v' \<noteq> v then Inl (UnsupportedFrameVersion v')
     else if a = 0 then Inl NoCommonCodec
     else if c \<notin> set codecs then Inl NoCommonCodec
     else if \<not> codec_known reg c then Inl (UnsupportedCodec c)
     else Inr (\<lparr>hc_version = v', hc_codec_id = c, hc_max_frame = m\<rparr>, r')) \<and>
     rd_bytes r' = rest \<and> rd_end r' = rd_end r"
proof -
  from assms obtain r' where "read_exact 12 r = Inr (handshake_reply a v' c m, r')"
    and "rd_bytes r' = rest" "rd_end r' = rd_end r"
    by (rule read_exact_append) simp
  then show ?thesis
    by (intro exI[of _ r']) (simp add: handshake_client_reply_def HANDSHAKE_HEADER_LEN_def)
qed

lemma handshake_server_Inr:
  assumes "handshake_server reg codecs mx rec r w = (Inr (cfg, r'), w')"
  shows "is_supported_protocol_version (hc_version cfg)"
    "hc_version cfg = PROTOCOL_VERSION_V3 \<Longrightarrow> rec"
    "hc_codec_id cfg \<in> set codecs" "codec_known reg (hc_codec_id cfg)" "hc_max_frame cfg \<le> mx"
  using assms
  by (auto simp: handshake_server_def Let_def negotiate_max_frame_min dest!: select_codec_Some
      split: sum.splits if_splits option.splits prod.splits)

text \<open>
  On the request of a well-formed client, the server either rejects the version, finds no common
  codec, or accepts; in each case it sends one 12-byte reply.
\<close>

lemma handshake_server_on_request:
  assumes "validate_codec_list reg scs = Inr ()" "good_writer w"
    and r: "rd_bytes r = handshake_request ccs cmx v @ ccs @ rest"
    and ccs: "ccs \<noteq> []" "length ccs \<le> 16"
  shows "\<exists>r'. rd_bytes r' = rest \<and> rd_end r' = rd_end r \<and>
    handshake_server reg scs smx rec r w =
     (if \<not> is_supported_protocol_version v \<or> v = PROTOCOL_VERSION_V3 \<and> \<not> rec
      then (Inl (UnsupportedFrameVersion v),
            w\<lparr>wr_out := wr_out w @ handshake_reply 0 (supported_protocol_version rec) 0 0\<rparr>)
      else case select_codec ccs scs of
        None \<Rightarrow> (Inl NoCommonCodec, w\<lparr>wr_out := wr_out w @ handshake_reply 0 v 0 0\<rparr>)
      | Some c \<Rightarrow> (Inr (\<lparr>hc_version = v, hc_codec_id = c, hc_max_frame = min cmx smx\<rparr>, r'),
                   w\<lparr>wr_out := wr_out w @ handshake_reply 1 v c (min cmx smx)\<rparr>))"
proof -
  from r obtain r1 where r1: "read_exact 12 r = Inr (handshake_request ccs cmx v, r1)"
    "rd_bytes r1 = ccs @ rest" "rd_end r1 = rd_end r"
    by (rule read_exact_append) simp
  from r1(2) obtain r2 where r2: "read_exact (length ccs) r1 = Inr (ccs, r2)"
    "rd_bytes r2 = rest" "rd_end r2 = rd_end r1"
    by (rule read_exact_append) simp
  have n: "unat (word_of_nat (length ccs) :: u8) = length ccs"
    using ccs(2) by (simp add: unat_byte_of_nat)
  have known: "codec_known reg c" if "select_codec ccs scs = Some c" for c
    using that assms(1) by (auto simp: validate_codec_list_iff dest: select_codec_Some)
  show ?thesis
    using assms(1,2) ccs r1 r2 known
    by (intro exI[of _ r2])
      (simp add: handshake_server_def HANDSHAKE_HEADER_LEN_def MAX_CODEC_COUNT_def n
        write_handshake_reply_good negotiate_max_frame_min Let_def split: option.split)
qed

end
