(* ===== verification/FrameIO.thy ===== *)
theory FrameIO
  imports Handshake
begin

text \<open>
  Frames on a transport (\<open>build_config\<close>, \<open>write_frame_counted\<close> and \<open>read_frame\<close> of
  \<open>src/src/connection.rs\<close>). A frame is written as its header, cut to the version's length,
  followed by the payload. \<open>read_frame\<close> reads a header over however many chunks it takes, and
  then the payload. The outer option of its result is \<open>None\<close> where indexing the header would
  panic, which a configuration made by \<open>build_config\<close> excludes.
\<close>

record conn_config =
  cc_version :: u8
  cc_codec_id :: codec_id
  cc_max_frame :: u32
  cc_header_len :: nat

definition build_config :: "codec_registry \<Rightarrow> handshake_config \<Rightarrow> am_error + conn_config" where
  "build_config reg config =
     (if \<not> codec_known reg (hc_codec_id config) then Inl (UnsupportedCodec (hc_codec_id config))
      else try_res (frame_header_len_for_version (hc_version config)) (\<lambda>len.
        Inr \<lparr>cc_version = hc_version config, cc_codec_id = hc_codec_id config,
             cc_max_frame = hc_max_frame config, cc_header_len = len\<rparr>))"

definition config_ok :: "conn_config \<Rightarrow> bool" where
  "config_ok cfg \<longleftrightarrow> frame_header_len_for_version (cc_version cfg) = Inr (cc_header_len cfg)"

lemma build_config_ok [invar_intros]: "build_config reg hc = Inr cfg \<Longrightarrow> config_ok cfg"
  by (auto simp: build_config_def config_ok_def try_res_Inr_iff split: if_splits)

lemma build_config_fields:
  "build_config reg hc = Inr cfg \<Longrightarrow> cc_version cfg = hc_version hc \<and> cc_codec_id cfg = hc_codec_id hc \<and>
     cc_max_frame cfg = hc_max_frame hc"
  by (auto simp: build_config_def try_res_Inr_iff split: if_splits)

text \<open>The fields of a frame: stream ID, sequence number, flags and payload (\<open>InboundFrame\<close>).\<close>

type_synonym inbound_frame = "u32 \<times> u64 \<times> u8 \<times> bytes"

section \<open>Writing a frame\<close>

text \<open>
  \<open>write_frame_counted\<close>: the result, the writer, and the number of wire bytes to count, if the
  frame was written whole.
\<close>

definition write_frame_counted ::
  "conn_config \<Rightarrow> writer \<Rightarrow> u32 \<Rightarrow> u64 \<Rightarrow> u8 \<Rightarrow> bytes \<Rightarrow> (am_error + nat) \<times> writer" where
  "write_frame_counted cfg w stream_id seq flags payload =
     (case build_header (cc_version cfg) stream_id seq flags (length payload) (cc_max_frame cfg) of
        Inl e \<Rightarrow> (Inl e, w)
      | Inr header \<Rightarrow> (case write_all (take (cc_header_len cfg) header) w of
          (Inl e, w1) \<Rightarrow> (Inl e, w1)
        | (Inr _, w1) \<Rightarrow> (case write_all payload w1 of
            (Inl e, w2) \<Rightarrow> (Inl e, w2)
          | (Inr _, w2) \<Rightarrow> (Inr (cc_header_len cfg + length payload), w2))))"

section \<open>Reading a frame\<close>

text \<open>The payload loop: \<open>take(remaining).read_buf\<close> until the payload is complete.\<close>

fun read_payload_chunks :: "nat \<Rightarrow> bytes list \<Rightarrow> bytes \<Rightarrow> (bytes \<times> bytes list) option" where
  "read_payload_chunks len [] payload = (if length payload < len then None else Some (payload, []))"
| "read_payload_chunks len (c # cs) payload =
     (if length payload < len then
        (let remaining = len - length payload
         in if length c \<le> remaining then read_payload_chunks len cs (payload @ c)
            else Some (payload @ take remaining c, drop remaining c # cs))
      else Some (payload, c # cs))"

definition read_payload :: "nat \<Rightarrow> reader \<Rightarrow> am_error + (bytes \<times> reader)" where
  "read_payload len r = (case read_payload_chunks len (rd_chunks r) [] of
     None \<Rightarrow> Inl (eof_error r)
   | Some (payload, cs) \<Rightarrow> Inr (payload, r\<lparr>rd_chunks := cs\<rparr>))"

definition read_frame ::
  "conn_config \<Rightarrow> reader \<Rightarrow> (am_error + (inbound_frame \<times> reader) option) option" where
  "read_frame cfg r =
     (case read_some (cc_header_len cfg) r of
        Inl e \<Rightarrow> Some (Inl e)
      | Inr (first, r1) \<Rightarrow>
          if first = [] then Some (Inr None)
          else (case read_exact (cc_header_len cfg - length first) r1 of
            Inl e \<Rightarrow> Some (Inl e)
          | Inr (rest_hd, r2) \<Rightarrow> (case parse_header (first @ rest_hd) (cc_version cfg) of
              None \<Rightarrow> None
            | Some (Inl e) \<Rightarrow> Some (Inl e)
            | Some (Inr (stream_id, seq, flags, payload_len)) \<Rightarrow>
                if cc_max_frame cfg < as_u32 payload_len then Some (Inl (FrameTooLarge payload_len))
                else (case read_payload payload_len r2 of
                  Inl e \<Rightarrow> Some (Inl e)
                | Inr (payload, r3) \<Rightarrow> Some (Inr (Some ((stream_id, seq, flags, payload), r3)))))))"

section \<open>Reading depends on the bytes only\<close>

lemma read_payload_chunks_None:
  "length p \<le> len \<Longrightarrow>
   read_payload_chunks len cs p = None \<longleftrightarrow> length p + length (concat cs) < len"
  by (induction len cs p rule: read_payload_chunks.induct) (auto simp: Let_def)

lemma read_payload_chunks_Some:
  assumes "length p \<le> len" "read_payload_chunks len cs p = Some (bs, cs')"
  shows "p @ concat cs = bs @ concat cs' \<and> length bs = len"
  using assms
proof (induction len cs p arbitrary: bs cs' rule: read_payload_chunks.induct)
  case (1 len p)
  then show ?case by (auto split: if_splits)
next
  case (2 len c cs p)
  show ?case
  proof (cases "length p < len \<and> length c \<le> len - length p")
    case True
    with 2(3) have "read_payload_chunks len cs (p @ c) = Some (bs, cs')" by (simp add: Let_def)
    with 2(1) True show ?thesis by (fastforce simp: Let_def)
  next
    case False
    with 2(2,3) show ?thesis by (auto simp: Let_def split: if_splits)
  qed
qed

text \<open>The payload loop agrees with \<open>read_exact\<close>.\<close>

lemma read_payload_ok:
  assumes "rd_bytes r = bs @ rest" "length bs = n"
  obtains r' where "read_payload n r = Inr (bs, r')" "rd_bytes r' = rest" "rd_end r' = rd_end r"
proof -
  from assms have "read_payload_chunks n (rd_chunks r) [] \<noteq> None"
    by (auto simp: read_payload_chunks_None rd_bytes_def)
  then obtain bs' cs where e: "read_payload_chunks n (rd_chunks r) [] = Some (bs', cs)" by auto
  with read_payload_chunks_Some[of "[]" n "rd_chunks r" bs' cs] assms
  have "bs' = bs" "concat cs = rest" by (auto simp: rd_bytes_def)
  with e that show thesis by (simp add: read_payload_def rd_bytes_def)
qed

lemma read_payload_eof: "length (rd_bytes r) < n \<Longrightarrow> read_payload n r = Inl (eof_error r)"
  using read_payload_chunks_None[of "[]" n "rd_chunks r"]
  by (simp add: read_payload_def rd_bytes_def)

lemma read_payload_Inr:
  assumes "read_payload n r = Inr (bs, r')"
  shows "rd_bytes r = bs @ rd_bytes r'" "length bs = n" "rd_end r' = rd_end r"
  using assms read_payload_chunks_Some[of "[]" n "rd_chunks r"]
  by (auto simp: read_payload_def rd_bytes_def split: option.splits)

lemma config_ok_header_len: "config_ok cfg \<Longrightarrow> 0 < cc_header_len cfg \<and> cc_header_len cfg \<le> 18 \<and> 10 \<le> cc_header_len cfg"
  by (auto simp: config_ok_def frame_header_len_for_version_def header_len_defs split: if_splits)

text \<open>
  The reference reader: what \<open>read_frame\<close> does, said of the bytes that arrive. The two agree on
  every reader, however its bytes are cut into chunks.
\<close>

definition frame_of_bytes ::
  "conn_config \<Rightarrow> bytes \<Rightarrow> io_kind option \<Rightarrow> (am_error + (inbound_frame \<times> bytes) option) option" where
  "frame_of_bytes cfg bs fin =
     (let eof = Io (case fin of None \<Rightarrow> UnexpectedEof | Some k \<Rightarrow> k)
      in if bs = [] then Some (case fin of None \<Rightarrow> Inr None | Some k \<Rightarrow> Inl (Io k))
         else if length bs < cc_header_len cfg then Some (Inl eof)
         else (case parse_header (take (cc_header_len cfg) bs) (cc_version cfg) of
             None \<Rightarrow> None
           | Some (Inl e) \<Rightarrow> Some (Inl e)
           | Some (Inr (stream_id, seq, flags, len)) \<Rightarrow>
               if cc_max_frame cfg < as_u32 len then Some (Inl (FrameTooLarge len))
               else let body = drop (cc_header_len cfg) bs
                    in if length body < len then Some (Inl eof)
                       else Some (Inr (Some ((stream_id, seq, flags, take len body), drop len body)))))"

definition same_bytes :: "(am_error + (inbound_frame \<times> reader) option) option \<Rightarrow>
    (am_error + (inbound_frame \<times> bytes) option) option" where
  "same_bytes x = map_option (map_sum id (map_option (map_prod id rd_bytes))) x"

lemma read_frame_equiv:
  assumes "config_ok cfg"
  shows "same_bytes (read_frame cfg r) = frame_of_bytes cfg (rd_bytes r) (rd_end r)"
proof -
  let ?h = "cc_header_len cfg"
  have h: "0 < ?h" using config_ok_header_len[OF assms] by simp
  show ?thesis
  proof (cases "rd_bytes r = []")
    case True
    obtain first cs where e: "read_some_chunks ?h (rd_chunks r) = (first, cs)" by fastforce
    with read_some_chunks_empty[OF h e] True have "first = []" by (simp only: rd_bytes_def)
    with read_some_chunks_Nil_rest[OF h] e have "cs = []" by simp
    with e \<open>first = []\<close> True show ?thesis
      by (simp add: read_frame_def frame_of_bytes_def read_some_def same_bytes_def split: option.split)
  next
    case False
    with h obtain first r1 where f: "read_some ?h r = Inr (first, r1)" "first \<noteq> []"
      by (rule read_some_available)
    note f' = read_some_Inr[OF f(1)]
    show ?thesis
    proof (cases "length (rd_bytes r) < ?h")
      case True
      with f' have "length (rd_bytes r1) < ?h - length first" by simp
      from read_exact_eof[OF this] f f' False True show ?thesis
        by (simp add: read_frame_def frame_of_bytes_def same_bytes_def eof_error_def)
    next
      case False
      with f' have "rd_bytes r1 = take (?h - length first) (rd_bytes r1) @ drop ?h (rd_bytes r)"
        "length (take (?h - length first) (rd_bytes r1)) = ?h - length first" by simp_all
      then obtain r2 where r2: "read_exact (?h - length first) r1 =
          Inr (take (?h - length first) (rd_bytes r1), r2)"
        "rd_bytes r2 = drop ?h (rd_bytes r)" "rd_end r2 = rd_end r1" by (rule read_exact_append)
      have hd: "first @ take (?h - length first) (rd_bytes r1) = take ?h (rd_bytes r)"
        using f'(1,2) by simp
      show ?thesis
      proof (cases "\<exists>sid seq fl n. parse_header (take ?h (rd_bytes r)) (cc_version cfg) =
            Some (Inr (sid, seq, fl, n))")
        case True
        then obtain sid seq fl n where p:
          "parse_header (take ?h (rd_bytes r)) (cc_version cfg) = Some (Inr (sid, seq, fl, n))" by blast
        show ?thesis
        proof (cases "length (rd_bytes r2) < n")
          case True
          from read_payload_eof[OF True] f f' r2 hd p True \<open>rd_bytes r \<noteq> []\<close> False show ?thesis
            by (simp add: read_frame_def frame_of_bytes_def same_bytes_def eof_error_def Let_def)
        next
          case enough: False
          then have "rd_bytes r2 = take n (rd_bytes r2) @ drop n (rd_bytes r2)"
            "length (take n (rd_bytes r2)) = n" by simp_all
          then obtain r3 where "read_payload n r2 = Inr (take n (rd_bytes r2), r3)"
            "rd_bytes r3 = drop n (rd_bytes r2)" by (rule read_payload_ok)
          with f f' r2 hd p enough \<open>rd_bytes r \<noteq> []\<close> False show ?thesis
            by (simp add: read_frame_def frame_of_bytes_def same_bytes_def Let_def)
        qed
      next
        case no: False
        with f f' r2 hd \<open>rd_bytes r \<noteq> []\<close> False show ?thesis
          by (auto simp: read_frame_def frame_of_bytes_def same_bytes_def Let_def
              split: option.splits sum.splits)
      qed
    qed
  qed
qed

end
