(* ===== verification/WireCodec.thy ===== *)
theory WireCodec
  imports Prelude "HOL-Library.Sublist"
begin

text \<open>
  The contract between whoever writes values to a byte stream and whoever reads them back, as two
  locales. \<open>byte_codec\<close> is a self-delimiting encoding: a decoder given the encoding of a value
  and anything after it returns the value and the rest, and a proper prefix of an encoding decodes
  to nothing. From these laws follows, once and for all, that a reader of a stream recovers exactly
  the values whose encodings arrived whole, in order. \<open>fixed_codec\<close> is the special case of
  messages of a fixed length.
\<close>

text \<open>Decoding a whole byte string, value by value, as a read loop does.\<close>

function decode_all :: "(bytes \<Rightarrow> ('m \<times> bytes) option) \<Rightarrow> bytes \<Rightarrow> 'm list" where
  "decode_all dec bs =
     (case dec bs of
        None \<Rightarrow> []
      | Some (m, rest) \<Rightarrow> if length rest < length bs then m # decode_all dec rest else [m])"
  by pat_completeness auto
termination
  by (relation "measure (\<lambda>(dec, bs). length bs)") auto

declare decode_all.simps [simp del]

locale byte_codec =
  fixes enc :: "'m \<Rightarrow> bytes"
    and dec :: "bytes \<Rightarrow> ('m \<times> bytes) option"
    and wf :: "'m \<Rightarrow> bool"
  assumes dec_enc: "wf m \<Longrightarrow> dec (enc m @ rest) = Some (m, rest)"
    and enc_nonempty: "wf m \<Longrightarrow> enc m \<noteq> []"
    and dec_partial: "wf m \<Longrightarrow> strict_prefix p (enc m) \<Longrightarrow> dec p = None"
    and dec_Nil: "dec [] = None"
begin

lemma decode_all_partial: "wf m \<Longrightarrow> strict_prefix p (enc m) \<Longrightarrow> decode_all dec p = []"
  by (subst decode_all.simps) (simp add: dec_partial)

lemma decode_all_Nil: "decode_all dec [] = []"
  by (subst decode_all.simps) (simp add: dec_Nil)

lemma decode_all_step: "wf m \<Longrightarrow> decode_all dec (enc m @ rest) = m # decode_all dec rest"
  using enc_nonempty[of m] by (subst decode_all.simps) (simp add: dec_enc)

lemma decode_all_stream:
  assumes "list_all wf ms" "decode_all dec p = []"
  shows "decode_all dec (concat (map enc ms) @ p) = ms"
  using assms by (induction ms) (simp_all add: decode_all_step)

text \<open>Whatever prefix of a stream has arrived, it is some whole values and part of the next.\<close>

lemma prefix_of_stream:
  assumes "list_all wf ms" "prefix bs (concat (map enc ms))"
  shows "\<exists>k p. bs = concat (map enc (take k ms)) @ p \<and> decode_all dec p = []"
  using assms
proof (induction ms arbitrary: bs)
  case Nil
  then show ?case by (simp add: decode_all_Nil)
next
  case (Cons x xs)
  show ?case
  proof (cases "strict_prefix bs (enc x)")
    case True
    with Cons(2) have "decode_all dec bs = []" by (auto intro: decode_all_partial)
    then show ?thesis by (intro exI[of _ 0] exI[of _ bs]) simp
  next
    case False
    from Cons(3) have "prefix bs (enc x) \<or> prefix (enc x) bs"
      by (metis concat.simps(2) list.simps(9) prefixI prefix_same_cases)
    with False obtain bs' where bs: "bs = enc x @ bs'"
      by (auto simp: prefix_def strict_prefix_def)
    with Cons(3) have "prefix bs' (concat (map enc xs))" by simp
    with Cons(1)[of bs'] Cons(2) obtain k p where
      "bs' = concat (map enc (take k xs)) @ p" "decode_all dec p = []" by auto
    with bs show ?thesis by (intro exI[of _ "Suc k"] exI[of _ p]) simp
  qed
qed

lemma decode_all_prefix:
  assumes "list_all wf ms" "prefix bs (concat (map enc ms))"
  shows "prefix (decode_all dec bs) ms"
proof -
  from prefix_of_stream[OF assms] obtain k p where
    "bs = concat (map enc (take k ms)) @ p" "decode_all dec p = []" by blast
  moreover have "list_all wf (take k ms)"
    using assms(1) by (auto simp: list_all_iff dest: in_set_takeD)
  ultimately have "decode_all dec bs = take k ms" by (simp add: decode_all_stream)
  then show ?thesis by (simp add: take_is_prefix)
qed

lemma decode_all_concat: "list_all wf ms \<Longrightarrow> decode_all dec (concat (map enc ms)) = ms"
  using decode_all_stream[of ms "[]"] by (simp add: decode_all_Nil)

lemma enc_inject: "wf m \<Longrightarrow> wf m' \<Longrightarrow> enc m = enc m' \<Longrightarrow> m = m'"
  using dec_enc[of m "[]"] dec_enc[of m' "[]"] by simp

end

text \<open>
  Messages of a fixed length \<open>len\<close>: the reader takes \<open>len\<close> bytes (\<open>read_exact\<close>) and decodes
  them.
\<close>

definition dec_fixed :: "nat \<Rightarrow> (bytes \<Rightarrow> 'm option) \<Rightarrow> bytes \<Rightarrow> ('m \<times> bytes) option" where
  "dec_fixed len d bs =
     (if length bs < len then None else map_option (\<lambda>m. (m, drop len bs)) (d (take len bs)))"

locale fixed_codec =
  fixes len :: nat
    and enc :: "'m \<Rightarrow> bytes"
    and d :: "bytes \<Rightarrow> 'm option"
    and wf :: "'m \<Rightarrow> bool"
  assumes len_pos: "0 < len"
    and enc_len: "wf m \<Longrightarrow> length (enc m) = len"
    and d_enc: "wf m \<Longrightarrow> d (enc m) = Some m"

sublocale fixed_codec \<subseteq> byte_codec enc "dec_fixed len d" wf
proof
  fix m rest assume m: "wf m"
  then show "dec_fixed len d (enc m @ rest) = Some (m, rest)"
    by (simp add: dec_fixed_def enc_len d_enc)
  from m show "enc m \<noteq> []" using enc_len len_pos by fastforce
  fix p assume "strict_prefix p (enc m)"
  then have "length p < len" using enc_len[OF m] prefix_length_less by metis
  then show "dec_fixed len d p = None" by (simp add: dec_fixed_def)
next
  show "dec_fixed len d [] = None" using len_pos by (simp add: dec_fixed_def)
qed

end
