(* ===== verification/FrameStream.thy ===== *)
theory FrameStream
  imports FrameIO WireCodec
begin

text \<open>
  The byte stream that a sequence of frames makes on a transport: \<open>wire_frame\<close> is what
  \<open>write_frame_counted\<close> adds to the writer and \<open>dec_frame\<close> what \<open>read_frame\<close> takes from the
  reader. They form a self-delimiting code (an interpretation of \<open>byte_codec\<close>), for version 2
  and version 3 alike.
\<close>

fun wire_frame :: "conn_config \<Rightarrow> inbound_frame \<Rightarrow> bytes" where
  "wire_frame cfg (sid, seq, fl, pl) =
     take (cc_header_len cfg)
       ([cc_version cfg, fl] @ be32 sid @ be32 (as_u32 (length pl)) @
        (if cc_version cfg = PROTOCOL_VERSION_V3 then be64 seq else replicate 8 0)) @ pl"

fun frame_ok :: "conn_config \<Rightarrow> inbound_frame \<Rightarrow> bool" where
  "frame_ok cfg (sid, seq, fl, pl) \<longleftrightarrow>
     config_ok cfg \<and> length pl \<le> unat (cc_max_frame cfg) \<and>
     fl AND NOT SUPPORTED_FRAME_FLAGS = 0 \<and> (cc_version cfg = PROTOCOL_VERSION_V2 \<longrightarrow> seq = 0)"

definition dec_frame :: "conn_config \<Rightarrow> bytes \<Rightarrow> (inbound_frame \<times> bytes) option" where
  "dec_frame cfg bs = (case frame_of_bytes cfg bs None of Some (Inr x) \<Rightarrow> x | _ \<Rightarrow> None)"

lemma config_cases:
  assumes "config_ok cfg"
  obtains "cc_version cfg = PROTOCOL_VERSION_V2" "cc_header_len cfg = 10"
  | "cc_version cfg = PROTOCOL_VERSION_V3" "cc_header_len cfg = 18"
  using assms
  by (auto simp: config_ok_def frame_header_len_for_version_def header_len_defs version_defs
      split: if_splits)

lemma length_wire_frame:
  "config_ok cfg \<Longrightarrow> length (wire_frame cfg (sid, seq, fl, pl)) = cc_header_len cfg + length pl"
  by (erule config_cases) (simp_all add: version_defs)

lemma parse_wire_header:
  assumes "frame_ok cfg (sid, seq, fl, pl)"
  shows "parse_header (take (cc_header_len cfg) (wire_frame cfg (sid, seq, fl, pl) @ rest))
           (cc_version cfg) = Some (Inr (sid, seq, fl, length pl))"
proof -
  from assms have n: "length pl < 2 ^ 32" and fl: "fl AND NOT SUPPORTED_FRAME_FLAGS = 0"
    using unat_u32_bound[of "cc_max_frame cfg"] by simp_all
  from assms have "config_ok cfg" by simp
  then show ?thesis
  proof (cases rule: config_cases)
    case 1
    with parse_layout_v2[OF fl n, of sid "[]"] assms show ?thesis by (simp add: version_defs)
  next
    case 2
    with parse_layout_v3[OF fl n, of sid seq "[]"] show ?thesis by (simp add: version_defs)
  qed
qed

lemma max_frame_check:
  assumes "n \<le> unat (m :: u32)"
  shows "\<not> m < as_u32 n"
proof -
  from assms unat_u32_bound[of m] have "n < 2 ^ 32" by simp
  with assms show ?thesis by (simp add: word_less_nat_alt unat_as_u32)
qed

lemma frame_of_wire:
  assumes "frame_ok cfg (sid, seq, fl, pl)"
  shows "frame_of_bytes cfg (wire_frame cfg (sid, seq, fl, pl) @ rest) fin =
           Some (Inr (Some ((sid, seq, fl, pl), rest)))"
proof -
  let ?w = "wire_frame cfg (sid, seq, fl, pl)"
  from assms have ok: "config_ok cfg" and mx: "length pl \<le> unat (cc_max_frame cfg)" by simp_all
  from length_wire_frame[OF ok] have len: "length ?w = cc_header_len cfg + length pl" .
  have body: "drop (cc_header_len cfg) (?w @ rest) = pl @ rest"
    using ok by (cases rule: config_cases) (simp_all add: version_defs)
  from len config_ok_header_len[OF ok] have "?w \<noteq> []" by force
  with len parse_wire_header[OF assms, of rest] body max_frame_check[OF mx] show ?thesis
    by (simp add: frame_of_bytes_def Let_def del: wire_frame.simps)
qed

lemma frame_of_wire_partial:
  assumes "frame_ok cfg f" "strict_prefix p (wire_frame cfg f)"
  shows "frame_of_bytes cfg p fin =
    (if p = [] then Some (case fin of None \<Rightarrow> Inr None | Some k \<Rightarrow> Inl (Io k))
     else Some (Inl (Io (case fin of None \<Rightarrow> UnexpectedEof | Some k \<Rightarrow> k))))"
proof -
  obtain sid seq fl pl where f: "f = (sid, seq, fl, pl)" by (cases f)
  let ?h = "cc_header_len cfg"
  from assms(1) f have ok: "config_ok cfg" and mx: "length pl \<le> unat (cc_max_frame cfg)" by simp_all
  from assms(2) obtain q where q: "wire_frame cfg f = p @ q" "q \<noteq> []"
    by (auto simp: strict_prefix_def prefix_def)
  with length_wire_frame[OF ok, of sid seq fl pl] f have len: "length p < ?h + length pl"
    by (metis add_less_cancel_left length_append length_greater_0_conv less_add_same_cancel1)
  show ?thesis
  proof (cases "?h \<le> length p")
    case True
    with q(1) have "take ?h (wire_frame cfg f) = take ?h p" by simp
    with parse_wire_header[of cfg sid seq fl pl "[]"] assms(1) f
    have "parse_header (take ?h p) (cc_version cfg) = Some (Inr (sid, seq, fl, length pl))"
      by (simp del: wire_frame.simps)
    with True len max_frame_check[OF mx] config_ok_header_len[OF ok] show ?thesis
      by (auto simp: frame_of_bytes_def Let_def)
  next
    case False
    then show ?thesis by (auto simp: frame_of_bytes_def Let_def)
  qed
qed

interpretation frame_wire: byte_codec "wire_frame cfg" "dec_frame cfg" "frame_ok cfg" for cfg
proof
  fix m rest assume "frame_ok cfg m"
  then show "dec_frame cfg (wire_frame cfg m @ rest) = Some (m, rest)"
    by (cases m) (simp add: dec_frame_def frame_of_wire del: wire_frame.simps frame_ok.simps)
next
  fix m assume "frame_ok cfg m"
  then show "wire_frame cfg m \<noteq> []"
    using frame_of_wire_partial[of cfg m]
    by (cases m) (metis (no_types, lifting) config_ok_header_len frame_ok.simps length_wire_frame
        add_is_0 less_nat_zero_code list.size(3) neq0_conv)
next
  fix m p assume "frame_ok cfg m" "strict_prefix p (wire_frame cfg m)"
  then show "dec_frame cfg p = None" by (simp add: dec_frame_def frame_of_wire_partial)
next
  show "dec_frame cfg [] = None" by (simp add: dec_frame_def frame_of_bytes_def)
qed

section \<open>The operations of the connection on the stream\<close>

lemma write_frame_good:
  assumes "config_ok cfg" "good_writer w" "length pl \<le> unat (cc_max_frame cfg)"
  shows "write_frame_counted cfg w sid seq fl pl =
    (Inr (cc_header_len cfg + length pl),
     w\<lparr>wr_out := wr_out w @ wire_frame cfg (sid, seq, fl, pl)\<rparr>)"
proof -
  have "is_ok (build_header (cc_version cfg) sid seq fl (length pl) (cc_max_frame cfg))"
    using assms(3) by (simp add: build_header_ok_iff)
  then obtain h where h: "build_header (cc_version cfg) sid seq fl (length pl) (cc_max_frame cfg) = Inr h"
    by (cases "build_header (cc_version cfg) sid seq fl (length pl) (cc_max_frame cfg)") auto
  with build_header_Inr(3)[OF h] assms(2) show ?thesis
    by (simp add: write_frame_counted_def)
qed

lemma write_frame_ok_out:
  assumes "write_frame_counted cfg w sid seq fl pl = (Inr n, w')"
  shows "wr_out w' = wr_out w @ wire_frame cfg (sid, seq, fl, pl)"
    "length pl \<le> unat (cc_max_frame cfg)" "n = cc_header_len cfg + length pl"
proof -
  from assms obtain h w1 where h:
    "build_header (cc_version cfg) sid seq fl (length pl) (cc_max_frame cfg) = Inr h"
    and w: "write_all (take (cc_header_len cfg) h) w = (Inr (), w1)" "write_all pl w1 = (Inr (), w')"
    and n: "n = cc_header_len cfg + length pl"
    by (auto simp: write_frame_counted_def split: sum.splits prod.splits)
  show "wr_out w' = wr_out w @ wire_frame cfg (sid, seq, fl, pl)"
    using write_all_ok[OF w(1)] write_all_ok[OF w(2)] build_header_Inr(3)[OF h] by simp
  show "length pl \<le> unat (cc_max_frame cfg)" using build_header_Inr(2)[OF h] .
  show "n = cc_header_len cfg + length pl" by (rule n)
qed

lemma write_frame_prefix:
  assumes "write_frame_counted cfg w sid seq fl pl = (res, w')"
  shows "\<exists>p. wr_out w' = wr_out w @ p \<and> prefix p (wire_frame cfg (sid, seq, fl, pl))"
proof (cases res)
  case (Inr n)
  with assms write_frame_ok_out(1) show ?thesis by fastforce
next
  case (Inl e)
  show ?thesis
  proof (cases "build_header (cc_version cfg) sid seq fl (length pl) (cc_max_frame cfg)")
    case (Inl e')
    with assms show ?thesis by (auto simp: write_frame_counted_def)
  next
    case (Inr h)
    let ?h = "take (cc_header_len cfg) h"
    have wire: "wire_frame cfg (sid, seq, fl, pl) = ?h @ pl"
      using build_header_Inr(3)[OF Inr] by simp
    obtain r1 w1 where w1: "write_all ?h w = (r1, w1)" by fastforce
    show ?thesis
    proof (cases r1)
      case (Inl e1)
      with assms Inr w1 have "w' = w1" by (simp add: write_frame_counted_def)
      with write_all_prefix[OF w1] wire show ?thesis
        by (metis prefix_append take_is_prefix prefixI)
    next
      case (Inr u)
      obtain r2 w2 where w2: "write_all pl w1 = (r2, w2)" by fastforce
      with assms Inr w1 \<open>build_header _ _ _ _ _ _ = Inr h\<close> have "w' = w2"
        by (auto simp: write_frame_counted_def split: sum.splits)
      moreover from write_all_prefix[OF w2] obtain n where "wr_out w2 = wr_out w1 @ take n pl" by blast
      moreover have "wr_out w1 = wr_out w @ ?h" using write_all_ok w1 Inr by blast
      ultimately show ?thesis using wire
        by (intro exI[of _ "?h @ take n pl"]) (simp add: take_is_prefix)
    qed
  qed
qed

end
