(* ===== verification/RecoveryOptions.thy ===== *)
theory RecoveryOptions
  imports Handshake
begin

text \<open>
  The recovery options of \<open>src/src/recovery.rs\<close> and their normalisation. A \<open>Duration\<close> is its
  number of nanoseconds, at most \<open>DURATION_MAX\<close> (\<open>Duration::MAX\<close>); \<open>saturating_mul\<close> stops
  there.
\<close>

type_synonym duration = nat

definition DURATION_MAX :: duration where
  "DURATION_MAX = (2 ^ 64 - 1) * 1000000000 + 999999999"

definition saturating_mul :: "duration \<Rightarrow> nat \<Rightarrow> duration" where
  "saturating_mul d k = min (d * k) DURATION_MAX"

definition from_millis :: "nat \<Rightarrow> duration" where "from_millis m = m * 1000000"
definition from_secs :: "nat \<Rightarrow> duration" where "from_secs s = s * 1000000000"
definition as_millis :: "duration \<Rightarrow> nat" where "as_millis d = d div 1000000"

lemmas duration_defs = from_millis_def from_secs_def as_millis_def

record client_recovery_options =
  cro_enable :: bool
  cro_reconnect_min_backoff :: duration
  cro_reconnect_max_backoff :: duration
  cro_max_replay_bytes :: int

record negotiated_recovery_options =
  nro_ack_every :: u32
  nro_ack_delay :: duration
  nro_heartbeat_interval :: duration
  nro_heartbeat_timeout :: duration

record server_recovery_options =
  sro_enable :: bool
  sro_detached_ttl :: duration
  sro_max_replay_bytes :: int
  sro_ack_every :: u32
  sro_ack_delay :: duration
  sro_heartbeat_interval :: duration
  sro_heartbeat_timeout :: duration

definition default_client_recovery :: client_recovery_options where
  "default_client_recovery = \<lparr>cro_enable = False,
     cro_reconnect_min_backoff = from_millis 100,
     cro_reconnect_max_backoff = from_secs 2,
     cro_max_replay_bytes = 2 * int (unat DEFAULT_MAX_FRAME)\<rparr>"

definition default_server_recovery :: server_recovery_options where
  "default_server_recovery = \<lparr>sro_enable = False,
     sro_detached_ttl = from_secs 30,
     sro_max_replay_bytes = 2 * int (unat DEFAULT_MAX_FRAME),
     sro_ack_every = 64,
     sro_ack_delay = from_millis 20,
     sro_heartbeat_interval = from_secs 30,
     sro_heartbeat_timeout = from_secs 90\<rparr>"

definition client_normalized :: "client_recovery_options \<Rightarrow> client_recovery_options" where
  "client_normalized self =
     (let defaults = default_client_recovery;
          o1 = (if cro_reconnect_min_backoff self = 0
                then self\<lparr>cro_reconnect_min_backoff := cro_reconnect_min_backoff defaults\<rparr> else self);
          o2 = (if cro_reconnect_max_backoff o1 = 0
                then o1\<lparr>cro_reconnect_max_backoff := cro_reconnect_max_backoff defaults\<rparr> else o1);
          o3 = (if cro_reconnect_max_backoff o2 < cro_reconnect_min_backoff o2
                then o2\<lparr>cro_reconnect_max_backoff := cro_reconnect_min_backoff o2\<rparr> else o2)
      in if cro_max_replay_bytes o3 \<le> 0
         then o3\<lparr>cro_max_replay_bytes := cro_max_replay_bytes defaults\<rparr> else o3)"

definition server_normalized :: "server_recovery_options \<Rightarrow> server_recovery_options" where
  "server_normalized self =
     (let defaults = default_server_recovery;
          o1 = (if sro_detached_ttl self = 0
                then self\<lparr>sro_detached_ttl := sro_detached_ttl defaults\<rparr> else self);
          o2 = (if sro_max_replay_bytes o1 \<le> 0
                then o1\<lparr>sro_max_replay_bytes := sro_max_replay_bytes defaults\<rparr> else o1);
          o3 = (if sro_ack_every o2 = 0
                then o2\<lparr>sro_ack_every := sro_ack_every defaults\<rparr> else o2);
          o4 = (if sro_ack_delay o3 = 0
                then o3\<lparr>sro_ack_delay := sro_ack_delay defaults\<rparr> else o3);
          o5 = (if sro_heartbeat_interval o4 = 0
                then o4\<lparr>sro_heartbeat_interval := sro_heartbeat_interval defaults\<rparr> else o4);
          o6 = (if sro_heartbeat_timeout o5 = 0
                then o5\<lparr>sro_heartbeat_timeout := sro_heartbeat_timeout defaults\<rparr> else o5);
          min_timeout = saturating_mul (sro_heartbeat_interval o6) 2
      in if sro_heartbeat_timeout o6 < min_timeout
         then o6\<lparr>sro_heartbeat_timeout := min_timeout\<rparr> else o6)"

definition server_negotiated :: "server_recovery_options \<Rightarrow> negotiated_recovery_options" where
  "server_negotiated self =
     (let opts = server_normalized self
      in \<lparr>nro_ack_every = sro_ack_every opts, nro_ack_delay = sro_ack_delay opts,
          nro_heartbeat_interval = sro_heartbeat_interval opts,
          nro_heartbeat_timeout = sro_heartbeat_timeout opts\<rparr>)"

definition default_negotiated :: negotiated_recovery_options where
  "default_negotiated = server_negotiated default_server_recovery"

definition negotiated_normalized :: "negotiated_recovery_options \<Rightarrow> negotiated_recovery_options" where
  "negotiated_normalized self =
     (let defaults = server_negotiated default_server_recovery;
          o1 = (if nro_ack_every self = 0
                then self\<lparr>nro_ack_every := nro_ack_every defaults\<rparr> else self);
          o2 = (if nro_ack_delay o1 = 0
                then o1\<lparr>nro_ack_delay := nro_ack_delay defaults\<rparr> else o1);
          o3 = (if nro_heartbeat_interval o2 = 0
                then o2\<lparr>nro_heartbeat_interval := nro_heartbeat_interval defaults\<rparr> else o2);
          o4 = (if nro_heartbeat_timeout o3 = 0
                then o3\<lparr>nro_heartbeat_timeout := nro_heartbeat_timeout defaults\<rparr> else o3);
          min_timeout = saturating_mul (nro_heartbeat_interval o4) 2
      in if nro_heartbeat_timeout o4 < min_timeout
         then o4\<lparr>nro_heartbeat_timeout := min_timeout\<rparr> else o4)"

section \<open>Normalised options are usable\<close>

definition negotiated_ok :: "negotiated_recovery_options \<Rightarrow> bool" where
  "negotiated_ok n \<longleftrightarrow> 0 < nro_ack_every n \<and> 0 < nro_ack_delay n \<and> 0 < nro_heartbeat_interval n \<and>
     saturating_mul (nro_heartbeat_interval n) 2 \<le> nro_heartbeat_timeout n"

definition client_options_ok :: "client_recovery_options \<Rightarrow> bool" where
  "client_options_ok c \<longleftrightarrow> 0 < cro_reconnect_min_backoff c \<and>
     cro_reconnect_min_backoff c \<le> cro_reconnect_max_backoff c \<and> 0 < cro_max_replay_bytes c"

definition server_options_ok :: "server_recovery_options \<Rightarrow> bool" where
  "server_options_ok s \<longleftrightarrow> 0 < sro_detached_ttl s \<and> 0 < sro_max_replay_bytes s \<and>
     0 < sro_ack_every s \<and> 0 < sro_ack_delay s \<and> 0 < sro_heartbeat_interval s \<and>
     saturating_mul (sro_heartbeat_interval s) 2 \<le> sro_heartbeat_timeout s"

lemmas option_defaults = default_client_recovery_def default_server_recovery_def
  duration_defs DEFAULT_MAX_FRAME_def

lemma client_normalized_ok [invar_intros]: "client_options_ok (client_normalized c)"
  by (simp add: client_options_ok_def client_normalized_def option_defaults Let_def)

lemma client_normalized_id: "client_options_ok c \<Longrightarrow> client_normalized c = c"
  by (simp add: client_options_ok_def client_normalized_def Let_def)

lemma saturating_double_pos: "0 < d \<Longrightarrow> 0 < saturating_mul d 2"
  by (simp add: saturating_mul_def DURATION_MAX_def)

lemma server_normalized_ok [invar_intros]: "server_options_ok (server_normalized s)"
proof -
  define dflt where "dflt = default_server_recovery"
  define o1 where "o1 = (if sro_detached_ttl s = 0
    then s\<lparr>sro_detached_ttl := sro_detached_ttl dflt\<rparr> else s)"
  define o2 where "o2 = (if sro_max_replay_bytes o1 \<le> 0
    then o1\<lparr>sro_max_replay_bytes := sro_max_replay_bytes dflt\<rparr> else o1)"
  define o3 where "o3 = (if sro_ack_every o2 = 0
    then o2\<lparr>sro_ack_every := sro_ack_every dflt\<rparr> else o2)"
  define o4 where "o4 = (if sro_ack_delay o3 = 0
    then o3\<lparr>sro_ack_delay := sro_ack_delay dflt\<rparr> else o3)"
  define o5 where "o5 = (if sro_heartbeat_interval o4 = 0
    then o4\<lparr>sro_heartbeat_interval := sro_heartbeat_interval dflt\<rparr> else o4)"
  define o6 where "o6 = (if sro_heartbeat_timeout o5 = 0
    then o5\<lparr>sro_heartbeat_timeout := sro_heartbeat_timeout dflt\<rparr> else o5)"
  define mt where "mt = saturating_mul (sro_heartbeat_interval o6) 2"
  have norm: "server_normalized s = (if sro_heartbeat_timeout o6 < mt
    then o6\<lparr>sro_heartbeat_timeout := mt\<rparr> else o6)"
    by (simp only: server_normalized_def Let_def dflt_def o1_def o2_def o3_def o4_def o5_def o6_def mt_def)
  have d: "0 < sro_detached_ttl dflt" "0 < sro_max_replay_bytes dflt" "0 < sro_ack_every dflt"
    "0 < sro_ack_delay dflt" "0 < sro_heartbeat_interval dflt"
    by (simp_all add: dflt_def option_defaults)
  have "0 < sro_detached_ttl o1" using d by (simp add: o1_def)
  then have 2: "0 < sro_detached_ttl o2" "0 < sro_max_replay_bytes o2" using d by (simp_all add: o2_def)
  then have 3: "0 < sro_detached_ttl o3" "0 < sro_max_replay_bytes o3" "0 < sro_ack_every o3"
    using d by (simp_all add: o3_def word_greater_zero_iff)
  then have 4: "0 < sro_detached_ttl o4" "0 < sro_max_replay_bytes o4" "0 < sro_ack_every o4"
    "0 < sro_ack_delay o4" using d by (simp_all add: o4_def)
  then have 5: "0 < sro_detached_ttl o5" "0 < sro_max_replay_bytes o5" "0 < sro_ack_every o5"
    "0 < sro_ack_delay o5" "0 < sro_heartbeat_interval o5" using d by (simp_all add: o5_def)
  then have "0 < sro_detached_ttl o6" "0 < sro_max_replay_bytes o6" "0 < sro_ack_every o6"
    "0 < sro_ack_delay o6" "0 < sro_heartbeat_interval o6" by (simp_all add: o6_def)
  then show ?thesis by (simp add: norm server_options_ok_def mt_def)
qed

lemma server_normalized_id:
  assumes "server_options_ok s"
  shows "server_normalized s = s"
proof -
  from assms have pos: "sro_detached_ttl s \<noteq> 0" "\<not> sro_max_replay_bytes s \<le> 0" "sro_ack_every s \<noteq> 0"
    "sro_ack_delay s \<noteq> 0" "sro_heartbeat_interval s \<noteq> 0"
    "\<not> sro_heartbeat_timeout s < saturating_mul (sro_heartbeat_interval s) 2"
    by (simp_all add: server_options_ok_def word_greater_zero_iff)
  with saturating_double_pos[of "sro_heartbeat_interval s"] have "sro_heartbeat_timeout s \<noteq> 0" by simp
  with pos show ?thesis by (simp add: server_normalized_def)
qed

lemma server_negotiated_ok [invar_intros]: "negotiated_ok (server_negotiated s)"
  using server_normalized_ok[of s]
  by (simp add: negotiated_ok_def server_negotiated_def server_options_ok_def Let_def)

lemma negotiated_normalized_ok [invar_intros]: "negotiated_ok (negotiated_normalized n)"
proof -
  define dflt where "dflt = server_negotiated default_server_recovery"
  define o1 where "o1 = (if nro_ack_every n = 0 then n\<lparr>nro_ack_every := nro_ack_every dflt\<rparr> else n)"
  define o2 where "o2 = (if nro_ack_delay o1 = 0 then o1\<lparr>nro_ack_delay := nro_ack_delay dflt\<rparr> else o1)"
  define o3 where "o3 = (if nro_heartbeat_interval o2 = 0
    then o2\<lparr>nro_heartbeat_interval := nro_heartbeat_interval dflt\<rparr> else o2)"
  define o4 where "o4 = (if nro_heartbeat_timeout o3 = 0
    then o3\<lparr>nro_heartbeat_timeout := nro_heartbeat_timeout dflt\<rparr> else o3)"
  define mt where "mt = saturating_mul (nro_heartbeat_interval o4) 2"
  have norm: "negotiated_normalized n = (if nro_heartbeat_timeout o4 < mt
    then o4\<lparr>nro_heartbeat_timeout := mt\<rparr> else o4)"
    by (simp only: negotiated_normalized_def Let_def dflt_def o1_def o2_def o3_def o4_def mt_def)
  have d: "0 < nro_ack_every dflt" "0 < nro_ack_delay dflt" "0 < nro_heartbeat_interval dflt"
    using server_negotiated_ok[of default_server_recovery] by (simp_all add: negotiated_ok_def dflt_def)
  have 1: "0 < nro_ack_every o1" using d by (simp add: o1_def word_greater_zero_iff)
  then have 2: "0 < nro_ack_every o2" "0 < nro_ack_delay o2" using d by (simp_all add: o2_def)
  then have 3: "0 < nro_ack_every o3" "0 < nro_ack_delay o3" "0 < nro_heartbeat_interval o3"
    using d by (simp_all add: o3_def)
  then have "0 < nro_ack_every o4" "0 < nro_ack_delay o4" "0 < nro_heartbeat_interval o4"
    by (simp_all add: o4_def)
  then show ?thesis by (simp add: norm negotiated_ok_def mt_def)
qed

lemma negotiated_normalized_id:
  assumes "negotiated_ok n"
  shows "negotiated_normalized n = n"
proof -
  from assms have pos: "nro_ack_every n \<noteq> 0" "nro_ack_delay n \<noteq> 0" "nro_heartbeat_interval n \<noteq> 0"
    "\<not> nro_heartbeat_timeout n < saturating_mul (nro_heartbeat_interval n) 2"
    by (simp_all add: negotiated_ok_def word_greater_zero_iff)
  with saturating_double_pos[of "nro_heartbeat_interval n"] have "nro_heartbeat_timeout n \<noteq> 0" by simp
  with pos show ?thesis by (simp add: negotiated_normalized_def)
qed

end
