(* ===== verification/RecoveryProtocol.thy ===== *)
theory RecoveryProtocol
  imports RecoveryOptions ByteIO WireCodec
begin

text \<open>
  \<open>src/src/recovery_protocol.rs\<close>: the attach request and response that follow a version 3
  handshake, and the payloads of the control stream. \<open>new_recovery_token\<close> draws random bytes;
  tokens are parameters of the operations that need fresh ones.
\<close>

definition CONTROL_STREAM_ID :: u32 where "CONTROL_STREAM_ID = - 1"
definition CONTROL_TYPE_ACK :: u8 where "CONTROL_TYPE_ACK = 1"
definition CONTROL_TYPE_PING :: u8 where "CONTROL_TYPE_PING = 2"
definition CONTROL_TYPE_CLOSE :: u8 where "CONTROL_TYPE_CLOSE = 3"
definition ATTACH_MODE_NEW :: u8 where "ATTACH_MODE_NEW = 1"
definition ATTACH_MODE_RESUME :: u8 where "ATTACH_MODE_RESUME = 2"
definition ATTACH_STATUS_OK :: u8 where "ATTACH_STATUS_OK = 1"
definition ATTACH_STATUS_REJECTED :: u8 where "ATTACH_STATUS_REJECTED = 2"
definition RECOVERY_TOKEN_LEN :: nat where "RECOVERY_TOKEN_LEN = 16"
definition ATTACH_REQUEST_LEN :: nat where "ATTACH_REQUEST_LEN = 44"
definition ATTACH_RESPONSE_LEN :: nat where "ATTACH_RESPONSE_LEN = 60"
definition CONTROL_ACK_FRAME_LEN :: nat where "CONTROL_ACK_FRAME_LEN = 9"
definition CONTROL_PING_LEN :: nat where "CONTROL_PING_LEN = 1"
definition CONTROL_CLOSE_LEN :: nat where "CONTROL_CLOSE_LEN = 1"

lemmas control_defs = CONTROL_TYPE_ACK_def CONTROL_TYPE_PING_def CONTROL_TYPE_CLOSE_def
  CONTROL_ACK_FRAME_LEN_def CONTROL_PING_LEN_def CONTROL_CLOSE_LEN_def
lemmas attach_len_defs = ATTACH_REQUEST_LEN_def ATTACH_RESPONSE_LEN_def RECOVERY_TOKEN_LEN_def

type_synonym recovery_token = bytes

record attach_request =
  arq_mode :: u8
  arq_connection_id :: recovery_token
  arq_resume_secret :: recovery_token
  arq_last_recv_seq :: u64

record attach_response =
  arp_status :: u8
  arp_connection_id :: recovery_token
  arp_resume_secret :: recovery_token
  arp_last_recv_seq :: u64
  arp_negotiated :: negotiated_recovery_options

definition default_attach_request :: attach_request where
  "default_attach_request = \<lparr>arq_mode = 0, arq_connection_id = replicate 16 0,
     arq_resume_secret = replicate 16 0, arq_last_recv_seq = 0\<rparr>"

definition default_attach_response :: attach_response where
  "default_attach_response = \<lparr>arp_status = 0, arp_connection_id = replicate 16 0,
     arp_resume_secret = replicate 16 0, arp_last_recv_seq = 0, arp_negotiated = default_negotiated\<rparr>"

section \<open>Negotiated options in milliseconds\<close>

definition duration_to_millis :: "duration \<Rightarrow> am_error + u32" where
  "duration_to_millis d =
     (if d = 0 then Inl (InvalidMessage ''recovery duration must be positive'')
      else let millis = max (as_millis d) 1
           in if 2 ^ 32 - 1 < millis then Inl (InvalidMessage ''recovery duration too large'')
              else Inr (word_of_nat millis))"

record encoded_options =
  eo_ack_every :: u32
  eo_ack_delay_ms :: u32
  eo_heartbeat_interval_ms :: u32
  eo_heartbeat_timeout_ms :: u32

definition encode_negotiated :: "negotiated_recovery_options \<Rightarrow> am_error + encoded_options" where
  "encode_negotiated opts0 =
     (let opts = negotiated_normalized opts0
      in try_res (duration_to_millis (nro_ack_delay opts)) (\<lambda>ack_delay.
         try_res (duration_to_millis (nro_heartbeat_interval opts)) (\<lambda>interval.
         try_res (duration_to_millis (nro_heartbeat_timeout opts)) (\<lambda>timeout.
           Inr \<lparr>eo_ack_every = nro_ack_every opts, eo_ack_delay_ms = ack_delay,
                eo_heartbeat_interval_ms = interval, eo_heartbeat_timeout_ms = timeout\<rparr>))))"

definition decode_negotiated ::
  "u32 \<Rightarrow> u32 \<Rightarrow> u32 \<Rightarrow> u32 \<Rightarrow> am_error + negotiated_recovery_options" where
  "decode_negotiated ack_every ack_delay_ms interval_ms timeout_ms =
     (let opts = \<lparr>nro_ack_every = ack_every,
                  nro_ack_delay = from_millis (unat ack_delay_ms),
                  nro_heartbeat_interval = from_millis (unat interval_ms),
                  nro_heartbeat_timeout = from_millis (unat timeout_ms)\<rparr>
      in if nro_ack_every opts = 0
         then Inl (InvalidMessage ''negotiated ack_every must be positive'')
         else if nro_ack_delay opts = 0
         then Inl (InvalidMessage ''negotiated ack_delay must be positive'')
         else if nro_heartbeat_interval opts = 0
         then Inl (InvalidMessage ''negotiated heartbeat_interval must be positive'')
         else if nro_heartbeat_timeout opts < saturating_mul (nro_heartbeat_interval opts) 2
         then Inl (InvalidMessage ''negotiated heartbeat_timeout too small'')
         else Inr opts)"

section \<open>Attach request and response\<close>

definition attach_request_bytes :: "attach_request \<Rightarrow> bytes" where
  [wire_defs]: "attach_request_bytes req =
     [arq_mode req, 0, 0, 0] @ arq_connection_id req @ arq_resume_secret req @
     be64 (arq_last_recv_seq req)"

definition write_attach_request :: "attach_request \<Rightarrow> writer \<Rightarrow> (am_error + unit) \<times> writer" where
  "write_attach_request req w =
     (case write_all (attach_request_bytes req) w of
        (Inl e, w') \<Rightarrow> (Inl e, w') | (Inr _, w') \<Rightarrow> (flush w', w'))"

definition parse_attach_request :: "bytes \<Rightarrow> attach_request" where
  [wire_defs]: "parse_attach_request buf =
     \<lparr>arq_mode = buf ! 0, arq_connection_id = slice 4 20 buf, arq_resume_secret = slice 20 36 buf,
      arq_last_recv_seq = from_be64 (slice 36 44 buf)\<rparr>"

definition read_attach_request :: "reader \<Rightarrow> am_error + (attach_request \<times> reader)" where
  "read_attach_request r =
     try_res (read_exact ATTACH_REQUEST_LEN r) (\<lambda>(buf, r'). Inr (parse_attach_request buf, r'))"

definition attach_response_bytes :: "attach_response \<Rightarrow> encoded_options \<Rightarrow> bytes" where
  [wire_defs]: "attach_response_bytes resp enc =
     [arp_status resp, 0, 0, 0] @ arp_connection_id resp @ arp_resume_secret resp @
     be64 (arp_last_recv_seq resp) @ be32 (eo_ack_every enc) @ be32 (eo_ack_delay_ms enc) @
     be32 (eo_heartbeat_interval_ms enc) @ be32 (eo_heartbeat_timeout_ms enc)"

definition write_attach_response :: "attach_response \<Rightarrow> writer \<Rightarrow> (am_error + unit) \<times> writer" where
  "write_attach_response resp w =
     (case encode_negotiated (arp_negotiated resp) of
        Inl e \<Rightarrow> (Inl e, w)
      | Inr enc \<Rightarrow> (case write_all (attach_response_bytes resp enc) w of
          (Inl e, w') \<Rightarrow> (Inl e, w') | (Inr _, w') \<Rightarrow> (flush w', w')))"

definition parse_attach_response :: "bytes \<Rightarrow> am_error + attach_response" where
  [wire_defs]: "parse_attach_response buf =
     try_res (decode_negotiated (from_be32 (slice 44 48 buf)) (from_be32 (slice 48 52 buf))
                (from_be32 (slice 52 56 buf)) (from_be32 (slice 56 60 buf))) (\<lambda>negotiated.
       Inr \<lparr>arp_status = buf ! 0, arp_connection_id = slice 4 20 buf,
            arp_resume_secret = slice 20 36 buf,
            arp_last_recv_seq = from_be64 (slice 36 44 buf), arp_negotiated = negotiated\<rparr>)"

definition read_attach_response :: "reader \<Rightarrow> am_error + (attach_response \<times> reader)" where
  "read_attach_response r =
     try_res (read_exact ATTACH_RESPONSE_LEN r) (\<lambda>(buf, r').
       try_res (parse_attach_response buf) (\<lambda>resp. Inr (resp, r')))"

section \<open>Control payloads\<close>

definition build_ack_control_payload :: "u64 \<Rightarrow> bytes" where
  "build_ack_control_payload last_recv_seq = CONTROL_TYPE_ACK # be64 last_recv_seq"

definition build_ping_control_payload :: bytes where
  "build_ping_control_payload = [CONTROL_TYPE_PING]"

definition build_close_control_payload :: bytes where
  "build_close_control_payload = [CONTROL_TYPE_CLOSE]"

definition parse_control_payload :: "bytes \<Rightarrow> am_error + (u8 \<times> u64)" where
  "parse_control_payload payload =
     (case payload of
        [] \<Rightarrow> Inl (InvalidMessage ''empty control payload'')
      | kind # _ \<Rightarrow>
          if kind = CONTROL_TYPE_ACK then
            (if length payload \<noteq> CONTROL_ACK_FRAME_LEN
             then Inl (InvalidMessage ''invalid ack control payload length'')
             else Inr (kind, from_be64 (slice 1 9 payload)))
          else if kind = CONTROL_TYPE_PING then
            (if length payload \<noteq> CONTROL_PING_LEN
             then Inl (InvalidMessage ''invalid heartbeat control payload length'')
             else Inr (kind, 0))
          else if kind = CONTROL_TYPE_CLOSE then
            (if length payload \<noteq> CONTROL_CLOSE_LEN
             then Inl (InvalidMessage ''invalid close control payload length'')
             else Inr (kind, 0))
          else Inl (InvalidMessage ''unknown control frame type''))"

section \<open>Round trips\<close>

lemma parse_control_build [simp]:
  "parse_control_payload (build_ack_control_payload n) = Inr (CONTROL_TYPE_ACK, n)"
  "parse_control_payload build_ping_control_payload = Inr (CONTROL_TYPE_PING, 0)"
  "parse_control_payload build_close_control_payload = Inr (CONTROL_TYPE_CLOSE, 0)"
  by (simp_all add: parse_control_payload_def build_ack_control_payload_def
      build_ping_control_payload_def build_close_control_payload_def control_defs slice_def)

text \<open>The parser accepts nothing but what the three builders produce.\<close>

lemma parse_control_sound:
  assumes "parse_control_payload p = Inr (k, n)"
  shows "p = build_ack_control_payload n \<and> k = CONTROL_TYPE_ACK \<or>
    p = build_ping_control_payload \<and> k = CONTROL_TYPE_PING \<and> n = 0 \<or>
    p = build_close_control_payload \<and> k = CONTROL_TYPE_CLOSE \<and> n = 0"
proof (cases p)
  case Nil
  with assms show ?thesis by (simp add: parse_control_payload_def)
next
  case (Cons b q)
  have "be64 (from_be64 (take 8 q)) = q" if "length q = 8"
    using that be64_from_be64[of q] by simp
  with Cons assms show ?thesis
    by (auto simp: parse_control_payload_def build_ack_control_payload_def control_defs
        build_ping_control_payload_def build_close_control_payload_def slice_def split: if_splits)
qed

definition attach_request_ok :: "attach_request \<Rightarrow> bool" where
  "attach_request_ok req \<longleftrightarrow>
     length (arq_connection_id req) = 16 \<and> length (arq_resume_secret req) = 16"

lemma length_attach_request [simp]: "attach_request_ok req \<Longrightarrow> length (attach_request_bytes req) = 44"
  by (simp add: wire_defs attach_request_ok_def)

lemma parse_attach_request_bytes [simp]:
  "attach_request_ok req \<Longrightarrow> parse_attach_request (attach_request_bytes req) = req"
  by (simp add: wire_defs attach_request_ok_def slice_def)

interpretation attach_req: fixed_codec 44 attach_request_bytes
  "\<lambda>bs. Some (parse_attach_request bs)" attach_request_ok
  by unfold_locales simp_all

definition attach_response_ok :: "attach_response \<times> encoded_options \<Rightarrow> bool" where
  "attach_response_ok x \<longleftrightarrow> (case x of (resp, enc) \<Rightarrow>
     length (arp_connection_id resp) = 16 \<and> length (arp_resume_secret resp) = 16 \<and>
     decode_negotiated (eo_ack_every enc) (eo_ack_delay_ms enc) (eo_heartbeat_interval_ms enc)
       (eo_heartbeat_timeout_ms enc) = Inr (arp_negotiated resp))"

lemma length_attach_response [simp]:
  "length (arp_connection_id resp) = 16 \<Longrightarrow> length (arp_resume_secret resp) = 16 \<Longrightarrow>
   length (attach_response_bytes resp enc) = 60"
  by (simp add: wire_defs)

lemma parse_attach_response_bytes:
  assumes "length (arp_connection_id resp) = 16" "length (arp_resume_secret resp) = 16"
  shows "parse_attach_response (attach_response_bytes resp enc) =
    try_res (decode_negotiated (eo_ack_every enc) (eo_ack_delay_ms enc)
      (eo_heartbeat_interval_ms enc) (eo_heartbeat_timeout_ms enc))
      (\<lambda>n. Inr (resp\<lparr>arp_negotiated := n\<rparr>))"
  using assms
  by (cases "decode_negotiated (eo_ack_every enc) (eo_ack_delay_ms enc)
      (eo_heartbeat_interval_ms enc) (eo_heartbeat_timeout_ms enc)")
    (simp_all add: wire_defs slice_def)

section \<open>The millisecond rounding\<close>

definition in_millis :: "duration \<Rightarrow> bool" where
  "in_millis d \<longleftrightarrow> 0 < d \<and> as_millis d < 2 ^ 32"

lemma duration_to_millis_Inr:
  "duration_to_millis d = Inr m \<longleftrightarrow> in_millis d \<and> m = word_of_nat (max (as_millis d) 1)"
  by (auto simp: duration_to_millis_def in_millis_def Let_def)

lemma duration_to_millis_unat:
  "duration_to_millis d = Inr m \<Longrightarrow> unat m = max (as_millis d) 1"
  by (auto simp: duration_to_millis_Inr in_millis_def unat_of_nat)

lemma decode_negotiated_Inr:
  assumes "decode_negotiated a d i t = Inr n"
  shows "negotiated_ok n" "n = \<lparr>nro_ack_every = a, nro_ack_delay = from_millis (unat d),
    nro_heartbeat_interval = from_millis (unat i), nro_heartbeat_timeout = from_millis (unat t)\<rparr>"
  using assms
  by (auto simp: decode_negotiated_def negotiated_ok_def Let_def word_greater_zero_iff split: if_splits)

lemma saturating_millis: "saturating_mul (from_millis (unat (i :: u32))) 2 = from_millis (2 * unat i)"
proof -
  have "unat i * 1000000 * 2 \<le> DURATION_MAX"
    using unat_u32_bound[of i] by (simp add: DURATION_MAX_def)
  then show ?thesis by (simp add: saturating_mul_def from_millis_def)
qed

lemma decode_negotiated_iff:
  "is_ok (decode_negotiated a d i t) \<longleftrightarrow> a \<noteq> 0 \<and> d \<noteq> 0 \<and> i \<noteq> 0 \<and> 2 * unat i \<le> unat t"
  by (auto simp: decode_negotiated_def Let_def saturating_millis)
    (auto simp: from_millis_def unat_eq_0)

lemma encode_negotiated_Inr:
  assumes "encode_negotiated opts = Inr enc" "n = negotiated_normalized opts"
  shows "eo_ack_every enc = nro_ack_every n" "in_millis (nro_ack_delay n)"
    "in_millis (nro_heartbeat_interval n)" "in_millis (nro_heartbeat_timeout n)"
    "unat (eo_ack_delay_ms enc) = max (as_millis (nro_ack_delay n)) 1"
    "unat (eo_heartbeat_interval_ms enc) = max (as_millis (nro_heartbeat_interval n)) 1"
    "unat (eo_heartbeat_timeout_ms enc) = max (as_millis (nro_heartbeat_timeout n)) 1"
proof -
  from assms obtain a i t where e:
    "duration_to_millis (nro_ack_delay n) = Inr a" "duration_to_millis (nro_heartbeat_interval n) = Inr i"
    "duration_to_millis (nro_heartbeat_timeout n) = Inr t"
    "enc = \<lparr>eo_ack_every = nro_ack_every n, eo_ack_delay_ms = a, eo_heartbeat_interval_ms = i,
            eo_heartbeat_timeout_ms = t\<rparr>"
    by (auto simp: encode_negotiated_def Let_def try_res_Inr_iff)
  from e(4) show "eo_ack_every enc = nro_ack_every n" by simp
  from e(1-3) show "in_millis (nro_ack_delay n)" "in_millis (nro_heartbeat_interval n)"
    "in_millis (nro_heartbeat_timeout n)" by (simp_all add: duration_to_millis_Inr)
  from e duration_to_millis_unat show "unat (eo_ack_delay_ms enc) = max (as_millis (nro_ack_delay n)) 1"
    "unat (eo_heartbeat_interval_ms enc) = max (as_millis (nro_heartbeat_interval n)) 1"
    "unat (eo_heartbeat_timeout_ms enc) = max (as_millis (nro_heartbeat_timeout n)) 1" by simp_all
qed

text \<open>Options in whole milliseconds keep the relation of the timeout to the interval.\<close>

lemma encoded_timeout_ok:
  assumes "encode_negotiated opts = Inr enc" "n = negotiated_normalized opts"
    "from_millis 1 \<le> nro_heartbeat_interval n"
  shows "2 * unat (eo_heartbeat_interval_ms enc) \<le> unat (eo_heartbeat_timeout_ms enc)"
proof -
  note enc = encode_negotiated_Inr[OF assms(1,2)]
  let ?i = "nro_heartbeat_interval n" and ?t = "nro_heartbeat_timeout n"
  have "saturating_mul ?i 2 \<le> ?t"
    using negotiated_normalized_ok[of opts] by (simp add: negotiated_ok_def assms(2))
  moreover from enc(4) have "?t < DURATION_MAX"
    by (simp add: in_millis_def as_millis_def DURATION_MAX_def div_less_iff_less_mult)
  ultimately have "?i * 2 \<le> ?t" by (simp add: saturating_mul_def min_def split: if_splits)
  then have "2 * as_millis ?i \<le> as_millis ?t" by (simp add: as_millis_def)
  moreover have "1 \<le> as_millis ?i" using assms(3) by (simp add: as_millis_def from_millis_def)
  ultimately show ?thesis using enc(6,7) by simp
qed

section \<open>Properties\<close>

definition in_whole_millis :: "negotiated_recovery_options \<Rightarrow> negotiated_recovery_options" where
  "in_whole_millis n = n\<lparr>nro_ack_delay := from_millis (max (as_millis (nro_ack_delay n)) 1),
     nro_heartbeat_interval := from_millis (max (as_millis (nro_heartbeat_interval n)) 1),
     nro_heartbeat_timeout := from_millis (max (as_millis (nro_heartbeat_timeout n)) 1)\<rparr>"

text \<open>
  The attach request round trip. What the server reads, over however many chunks, is the request
  the client wrote, and the bytes after it are left for the connection.
\<close>

theorem attach_request_roundtrip:
  assumes "attach_request_ok req" "good_writer w" "wr_out w = []"
    and "write_attach_request req w = (res, w')" "rd_bytes r = wr_out w' @ rest"
  shows "res = Inr () \<and> length (wr_out w') = ATTACH_REQUEST_LEN \<and>
    (\<exists>r'. read_attach_request r = Inr (req, r') \<and> rd_bytes r' = rest \<and> rd_end r' = rd_end r)"
proof -
  from assms(2,3,4) have w: "res = Inr ()" "wr_out w' = attach_request_bytes req"
    by (auto simp: write_attach_request_def)
  with assms(1,5) obtain r' where "read_exact 44 r = Inr (attach_request_bytes req, r')"
    "rd_bytes r' = rest" "rd_end r' = rd_end r"
    by (metis length_attach_request read_exact_append)
  with w assms(1) show ?thesis by (auto simp: read_attach_request_def attach_len_defs)
qed

lemma attach_request_roundtrip_witness:
  "let req = default_attach_request\<lparr>arq_last_recv_seq := 5\<rparr>;
       w = \<lparr>wr_out = [], wr_room = None, wr_flush_error = None, wr_shut = False\<rparr>;
       bs = wr_out (snd (write_attach_request req w))
   in \<exists>r'. read_attach_request \<lparr>rd_chunks = [take 7 bs, drop 7 bs @ [9]], rd_end = None\<rparr> = Inr (req, r') \<and>
        rd_bytes r' = [9]"
proof -
  define req where "req = default_attach_request\<lparr>arq_last_recv_seq := 5\<rparr>"
  define w where "w = \<lparr>wr_out = [], wr_room = None, wr_flush_error = None, wr_shut = False\<rparr>"
  have "attach_request_ok req" "good_writer w" "wr_out w = []"
    by (simp_all add: req_def w_def attach_request_ok_def default_attach_request_def good_writer_def)
  from attach_request_roundtrip[OF this prod.collapse[symmetric],
      of "\<lparr>rd_chunks = [take 7 (wr_out (snd (write_attach_request req w))),
           drop 7 (wr_out (snd (write_attach_request req w))) @ [9]], rd_end = None\<rparr>" "[9]"]
  show ?thesis unfolding Let_def req_def[symmetric] w_def[symmetric]
    by (auto simp: rd_bytes_def)
qed

text \<open>What the client reads of a response written: the decoding of its encoded options decides.\<close>

lemma read_written_response:
  assumes "length (arp_connection_id resp) = 16" "length (arp_resume_secret resp) = 16"
    and w: "good_writer w" "wr_out w = []" "write_attach_response resp w = (Inr (), w')"
    and r: "rd_bytes r = wr_out w' @ rest"
  obtains enc r' where "encode_negotiated (arp_negotiated resp) = Inr enc"
    "read_attach_response r = try_res (decode_negotiated (eo_ack_every enc) (eo_ack_delay_ms enc)
       (eo_heartbeat_interval_ms enc) (eo_heartbeat_timeout_ms enc)) (\<lambda>n. Inr (resp\<lparr>arp_negotiated := n\<rparr>, r'))"
    "rd_bytes r' = rest" "rd_end r' = rd_end r"
proof -
  from w obtain enc where enc: "encode_negotiated (arp_negotiated resp) = Inr enc"
    and out: "wr_out w' = attach_response_bytes resp enc"
    by (auto simp: write_attach_response_def split: sum.splits)
  from r out assms(1,2) obtain r' where r': "read_exact 60 r = Inr (attach_response_bytes resp enc, r')"
    "rd_bytes r' = rest" "rd_end r' = rd_end r"
    by (metis length_attach_response read_exact_append)
  have "read_attach_response r = try_res (decode_negotiated (eo_ack_every enc) (eo_ack_delay_ms enc)
       (eo_heartbeat_interval_ms enc) (eo_heartbeat_timeout_ms enc)) (\<lambda>n. Inr (resp\<lparr>arp_negotiated := n\<rparr>, r'))"
    using r'(1) parse_attach_response_bytes[OF assms(1,2), of enc]
    by (cases "decode_negotiated (eo_ack_every enc) (eo_ack_delay_ms enc) (eo_heartbeat_interval_ms enc)
          (eo_heartbeat_timeout_ms enc)")
      (simp_all add: read_attach_response_def attach_len_defs)
  with enc r'(2,3) that show thesis by blast
qed

text \<open>
  C20: The attach response round trip. If the options of the server encode and its heartbeat interval
  is at least a millisecond, the client reads back the response, with every duration cut to whole
  milliseconds (and at least one).
\<close>

theorem attach_response_roundtrip:
  assumes "length (arp_connection_id resp) = 16" "length (arp_resume_secret resp) = 16"
    and n: "n = negotiated_normalized (arp_negotiated resp)" "from_millis 1 \<le> nro_heartbeat_interval n"
    and w: "good_writer w" "wr_out w = []" "write_attach_response resp w = (Inr (), w')"
    and "rd_bytes r = wr_out w' @ rest"
  shows "\<exists>r'. read_attach_response r = Inr (resp\<lparr>arp_negotiated := in_whole_millis n\<rparr>, r') \<and>
    rd_bytes r' = rest \<and> rd_end r' = rd_end r"
proof -
  obtain enc r' where enc: "encode_negotiated (arp_negotiated resp) = Inr enc"
    and read: "read_attach_response r = try_res (decode_negotiated (eo_ack_every enc) (eo_ack_delay_ms enc)
       (eo_heartbeat_interval_ms enc) (eo_heartbeat_timeout_ms enc)) (\<lambda>n. Inr (resp\<lparr>arp_negotiated := n\<rparr>, r'))"
    and r': "rd_bytes r' = rest" "rd_end r' = rd_end r"
    using read_written_response[OF assms(1,2) w assms(8)] by blast
  note e = encode_negotiated_Inr[OF enc n(1)]
  have "is_ok (decode_negotiated (eo_ack_every enc) (eo_ack_delay_ms enc) (eo_heartbeat_interval_ms enc)
      (eo_heartbeat_timeout_ms enc))"
    using e encoded_timeout_ok[OF enc n] negotiated_normalized_ok[of "arp_negotiated resp"]
    by (auto simp: decode_negotiated_iff negotiated_ok_def n(1) word_greater_zero_iff simp flip: unat_eq_0)
  then obtain n' where n': "decode_negotiated (eo_ack_every enc) (eo_ack_delay_ms enc)
      (eo_heartbeat_interval_ms enc) (eo_heartbeat_timeout_ms enc) = Inr n'"
    by (cases "decode_negotiated (eo_ack_every enc) (eo_ack_delay_ms enc) (eo_heartbeat_interval_ms enc)
      (eo_heartbeat_timeout_ms enc)") auto
  with decode_negotiated_Inr(2)[OF n'] e have "n' = in_whole_millis n"
    by (simp add: in_whole_millis_def)
  with n' read r' show ?thesis by simp
qed

definition ex_attach_response :: attach_response where
  "ex_attach_response = \<lparr>arp_status = ATTACH_STATUS_OK, arp_connection_id = replicate 16 1,
     arp_resume_secret = replicate 16 2, arp_last_recv_seq = 7,
     arp_negotiated = \<lparr>nro_ack_every = 64, nro_ack_delay = from_millis 20,
       nro_heartbeat_interval = from_millis 30000, nro_heartbeat_timeout = from_millis 90000\<rparr>\<rparr>"

lemma ex_negotiated:
  "negotiated_normalized (arp_negotiated ex_attach_response) = arp_negotiated ex_attach_response"
  by (rule negotiated_normalized_id)
    (simp add: ex_attach_response_def negotiated_ok_def saturating_mul_def DURATION_MAX_def from_millis_def)

lemma attach_response_roundtrip_witness:
  "let w = \<lparr>wr_out = [], wr_room = None, wr_flush_error = None, wr_shut = False\<rparr>;
       bs = wr_out (snd (write_attach_response ex_attach_response w))
   in \<exists>r'. read_attach_response \<lparr>rd_chunks = [bs], rd_end = None\<rparr> = Inr (ex_attach_response, r')"
proof -
  define w where "w = \<lparr>wr_out = [], wr_room = None, wr_flush_error = None, wr_shut = False\<rparr>"
  obtain res w' where wr: "write_attach_response ex_attach_response w = (res, w')" by fastforce
  have good: "good_writer w" "wr_out w = []" by (simp_all add: w_def good_writer_def)
  have "is_ok (encode_negotiated (arp_negotiated ex_attach_response))"
    by (simp add: encode_negotiated_def ex_negotiated)
      (simp add: ex_attach_response_def duration_to_millis_def from_millis_def as_millis_def Let_def)
  then obtain enc where "encode_negotiated (arp_negotiated ex_attach_response) = Inr enc"
    by (cases "encode_negotiated (arp_negotiated ex_attach_response)") auto
  with wr good have res: "res = Inr ()" by (auto simp: write_attach_response_def)
  have whole: "in_whole_millis (arp_negotiated ex_attach_response) = arp_negotiated ex_attach_response"
    by (simp add: in_whole_millis_def ex_attach_response_def from_millis_def as_millis_def)
  have lens: "length (arp_connection_id ex_attach_response) = 16" "length (arp_resume_secret ex_attach_response) = 16"
    "from_millis 1 \<le> nro_heartbeat_interval (arp_negotiated ex_attach_response)"
    by (simp_all add: ex_attach_response_def from_millis_def)
  have "\<exists>r'. read_attach_response \<lparr>rd_chunks = [wr_out w'], rd_end = None\<rparr> =
      Inr (ex_attach_response\<lparr>arp_negotiated := in_whole_millis (arp_negotiated ex_attach_response)\<rparr>, r')"
    using attach_response_roundtrip[OF lens(1,2) ex_negotiated[symmetric] lens(3) good wr[unfolded res],
        of "\<lparr>rd_chunks = [wr_out w'], rd_end = None\<rparr>" "[]"] by (auto simp: rd_bytes_def)
  with wr whole show ?thesis by (simp add: w_def)
qed

text \<open>
  C23: Which attach responses a client rejects. Whatever the options of a server, its response is
  rejected exactly if the heartbeat interval in effect is under 1 ms and the timeout under 2 ms:
  both are then sent as 1 ms, and the timeout is found too small, although on the server it is at least
  twice the interval. With any other options the client accepts the response.
\<close>

theorem response_rejected_iff:
  assumes "length (arp_connection_id resp) = 16" "length (arp_resume_secret resp) = 16"
    and so: "arp_negotiated resp = server_negotiated so"
    and w: "good_writer w" "wr_out w = []" "write_attach_response resp w = (Inr (), w')"
    and r: "rd_bytes r = wr_out w' @ rest"
  defines "opts \<equiv> server_normalized so"
  shows "saturating_mul (sro_heartbeat_interval opts) 2 \<le> sro_heartbeat_timeout opts \<and>
    (if sro_heartbeat_interval opts < from_millis 1 \<and> sro_heartbeat_timeout opts < from_millis 2
     then read_attach_response r = Inl (InvalidMessage ''negotiated heartbeat_timeout too small'')
     else is_ok (read_attach_response r))"
proof -
  let ?n = "server_negotiated so"
  obtain enc r' where enc: "encode_negotiated ?n = Inr enc"
    and read: "read_attach_response r = try_res (decode_negotiated (eo_ack_every enc) (eo_ack_delay_ms enc)
       (eo_heartbeat_interval_ms enc) (eo_heartbeat_timeout_ms enc)) (\<lambda>n. Inr (resp\<lparr>arp_negotiated := n\<rparr>, r'))"
    using read_written_response[OF assms(1,2) w r] so by metis
  have n: "?n = negotiated_normalized ?n" by (simp add: negotiated_normalized_id server_negotiated_ok)
  note e = encode_negotiated_Inr[OF enc n]
  have hb: "nro_heartbeat_interval ?n = sro_heartbeat_interval opts" "nro_heartbeat_timeout ?n = sro_heartbeat_timeout opts"
    by (simp_all add: server_negotiated_def opts_def Let_def)
  have ok: "negotiated_ok ?n" by (rule server_negotiated_ok)
  have nz: "eo_ack_every enc \<noteq> 0" "eo_ack_delay_ms enc \<noteq> 0" "eo_heartbeat_interval_ms enc \<noteq> 0"
    using e ok by (auto simp: negotiated_ok_def word_greater_zero_iff simp flip: unat_eq_0)
  have too_small: "decode_negotiated (eo_ack_every enc) (eo_ack_delay_ms enc) (eo_heartbeat_interval_ms enc)
      (eo_heartbeat_timeout_ms enc) = Inl (InvalidMessage ''negotiated heartbeat_timeout too small'')"
    if "unat (eo_heartbeat_timeout_ms enc) < 2 * unat (eo_heartbeat_interval_ms enc)"
    using that nz by (auto simp: decode_negotiated_def Let_def saturating_millis)
      (auto simp: from_millis_def unat_eq_0 unat_gt_0)
  show ?thesis
  proof (cases "sro_heartbeat_interval opts < from_millis 1 \<and> sro_heartbeat_timeout opts < from_millis 2")
    case True
    then have "as_millis (sro_heartbeat_interval opts) < 1" "as_millis (sro_heartbeat_timeout opts) < 2"
      by (simp_all add: as_millis_def from_millis_def div_less_iff_less_mult del: One_nat_def)
    with e(6,7) too_small read True ok show ?thesis by (simp add: hb negotiated_ok_def)
  next
    case False
    have "2 * unat (eo_heartbeat_interval_ms enc) \<le> unat (eo_heartbeat_timeout_ms enc)"
    proof (cases "sro_heartbeat_interval opts < from_millis 1")
      case True
      with False e(6,7) show ?thesis by (simp add: hb as_millis_def from_millis_def)
    next
      case False
      with encoded_timeout_ok[OF enc n] show ?thesis by (simp add: hb)
    qed
    with nz have "is_ok (decode_negotiated (eo_ack_every enc) (eo_ack_delay_ms enc) (eo_heartbeat_interval_ms enc)
        (eo_heartbeat_timeout_ms enc))" by (simp add: decode_negotiated_iff)
    then have "is_ok (read_attach_response r)" unfolding read
      by (cases "decode_negotiated (eo_ack_every enc) (eo_ack_delay_ms enc) (eo_heartbeat_interval_ms enc)
        (eo_heartbeat_timeout_ms enc)") auto
    moreover have "saturating_mul (sro_heartbeat_interval opts) 2 \<le> sro_heartbeat_timeout opts"
      using ok by (simp add: hb negotiated_ok_def)
    ultimately show ?thesis unfolding if_not_P[OF False] by blast
  qed
qed

text \<open>A heartbeat of 0.6 ms with a timeout of 1.2 ms is rejected, with the default timeout it is accepted.\<close>

definition ex_sub_millisecond :: "duration \<Rightarrow> server_recovery_options" where
  "ex_sub_millisecond t = default_server_recovery\<lparr>sro_heartbeat_interval := 600000, sro_heartbeat_timeout := t\<rparr>"

lemma response_rejected_iff_witness:
  "server_normalized (ex_sub_millisecond 1200000) = ex_sub_millisecond 1200000 \<and>
   (\<exists>bs. read_attach_response \<lparr>rd_chunks = [bs], rd_end = None\<rparr> =
      Inl (InvalidMessage ''negotiated heartbeat_timeout too small'')) \<and>
   server_normalized (ex_sub_millisecond 90000000000) = ex_sub_millisecond 90000000000 \<and>
   (\<exists>bs. is_ok (read_attach_response \<lparr>rd_chunks = [bs], rd_end = None\<rparr>))"
proof -
  define w where "w = \<lparr>wr_out = [], wr_room = None, wr_flush_error = None, wr_shut = False\<rparr>"
  have good: "good_writer w" "wr_out w = []" by (simp_all add: w_def good_writer_def)
  have res: "server_normalized (ex_sub_millisecond t) = ex_sub_millisecond t \<and>
      (\<exists>bs. if t < 2000000
        then read_attach_response \<lparr>rd_chunks = [bs], rd_end = None\<rparr> =
          Inl (InvalidMessage ''negotiated heartbeat_timeout too small'')
        else is_ok (read_attach_response \<lparr>rd_chunks = [bs], rd_end = None\<rparr>))"
    if t: "1200000 \<le> t" "t \<le> 90000000000" for t
  proof -
    define resp where "resp = ex_attach_response\<lparr>arp_negotiated := server_negotiated (ex_sub_millisecond t)\<rparr>"
    have "server_options_ok (ex_sub_millisecond t)"
      using t by (simp add: server_options_ok_def ex_sub_millisecond_def default_server_recovery_def saturating_mul_def
          DURATION_MAX_def duration_defs DEFAULT_MAX_FRAME_def)
    from server_normalized_id[OF this] have norm: "server_normalized (ex_sub_millisecond t) = ex_sub_millisecond t" .
    have lens: "length (arp_connection_id resp) = 16" "length (arp_resume_secret resp) = 16"
      "arp_negotiated resp = server_negotiated (ex_sub_millisecond t)"
      by (simp_all add: resp_def ex_attach_response_def)
    obtain res w' where wr: "write_attach_response resp w = (res, w')" by fastforce
    have neg: "server_negotiated (ex_sub_millisecond t) = \<lparr>nro_ack_every = 64, nro_ack_delay = 20000000,
        nro_heartbeat_interval = 600000, nro_heartbeat_timeout = t\<rparr>"
      unfolding server_negotiated_def norm Let_def
      by (simp add: ex_sub_millisecond_def default_server_recovery_def duration_defs)
    have "negotiated_normalized (arp_negotiated resp) = arp_negotiated resp"
      by (simp add: lens(3) negotiated_normalized_id server_negotiated_ok)
    then have "is_ok (encode_negotiated (arp_negotiated resp))"
      using t by (simp add: encode_negotiated_def) (simp add: lens(3) neg duration_to_millis_def as_millis_def Let_def)
    then obtain enc where "encode_negotiated (arp_negotiated resp) = Inr enc"
      by (cases "encode_negotiated (arp_negotiated resp)") auto
    with wr good have "res = Inr ()" by (auto simp: write_attach_response_def)
    from response_rejected_iff[OF lens good wr[unfolded this], of "\<lparr>rd_chunks = [wr_out w'], rd_end = None\<rparr>" "[]"]
    have "if t < 2000000
        then read_attach_response \<lparr>rd_chunks = [wr_out w'], rd_end = None\<rparr> =
          Inl (InvalidMessage ''negotiated heartbeat_timeout too small'')
        else is_ok (read_attach_response \<lparr>rd_chunks = [wr_out w'], rd_end = None\<rparr>)"
      unfolding norm by (simp add: rd_bytes_def ex_sub_millisecond_def from_millis_def)
    with norm show ?thesis by blast
  qed
  from res[of 1200000] res[of 90000000000] show ?thesis by simp
qed

text \<open>
  The control stream. The parser accepts exactly the three payloads that a peer builds, and
  returns what was put in: an ACK with its sequence number, PING, or CLOSE.
\<close>

theorem control_payload_exact:
  "parse_control_payload p = Inr (k, n) \<longleftrightarrow>
     p = build_ack_control_payload n \<and> k = CONTROL_TYPE_ACK \<or>
     p = build_ping_control_payload \<and> k = CONTROL_TYPE_PING \<and> n = 0 \<or>
     p = build_close_control_payload \<and> k = CONTROL_TYPE_CLOSE \<and> n = 0"
  using parse_control_sound[of p k n] by auto

end
