(* ===== verification/Replay.thy ===== *)
theory Replay
  imports Frame
begin

text \<open>
  \<open>src/src/replay.rs\<close>: the frames sent and not yet acknowledged. Sequence numbers are \<open>u64\<close>
  words; the byte counts (\<open>i64\<close> in the code) are integers, sizes converted with \<open>as_i64\<close>.
  \<open>replay_store\<close> is the contract that the writer of \<open>RecoveryWriter\<close> relies on, and
  \<open>ReplayBuffer\<close> is interpreted as a model of it.
\<close>

record frame_record =
  fr_stream_id :: u32
  fr_seq :: u64
  fr_flags :: u8
  fr_payload :: bytes
  fr_size :: int

text \<open>What \<open>stage\<close> did with a frame (\<open>Staged\<close>).\<close>

datatype staged = Kept frame_record | Full bytes

record replay_buffer =
  rb_header_len :: nat
  rb_max_bytes :: int
  rb_last_acked :: u64
  rb_used_bytes :: int
  rb_queue :: "frame_record list"

definition new_replay_buffer :: "u8 \<Rightarrow> int \<Rightarrow> replay_buffer" where
  "new_replay_buffer version max_bytes =
     \<lparr>rb_header_len = (case frame_header_len_for_version version of
         Inr len \<Rightarrow> len | Inl _ \<Rightarrow> FRAME_HEADER_LEN_V3),
      rb_max_bytes = max_bytes, rb_last_acked = 0, rb_used_bytes = 0, rb_queue = []\<rparr>"

definition stage ::
  "u32 \<Rightarrow> u64 \<Rightarrow> u8 \<Rightarrow> bytes \<Rightarrow> replay_buffer \<Rightarrow> (am_error + staged) \<times> replay_buffer" where
  "stage stream_id seq flags payload b =
     (let size = as_i64 (rb_header_len b + length payload)
      in if 0 < rb_max_bytes b \<and> rb_max_bytes b < rb_used_bytes b + size
         then (if size \<le> rb_max_bytes b then (Inr (Full payload), b)
               else (Inl (FrameTooLarge (length payload)), b))
         else if seq \<le> rb_last_acked b
         then (Inl (InvalidMessage ''replay frame seq already acknowledged''), b)
         else if rb_queue b \<noteq> [] \<and> seq \<le> fr_seq (last (rb_queue b))
         then (Inl (InvalidMessage ''replay frame seq must increase monotonically''), b)
         else let record = \<lparr>fr_stream_id = stream_id, fr_seq = seq, fr_flags = flags,
                            fr_payload = payload, fr_size = size\<rparr>
              in (Inr (Kept record), b\<lparr>rb_queue := rb_queue b @ [record],
                                      rb_used_bytes := rb_used_bytes b + size\<rparr>))"

text \<open>The loop of \<open>ack\<close> that drops the acknowledged frames from the front.\<close>

fun drop_acked :: "u64 \<Rightarrow> frame_record list \<Rightarrow> int \<Rightarrow> int \<times> frame_record list" where
  "drop_acked last_seq [] dropped = (dropped, [])"
| "drop_acked last_seq (front # rest) dropped =
     (if last_seq < fr_seq front then (dropped, front # rest)
      else drop_acked last_seq rest (dropped + fr_size front))"

definition ack :: "u64 \<Rightarrow> replay_buffer \<Rightarrow> int \<times> replay_buffer" where
  "ack last_seq b =
     (if last_seq = 0 then (0, b)
      else if last_seq \<le> rb_last_acked b then (0, b)
      else (case drop_acked last_seq (rb_queue b) 0 of
        (dropped, queue) \<Rightarrow> (dropped, b\<lparr>rb_last_acked := last_seq, rb_queue := queue,
                                       rb_used_bytes := rb_used_bytes b - dropped\<rparr>)))"

definition snapshot_from :: "u64 \<Rightarrow> replay_buffer \<Rightarrow> frame_record list" where
  "snapshot_from last_seq b =
     drop (partition_point (\<lambda>frame. fr_seq frame \<le> last_seq) (rb_queue b)) (rb_queue b)"

definition last_acked_seq :: "replay_buffer \<Rightarrow> u64" where "last_acked_seq b = rb_last_acked b"
definition queued_count :: "replay_buffer \<Rightarrow> nat" where "queued_count b = length (rb_queue b)"
definition used_bytes :: "replay_buffer \<Rightarrow> int" where "used_bytes b = rb_used_bytes b"

section \<open>The invariant\<close>

text \<open>
  The queue is strictly sorted by sequence number, after the last one acknowledged; the bytes in
  use are the sizes of its frames, and they keep to the limit.
\<close>

definition replay_ok :: "replay_buffer \<Rightarrow> bool" where
  "replay_ok b \<longleftrightarrow>
     sorted_wrt (<) (map fr_seq (rb_queue b)) \<and>
     (\<forall>f \<in> set (rb_queue b). rb_last_acked b < fr_seq f \<and>
        fr_size f = as_i64 (rb_header_len b + length (fr_payload f))) \<and>
     rb_used_bytes b = sum_list (map fr_size (rb_queue b)) \<and>
     (0 < rb_max_bytes b \<longrightarrow> rb_used_bytes b \<le> rb_max_bytes b)"

lemma replay_ok_new [invar_intros]: "replay_ok (new_replay_buffer v mx)"
  by (simp add: replay_ok_def new_replay_buffer_def)

lemma sorted_last_less:
  "sorted_wrt (<) (map f (xs @ [y :: 'a])) \<longleftrightarrow>
     sorted_wrt (<) (map f xs) \<and> (xs \<noteq> [] \<longrightarrow> f (last xs) < (f y :: 'b::linorder))"
proof (cases xs rule: rev_cases)
  case (snoc ys z)
  then show ?thesis by (auto simp: sorted_wrt_append intro: less_trans)
qed simp

lemma stage_cases:
  obtains (kept) r where "stage sid seq fl pl b = (Inr (Kept r), b\<lparr>rb_queue := rb_queue b @ [r],
        rb_used_bytes := rb_used_bytes b + fr_size r\<rparr>)"
      "r = \<lparr>fr_stream_id = sid, fr_seq = seq, fr_flags = fl, fr_payload = pl,
            fr_size = as_i64 (rb_header_len b + length pl)\<rparr>"
      "rb_last_acked b < seq" "rb_queue b \<noteq> [] \<longrightarrow> fr_seq (last (rb_queue b)) < seq"
      "0 < rb_max_bytes b \<longrightarrow> rb_used_bytes b + fr_size r \<le> rb_max_bytes b"
  | (full) "stage sid seq fl pl b = (Inr (Full pl), b)" "0 < rb_max_bytes b"
      "rb_max_bytes b < rb_used_bytes b + as_i64 (rb_header_len b + length pl)"
      "as_i64 (rb_header_len b + length pl) \<le> rb_max_bytes b"
  | (failed) e where "stage sid seq fl pl b = (Inl e, b)"
      "0 < rb_max_bytes b \<and> rb_max_bytes b < as_i64 (rb_header_len b + length pl) \<and>
         rb_max_bytes b < rb_used_bytes b + as_i64 (rb_header_len b + length pl) \<and> e = FrameTooLarge (length pl)
       \<or> seq \<le> rb_last_acked b \<or> rb_queue b \<noteq> [] \<and> seq \<le> fr_seq (last (rb_queue b))"
proof -
  let ?size = "as_i64 (rb_header_len b + length pl)"
  consider (a) "0 < rb_max_bytes b \<and> rb_max_bytes b < rb_used_bytes b + ?size" "?size \<le> rb_max_bytes b"
    | (b) "0 < rb_max_bytes b \<and> rb_max_bytes b < rb_used_bytes b + ?size" "\<not> ?size \<le> rb_max_bytes b"
    | (c) "\<not> (0 < rb_max_bytes b \<and> rb_max_bytes b < rb_used_bytes b + ?size)"
        "seq \<le> rb_last_acked b"
    | (c') "\<not> (0 < rb_max_bytes b \<and> rb_max_bytes b < rb_used_bytes b + ?size)"
        "\<not> seq \<le> rb_last_acked b" "rb_queue b \<noteq> [] \<and> seq \<le> fr_seq (last (rb_queue b))"
    | (d) "\<not> (0 < rb_max_bytes b \<and> rb_max_bytes b < rb_used_bytes b + ?size)"
        "\<not> seq \<le> rb_last_acked b" "\<not> (rb_queue b \<noteq> [] \<and> seq \<le> fr_seq (last (rb_queue b)))"
    by blast
  then show thesis
  proof cases
    case a
    with full show thesis by (simp add: stage_def)
  next
    case b
    with failed show thesis by (simp add: stage_def not_le)
  next
    case c
    with failed show thesis by (simp add: stage_def Let_def)
  next
    case c'
    with failed show thesis by (simp add: stage_def Let_def)
  next
    case d
    then show thesis by (intro kept[OF _ refl]) (auto simp: stage_def Let_def)
  qed
qed

lemma stage_ok [invar_intros]:
  assumes "replay_ok b" "stage sid seq fl pl b = (res, b')"
  shows "replay_ok b'"
proof (cases rule: stage_cases[of sid seq fl pl b])
  case (kept r)
  with assms(1) have "sorted_wrt (<) (map fr_seq (rb_queue b @ [r]))"
    by (simp only: replay_ok_def sorted_last_less) simp
  moreover from kept assms(2) have "b' = b\<lparr>rb_queue := rb_queue b @ [r],
      rb_used_bytes := rb_used_bytes b + fr_size r\<rparr>" by simp
  ultimately show ?thesis using kept assms(1) by (simp add: replay_ok_def)
qed (use assms in auto)

lemma drop_acked_eq:
  "drop_acked n q d = (d + sum_list (map fr_size (takeWhile (\<lambda>f. fr_seq f \<le> n) q)),
                       dropWhile (\<lambda>f. fr_seq f \<le> n) q)"
  by (induction n q d rule: drop_acked.induct) auto

lemma dropWhile_sorted:
  "sorted_wrt (<) (map f xs) \<Longrightarrow> dropWhile (\<lambda>x. f x \<le> (n :: 'b::linorder)) xs = filter (\<lambda>x. n < f x) xs"
proof (induction xs)
  case (Cons x xs)
  show ?case
  proof (cases "f x \<le> n")
    case True
    with Cons show ?thesis by (simp add: not_less[symmetric])
  next
    case False
    with Cons(2) have "\<forall>y \<in> set xs. n < f y" by (auto simp: not_le)
    with False show ?thesis by (simp add: not_le)
  qed
qed simp

lemma ack_queue:
  assumes "replay_ok b"
  shows "rb_queue (snd (ack n b)) = filter (\<lambda>f. n < fr_seq f) (rb_queue b)"
    "rb_last_acked (snd (ack n b)) = max (rb_last_acked b) n"
    "rb_max_bytes (snd (ack n b)) = rb_max_bytes b" "rb_header_len (snd (ack n b)) = rb_header_len b"
proof -
  have all: "rb_queue b = filter (\<lambda>f. n < fr_seq f) (rb_queue b)" if "n \<le> rb_last_acked b"
    using assms that by (auto simp: replay_ok_def intro!: filter_True[symmetric])
  have zero: "n = 0 \<Longrightarrow> n \<le> rb_last_acked b" by simp
  show "rb_queue (snd (ack n b)) = filter (\<lambda>f. n < fr_seq f) (rb_queue b)"
    using assms all zero by (auto simp: ack_def drop_acked_eq replay_ok_def dropWhile_sorted)
  show "rb_last_acked (snd (ack n b)) = max (rb_last_acked b) n"
    using zero by (auto simp: ack_def drop_acked_eq max_def not_le)
qed (auto simp: ack_def drop_acked_eq)

lemma sum_list_filter_le: "\<forall>x \<in> set xs. 0 \<le> f x \<Longrightarrow> sum_list (map f (filter P xs)) \<le> sum_list (map f xs)"
  for f :: "'a \<Rightarrow> int"
  by (induction xs) auto

lemma takeWhile_dropWhile_sum:
  "sum_list (map f (takeWhile P xs)) + sum_list (map f (dropWhile P xs)) = sum_list (map f xs)"
  for f :: "'a \<Rightarrow> int"
  by (metis map_append sum_list_append takeWhile_dropWhile_id)

text \<open>Frame sizes below \<open>2^63\<close> are what an allocation can hold (\<open>isize::MAX\<close>).\<close>

definition sizes_ok :: "replay_buffer \<Rightarrow> bool" where
  "sizes_ok b \<longleftrightarrow> (\<forall>f \<in> set (rb_queue b). 0 \<le> fr_size f)"

lemma ack_ok [invar_intros]:
  assumes "replay_ok b" "sizes_ok b"
  shows "replay_ok (snd (ack n b))" "sizes_ok (snd (ack n b))"
proof -
  note q = ack_queue[OF assms(1), of n]
  have used: "rb_used_bytes (snd (ack n b)) = sum_list (map fr_size (rb_queue (snd (ack n b))))"
    using assms(1) takeWhile_dropWhile_sum[of fr_size "\<lambda>f. fr_seq f \<le> n" "rb_queue b"]
    by (auto simp: ack_def drop_acked_eq replay_ok_def)
  with q sum_list_filter_le[of "rb_queue b" fr_size "\<lambda>f. n < fr_seq f"] assms
  have "rb_used_bytes (snd (ack n b)) \<le> rb_used_bytes b" by (simp add: sizes_ok_def replay_ok_def)
  with used q assms(1) show "replay_ok (snd (ack n b))"
    by (auto simp: replay_ok_def sorted_wrt_map intro!: sorted_wrt_filter)
  show "sizes_ok (snd (ack n b))" using q assms(2) by (simp add: sizes_ok_def)
qed

lemma partition_point_sorted:
  assumes "sorted_wrt (<) (map f xs)"
  shows "drop (partition_point (\<lambda>x. f x \<le> n) xs) xs = filter (\<lambda>x. (n :: 'b::linorder) < f x) xs"
proof -
  have "f (xs ! i) \<le> n" if "i \<le> j" "j < length xs" "f (xs ! j) \<le> n" for i j
  proof (cases "i = j")
    case False
    with that sorted_wrt_nth_less[OF assms, of i j] have "f (xs ! i) < f (xs ! j)" by simp
    with that show ?thesis by simp
  qed (use that in simp)
  then have "partition_point (\<lambda>x. f x \<le> n) xs = length (takeWhile (\<lambda>x. f x \<le> n) xs)"
    by (rule partition_point_takeWhile)
  with assms show ?thesis by (simp add: drop_length_takeWhile dropWhile_sorted del: sorted_wrt_map)
qed

lemma snapshot_from_filter:
  "replay_ok b \<Longrightarrow> snapshot_from n b = filter (\<lambda>f. n < fr_seq f) (rb_queue b)"
  unfolding snapshot_from_def replay_ok_def by (blast intro: partition_point_sorted)

section \<open>The contract with the writer\<close>

text \<open>
  What the writer relies on: a frame that is kept goes to the end of the frames held, under the
  sequence number given, which is above every acknowledged one; any other outcome changes nothing;
  an acknowledgement drops exactly the frames up to its number; a snapshot returns the frames after
  a number. From this, against the history \<open>hist\<close> of all frames ever kept: what is held is always
  the part of the history that is not acknowledged.
\<close>

locale replay_store =
  fixes stage_op :: "u32 \<Rightarrow> u64 \<Rightarrow> u8 \<Rightarrow> bytes \<Rightarrow> 's \<Rightarrow> (am_error + staged) \<times> 's"
    and ack_op :: "u64 \<Rightarrow> 's \<Rightarrow> int \<times> 's"
    and snap_op :: "u64 \<Rightarrow> 's \<Rightarrow> frame_record list"
    and frames :: "'s \<Rightarrow> frame_record list"
    and acked :: "'s \<Rightarrow> u64"
    and inv :: "'s \<Rightarrow> bool"
    and fits :: "bytes \<Rightarrow> 's \<Rightarrow> bool"
  assumes stage_inv: "inv s \<Longrightarrow> fits pl s \<Longrightarrow> inv (snd (stage_op sid seq fl pl s))"
    and ack_inv: "inv s \<Longrightarrow> inv (snd (ack_op n s))"
    and stage_kept: "inv s \<Longrightarrow> stage_op sid seq fl pl s = (Inr (Kept r), s') \<Longrightarrow>
      frames s' = frames s @ [r] \<and> acked s' = acked s \<and> acked s < seq \<and>
      fr_stream_id r = sid \<and> fr_seq r = seq \<and> fr_flags r = fl \<and> fr_payload r = pl"
    and stage_other: "stage_op sid seq fl pl s = (res, s') \<Longrightarrow> (\<nexists>r. res = Inr (Kept r)) \<Longrightarrow> s' = s"
    and ack_frames: "inv s \<Longrightarrow> frames (snd (ack_op n s)) = filter (\<lambda>f. n < fr_seq f) (frames s)"
    and ack_acked: "inv s \<Longrightarrow> acked (snd (ack_op n s)) = max (acked s) n"
    and snap_frames: "inv s \<Longrightarrow> snap_op n s = filter (\<lambda>f. n < fr_seq f) (frames s)"
begin

definition holds :: "frame_record list \<Rightarrow> 's \<Rightarrow> bool" where
  "holds hist s \<longleftrightarrow> inv s \<and> frames s = filter (\<lambda>f. acked s < fr_seq f) hist"

lemma holds_stage:
  assumes "holds hist s" "fits pl s" "stage_op sid seq fl pl s = (Inr (Kept r), s')"
  shows "holds (hist @ [r]) s'"
  using assms stage_kept[OF _ assms(3)] stage_inv[of s pl sid seq fl] by (auto simp: holds_def)

lemma holds_other:
  "holds hist s \<Longrightarrow> stage_op sid seq fl pl s = (res, s') \<Longrightarrow> (\<nexists>r. res = Inr (Kept r)) \<Longrightarrow> holds hist s'"
  using stage_other by blast

lemma holds_ack: "holds hist s \<Longrightarrow> holds hist (snd (ack_op n s))"
  using ack_inv[of s n] by (auto simp: holds_def ack_frames ack_acked intro!: filter_cong)

lemma holds_snapshot: "holds hist s \<Longrightarrow> acked s \<le> n \<Longrightarrow> snap_op n s = filter (\<lambda>f. n < fr_seq f) hist"
  by (auto simp: holds_def snap_frames intro!: filter_cong)

text \<open>Acknowledging what the peer has and then replaying the rest loses nothing.\<close>

lemma ack_then_snapshot:
  assumes "holds hist s" "acked s \<le> n"
  shows "snap_op n (snd (ack_op n s)) = filter (\<lambda>f. n < fr_seq f) hist"
proof -
  have "acked (snd (ack_op n s)) = n" using assms by (simp add: holds_def ack_acked max_def)
  with holds_snapshot[OF holds_ack[OF assms(1)], of n n] show ?thesis by simp
qed

end

text \<open>
  The buffer satisfies the contract while the sizes of its frames are not negative as \<open>i64\<close>, which
  any payload that fits in memory guarantees (\<open>small_payload\<close>).
\<close>

definition buffer_ok :: "replay_buffer \<Rightarrow> bool" where
  "buffer_ok b \<longleftrightarrow> replay_ok b \<and> sizes_ok b"

lemma buffer_ok_new [invar_intros]: "buffer_ok (new_replay_buffer v mx)"
  by (simp add: buffer_ok_def replay_ok_new) (simp add: sizes_ok_def new_replay_buffer_def)

lemma stage_result_cases:
  assumes "stage sid seq fl pl b = (res, b')"
  shows "(\<nexists>r. res = Inr (Kept r)) \<Longrightarrow> b' = b"
  using assms by (cases rule: stage_cases[of sid seq fl pl b]) auto

lemma stage_keptD:
  assumes "stage sid seq fl pl b = (Inr (Kept r), b')"
  shows "rb_queue b' = rb_queue b @ [r]" "rb_last_acked b' = rb_last_acked b" "rb_last_acked b < seq"
    "fr_stream_id r = sid" "fr_seq r = seq" "fr_flags r = fl" "fr_payload r = pl"
    "fr_size r = as_i64 (rb_header_len b + length pl)"
proof -
  have "b' = b\<lparr>rb_queue := rb_queue b @ [r], rb_used_bytes := rb_used_bytes b + fr_size r\<rparr> \<and>
    r = \<lparr>fr_stream_id = sid, fr_seq = seq, fr_flags = fl, fr_payload = pl,
         fr_size = as_i64 (rb_header_len b + length pl)\<rparr> \<and> rb_last_acked b < seq"
    by (cases rule: stage_cases[of sid seq fl pl b]) (use assms in auto)
  then show "rb_queue b' = rb_queue b @ [r]" "rb_last_acked b' = rb_last_acked b" "rb_last_acked b < seq"
    "fr_stream_id r = sid" "fr_seq r = seq" "fr_flags r = fl" "fr_payload r = pl"
    "fr_size r = as_i64 (rb_header_len b + length pl)" by simp_all
qed

definition small_payload :: "bytes \<Rightarrow> replay_buffer \<Rightarrow> bool" where
  "small_payload pl b \<longleftrightarrow> 0 \<le> as_i64 (rb_header_len b + length pl)"

lemma small_payloadI: "rb_header_len b + length pl < 2 ^ 63 \<Longrightarrow> small_payload pl b"
  by (simp add: small_payload_def)

lemma stage_buffer_ok [invar_intros]:
  assumes "buffer_ok b" "small_payload pl b"
  shows "buffer_ok (snd (stage sid seq fl pl b))"
proof -
  obtain res b' where s: "stage sid seq fl pl b = (res, b')" by fastforce
  with assms(1) have "replay_ok b'" by (auto simp: buffer_ok_def intro: stage_ok)
  moreover have "sizes_ok b'"
  proof (cases "\<exists>r. res = Inr (Kept r)")
    case True
    then obtain r where "res = Inr (Kept r)" by blast
    with stage_keptD[of sid seq fl pl b r b'] s assms show ?thesis
      by (auto simp: sizes_ok_def buffer_ok_def small_payload_def)
  qed (use stage_result_cases[OF s] assms in \<open>simp add: buffer_ok_def\<close>)
  ultimately show ?thesis by (simp add: s buffer_ok_def)
qed

interpretation replay: replay_store stage ack snapshot_from rb_queue rb_last_acked buffer_ok small_payload
proof
  fix s pl sid seq fl assume "buffer_ok s" "small_payload pl s"
  then show "buffer_ok (snd (stage sid seq fl pl s))" by (rule stage_buffer_ok)
next
  fix s n assume "buffer_ok s"
  then show "buffer_ok (snd (ack n s))" by (simp add: buffer_ok_def ack_ok)
next
  fix s sid seq fl pl r s'
  assume "stage sid seq fl pl s = (Inr (Kept r), s')"
  from stage_keptD[OF this] show "rb_queue s' = rb_queue s @ [r] \<and> rb_last_acked s' = rb_last_acked s \<and>
      rb_last_acked s < seq \<and> fr_stream_id r = sid \<and> fr_seq r = seq \<and> fr_flags r = fl \<and> fr_payload r = pl"
    by simp
next
  fix s sid seq fl pl res s'
  assume "stage sid seq fl pl s = (res, s')" "\<nexists>r. res = Inr (Kept r)"
  then show "s' = s" by (rule stage_result_cases)
qed (simp_all add: buffer_ok_def ack_queue snapshot_from_filter)

section \<open>Properties\<close>

text \<open>A run of operations on a buffer, with the history of the frames it kept.\<close>

datatype replay_op = StageOp u32 u64 u8 bytes | AckOp u64

fun replay_step :: "replay_op \<Rightarrow> replay_buffer \<times> frame_record list \<Rightarrow> replay_buffer \<times> frame_record list" where
  "replay_step (StageOp sid seq fl pl) (b, hist) =
     (case stage sid seq fl pl b of
        (Inr (Kept r), b') \<Rightarrow> (b', hist @ [r]) | (_, b') \<Rightarrow> (b', hist))"
| "replay_step (AckOp n) (b, hist) = (snd (ack n b), hist)"

definition replay_run :: "replay_op list \<Rightarrow> replay_buffer \<Rightarrow> replay_buffer \<times> frame_record list" where
  "replay_run ops b = fold replay_step ops (b, [])"

text \<open>The payloads of the run are of a length that memory can hold.\<close>

definition op_fits :: "replay_op \<Rightarrow> bool" where
  "op_fits op = (case op of StageOp _ _ _ pl \<Rightarrow> length pl < 2 ^ 62 | AckOp _ \<Rightarrow> True)"

lemma rb_header_len_stage [simp]: "rb_header_len (snd (stage sid seq fl pl b)) = rb_header_len b"
  by (cases rule: stage_cases[of sid seq fl pl b]) auto

lemma rb_max_bytes_stage [simp]: "rb_max_bytes (snd (stage sid seq fl pl b)) = rb_max_bytes b"
  by (cases rule: stage_cases[of sid seq fl pl b]) auto

lemma replay_step_holds:
  assumes "replay.holds hist b" "op_fits op" "rb_header_len b \<le> 18"
    "replay_step op (b, hist) = (b', hist')"
  shows "replay.holds hist' b' \<and> rb_header_len b' \<le> 18 \<and> rb_max_bytes b' = rb_max_bytes b"
proof (cases op)
  case (StageOp sid seq fl pl)
  with assms(2,3) have fits: "small_payload pl b" by (auto simp: op_fits_def intro!: small_payloadI)
  obtain res b1 where s: "stage sid seq fl pl b = (res, b1)" by fastforce
  with StageOp assms(4) have b': "b' = b1" by (auto split: sum.splits staged.splits)
  have "rb_header_len b1 = rb_header_len b" "rb_max_bytes b1 = rb_max_bytes b"
    using rb_header_len_stage[of sid seq fl pl b] rb_max_bytes_stage[of sid seq fl pl b] s by simp_all
  moreover have "replay.holds hist' b1"
  proof (cases "\<exists>r. res = Inr (Kept r)")
    case True
    with StageOp assms s replay.holds_stage[OF assms(1) fits] show ?thesis by auto
  next
    case False
    with StageOp assms(4) s have "hist' = hist" by (auto split: sum.splits staged.splits)
    with replay.holds_other[OF assms(1) s False] show ?thesis by simp
  qed
  ultimately show ?thesis using assms(3) b' by simp
next
  case (AckOp n)
  with assms replay.holds_ack[OF assms(1), of n] show ?thesis
    by (auto simp: replay.holds_def buffer_ok_def ack_queue)
qed

lemma replay_fold_holds:
  assumes "replay.holds hist b" "list_all op_fits ops" "rb_header_len b \<le> 18"
    "fold replay_step ops (b, hist) = (b', hist')"
  shows "replay.holds hist' b' \<and> rb_max_bytes b' = rb_max_bytes b"
  using assms
proof (induction ops arbitrary: b hist)
  case Nil
  then show ?case by simp
next
  case (Cons op ops)
  obtain b1 hist1 where s: "replay_step op (b, hist) = (b1, hist1)" by fastforce
  with replay_step_holds[OF Cons(2) _ Cons(4) s] Cons(3)
  have "replay.holds hist1 b1" "rb_header_len b1 \<le> 18" "rb_max_bytes b1 = rb_max_bytes b" by simp_all
  with Cons(1)[OF this(1) _ this(2)] Cons(3,5) s show ?case by simp
qed

lemma new_buffer_header_len: "rb_header_len (new_replay_buffer v mx) \<le> 18"
  by (auto simp: new_replay_buffer_def frame_header_len_for_version_def header_len_defs split: sum.split)

text \<open>
  C7: The replay buffer is the unacknowledged part of the history. After any sequence of \<open>stage\<close> and
  \<open>ack\<close> calls on a new buffer, it holds exactly the frames ever kept whose sequence number is above
  the last one acknowledged, in order, strictly sorted; a resume from any number at or above it gets
  exactly the later frames; and the bytes in use are the sizes of these frames, within the limit.
\<close>

theorem replay_holds_unacknowledged:
  assumes "list_all op_fits ops" "replay_run ops (new_replay_buffer v mx) = (b, hist)"
  shows "rb_queue b = filter (\<lambda>f. last_acked_seq b < fr_seq f) hist \<and>
    sorted_wrt (<) (map fr_seq (rb_queue b)) \<and>
    (\<forall>n. last_acked_seq b \<le> n \<longrightarrow> snapshot_from n b = filter (\<lambda>f. n < fr_seq f) hist) \<and>
    used_bytes b = sum_list (map fr_size (rb_queue b)) \<and> (0 < mx \<longrightarrow> used_bytes b \<le> mx)"
proof -
  have "replay.holds [] (new_replay_buffer v mx)"
    by (simp add: replay.holds_def buffer_ok_new) (simp add: new_replay_buffer_def)
  from replay_fold_holds[OF this assms(1) new_buffer_header_len] assms(2)
  have h: "replay.holds hist b" "rb_max_bytes b = mx"
    by (auto simp: replay_run_def new_replay_buffer_def)
  from h(1) have "rb_queue b = filter (\<lambda>f. rb_last_acked b < fr_seq f) hist" "replay_ok b"
    by (simp_all add: replay.holds_def buffer_ok_def)
  moreover from this(2) have "sorted_wrt (<) (map fr_seq (rb_queue b))"
    "rb_used_bytes b = sum_list (map fr_size (rb_queue b))" "0 < mx \<longrightarrow> rb_used_bytes b \<le> mx"
    unfolding replay_ok_def h(2) by blast+
  moreover note replay.holds_snapshot[OF h(1)]
  ultimately show ?thesis unfolding last_acked_seq_def used_bytes_def by blast
qed

lemma replay_holds_unacknowledged_witness:
  "let (b, hist) = replay_run [StageOp 1 1 0 [7], StageOp 1 2 0 [8], StageOp 1 2 0 [8], AckOp 1]
        (new_replay_buffer 3 100)
   in length hist = 2 \<and> length (rb_queue b) = 1 \<and>
      rb_queue b = filter (\<lambda>f. last_acked_seq b < fr_seq f) hist"
proof -
  let ?ops = "[StageOp 1 1 0 [7], StageOp 1 2 0 [8], StageOp 1 2 0 [8], AckOp 1]"
  obtain b hist where r: "replay_run ?ops (new_replay_buffer 3 100) = (b, hist)" by fastforce
  have "length (snd (replay_run ?ops (new_replay_buffer 3 100))) = 2"
    "length (rb_queue (fst (replay_run ?ops (new_replay_buffer 3 100)))) = 1" by code_simp+
  with r replay_holds_unacknowledged[OF _ r] show ?thesis by (simp add: op_fits_def)
qed

text \<open>
  A frame that has to wait for room waits only for acknowledgements: once the frames held are
  all acknowledged, staging it again keeps it.
\<close>

theorem full_frame_fits_after_ack:
  assumes "buffer_ok b" "rb_queue b \<noteq> []" "stage sid seq fl pl b = (Inr (Full pl'), b')"
    and n: "fr_seq (last (rb_queue b)) \<le> n" "n < seq"
  shows "pl' = pl \<and> b' = b \<and> (\<exists>r. fst (stage sid seq fl pl (snd (ack n b))) = Inr (Kept r))"
proof -
  from assms(3) have full: "pl' = pl" "b' = b" "as_i64 (rb_header_len b + length pl) \<le> rb_max_bytes b"
    by (cases rule: stage_cases[of sid seq fl pl b]; force)+
  from assms(1,2) have "sorted_wrt (<) (map fr_seq (butlast (rb_queue b) @ [last (rb_queue b)]))"
    by (simp add: buffer_ok_def replay_ok_def)
  then have "\<forall>f \<in> set (butlast (rb_queue b)). fr_seq f \<le> fr_seq (last (rb_queue b))"
    by (auto simp: sorted_wrt_append)
  with n(1) have "\<forall>f \<in> set (butlast (rb_queue b) @ [last (rb_queue b)]). fr_seq f \<le> n"
    by (auto simp del: append_butlast_last_id)
  with assms(2) have "\<forall>f \<in> set (rb_queue b). fr_seq f \<le> n" by simp
  with assms(1) have q: "rb_queue (snd (ack n b)) = []"
    by (auto simp: buffer_ok_def ack_queue not_less)
  from assms(1) have "last (rb_queue b) \<in> set (rb_queue b) \<longrightarrow> rb_last_acked b < fr_seq (last (rb_queue b))"
    by (simp add: buffer_ok_def replay_ok_def)
  with assms(1,2) n have "rb_last_acked (snd (ack n b)) = n"
    by (auto simp: buffer_ok_def ack_queue max_def)
  moreover have "replay_ok (snd (ack n b))" using assms(1) by (simp add: buffer_ok_def ack_ok)
  with q have "rb_used_bytes (snd (ack n b)) = 0" by (simp add: replay_ok_def)
  moreover have "rb_header_len (snd (ack n b)) = rb_header_len b" "rb_max_bytes (snd (ack n b)) = rb_max_bytes b"
    using assms(1) by (simp_all add: buffer_ok_def ack_queue)
  ultimately have "\<exists>r. fst (stage sid seq fl pl (snd (ack n b))) = Inr (Kept r)"
    using q n(2) full(3) by (simp add: stage_def Let_def)
  with full show ?thesis by simp
qed

lemma full_frame_fits_after_ack_witness:
  "let b = snd (stage 1 1 0 (replicate 10 0) (new_replay_buffer 3 30))
   in fst (stage 1 2 0 (replicate 10 0) b) = Inr (Full (replicate 10 0)) \<and>
      (\<exists>r. fst (stage 1 2 0 (replicate 10 0) (snd (ack 1 b))) = Inr (Kept r))"
proof -
  define b where "b = snd (stage 1 1 0 (replicate 10 0) (new_replay_buffer 3 30))"
  have "buffer_ok b" unfolding b_def
    by (intro stage_buffer_ok buffer_ok_new small_payloadI)
      (use new_buffer_header_len[of 3 30] in simp)
  moreover have f: "fst (stage 1 2 0 (replicate 10 0) b) = Inr (Full (replicate 10 0))"
    "rb_queue b \<noteq> []" "fr_seq (last (rb_queue b)) \<le> 1" unfolding b_def by code_simp+
  moreover have "stage 1 2 0 (replicate 10 0) b = (Inr (Full (replicate 10 0)), snd (stage 1 2 0 (replicate 10 0) b))"
    using f(1) by (metis prod.collapse)
  ultimately have "\<exists>r. fst (stage 1 2 0 (replicate 10 0) (snd (ack 1 b))) = Inr (Kept r)"
    using full_frame_fits_after_ack[of b 1 2 0 "replicate 10 0" "replicate 10 0" _ 1] by simp
  with f(1) show ?thesis by (simp add: b_def)
qed

end
