(* ===== verification/Debug.thy ===== *)
theory Debug
  imports RecoveryProtocol
begin

text \<open>
  \<open>src/src/debug.rs\<close>: the counters and the last-failure tracking of connections and streams, and
  the snapshots built from them. Atomic counters are \<open>u64\<close> words, whose \<open>fetch_add\<close> wraps. The
  clock (\<open>SystemTime::now\<close>) is a parameter of the operation that reads it.
\<close>

type_synonym system_time = nat

section \<open>Failure codes\<close>

definition FAILURE_STREAM_RECV_TIMEOUT :: string where "FAILURE_STREAM_RECV_TIMEOUT = ''stream.recv_timeout''"
definition FAILURE_STREAM_ENCODE :: string where "FAILURE_STREAM_ENCODE = ''stream.encode''"
definition FAILURE_STREAM_ENQUEUE :: string where "FAILURE_STREAM_ENQUEUE = ''stream.enqueue''"
definition FAILURE_STREAM_DECODE :: string where "FAILURE_STREAM_DECODE = ''stream.decode''"
definition FAILURE_STREAM_PROTOCOL :: string where "FAILURE_STREAM_PROTOCOL = ''stream.protocol''"
definition FAILURE_STREAM_PROTOCOL_REPLY_SEND :: string where
  "FAILURE_STREAM_PROTOCOL_REPLY_SEND = ''stream.protocol_reply_send''"
definition FAILURE_CONNECTION_READER :: string where "FAILURE_CONNECTION_READER = ''connection.reader''"
definition FAILURE_CONNECTION_WRITER :: string where "FAILURE_CONNECTION_WRITER = ''connection.writer''"
definition FAILURE_CONNECTION_READER_ENQUEUE :: string where
  "FAILURE_CONNECTION_READER_ENQUEUE = ''connection.reader_enqueue''"
definition FAILURE_STREAM_IDS_EXHAUSTED :: string where
  "FAILURE_STREAM_IDS_EXHAUSTED = ''connection.stream_ids_exhausted''"
definition FAILURE_HANDLER_ERROR :: string where "FAILURE_HANDLER_ERROR = ''handler.error''"
definition FAILURE_RECOVERY_RESUME :: string where "FAILURE_RECOVERY_RESUME = ''recovery.resume''"
definition FAILURE_RECOVERY_RECONNECT_TERMINAL :: string where
  "FAILURE_RECOVERY_RECONNECT_TERMINAL = ''recovery.reconnect_terminal''"
definition FAILURE_RECOVERY_READ :: string where "FAILURE_RECOVERY_READ = ''recovery.read''"
definition FAILURE_RECOVERY_CONTROL :: string where "FAILURE_RECOVERY_CONTROL = ''recovery.control''"
definition FAILURE_RECOVERY_DATA :: string where "FAILURE_RECOVERY_DATA = ''recovery.data''"
definition FAILURE_RECOVERY_ACK_WRITE :: string where "FAILURE_RECOVERY_ACK_WRITE = ''recovery.ack_write''"
definition FAILURE_RECOVERY_RESUME_WRITE :: string where
  "FAILURE_RECOVERY_RESUME_WRITE = ''recovery.resume_write''"
definition FAILURE_RECOVERY_LIVE_WRITE :: string where "FAILURE_RECOVERY_LIVE_WRITE = ''recovery.live_write''"
definition FAILURE_RECOVERY_PING_WRITE :: string where "FAILURE_RECOVERY_PING_WRITE = ''recovery.ping_write''"

lemmas failure_code_defs = FAILURE_STREAM_RECV_TIMEOUT_def FAILURE_STREAM_ENCODE_def
  FAILURE_STREAM_ENQUEUE_def FAILURE_STREAM_DECODE_def FAILURE_STREAM_PROTOCOL_def
  FAILURE_STREAM_PROTOCOL_REPLY_SEND_def FAILURE_CONNECTION_READER_def
  FAILURE_CONNECTION_WRITER_def FAILURE_CONNECTION_READER_ENQUEUE_def
  FAILURE_STREAM_IDS_EXHAUSTED_def FAILURE_HANDLER_ERROR_def FAILURE_RECOVERY_RESUME_def
  FAILURE_RECOVERY_RECONNECT_TERMINAL_def FAILURE_RECOVERY_READ_def FAILURE_RECOVERY_CONTROL_def
  FAILURE_RECOVERY_DATA_def FAILURE_RECOVERY_ACK_WRITE_def FAILURE_RECOVERY_RESUME_WRITE_def
  FAILURE_RECOVERY_LIVE_WRITE_def FAILURE_RECOVERY_PING_WRITE_def

section \<open>Counters\<close>

record frame_counters =
  fc_frames :: u64
  fc_bytes :: u64
  fc_control_frames :: u64

definition frame_counters_note :: "u32 \<Rightarrow> nat \<Rightarrow> frame_counters \<Rightarrow> frame_counters" where
  "frame_counters_note stream_id wire_bytes c =
     (let c1 = c\<lparr>fc_frames := fc_frames c + 1, fc_bytes := fc_bytes c + word_of_nat wire_bytes\<rparr>
      in if stream_id = CONTROL_STREAM_ID
         then c1\<lparr>fc_control_frames := fc_control_frames c1 + 1\<rparr> else c1)"

record message_counters =
  mc_data_messages_sent :: u64
  mc_data_messages_received :: u64
  mc_protocol_errors :: u64
  mc_protocol_error_reply_send_failure :: u64
  mc_remote_errors :: u64
  mc_decode_errors :: u64
  mc_handler_calls :: u64
  mc_handler_errors :: u64

text \<open>The counter that a caller of \<open>count\<close> selects with its closure.\<close>

datatype msg_counter = DataSent | DataReceived | ProtocolErrors | ReplySendFailure | RemoteErrors
  | DecodeErrors | HandlerCalls | HandlerErrors

fun bump :: "msg_counter \<Rightarrow> message_counters \<Rightarrow> message_counters" where
  "bump DataSent c = c\<lparr>mc_data_messages_sent := mc_data_messages_sent c + 1\<rparr>"
| "bump DataReceived c = c\<lparr>mc_data_messages_received := mc_data_messages_received c + 1\<rparr>"
| "bump ProtocolErrors c = c\<lparr>mc_protocol_errors := mc_protocol_errors c + 1\<rparr>"
| "bump ReplySendFailure c =
     c\<lparr>mc_protocol_error_reply_send_failure := mc_protocol_error_reply_send_failure c + 1\<rparr>"
| "bump RemoteErrors c = c\<lparr>mc_remote_errors := mc_remote_errors c + 1\<rparr>"
| "bump DecodeErrors c = c\<lparr>mc_decode_errors := mc_decode_errors c + 1\<rparr>"
| "bump HandlerCalls c = c\<lparr>mc_handler_calls := mc_handler_calls c + 1\<rparr>"
| "bump HandlerErrors c = c\<lparr>mc_handler_errors := mc_handler_errors c + 1\<rparr>"

section \<open>The last failure\<close>

record failure_record =
  fr_code :: string
  fr_reason :: string
  fr_at :: system_time

type_synonym failure_tracker = "failure_record option"

definition tracker_note :: "system_time \<Rightarrow> string \<Rightarrow> string \<Rightarrow> failure_tracker \<Rightarrow> failure_tracker" where
  "tracker_note now code reason tr =
     (if code = [] \<and> reason = [] then tr
      else let code' = (case tr of Some prev \<Rightarrow> (if code = [] then fr_code prev else code) | None \<Rightarrow> code)
           in Some \<lparr>fr_code = code', fr_reason = reason, fr_at = now\<rparr>)"

definition tracker_last :: "failure_tracker \<Rightarrow> string \<times> string \<times> system_time option" where
  "tracker_last tr = (case tr of
     Some record \<Rightarrow> (fr_code record, fr_reason record, Some (fr_at record))
   | None \<Rightarrow> ([], [], None))"

record conn_counters =
  cd_written :: frame_counters
  cd_read :: frame_counters
  cd_streams_opened :: u64
  cd_streams_closed :: u64
  cd_messages :: message_counters
  cd_reconnect_attempts :: u64
  cd_reconnect_successes :: u64
  cd_reconnect_failures :: u64
  cd_transport_attaches :: u64
  cd_transport_detaches :: u64
  cd_failure :: failure_tracker

record stream_counters =
  sd_messages :: message_counters
  sd_failure :: failure_tracker

definition zero_frame_counters :: frame_counters where
  "zero_frame_counters = \<lparr>fc_frames = 0, fc_bytes = 0, fc_control_frames = 0\<rparr>"

definition zero_message_counters :: message_counters where
  "zero_message_counters = \<lparr>mc_data_messages_sent = 0, mc_data_messages_received = 0,
     mc_protocol_errors = 0, mc_protocol_error_reply_send_failure = 0, mc_remote_errors = 0,
     mc_decode_errors = 0, mc_handler_calls = 0, mc_handler_errors = 0\<rparr>"

definition new_conn_counters :: conn_counters where
  "new_conn_counters = \<lparr>cd_written = zero_frame_counters, cd_read = zero_frame_counters,
     cd_streams_opened = 0, cd_streams_closed = 0, cd_messages = zero_message_counters,
     cd_reconnect_attempts = 0, cd_reconnect_successes = 0, cd_reconnect_failures = 0,
     cd_transport_attaches = 0, cd_transport_detaches = 0, cd_failure = None\<rparr>"

definition new_stream_counters :: stream_counters where
  "new_stream_counters = \<lparr>sd_messages = zero_message_counters, sd_failure = None\<rparr>"

definition conn_note_failure :: "system_time \<Rightarrow> string \<Rightarrow> string \<Rightarrow> conn_counters \<Rightarrow> conn_counters" where
  "conn_note_failure now code reason c = c\<lparr>cd_failure := tracker_note now code reason (cd_failure c)\<rparr>"

definition stream_note_failure ::
  "system_time \<Rightarrow> string \<Rightarrow> string \<Rightarrow> stream_counters \<Rightarrow> stream_counters" where
  "stream_note_failure now code reason c = c\<lparr>sd_failure := tracker_note now code reason (sd_failure c)\<rparr>"

definition note_frame_written :: "u32 \<Rightarrow> nat \<Rightarrow> conn_counters \<Rightarrow> conn_counters" where
  "note_frame_written sid n c = c\<lparr>cd_written := frame_counters_note sid n (cd_written c)\<rparr>"

definition note_frame_read :: "u32 \<Rightarrow> nat \<Rightarrow> conn_counters \<Rightarrow> conn_counters" where
  "note_frame_read sid n c = c\<lparr>cd_read := frame_counters_note sid n (cd_read c)\<rparr>"

definition promote_failure_to :: "system_time \<Rightarrow> stream_counters \<Rightarrow> conn_counters \<Rightarrow> conn_counters" where
  "promote_failure_to now s c = (case sd_failure s of
     Some record \<Rightarrow> (if fr_code record \<noteq> [] then conn_note_failure now (fr_code record) (fr_reason record) c else c)
   | None \<Rightarrow> c)"

section \<open>Snapshots\<close>

record connection_counters =
  cc_streams_opened :: u64
  cc_streams_closed :: u64
  cc_data_messages_sent :: u64
  cc_data_messages_received :: u64
  cc_frames_written :: u64
  cc_frames_read :: u64
  cc_bytes_written :: u64
  cc_bytes_read :: u64
  cc_control_frames_written :: u64
  cc_control_frames_read :: u64
  cc_protocol_errors :: u64
  cc_protocol_error_reply_send_failure :: u64
  cc_remote_errors :: u64
  cc_decode_errors :: u64
  cc_handler_calls :: u64
  cc_handler_errors :: u64
  cc_reconnect_attempts :: u64
  cc_reconnect_successes :: u64
  cc_reconnect_failures :: u64
  cc_transport_attaches :: u64
  cc_transport_detaches :: u64

definition conn_snapshot :: "conn_counters \<Rightarrow> connection_counters" where
  "conn_snapshot c = (let messages = cd_messages c in
     \<lparr>cc_streams_opened = cd_streams_opened c, cc_streams_closed = cd_streams_closed c,
      cc_data_messages_sent = mc_data_messages_sent messages,
      cc_data_messages_received = mc_data_messages_received messages,
      cc_frames_written = fc_frames (cd_written c), cc_frames_read = fc_frames (cd_read c),
      cc_bytes_written = fc_bytes (cd_written c), cc_bytes_read = fc_bytes (cd_read c),
      cc_control_frames_written = fc_control_frames (cd_written c),
      cc_control_frames_read = fc_control_frames (cd_read c),
      cc_protocol_errors = mc_protocol_errors messages,
      cc_protocol_error_reply_send_failure = mc_protocol_error_reply_send_failure messages,
      cc_remote_errors = mc_remote_errors messages, cc_decode_errors = mc_decode_errors messages,
      cc_handler_calls = mc_handler_calls messages, cc_handler_errors = mc_handler_errors messages,
      cc_reconnect_attempts = cd_reconnect_attempts c,
      cc_reconnect_successes = cd_reconnect_successes c,
      cc_reconnect_failures = cd_reconnect_failures c,
      cc_transport_attaches = cd_transport_attaches c,
      cc_transport_detaches = cd_transport_detaches c\<rparr>)"

text \<open>\<open>StreamCounters\<close> of the interface, and the \<open>snapshot\<close> of a stream.\<close>

record stream_snapshot_counters =
  sc_data_messages_sent :: u64
  sc_data_messages_received :: u64
  sc_protocol_errors :: u64
  sc_protocol_error_reply_send_failure :: u64
  sc_remote_errors :: u64
  sc_decode_errors :: u64
  sc_handler_calls :: u64
  sc_handler_errors :: u64

definition stream_snapshot :: "stream_counters \<Rightarrow> stream_snapshot_counters" where
  "stream_snapshot c = (let messages = sd_messages c in
     \<lparr>sc_data_messages_sent = mc_data_messages_sent messages,
      sc_data_messages_received = mc_data_messages_received messages,
      sc_protocol_errors = mc_protocol_errors messages,
      sc_protocol_error_reply_send_failure = mc_protocol_error_reply_send_failure messages,
      sc_remote_errors = mc_remote_errors messages,
      sc_decode_errors = mc_decode_errors messages,
      sc_handler_calls = mc_handler_calls messages,
      sc_handler_errors = mc_handler_errors messages\<rparr>)"

record stream_debug_state =
  sds_id :: u32
  sds_closed :: bool
  sds_last_failure_code :: string
  sds_last_failure :: string
  sds_last_failure_at :: "system_time option"
  sds_recv_timeout :: duration
  sds_inbox_depth :: nat
  sds_incoming_depth :: nat
  sds_handler_q_depth :: nat
  sds_counters :: stream_snapshot_counters

record recovery_debug_state =
  rds_role :: string
  rds_connection_id :: string
  rds_transport_attached :: bool
  rds_transport_gen :: u64
  rds_reconnect_active :: bool
  rds_last_recv_seq :: u64
  rds_last_acked_seq :: u64
  rds_ack_pending :: u32
  rds_ack_due :: bool
  rds_ack_every :: u32
  rds_ack_delay :: duration
  rds_heartbeat_interval :: duration
  rds_heartbeat_timeout :: duration
  rds_replay_queued :: nat
  rds_replay_bytes :: int
  rds_live_queue_depth :: nat
  rds_resume_queue_depth :: nat

record connection_debug_state =
  cds_closed :: bool
  cds_last_failure_code :: string
  cds_last_failure :: string
  cds_last_failure_at :: "system_time option"
  cds_protocol :: u8
  cds_codec_id :: u8
  cds_codec_name :: string
  cds_max_frame :: u32
  cds_stream_count :: nat
  cds_next_send_seq :: u64
  cds_counters :: connection_counters
  cds_streams :: "stream_debug_state list"
  cds_recovery :: "recovery_debug_state option"

definition conn_build_state :: "conn_counters \<Rightarrow> bool \<Rightarrow> u8 \<Rightarrow> u8 \<Rightarrow> string \<Rightarrow> u32 \<Rightarrow> nat \<Rightarrow> u64 \<Rightarrow>
    stream_debug_state list \<Rightarrow> recovery_debug_state option \<Rightarrow> connection_debug_state" where
  "conn_build_state c closed protocol codec cname max_frame stream_count next_send_seq streams rec =
     (case tracker_last (cd_failure c) of (code, reason, time) \<Rightarrow>
       \<lparr>cds_closed = closed, cds_last_failure_code = code, cds_last_failure = reason,
        cds_last_failure_at = time, cds_protocol = protocol, cds_codec_id = codec,
        cds_codec_name = cname, cds_max_frame = max_frame, cds_stream_count = stream_count,
        cds_next_send_seq = next_send_seq, cds_counters = conn_snapshot c, cds_streams = streams,
        cds_recovery = rec\<rparr>)"

definition stream_build_state :: "stream_counters \<Rightarrow> u32 \<Rightarrow> bool \<Rightarrow> duration \<Rightarrow> nat \<Rightarrow> nat \<Rightarrow> nat \<Rightarrow>
    stream_debug_state" where
  "stream_build_state c sid closed recv_timeout inbox incoming handler_q =
     (case tracker_last (sd_failure c) of (code, reason, time) \<Rightarrow>
       \<lparr>sds_id = sid, sds_closed = closed, sds_last_failure_code = code, sds_last_failure = reason,
        sds_last_failure_at = time, sds_recv_timeout = recv_timeout, sds_inbox_depth = inbox,
        sds_incoming_depth = incoming, sds_handler_q_depth = handler_q, sds_counters = stream_snapshot c\<rparr>)"

section \<open>Lemmas\<close>

text \<open>Counting a list of frames adds their number, their sizes and the number of control frames.\<close>

lemma frame_counters_note_fields:
  "fc_frames (frame_counters_note sid n c) = fc_frames c + 1"
  "fc_bytes (frame_counters_note sid n c) = fc_bytes c + word_of_nat n"
  "fc_control_frames (frame_counters_note sid n c) =
     fc_control_frames c + (if sid = CONTROL_STREAM_ID then 1 else 0)"
  by (simp_all add: frame_counters_note_def Let_def)

lemma frame_counters_fold:
  "fold (\<lambda>(sid, n). frame_counters_note sid n) fs c =
     \<lparr>fc_frames = fc_frames c + word_of_nat (length fs),
      fc_bytes = fc_bytes c + word_of_nat (sum_list (map snd fs)),
      fc_control_frames = fc_control_frames c +
        word_of_nat (length (filter (\<lambda>(sid, n). sid = CONTROL_STREAM_ID) fs))\<rparr>"
proof (induction fs arbitrary: c)
  case Nil
  then show ?case by simp
next
  case (Cons f fs)
  obtain sid n where f: "f = (sid, n)" by (cases f)
  show ?case by (simp add: Cons f frame_counters_note_fields)
qed

lemma tracker_note_code:
  "tracker_note now code reason tr = Some r \<Longrightarrow> code \<noteq> [] \<Longrightarrow> fr_code r = code \<and> fr_reason r = reason \<and> fr_at r = now"
  by (auto simp: tracker_note_def Let_def split: if_splits option.splits)

text \<open>The code kept is the last one that was not empty, whatever came after it.\<close>

lemma tracker_note_fold_code:
  assumes "\<forall>(now, code, reason) \<in> set later. code = []"
  shows "fold (\<lambda>(now, code, reason). tracker_note now code reason) later (Some r) \<noteq> None \<and>
    fr_code (the (fold (\<lambda>(now, code, reason). tracker_note now code reason) later (Some r))) = fr_code r"
  using assms
proof (induction later arbitrary: r)
  case Nil
  then show ?case by simp
next
  case (Cons x xs)
  obtain now reason where x: "x = (now, [], reason)" using Cons(2) by (cases x) auto
  show ?case
  proof (cases "reason = []")
    case True
    with Cons x show ?thesis by (simp add: tracker_note_def)
  next
    case False
    with Cons(1)[of "\<lparr>fr_code = fr_code r, fr_reason = reason, fr_at = now\<rparr>"] Cons(2) x show ?thesis
      by (simp add: tracker_note_def)
  qed
qed

lemma note_failure_other_fields [simp]:
  "cd_messages (conn_note_failure now code reason c) = cd_messages c"
  "cd_streams_opened (conn_note_failure now code reason c) = cd_streams_opened c"
  "cd_streams_closed (conn_note_failure now code reason c) = cd_streams_closed c"
  "cd_streams_closed (promote_failure_to now s c) = cd_streams_closed c"
  "cd_streams_opened (promote_failure_to now s c) = cd_streams_opened c"
  by (simp_all add: conn_note_failure_def promote_failure_to_def split: option.split)

text \<open>A failure of a stream survives the removal of the stream in its connection.\<close>

lemma promote_failure:
  assumes "sd_failure s = Some r" "fr_code r \<noteq> []"
  shows "tracker_last (cd_failure (promote_failure_to now s c)) = (fr_code r, fr_reason r, Some now)"
  using assms
  by (simp add: promote_failure_to_def conn_note_failure_def tracker_note_def tracker_last_def
      split: option.split)

end
