(* ===== verification/RecoveryState.thy ===== *)
theory RecoveryState
  imports Replay Debug
begin

text \<open>
  \<open>RecoveryState\<close> of \<open>src/src/recovery.rs\<close>: what one side of a version 3 connection keeps over
  the loss of a transport. Mutexes and atomics are fields of one record, as each operation runs
  under the lock of \<open>fields\<close>. The monotonic clock since \<open>epoch\<close> is the parameter \<open>now\<close>, in
  nanoseconds. The resume connector is code of the client and only its presence is kept here; the
  registry of the server is in \<open>Server\<close>.
\<close>

datatype recovery_role = RoleClient | RoleServer

record recovery_state =
  rs_role :: recovery_role
  rs_connection_id :: recovery_token
  rs_resume_secret :: recovery_token
  rs_replay :: replay_buffer
  rs_resume_depth :: nat
  rs_reconnect_min_backoff :: duration
  rs_reconnect_max_backoff :: duration
  rs_reconnect_timeout :: "duration option"
  rs_detached_ttl :: duration
  rs_reconnect_active :: bool
  rs_ack_every :: u32
  rs_ack_due :: bool
  rs_ack_due_at :: u64
  rs_ack_delay_nanos :: int
  rs_heartbeat_interval_nanos :: int
  rs_heartbeat_timeout_nanos :: int
  rs_has_connector :: bool
  rs_has_registry :: bool
  rs_shared :: negotiated_recovery_options
  rs_last_recv_seq :: u64
  rs_last_ack_sent :: u64
  rs_ack_pending :: u32

definition new_client :: "client_recovery_options \<Rightarrow> negotiated_recovery_options \<Rightarrow> recovery_token \<Rightarrow>
    recovery_token \<Rightarrow> duration option \<Rightarrow> recovery_state" where
  "new_client opts negotiated connection_id resume_secret reconnect_timeout =
     (let normalized = client_normalized opts; neg = negotiated_normalized negotiated in
      \<lparr>rs_role = RoleClient, rs_connection_id = connection_id, rs_resume_secret = resume_secret,
       rs_replay = new_replay_buffer PROTOCOL_VERSION_V3 (cro_max_replay_bytes normalized),
       rs_resume_depth = 0,
       rs_reconnect_min_backoff = cro_reconnect_min_backoff normalized,
       rs_reconnect_max_backoff = cro_reconnect_max_backoff normalized,
       rs_reconnect_timeout = reconnect_timeout, rs_detached_ttl = 0, rs_reconnect_active = False,
       rs_ack_every = nro_ack_every neg, rs_ack_due = False, rs_ack_due_at = 0,
       rs_ack_delay_nanos = as_i64 (nro_ack_delay neg),
       rs_heartbeat_interval_nanos = as_i64 (nro_heartbeat_interval neg),
       rs_heartbeat_timeout_nanos = as_i64 (nro_heartbeat_timeout neg),
       rs_has_connector = True, rs_has_registry = False, rs_shared = neg,
       rs_last_recv_seq = 0, rs_last_ack_sent = 0, rs_ack_pending = 0\<rparr>)"

definition new_server :: "server_recovery_options \<Rightarrow> recovery_token \<Rightarrow> recovery_token \<Rightarrow> recovery_state" where
  "new_server opts connection_id resume_secret =
     (let normalized = server_normalized opts; negotiated = server_negotiated normalized in
      \<lparr>rs_role = RoleServer, rs_connection_id = connection_id, rs_resume_secret = resume_secret,
       rs_replay = new_replay_buffer PROTOCOL_VERSION_V3 (sro_max_replay_bytes normalized),
       rs_resume_depth = 0, rs_reconnect_min_backoff = 0, rs_reconnect_max_backoff = 0,
       rs_reconnect_timeout = None, rs_detached_ttl = sro_detached_ttl normalized,
       rs_reconnect_active = False,
       rs_ack_every = nro_ack_every negotiated, rs_ack_due = False, rs_ack_due_at = 0,
       rs_ack_delay_nanos = as_i64 (nro_ack_delay negotiated),
       rs_heartbeat_interval_nanos = as_i64 (nro_heartbeat_interval negotiated),
       rs_heartbeat_timeout_nanos = as_i64 (nro_heartbeat_timeout negotiated),
       rs_has_connector = False, rs_has_registry = True, rs_shared = negotiated,
       rs_last_recv_seq = 0, rs_last_ack_sent = 0, rs_ack_pending = 0\<rparr>)"

definition last_received :: "recovery_state \<Rightarrow> u64" where "last_received st = rs_last_recv_seq st"

definition ack_received :: "u64 \<Rightarrow> recovery_state \<Rightarrow> recovery_state" where
  "ack_received last_seq st = st\<lparr>rs_replay := snd (ack last_seq (rs_replay st))\<rparr>"

definition negotiated :: "recovery_state \<Rightarrow> negotiated_recovery_options" where
  "negotiated st = rs_shared st"

definition set_negotiated :: "negotiated_recovery_options \<Rightarrow> recovery_state \<Rightarrow> recovery_state" where
  "set_negotiated opts st =
     (let normalized = negotiated_normalized opts in
      st\<lparr>rs_shared := normalized, rs_ack_every := nro_ack_every normalized,
         rs_ack_delay_nanos := as_i64 (nro_ack_delay normalized),
         rs_heartbeat_interval_nanos := as_i64 (nro_heartbeat_interval normalized),
         rs_heartbeat_timeout_nanos := as_i64 (nro_heartbeat_timeout normalized)\<rparr>)"

definition prepare_resume :: "u64 \<Rightarrow> recovery_state \<Rightarrow> frame_record list \<times> recovery_state" where
  "prepare_resume last_seq st =
     (let replay = snd (ack last_seq (rs_replay st)); frames = snapshot_from last_seq replay
      in (frames, st\<lparr>rs_replay := replay, rs_resume_depth := length frames\<rparr>))"

text \<open>\<open>.max(0) as u64\<close> of a stored number of nanoseconds.\<close>

definition nanos_u64 :: "int \<Rightarrow> u64" where "nanos_u64 n = word_of_int (max n 0)"

definition note_received :: "nat \<Rightarrow> u64 \<Rightarrow> recovery_state \<Rightarrow> bool \<times> recovery_state" where
  "note_received now seq st =
     (if seq \<le> rs_last_recv_seq st
      then (True, if rs_last_ack_sent st < rs_last_recv_seq st then st\<lparr>rs_ack_due := True\<rparr> else st)
      else let st1 = st\<lparr>rs_last_recv_seq := seq, rs_ack_pending := rs_ack_pending st + 1\<rparr>;
               ack_every = rs_ack_every st1; ack_delay = nanos_u64 (rs_ack_delay_nanos st1)
           in if ack_every \<le> 1 \<or> ack_every \<le> rs_ack_pending st1 \<or> ack_delay = 0
              then (True, st1\<lparr>rs_ack_due := True, rs_ack_due_at := 0\<rparr>)
              else if rs_ack_due_at st1 = 0
              then (True, st1\<lparr>rs_ack_due_at := word_of_nat now + ack_delay\<rparr>)
              else (False, st1))"

definition next_ack_wait :: "nat \<Rightarrow> recovery_state \<Rightarrow> duration" where
  "next_ack_wait now st =
     (if rs_ack_due st then 0
      else if rs_ack_due_at st = 0 then 0
      else unat (rs_ack_due_at st) - unat (word_of_nat now :: u64))"

definition ack_may_be_due :: "nat \<Rightarrow> recovery_state \<Rightarrow> bool" where
  "ack_may_be_due now st \<longleftrightarrow>
     (if rs_ack_due st then True
      else rs_ack_due_at st \<noteq> 0 \<and> rs_ack_due_at st \<le> word_of_nat now)"

definition take_pending_ack :: "nat \<Rightarrow> recovery_state \<Rightarrow> u64 option \<times> recovery_state" where
  "take_pending_ack now st =
     (if \<not> ack_may_be_due now st then (None, st)
      else if rs_last_recv_seq st \<le> rs_last_ack_sent st
      then (None, st\<lparr>rs_ack_due := False, rs_ack_due_at := 0\<rparr>)
      else (Some (rs_last_recv_seq st),
            st\<lparr>rs_last_ack_sent := rs_last_recv_seq st, rs_ack_pending := 0,
               rs_ack_due := False, rs_ack_due_at := 0\<rparr>))"

definition heartbeat_interval :: "recovery_state \<Rightarrow> duration" where
  "heartbeat_interval st = unat (nanos_u64 (rs_heartbeat_interval_nanos st))"

definition heartbeat_timeout :: "recovery_state \<Rightarrow> duration" where
  "heartbeat_timeout st = unat (nanos_u64 (rs_heartbeat_timeout_nanos st))"

definition hex_digit :: "nat \<Rightarrow> char" where
  "hex_digit n = ''0123456789abcdef'' ! (n mod 16)"

definition hex_bytes :: "bytes \<Rightarrow> string" where
  "hex_bytes bs = concat (map (\<lambda>b. [hex_digit (unat b div 16), hex_digit (unat b)]) bs)"

definition recovery_debug :: "recovery_state \<Rightarrow> u64 \<Rightarrow> bool \<Rightarrow> nat \<Rightarrow> recovery_debug_state" where
  "recovery_debug st transport_gen transport_attached live_queue_depth =
     \<lparr>rds_role = (case rs_role st of RoleClient \<Rightarrow> ''client'' | RoleServer \<Rightarrow> ''server''),
      rds_connection_id = hex_bytes (rs_connection_id st),
      rds_transport_attached = transport_attached, rds_transport_gen = transport_gen,
      rds_reconnect_active = rs_reconnect_active st, rds_last_recv_seq = rs_last_recv_seq st,
      rds_last_acked_seq = last_acked_seq (rs_replay st), rds_ack_pending = rs_ack_pending st,
      rds_ack_due = rs_ack_due st, rds_ack_every = rs_ack_every st,
      rds_ack_delay = unat (nanos_u64 (rs_ack_delay_nanos st)),
      rds_heartbeat_interval = heartbeat_interval st, rds_heartbeat_timeout = heartbeat_timeout st,
      rds_replay_queued = queued_count (rs_replay st), rds_replay_bytes = used_bytes (rs_replay st),
      rds_live_queue_depth = live_queue_depth, rds_resume_queue_depth = rs_resume_depth st\<rparr>"

section \<open>No acknowledgement is forgotten\<close>

definition unacked :: "recovery_state \<Rightarrow> bool" where
  "unacked st \<longleftrightarrow> rs_last_ack_sent st < rs_last_recv_seq st"

definition ack_scheduled :: "recovery_state \<Rightarrow> bool" where
  "ack_scheduled st \<longleftrightarrow> rs_last_ack_sent st \<le> rs_last_recv_seq st \<and>
     (unacked st \<longrightarrow> rs_ack_due st \<or> rs_ack_due_at st \<noteq> 0)"

text \<open>The deadline of an ACK scheduled now, on a clock that has not run for \<open>2^64\<close> nanoseconds.\<close>

definition clock_ok :: "nat \<Rightarrow> recovery_state \<Rightarrow> bool" where
  "clock_ok now st \<longleftrightarrow> now + unat (nanos_u64 (rs_ack_delay_nanos st)) < 2 ^ 64"

lemma ack_scheduled_new [invar_intros]:
  "ack_scheduled (new_client co neg cid sec t)" "ack_scheduled (new_server so cid sec)"
  by (simp_all add: ack_scheduled_def unacked_def new_client_def new_server_def Let_def)

lemma deadline_nonzero:
  assumes "clock_ok now st" "nanos_u64 (rs_ack_delay_nanos st) \<noteq> 0"
  shows "word_of_nat now + nanos_u64 (rs_ack_delay_nanos st) \<noteq> 0"
proof -
  let ?d = "nanos_u64 (rs_ack_delay_nanos st)"
  have "unat (word_of_nat now + ?d) = now + unat ?d"
    using assms(1) by (intro unat_word_of_nat_add) (simp add: clock_ok_def)
  moreover have "0 < unat ?d" using assms(2) by (simp add: unat_gt_0)
  ultimately show ?thesis by (metis add_is_0 less_nat_zero_code unsigned_0)
qed

lemma note_received_scheduled [invar_intros]:
  assumes "ack_scheduled st" "clock_ok now st"
  shows "ack_scheduled (snd (note_received now seq st))"
  using assms(1) deadline_nonzero[OF assms(2)]
  by (auto simp: note_received_def ack_scheduled_def unacked_def Let_def split: if_splits)

lemma take_pending_ack_scheduled [invar_intros]:
  "ack_scheduled st \<Longrightarrow> ack_scheduled (snd (take_pending_ack now st))"
  by (auto simp: take_pending_ack_def ack_scheduled_def unacked_def)

lemma other_ops_scheduled [invar_intros]:
  "ack_scheduled st \<Longrightarrow> ack_scheduled (ack_received n st)"
  "ack_scheduled st \<Longrightarrow> ack_scheduled (set_negotiated opts st)"
  "ack_scheduled st \<Longrightarrow> ack_scheduled (snd (prepare_resume n st))"
  by (simp_all add: ack_received_def set_negotiated_def prepare_resume_def ack_scheduled_def
      unacked_def Let_def)

lemma take_pending_ack_None:
  "ack_scheduled st \<Longrightarrow> take_pending_ack now st = (None, st') \<Longrightarrow> unacked st \<Longrightarrow>
     st' = st \<and> \<not> rs_ack_due st \<and> word_of_nat now < rs_ack_due_at st"
  by (auto simp: take_pending_ack_def ack_scheduled_def unacked_def ack_may_be_due_def split: if_splits)

lemma take_pending_ack_Some:
  assumes "take_pending_ack now st = (Some n, st')"
  shows "n = rs_last_recv_seq st" "\<not> unacked st'" "rs_last_recv_seq st' = rs_last_recv_seq st"
    "rs_replay st' = rs_replay st"
  using assms by (auto simp: take_pending_ack_def unacked_def split: if_splits)

lemma note_received_seq:
  "rs_last_recv_seq (snd (note_received now seq st)) = max (rs_last_recv_seq st) seq"
  "rs_replay (snd (note_received now seq st)) = rs_replay st"
  by (auto simp: note_received_def Let_def max_def)

section \<open>Properties\<close>

text \<open>The operations on a recovery state, each with the clock where it reads it.\<close>

datatype recovery_op = NoteReceived nat u64 | TakePendingAck nat | AckReceived u64
  | SetNegotiated negotiated_recovery_options | PrepareResume u64

fun recovery_op_step :: "recovery_op \<Rightarrow> recovery_state \<Rightarrow> recovery_state" where
  "recovery_op_step (NoteReceived now seq) st = snd (note_received now seq st)"
| "recovery_op_step (TakePendingAck now) st = snd (take_pending_ack now st)"
| "recovery_op_step (AckReceived n) st = ack_received n st"
| "recovery_op_step (SetNegotiated opts) st = set_negotiated opts st"
| "recovery_op_step (PrepareResume n) st = snd (prepare_resume n st)"

text \<open>The ACKs that \<open>take_pending_ack\<close> hands out in a sequence of operations, and the frames received.\<close>

abbreviation recovery_ops :: "recovery_op list \<Rightarrow> recovery_state \<Rightarrow> recovery_state" where
  "recovery_ops ops st \<equiv> fold recovery_op_step ops st"

fun acks_taken :: "recovery_op list \<Rightarrow> recovery_state \<Rightarrow> u64 list" where
  "acks_taken [] st = []"
| "acks_taken (op # ops) st =
     (case op of TakePendingAck now \<Rightarrow> (case fst (take_pending_ack now st) of Some n \<Rightarrow> [n] | None \<Rightarrow> []) | _ \<Rightarrow> []) @
     acks_taken ops (recovery_op_step op st)"

definition seqs_noted :: "recovery_op list \<Rightarrow> u64 set" where
  "seqs_noted ops = {seq. \<exists>now. NoteReceived now seq \<in> set ops}"

text \<open>
  The clock of the operations goes on from \<open>t\<close> and does not overflow, and the delay in effect whenever a
  frame is received is at most \<open>D\<close> (\<open>set_negotiated\<close> may change it).
\<close>

fun timely :: "nat \<Rightarrow> nat \<Rightarrow> recovery_op list \<Rightarrow> recovery_state \<Rightarrow> bool" where
  "timely D t [] st \<longleftrightarrow> True"
| "timely D t (op # ops) st \<longleftrightarrow> (case op of
     NoteReceived now seq \<Rightarrow> t \<le> now \<and> now + D < 2 ^ 64 \<and> unat (nanos_u64 (rs_ack_delay_nanos st)) \<le> D \<and>
       timely D now ops (recovery_op_step op st)
   | TakePendingAck now \<Rightarrow> t \<le> now \<and> timely D now ops (recovery_op_step op st)
   | _ \<Rightarrow> timely D t ops (recovery_op_step op st))"

lemma acks_taken_append: "acks_taken (xs @ ys) st = acks_taken xs st @ acks_taken ys (recovery_ops xs st)"
  by (induction xs arbitrary: st) simp_all

text \<open>An ACK that is scheduled is due by \<open>T\<close>.\<close>

definition due_by :: "nat \<Rightarrow> recovery_state \<Rightarrow> bool" where
  "due_by T st \<longleftrightarrow> (rs_ack_due_at st \<noteq> 0 \<longrightarrow> unat (rs_ack_due_at st) \<le> T)"

lemma due_by_mono: "due_by T st \<Longrightarrow> T \<le> T' \<Longrightarrow> due_by T' st"
  by (auto simp: due_by_def)

lemma due_by_note:
  assumes "due_by (now + D) st" "now + D < 2 ^ 64" "unat (nanos_u64 (rs_ack_delay_nanos st)) \<le> D"
  shows "due_by (now + D) (snd (note_received now seq st))"
proof -
  have "unat (word_of_nat now + nanos_u64 (rs_ack_delay_nanos st)) \<le> now + D"
    using assms(2,3) by (subst unat_word_of_nat_add) simp_all
  with assms(1) show ?thesis by (auto simp: due_by_def note_received_def Let_def)
qed

lemma due_by_other:
  "due_by T st \<Longrightarrow> due_by T (snd (take_pending_ack now st))"
  "due_by T st \<Longrightarrow> due_by T (ack_received n st)"
  "due_by T st \<Longrightarrow> due_by T (set_negotiated opts st)"
  "due_by T st \<Longrightarrow> due_by T (snd (prepare_resume n st))"
  by (simp_all add: due_by_def take_pending_ack_def ack_received_def set_negotiated_def prepare_resume_def Let_def)

text \<open>The frame \<open>seq\<close> has been received, is not acknowledged, and its ACK is due by \<open>T\<close>.\<close>

definition awaits_ack :: "nat \<Rightarrow> u64 \<Rightarrow> recovery_state \<Rightarrow> bool" where
  "awaits_ack T seq st \<longleftrightarrow> ack_scheduled st \<and> rs_last_ack_sent st < seq \<and> seq \<le> rs_last_recv_seq st \<and>
     (rs_ack_due st \<or> unat (rs_ack_due_at st) \<le> T)"

lemma awaits_ack_new:
  assumes "ack_scheduled st" "clock_ok now st" "due_by T (snd (note_received now seq st))" "rs_last_recv_seq st < seq"
  shows "awaits_ack T seq (snd (note_received now seq st))"
proof -
  have "ack_scheduled (snd (note_received now seq st))" by (rule note_received_scheduled[OF assms(1,2)])
  moreover have "rs_last_ack_sent (snd (note_received now seq st)) = rs_last_ack_sent st"
    by (simp add: note_received_def Let_def)
  moreover have "rs_last_ack_sent st < seq" using assms(1,4) by (auto simp: ack_scheduled_def)
  ultimately show ?thesis using assms(3)
    by (auto simp: awaits_ack_def note_received_seq due_by_def ack_scheduled_def unacked_def)
qed

lemma awaits_ack_note:
  assumes "awaits_ack T seq st" "clock_ok now st"
  shows "awaits_ack T seq (snd (note_received now n st))"
proof -
  have "ack_scheduled (snd (note_received now n st))"
    using assms note_received_scheduled by (simp add: awaits_ack_def)
  moreover have "rs_ack_due (snd (note_received now n st)) \<or>
      unat (rs_ack_due_at (snd (note_received now n st))) \<le> T"
    using assms(1) by (auto simp: awaits_ack_def note_received_def Let_def ack_scheduled_def unacked_def)
  moreover have "rs_last_ack_sent (snd (note_received now n st)) = rs_last_ack_sent st"
    by (simp add: note_received_def Let_def)
  ultimately show ?thesis using assms(1) by (auto simp: awaits_ack_def note_received_seq max_def)
qed

lemma awaits_ack_take:
  assumes "awaits_ack T seq st"
  shows "take_pending_ack now st = (None, st) \<or> fst (take_pending_ack now st) = Some (rs_last_recv_seq st)"
    "T \<le> now \<Longrightarrow> now < 2 ^ 64 \<Longrightarrow> fst (take_pending_ack now st) = Some (rs_last_recv_seq st)"
proof -
  from assms have u: "unacked st" "ack_scheduled st" by (auto simp: awaits_ack_def unacked_def)
  show some: "take_pending_ack now st = (None, st) \<or> fst (take_pending_ack now st) = Some (rs_last_recv_seq st)"
    using u by (auto simp: take_pending_ack_def unacked_def)
  assume T: "T \<le> now" "now < 2 ^ 64"
  from some show "fst (take_pending_ack now st) = Some (rs_last_recv_seq st)"
  proof
    assume none: "take_pending_ack now st = (None, st)"
    from take_pending_ack_None[OF u(2) this u(1)] have "\<not> rs_ack_due st" "word_of_nat now < rs_ack_due_at st" by auto
    with assms T show ?thesis by (simp add: awaits_ack_def word_less_nat_alt unat_word_of_nat)
  qed
qed

lemma awaits_ack_others:
  "awaits_ack T seq st \<Longrightarrow> awaits_ack T seq (ack_received n st)"
  "awaits_ack T seq st \<Longrightarrow> awaits_ack T seq (set_negotiated opts st)"
  "awaits_ack T seq st \<Longrightarrow> awaits_ack T seq (snd (prepare_resume n st))"
  by (simp_all add: awaits_ack_def other_ops_scheduled)
    (simp_all add: ack_received_def set_negotiated_def prepare_resume_def Let_def)

lemma awaits_ack_until_taken:
  assumes "timely D t ops st" "awaits_ack T seq st"
  shows "(\<exists>n \<in> set (acks_taken ops st). seq \<le> n) \<or> awaits_ack T seq (recovery_ops ops st)"
  using assms
proof (induction ops arbitrary: t st)
  case (Cons op ops)
  show ?case
  proof (cases op)
    case (NoteReceived now n)
    with Cons.prems have "awaits_ack T seq (recovery_op_step op st)"
      by (auto intro: awaits_ack_note simp: clock_ok_def)
    with Cons NoteReceived show ?thesis by fastforce
  next
    case (TakePendingAck now)
    from Cons.prems(2) have "seq \<le> rs_last_recv_seq st" by (simp add: awaits_ack_def)
    with awaits_ack_take(1)[OF Cons.prems(2), of now] Cons TakePendingAck show ?thesis by fastforce
  qed (use Cons in \<open>simp_all add: awaits_ack_others\<close>)
qed simp

lemma timely_append: "timely D t (xs @ ys) st \<Longrightarrow> timely D t xs st"
proof (induction xs arbitrary: t st)
  case (Cons op xs)
  then show ?case by (cases op) auto
qed simp

lemma timely_reached:
  assumes "timely D t (ops @ rest) st" "ack_scheduled st" "due_by (t + D) st"
  shows "ack_scheduled (recovery_ops ops st) \<and>
    (\<exists>t'. timely D t' rest (recovery_ops ops st) \<and> due_by (t' + D) (recovery_ops ops st))"
  using assms
proof (induction ops arbitrary: t st)
  case (Cons op ops)
  show ?case
  proof (cases op)
    case (NoteReceived now seq)
    with Cons.prems have "due_by (now + D) (recovery_op_step op st)"
      using due_by_mono[OF Cons.prems(3), of "now + D"] by (simp add: due_by_note)
    with Cons NoteReceived show ?thesis by (auto simp: clock_ok_def note_received_scheduled)
  next
    case (TakePendingAck now)
    with Cons.prems have "due_by (now + D) (recovery_op_step op st)"
      using due_by_mono[OF Cons.prems(3), of "now + D"] by (simp add: due_by_other)
    with Cons TakePendingAck show ?thesis by (auto simp: take_pending_ack_scheduled)
  qed (use Cons in \<open>auto simp: other_ops_scheduled due_by_other\<close>)
qed auto

lemma other_ops_fields [simp]:
  "rs_last_recv_seq (ack_received n st) = rs_last_recv_seq st" "rs_last_ack_sent (ack_received n st) = rs_last_ack_sent st"
  "rs_last_recv_seq (set_negotiated opts st) = rs_last_recv_seq st"
  "rs_last_ack_sent (set_negotiated opts st) = rs_last_ack_sent st"
  "rs_last_recv_seq (snd (prepare_resume n st)) = rs_last_recv_seq st"
  "rs_last_ack_sent (snd (prepare_resume n st)) = rs_last_ack_sent st"
  by (simp_all add: ack_received_def set_negotiated_def prepare_resume_def Let_def)

text \<open>An ACK is only scheduled for a frame that is not acknowledged.\<close>

definition due_unacked :: "recovery_state \<Rightarrow> bool" where
  "due_unacked st \<longleftrightarrow> rs_last_ack_sent st \<le> rs_last_recv_seq st \<and> (rs_ack_due_at st \<noteq> 0 \<longrightarrow> unacked st)"

lemma due_unacked_ops: "due_unacked st \<Longrightarrow> due_unacked (recovery_ops ops st)"
proof (induction ops arbitrary: st)
  case (Cons op ops)
  have "due_unacked (recovery_op_step op st)"
    using Cons.prems
    by (cases op) (auto simp: due_unacked_def unacked_def note_received_def take_pending_ack_def Let_def
        ack_received_def set_negotiated_def prepare_resume_def)
  with Cons.IH show ?case by simp
qed simp

lemma due_unacked_new:
  "due_unacked (new_client co neg cid sec ttl)" "due_unacked (new_server so cid sec)"
  by (simp_all add: due_unacked_def new_client_def new_server_def Let_def)

text \<open>The ACKs taken increase, and each is the number of a frame received.\<close>

lemma acks_taken_order:
  "ack_scheduled st \<Longrightarrow> timely D t ops st \<Longrightarrow> sorted_wrt (<) (acks_taken ops st) \<and>
     (\<forall>n \<in> set (acks_taken ops st). rs_last_ack_sent st < n \<and> (n = rs_last_recv_seq st \<or> n \<in> seqs_noted ops))"
proof (induction ops arbitrary: t st)
  case (Cons op ops)
  have noted: "seqs_noted ops \<subseteq> seqs_noted (op # ops)" by (auto simp: seqs_noted_def)
  show ?case
  proof (cases op)
    case (NoteReceived now seq)
    with Cons.prems have "ack_scheduled (recovery_op_step op st)" "timely D now ops (recovery_op_step op st)"
      by (auto intro: note_received_scheduled simp: clock_ok_def)
    from Cons.IH[OF this] NoteReceived noted show ?thesis
      by (auto simp: note_received_seq max_def seqs_noted_def note_received_def Let_def split: if_splits)
  next
    case (TakePendingAck now)
    with Cons.prems have "ack_scheduled (recovery_op_step op st)" "timely D now ops (recovery_op_step op st)"
      by (auto intro: take_pending_ack_scheduled)
    from Cons.IH[OF this] TakePendingAck noted Cons.prems(1) show ?thesis
      by (auto simp: take_pending_ack_def ack_scheduled_def split: if_splits)
  qed (use Cons.IH[of "recovery_op_step op st" t] Cons.prems noted in
      \<open>auto simp: other_ops_scheduled\<close>)
qed simp

text \<open>
  C8: No received frame goes without an acknowledgement. Whatever operations a recovery state goes
  through, before and after a new frame is received at time \<open>t\<close>, \<open>take_pending_ack\<close> has acknowledged it
  (it or a later frame) once it is called at \<open>t\<close> plus the ACK delay or later, and at once if the frame
  completes \<open>ack_every\<close> of them. Frames that follow do not put the ACK off. The ACKs handed out
  strictly increase, and each is the number of a frame received.
\<close>

theorem no_ack_forgotten:
  assumes start: "st0 = new_client co neg cid sec ttl \<or> st0 = new_server so cid sec"
    and ops: "timely D 0 (before @ NoteReceived t seq # rest @ [TakePendingAck now]) st0" "now < 2 ^ 64"
      "last_received (recovery_ops before st0) < seq"
    and late: "t + D \<le> now \<or> rs_ack_every (recovery_ops before st0) \<le> rs_ack_pending (recovery_ops before st0) + 1"
  defines "acks \<equiv> acks_taken (before @ NoteReceived t seq # rest @ [TakePendingAck now]) st0"
  shows "(\<exists>n \<in> set acks. seq \<le> n) \<and> sorted_wrt (<) acks \<and>
    set acks \<subseteq> seqs_noted (before @ NoteReceived t seq # rest)"
proof -
  let ?ops = "before @ NoteReceived t seq # rest @ [TakePendingAck now]"
  let ?st = "recovery_ops before st0"
  let ?st1 = "recovery_op_step (NoteReceived t seq) ?st"
  from start have s0: "ack_scheduled st0" "due_by (0 + D) st0" "rs_last_recv_seq st0 = 0"
    by (auto simp: ack_scheduled_new) (auto simp: due_by_def new_client_def new_server_def Let_def)
  from timely_reached[OF ops(1) s0(1,2)] obtain t' where st: "ack_scheduled ?st" "due_by (t' + D) ?st"
      "timely D t' (NoteReceived t seq # rest @ [TakePendingAck now]) ?st" by blast
  then have t: "t' \<le> t" "t + D < 2 ^ 64" "unat (nanos_u64 (rs_ack_delay_nanos ?st)) \<le> D"
    "timely D t (rest @ [TakePendingAck now]) ?st1" by simp_all
  then have ck: "clock_ok t ?st" by (simp add: clock_ok_def)
  define T where "T = (if t + D \<le> now then t + D else 0)"
  have "due_by (t + D) (snd (note_received t seq ?st))"
    using t due_by_mono[OF st(2), of "t + D"] by (intro due_by_note) simp_all
  moreover have "rs_ack_due_at (snd (note_received t seq ?st)) = 0"
    if "rs_ack_every ?st \<le> rs_ack_pending ?st + 1"
    using that ops(3) by (auto simp: note_received_def Let_def last_received_def)
  ultimately have "due_by T (snd (note_received t seq ?st))" using late by (auto simp: T_def due_by_def)
  with awaits_ack_new[OF st(1) ck, of T seq] ops(3) have w: "awaits_ack T seq ?st1" by (simp add: last_received_def)
  have "T \<le> now" by (simp add: T_def)
  then have "\<exists>n \<in> set (acks_taken (rest @ [TakePendingAck now]) ?st1). seq \<le> n"
    using awaits_ack_until_taken[OF timely_append[OF t(4)] w]
      awaits_ack_take(2)[of T seq "recovery_ops rest ?st1" now] ops(2)
    by (auto simp: acks_taken_append awaits_ack_def)
  then have "\<exists>n \<in> set acks. seq \<le> n" by (auto simp: acks_def acks_taken_append)
  moreover have "sorted_wrt (<) acks \<and> set acks \<subseteq> seqs_noted ?ops"
    using acks_taken_order[OF s0(1) ops(1)] s0(3) by (auto simp: acks_def)
  ultimately show ?thesis by (simp add: seqs_noted_def)
qed

text \<open>The server with the default options: the delayed ACK of the first of two frames covers both.\<close>

definition ex_ack_ops :: "recovery_op list" where
  "ex_ack_ops = [NoteReceived 1000 1] @ NoteReceived 2000 2 # [TakePendingAck 3000] @ [TakePendingAck 20002000]"

lemma no_ack_forgotten_witness:
  "timely 20000000 0 ex_ack_ops (new_server default_server_recovery [] []) \<and>
   acks_taken ex_ack_ops (new_server default_server_recovery [] []) = [2] \<and>
   (\<exists>n. n \<in> set (acks_taken ex_ack_ops (new_server default_server_recovery [] [])) \<and> 2 \<le> n)"
proof -
  define st0 where "st0 = new_server default_server_recovery [] []"
  have "server_options_ok default_server_recovery"
    by (simp add: server_options_ok_def default_server_recovery_def saturating_mul_def DURATION_MAX_def
        duration_defs DEFAULT_MAX_FRAME_def)
  from server_normalized_id[OF this] have s0: "rs_ack_delay_nanos st0 = 20000000" "rs_ack_every st0 = 64"
    "\<not> rs_ack_due st0" "rs_last_recv_seq st0 = 0" "rs_last_ack_sent st0 = 0" "rs_ack_due_at st0 = 0" "rs_ack_pending st0 = 0"
    by (simp_all add: st0_def new_server_def Let_def server_negotiated_def
        default_server_recovery_def duration_defs)
  have n: "nanos_u64 20000000 = 20000000" "\<not> (64 :: u32) \<le> 1" "\<not> (64 :: u32) \<le> 2" "\<not> (2 :: u64) \<le> 1"
    by (simp_all add: nanos_u64_def word_le_nat_alt)
  define st1 where "st1 = snd (note_received 1000 1 st0)"
  have s1: "st1 = st0\<lparr>rs_last_recv_seq := 1, rs_ack_pending := 1, rs_ack_due_at := 20001000\<rparr>"
    by (simp add: st1_def note_received_def Let_def s0 n)
  define st2 where "st2 = snd (note_received 2000 2 st1)"
  have s2: "st2 = st1\<lparr>rs_last_recv_seq := 2, rs_ack_pending := 2\<rparr>"
    by (simp add: st2_def note_received_def Let_def s0 s1 n)
  have s3: "take_pending_ack 3000 st2 = (None, st2)" "fst (take_pending_ack 20002000 st2) = Some 2"
    by (simp_all add: take_pending_ack_def ack_may_be_due_def s0 s1 s2)
  have k: "timely 20000000 0 ex_ack_ops st0" "acks_taken ex_ack_ops st0 = [2]"
    "last_received (recovery_ops [NoteReceived 1000 1] st0) < 2"
    by (simp_all add: ex_ack_ops_def st1_def[symmetric] st2_def[symmetric] s3)
      (simp_all add: s1 s0 n last_received_def)
  from no_ack_forgotten[of st0 undefined undefined "[]" "[]" undefined default_server_recovery, OF _
      k(1)[unfolded ex_ack_ops_def] _ k(3)] k show ?thesis
    by (auto simp: ex_ack_ops_def st0_def)
qed

lemma negotiated_in_effect:
  assumes "decode_negotiated a d i t = Inr n"
  shows "rs_ack_every (set_negotiated n st) = a \<and>
    nanos_u64 (rs_ack_delay_nanos (set_negotiated n st)) = word_of_nat (from_millis (unat d)) \<and>
    heartbeat_interval (set_negotiated n st) = from_millis (unat i) \<and>
    heartbeat_timeout (set_negotiated n st) = from_millis (unat t) \<and>
    0 < heartbeat_interval (set_negotiated n st) \<and>
    2 * heartbeat_interval (set_negotiated n st) \<le> heartbeat_timeout (set_negotiated n st)"
proof -
  have ms: "from_millis (unat m) < 2 ^ 63" for m :: u32
    using unat_u32_bound[of m] by (simp add: from_millis_def)
  have conv: "unat (nanos_u64 (as_i64 (from_millis (unat m)))) = from_millis (unat m)" for m :: u32
    using ms[of m] by (simp add: nanos_u64_def unat_of_nat)
  from decode_negotiated_Inr[OF assms] have ok: "negotiated_ok n" and n: "n = \<lparr>nro_ack_every = a,
    nro_ack_delay = from_millis (unat d), nro_heartbeat_interval = from_millis (unat i),
    nro_heartbeat_timeout = from_millis (unat t)\<rparr>" by simp_all
  from ok have "negotiated_normalized n = n" by (rule negotiated_normalized_id)
  then have "set_negotiated n st = st\<lparr>rs_shared := n, rs_ack_every := a,
      rs_ack_delay_nanos := as_i64 (from_millis (unat d)),
      rs_heartbeat_interval_nanos := as_i64 (from_millis (unat i)),
      rs_heartbeat_timeout_nanos := as_i64 (from_millis (unat t))\<rparr>"
    by (simp add: set_negotiated_def n)
  moreover have "nanos_u64 (as_i64 (from_millis (unat d))) = word_of_nat (from_millis (unat d))"
    using ms[of d] by (simp add: nanos_u64_def)
  moreover have "0 < from_millis (unat i) \<and> 2 * from_millis (unat i) \<le> from_millis (unat t)"
    using ok by (simp add: negotiated_ok_def n saturating_millis) (simp add: from_millis_def)
  ultimately show ?thesis by (simp add: heartbeat_interval_def heartbeat_timeout_def conv)
qed

text \<open>The heartbeat of a server, whose options can be encoded, is as configured.\<close>

lemma server_heartbeat:
  assumes "encode_negotiated (server_negotiated so) = Inr enc"
  shows "heartbeat_interval (new_server so cid sec) = sro_heartbeat_interval (server_normalized so)"
    "heartbeat_timeout (new_server so cid sec) = sro_heartbeat_timeout (server_normalized so)"
proof -
  have n: "server_negotiated so = negotiated_normalized (server_negotiated so)"
    by (simp add: negotiated_normalized_id server_negotiated_ok)
  have "in_millis (sro_heartbeat_interval (server_normalized so))" "in_millis (sro_heartbeat_timeout (server_normalized so))"
    using encode_negotiated_Inr(3,4)[OF assms n] by (simp_all add: server_negotiated_def Let_def)
  then have lt: "d < 2 ^ 63" if "d \<in> {sro_heartbeat_interval (server_normalized so), sro_heartbeat_timeout (server_normalized so)}" for d
    using that by (auto simp: in_millis_def as_millis_def div_less_iff_less_mult)
  then have conv: "unat (nanos_u64 (as_i64 d)) = d"
    if "d \<in> {sro_heartbeat_interval (server_normalized so), sro_heartbeat_timeout (server_normalized so)}" for d
    using lt[OF that] by (simp add: nanos_u64_def unat_of_nat)
  have "server_normalized (server_normalized so) = server_normalized so"
    by (rule server_normalized_id[OF server_normalized_ok])
  with conv show "heartbeat_interval (new_server so cid sec) = sro_heartbeat_interval (server_normalized so)"
    "heartbeat_timeout (new_server so cid sec) = sro_heartbeat_timeout (server_normalized so)"
    by (simp_all add: heartbeat_interval_def heartbeat_timeout_def new_server_def server_negotiated_def Let_def)
qed

text \<open>The heartbeat interval of either side of a connection is less than the timeout of the other.\<close>

lemma heartbeat_before_timeout:
  assumes enc: "encode_negotiated (server_negotiated so) = Inr enc"
    and dec: "decode_negotiated (eo_ack_every enc) (eo_ack_delay_ms enc) (eo_heartbeat_interval_ms enc)
      (eo_heartbeat_timeout_ms enc) = Inr n"
  shows "0 < heartbeat_interval (new_server so cid sec) \<and> 0 < heartbeat_interval (set_negotiated n st) \<and>
    heartbeat_interval (new_server so cid sec) < heartbeat_timeout (set_negotiated n st) \<and>
    heartbeat_interval (set_negotiated n st) < heartbeat_timeout (new_server so cid sec)"
proof -
  let ?i = "sro_heartbeat_interval (server_normalized so)" and ?t = "sro_heartbeat_timeout (server_normalized so)"
  let ?ei = "unat (eo_heartbeat_interval_ms enc)" and ?et = "unat (eo_heartbeat_timeout_ms enc)"
  have n: "server_negotiated so = negotiated_normalized (server_negotiated so)"
    by (simp add: negotiated_normalized_id server_negotiated_ok)
  have e: "?ei = max (as_millis ?i) 1" "?et = max (as_millis ?t) 1"
    using encode_negotiated_Inr(6,7)[OF enc n] by (simp_all add: server_negotiated_def Let_def)
  have two: "2 * ?ei \<le> ?et"
    using decode_negotiated_iff[of "eo_ack_every enc" "eo_ack_delay_ms enc" "eo_heartbeat_interval_ms enc"
        "eo_heartbeat_timeout_ms enc"] dec by simp
  have ei: "as_millis ?i \<le> ?ei" "1 \<le> ?ei" using e(1) by simp_all
  with two have "as_millis ?i + 1 \<le> ?et" "?ei < ?et" "1 < ?et" by linarith+
  then have et: "?et = as_millis ?t" using e(2) by (simp add: max_def split: if_splits)
  have "?i < from_millis ?et"
    using \<open>as_millis ?i + 1 \<le> ?et\<close> by (simp add: as_millis_def from_millis_def)
  moreover have "from_millis ?ei < from_millis ?et" using \<open>?ei < ?et\<close> by (simp add: from_millis_def)
  moreover have "from_millis ?et \<le> ?t" by (simp add: et as_millis_def from_millis_def)
  moreover have "0 < ?i" using server_normalized_ok[of so] by (simp add: server_options_ok_def)
  ultimately show ?thesis
    using negotiated_in_effect[OF dec, of st] server_heartbeat[OF enc, of cid sec] by simp
qed

text \<open>
  C22: The options a client accepts from an attach response take effect exactly as sent: the waits
  of the client are the numbers of milliseconds of the response (no truncation in the conversion to
  nanoseconds), and the heartbeat timeout is at least two intervals.
\<close>

theorem negotiated_options_applied:
  assumes "decode_negotiated a d i t = Inr n"
  shows "rs_ack_every (set_negotiated n st) = a \<and>
    nanos_u64 (rs_ack_delay_nanos (set_negotiated n st)) = word_of_nat (from_millis (unat d)) \<and>
    heartbeat_interval (set_negotiated n st) = from_millis (unat i) \<and>
    heartbeat_timeout (set_negotiated n st) = from_millis (unat t) \<and>
    0 < heartbeat_interval (set_negotiated n st) \<and>
    2 * heartbeat_interval (set_negotiated n st) \<le> heartbeat_timeout (set_negotiated n st)"
  using assms by (rule negotiated_in_effect)

lemma negotiated_options_applied_witness:
  "is_ok (decode_negotiated 64 20 30000 90000) \<and>
   heartbeat_timeout (set_negotiated (\<lparr>nro_ack_every = 64, nro_ack_delay = from_millis 20,
     nro_heartbeat_interval = from_millis 30000, nro_heartbeat_timeout = from_millis 90000\<rparr>)
     (new_client default_client_recovery default_negotiated [] [] None)) = from_millis 90000"
proof -
  have "decode_negotiated 64 20 30000 90000 = Inr \<lparr>nro_ack_every = 64, nro_ack_delay = from_millis 20,
     nro_heartbeat_interval = from_millis 30000, nro_heartbeat_timeout = from_millis 90000\<rparr>"
    by (simp add: decode_negotiated_def Let_def saturating_mul_def DURATION_MAX_def from_millis_def)
  from negotiated_options_applied[OF this, of "new_client default_client_recovery default_negotiated [] [] None"]
    this show ?thesis by simp
qed

end
