(* ===== verification/Connection.thy ===== *)
theory Connection
  imports RecoveryState FrameStream "HOL-Library.AList"
begin

text \<open>
  The state of a connection and its streams (\<open>ConnectionInner\<close> of \<open>src/src/connection.rs\<close>,
  \<open>StreamInner\<close> of \<open>src/src/stream.rs\<close>) and the operations on its table of streams.

  Streams are shared objects (\<open>Arc\<close>): a handle keeps using a stream after the connection dropped
  it. They live in the store \<open>c_heap\<close>, and a stream reference is an index into it. Each operation
  is one atomic step on the record, as the code runs it under its locks. Hash maps are association
  lists, in the order of insertion, where the code's order is unspecified. The clock is the field
  \<open>c_now\<close>, which the environment advances. The types of received messages (\<open>'r\<close>) and of handler
  jobs (\<open>'j\<close>) are parameters: this part of the code only queues them.
\<close>

section \<open>State\<close>

definition STREAM_QUEUE_SIZE :: nat where "STREAM_QUEUE_SIZE = 1024"
definition DEFAULT_STREAM_ID :: u32 where "DEFAULT_STREAM_ID = 0"
definition MAX_STREAM_ID :: u32 where "MAX_STREAM_ID = CONTROL_STREAM_ID - 1"
definition RECV_TIMEOUT_NONE :: u64 where "RECV_TIMEOUT_NONE = 0"

text \<open>
  A stream. \<open>st_incoming_open\<close> tells whether the receiver of \<open>incoming_tx\<close> still exists: the
  decode task holds it, and it goes when the task ends.
\<close>

record ('r, 'j) stream =
  st_id :: u32
  st_has_handler_tx :: bool
  st_capacity :: nat
  st_inbox :: "'r list"
  st_incoming :: "bytes list"
  st_incoming_open :: bool
  st_handler_q :: "'j list"
  st_recv_timeout :: u64
  st_recv_active :: bool
  st_peeked :: "'r option"
  st_stale_replies :: nat
  st_closed :: bool
  st_fin_started :: bool
  st_debug :: stream_counters

text \<open>
  An outbound frame. The \<open>queued_tx\<close> of a recovery frame is a ticket: its sender waits for the
  outcome under that number.
\<close>

datatype outbound_frame = Plain u32 u8 bytes | Recovery u32 u8 bytes nat | CloseMarker

datatype writer_cmd = Attach u64 writer u64 | Detach u64

text \<open>A task that runs in the background: the reconnect loop, or the expiry of a detached transport.\<close>

datatype conn_task = ReconnectLoop | ServerExpiry u64 nat

text \<open>
  \<open>c_reader_gen\<close> is the generation of \<open>current_reader_abort\<close>, \<open>c_aborted\<close> the generations of the
  readers that were told to stop, and \<open>c_tasks\<close> the background tasks spawned.
\<close>

record ('r, 'j) connection =
  c_heap :: "('r, 'j) stream list"
  c_streams :: "(u32 \<times> nat) list"
  c_closed_peer :: "u32 set"
  c_default_stream :: "nat option"
  c_has_on_new_stream :: bool
  c_has_on_close_stream :: bool
  c_new_calls :: "nat list"
  c_close_calls :: "nat list"
  c_has_handlers :: bool
  c_closing :: bool
  c_closed :: bool
  c_writer_started :: bool
  c_reader_gen :: "u64 option"
  c_aborted :: "u64 list"
  c_tasks :: "conn_task list"
  c_next_stream_id :: u64
  c_next_send_seq :: u64
  c_transport_gen :: u64
  c_transport_attached :: bool
  c_default_recv_timeout :: "duration option"
  c_queue_size :: "nat option"
  c_config :: "conn_config option"
  c_recovery :: "recovery_state option"
  c_outbound :: "outbound_frame list"
  c_outbound_open :: bool
  c_cmds :: "writer_cmd list"
  c_send_permit :: bool
  c_queued :: "(nat \<times> (am_error + unit)) list"
  c_next_ticket :: nat
  c_written :: "bool option"
  c_debug :: conn_counters
  c_now :: nat

definition new_unstarted :: "bool \<Rightarrow> bool \<Rightarrow> bool \<Rightarrow> ('r, 'j) connection" where
  "new_unstarted has_handlers on_new on_close =
     \<lparr>c_heap = [], c_streams = [], c_closed_peer = {}, c_default_stream = None,
      c_has_on_new_stream = on_new, c_has_on_close_stream = on_close, c_new_calls = [],
      c_close_calls = [], c_has_handlers = has_handlers, c_closing = False, c_closed = False,
      c_writer_started = False, c_reader_gen = None, c_aborted = [], c_tasks = [], c_next_stream_id = 1, c_next_send_seq = 0,
      c_transport_gen = 0, c_transport_attached = False, c_default_recv_timeout = None,
      c_queue_size = None, c_config = None, c_recovery = None,
      c_outbound = [], c_outbound_open = True, c_cmds = [], c_send_permit = False, c_queued = [], c_next_ticket = 0,
      c_written = None, c_debug = new_conn_counters, c_now = 0\<rparr>"

section \<open>Streams\<close>

definition set_recv_timeout :: "duration \<Rightarrow> ('r, 'j) stream \<Rightarrow> ('r, 'j) stream" where
  "set_recv_timeout timeout s =
     s\<lparr>st_recv_timeout := (if timeout = 0 then RECV_TIMEOUT_NONE
                           else word_of_nat (min timeout (2 ^ 64 - 1)))\<rparr>"

definition new_stream_inner :: "u32 \<Rightarrow> nat \<Rightarrow> bool \<Rightarrow> ('r, 'j) stream" where
  "new_stream_inner sid capacity has_handler_tx =
     \<lparr>st_id = sid, st_has_handler_tx = has_handler_tx, st_capacity = capacity, st_inbox = [],
      st_incoming = [], st_incoming_open = True, st_handler_q = [],
      st_recv_timeout = RECV_TIMEOUT_NONE, st_recv_active = False, st_peeked = None,
      st_stale_replies = 0, st_closed = False, st_fin_started = False,
      st_debug = new_stream_counters\<rparr>"

definition new_closed_stream :: "('r, 'j) stream" where
  "new_closed_stream = (new_stream_inner CONTROL_STREAM_ID 1 False)
     \<lparr>st_incoming_open := False, st_closed := True, st_fin_started := True\<rparr>"

text \<open>\<open>close_channels\<close>: whether it marked the stream closed.\<close>

definition close_channels :: "('r, 'j) stream \<Rightarrow> bool \<times> ('r, 'j) stream" where
  "close_channels s = (if st_closed s then (False, s) else (True, s\<lparr>st_closed := True\<rparr>))"

definition stream_debug :: "('r, 'j) stream \<Rightarrow> stream_debug_state" where
  "stream_debug s =
     stream_build_state (st_debug s) (st_id s) (st_closed s)
       (if st_recv_timeout s = RECV_TIMEOUT_NONE then 0 else unat (st_recv_timeout s))
       (length (st_inbox s)) (length (st_incoming s))
       (if st_has_handler_tx s then length (st_handler_q s) else 0)"

section \<open>The table of streams\<close>

abbreviation stream_at :: "('r, 'j) connection \<Rightarrow> nat \<Rightarrow> ('r, 'j) stream" where
  "stream_at c r \<equiv> c_heap c ! r"

definition update_stream ::
  "nat \<Rightarrow> (('r, 'j) stream \<Rightarrow> ('r, 'j) stream) \<Rightarrow> ('r, 'j) connection \<Rightarrow> ('r, 'j) connection" where
  "update_stream r f c = c\<lparr>c_heap := (c_heap c)[r := f (stream_at c r)]\<rparr>"

definition alloc_stream :: "('r, 'j) stream \<Rightarrow> ('r, 'j) connection \<Rightarrow> nat \<times> ('r, 'j) connection" where
  "alloc_stream s c = (length (c_heap c), c\<lparr>c_heap := c_heap c @ [s]\<rparr>)"

definition note_conn_failure :: "string \<Rightarrow> string \<Rightarrow> ('r, 'j) connection \<Rightarrow> ('r, 'j) connection" where
  "note_conn_failure code reason c =
     c\<lparr>c_debug := conn_note_failure (c_now c) code reason (c_debug c)\<rparr>"

definition stream_queue_size :: "('r, 'j) connection \<Rightarrow> nat" where
  "stream_queue_size c = (case c_queue_size c of Some n \<Rightarrow> n | None \<Rightarrow> STREAM_QUEUE_SIZE)"

definition set_stream_queue_size :: "nat \<Rightarrow> ('r, 'j) connection \<Rightarrow> ('r, 'j) connection" where
  "set_stream_queue_size n c =
     (if 0 < n \<and> c_queue_size c = None then c\<lparr>c_queue_size := Some n\<rparr> else c)"

definition set_default_recv_timeout :: "duration \<Rightarrow> ('r, 'j) connection \<Rightarrow> ('r, 'j) connection" where
  "set_default_recv_timeout timeout c =
     (if c_default_recv_timeout c = None then c\<lparr>c_default_recv_timeout := Some timeout\<rparr> else c)"

text \<open>\<open>make_stream\<close>: registers and starts a stream, unless the connection is closed or the ID taken.\<close>

definition make_stream :: "u32 \<Rightarrow> ('r, 'j) connection \<Rightarrow> nat option \<times> ('r, 'j) connection" where
  "make_stream sid c =
     (let s0 = new_stream_inner sid (stream_queue_size c) (c_has_handlers c);
          s = (case c_default_recv_timeout c of Some timeout \<Rightarrow> set_recv_timeout timeout s0 | None \<Rightarrow> s0)
      in if c_closed c \<or> map_of (c_streams c) sid \<noteq> None then (None, c)
         else (case alloc_stream s c of
           (r, c1) \<Rightarrow>
             let c2 = c1\<lparr>c_streams := AList.update sid r (c_streams c1)\<rparr>;
                 c3 = (if sid = DEFAULT_STREAM_ID then c2\<lparr>c_default_stream := Some r\<rparr> else c2)
             in (Some r, c3\<lparr>c_debug := (c_debug c3)\<lparr>cd_streams_opened := cd_streams_opened (c_debug c3) + 1\<rparr>\<rparr>)))"

definition lookup_stream_ctx :: "u32 \<Rightarrow> ('r, 'j) connection \<Rightarrow> nat option" where
  "lookup_stream_ctx sid c =
     (if sid = DEFAULT_STREAM_ID \<and> c_default_stream c \<noteq> None then c_default_stream c
      else map_of (c_streams c) sid)"

definition get_stream_ctx :: "u32 \<Rightarrow> ('r, 'j) connection \<Rightarrow> nat \<times> ('r, 'j) connection" where
  "get_stream_ctx sid c =
     (case lookup_stream_ctx sid c of
        Some r \<Rightarrow> (r, c)
      | None \<Rightarrow> (case make_stream sid c of
          (Some r, c1) \<Rightarrow> (r, if c_has_on_new_stream c1 then c1\<lparr>c_new_calls := c_new_calls c1 @ [r]\<rparr> else c1)
        | (None, c1) \<Rightarrow> (case lookup_stream_ctx sid c1 of
            Some r \<Rightarrow> (r, c1) | None \<Rightarrow> alloc_stream new_closed_stream c1)))"

definition opened_stream :: "u32 \<Rightarrow> ('r, 'j) connection \<Rightarrow> bool" where
  "opened_stream sid c \<longleftrightarrow> sid \<noteq> DEFAULT_STREAM_ID \<and> (ucast sid :: u64) < c_next_stream_id c"

definition new_stream :: "('r, 'j) connection \<Rightarrow> nat \<times> ('r, 'j) connection" where
  "new_stream c =
     (let stream_id = c_next_stream_id c; c1 = c\<lparr>c_next_stream_id := stream_id + 1\<rparr>
      in if (ucast MAX_STREAM_ID :: u64) < stream_id
         then alloc_stream new_closed_stream
                (note_conn_failure FAILURE_STREAM_IDS_EXHAUSTED ''stream IDs exhausted'' c1)
         else (case make_stream (ucast stream_id) c1 of
           (Some r, c2) \<Rightarrow> (r, c2) | (None, c2) \<Rightarrow> alloc_stream new_closed_stream c2))"

definition default_stream :: "('r, 'j) connection \<Rightarrow> nat \<times> ('r, 'j) connection" where
  "default_stream c = get_stream_ctx DEFAULT_STREAM_ID c"

definition inbound_stream :: "u32 \<Rightarrow> ('r, 'j) connection \<Rightarrow> nat option \<times> ('r, 'j) connection" where
  "inbound_stream sid c =
     (case lookup_stream_ctx sid c of
        Some r \<Rightarrow> (Some r, c)
      | None \<Rightarrow> if opened_stream sid c \<or> sid \<in> c_closed_peer c then (None, c)
                else (case get_stream_ctx sid c of (r, c1) \<Rightarrow> (Some r, c1)))"

text \<open>The part of \<open>remove_stream\<close> and \<open>close_all_streams\<close> that closes one stream and counts it.\<close>

definition close_and_count :: "nat \<Rightarrow> ('r, 'j) connection \<Rightarrow> ('r, 'j) connection" where
  "close_and_count r c =
     (case close_channels (stream_at c r) of
        (True, s) \<Rightarrow> c\<lparr>c_heap := (c_heap c)[r := s],
            c_debug := (c_debug c)\<lparr>cd_streams_closed := cd_streams_closed (c_debug c) + 1\<rparr>\<rparr>
      | (False, _) \<Rightarrow> c)"

definition remove_stream :: "u32 \<Rightarrow> ('r, 'j) connection \<Rightarrow> nat option \<times> ('r, 'j) connection" where
  "remove_stream sid c =
     (case map_of (c_streams c) sid of
        None \<Rightarrow> (None, c)
      | Some r \<Rightarrow>
          let c1 = c\<lparr>c_streams := AList.delete sid (c_streams c),
                     c_debug := promote_failure_to (c_now c) (st_debug (stream_at c r)) (c_debug c)\<rparr>
          in (Some r, close_and_count r c1))"

definition remove_peer_stream :: "u32 \<Rightarrow> ('r, 'j) connection \<Rightarrow> nat option \<times> ('r, 'j) connection" where
  "remove_peer_stream sid c =
     remove_stream sid
       (if sid \<noteq> DEFAULT_STREAM_ID \<and> map_of (c_streams c) sid \<noteq> None
        then c\<lparr>c_closed_peer := insert sid (c_closed_peer c)\<rparr> else c)"

definition notify_close :: "nat \<Rightarrow> ('r, 'j) connection \<Rightarrow> ('r, 'j) connection" where
  "notify_close r c = (if c_has_on_close_stream c then c\<lparr>c_close_calls := c_close_calls c @ [r]\<rparr> else c)"

definition close_all_streams :: "('r, 'j) connection \<Rightarrow> ('r, 'j) connection" where
  "close_all_streams c =
     fold (\<lambda>(sid, r) c. notify_close r (close_and_count r c)) (c_streams c)
       (c\<lparr>c_streams := [], c_default_stream := None\<rparr>)"

definition abort_reader :: "('r, 'j) connection \<Rightarrow> ('r, 'j) connection" where
  "abort_reader c = c\<lparr>c_reader_gen := None,
     c_aborted := (case c_reader_gen c of Some gen \<Rightarrow> gen # c_aborted c | None \<Rightarrow> c_aborted c)\<rparr>"

text \<open>
  \<open>mark_closed\<close>, on the connection. Aborting the reader drops its handle. The call of
  \<open>on_closed\<close>, which takes the connection out of the registry of its server, is in \<open>Server\<close>.
\<close>

definition mark_closed :: "('r, 'j) connection \<Rightarrow> ('r, 'j) connection" where
  "mark_closed c =
     (if c_closed c then c
      else close_all_streams
        ((abort_reader c)\<lparr>c_closed := True, c_transport_attached := False\<rparr>))"

section \<open>The table is consistent\<close>

text \<open>
  The entries of the table are distinct IDs, each with its own stream of that ID, open; the default
  stream is one with ID 0; a closed connection has no entries. The counters of opened and closed
  streams differ by the number of entries.
\<close>

definition entries_ok :: "('r, 'j) connection \<Rightarrow> bool" where
  "entries_ok c \<longleftrightarrow>
     distinct (map fst (c_streams c)) \<and> distinct (map snd (c_streams c)) \<and>
     (\<forall>(sid, r) \<in> set (c_streams c). r < length (c_heap c) \<and> st_id (stream_at c r) = sid \<and>
        \<not> st_closed (stream_at c r)) \<and>
     (\<forall>r. c_default_stream c = Some r \<longrightarrow> r < length (c_heap c) \<and> st_id (stream_at c r) = 0) \<and>
     cd_streams_opened (c_debug c) = cd_streams_closed (c_debug c) + word_of_nat (length (c_streams c))"

definition table_ok :: "('r, 'j) connection \<Rightarrow> bool" where
  "table_ok c \<longleftrightarrow> entries_ok c \<and>
     (c_closed c \<longrightarrow> c_streams c = [] \<and> c_default_stream c = None)"

lemmas table_defs = table_ok_def entries_ok_def

lemma table_ok_new [invar_intros]: "table_ok (new_unstarted h a b)"
  by (simp add: table_defs new_unstarted_def new_conn_counters_def)

text \<open>The table invariant speaks of these fields only.\<close>

definition same_table :: "('r, 'j) connection \<Rightarrow> ('r, 'j) connection \<Rightarrow> bool" where
  "same_table c c' \<longleftrightarrow> c_streams c' = c_streams c \<and> c_default_stream c' = c_default_stream c \<and>
     c_closed c' = c_closed c \<and> c_closed_peer c' = c_closed_peer c \<and>
     c_next_stream_id c' = c_next_stream_id c \<and> length (c_heap c) \<le> length (c_heap c') \<and>
     (\<forall>r < length (c_heap c). st_id (stream_at c' r) = st_id (stream_at c r) \<and>
        st_closed (stream_at c' r) = st_closed (stream_at c r)) \<and>
     cd_streams_opened (c_debug c') = cd_streams_opened (c_debug c) \<and>
     cd_streams_closed (c_debug c') = cd_streams_closed (c_debug c)"

lemma same_table_refl [simp]: "same_table c c"
  by (simp add: same_table_def)

lemma same_table_trans: "same_table a b \<Longrightarrow> same_table b c \<Longrightarrow> same_table a c"
  by (auto simp: same_table_def)

lemma table_ok_same: "same_table c c' \<Longrightarrow> table_ok c \<Longrightarrow> table_ok c'"
  by (fastforce simp: same_table_def table_defs)

lemma same_table_alloc: "same_table c (snd (alloc_stream s c))"
  by (simp add: same_table_def alloc_stream_def nth_append)

lemma same_table_note_failure: "same_table c (note_conn_failure code reason c)"
  by (simp add: same_table_def note_conn_failure_def)

lemma same_table_notify: "same_table c (notify_close r c)"
  by (simp add: same_table_def notify_close_def)

lemma same_table_update:
  assumes "\<And>s. st_id (f s) = st_id s" "\<And>s. st_closed (f s) = st_closed s"
  shows "same_table c (update_stream r f c)"
  using assms by (cases "r < length (c_heap c)") (auto simp: same_table_def update_stream_def nth_list_update)

lemma AList_update_new: "map_of xs k = None \<Longrightarrow> AList.update k v xs = xs @ [(k, v)]"
  by (induction xs) (auto split: if_splits)

lemma make_stream_cases:
  fixes c :: "('r, 'j) connection"
  obtains (made) s where "make_stream sid c = (Some (length (c_heap c)),
        c\<lparr>c_heap := c_heap c @ [s], c_streams := c_streams c @ [(sid, length (c_heap c))],
          c_default_stream := (if sid = 0 then Some (length (c_heap c)) else c_default_stream c),
          c_debug := (c_debug c)\<lparr>cd_streams_opened := cd_streams_opened (c_debug c) + 1\<rparr>\<rparr>)"
      "\<not> c_closed c" "map_of (c_streams c) sid = None" "st_id s = sid" "\<not> st_closed s" "\<not> st_fin_started s"
      "st_incoming s = []" "st_inbox s = []" "st_incoming_open s"
  | (refused) "make_stream sid c = (None, c)" "c_closed c \<or> map_of (c_streams c) sid \<noteq> None"
proof (cases "c_closed c \<or> map_of (c_streams c) sid \<noteq> None")
  case True
  with refused show thesis by (simp add: make_stream_def Let_def)
next
  case False
  define s0 :: "('r, 'j) stream" where "s0 = new_stream_inner sid (stream_queue_size c) (c_has_handlers c)"
  define s where "s = (case c_default_recv_timeout c of Some timeout \<Rightarrow> set_recv_timeout timeout s0 | None \<Rightarrow> s0)"
  have s: "st_id s = sid" "\<not> st_closed s" "\<not> st_fin_started s" "st_incoming s = []" "st_inbox s = []"
    "st_incoming_open s"
    by (simp_all add: s_def s0_def new_stream_inner_def set_recv_timeout_def split: option.split)
  from False have "AList.update sid (length (c_heap c)) (c_streams c) =
      c_streams c @ [(sid, length (c_heap c))]" by (simp add: AList_update_new)
  with False have "make_stream sid c = (Some (length (c_heap c)),
        c\<lparr>c_heap := c_heap c @ [s], c_streams := c_streams c @ [(sid, length (c_heap c))],
          c_default_stream := (if sid = 0 then Some (length (c_heap c)) else c_default_stream c),
          c_debug := (c_debug c)\<lparr>cd_streams_opened := cd_streams_opened (c_debug c) + 1\<rparr>\<rparr>)"
    by (simp add: make_stream_def alloc_stream_def Let_def DEFAULT_STREAM_ID_def
        s_def[symmetric] s0_def[symmetric]) auto
  with False s made show thesis by blast
qed

lemma make_stream_ok [invar_intros]:
  assumes "table_ok c"
  shows "table_ok (snd (make_stream sid c))"
proof (cases rule: make_stream_cases[of sid c])
  case (made s)
  let ?r = "length (c_heap c)"
  from assms made(3) have "sid \<notin> fst ` set (c_streams c)" by (simp add: map_of_eq_None_iff)
  moreover from assms have lt: "\<forall>(i, r) \<in> set (c_streams c). r < ?r" by (auto simp: table_defs)
  then have "?r \<notin> snd ` set (c_streams c)" by auto
  ultimately show ?thesis using assms made lt
    by (auto simp: table_defs nth_append)
qed (use assms in simp)

lemma get_stream_ctx_ok [invar_intros]:
  assumes "table_ok c"
  shows "table_ok (snd (get_stream_ctx sid c))"
proof (cases "lookup_stream_ctx sid c")
  case None
  obtain ro c1 where m: "make_stream sid c = (ro, c1)" by fastforce
  with make_stream_ok[OF assms, of sid] have c1: "table_ok c1" by simp
  show ?thesis
  proof (cases ro)
    case (Some r)
    have "same_table c1 (c1\<lparr>c_new_calls := x\<rparr>)" for x by (simp add: same_table_def)
    with Some None m c1 show ?thesis by (auto simp: get_stream_ctx_def intro: table_ok_same)
  next
    case n: None
    with None m c1 show ?thesis
      by (auto simp: get_stream_ctx_def split: option.split intro: table_ok_same same_table_alloc)
  qed
qed (use assms in \<open>simp add: get_stream_ctx_def\<close>)

lemma new_stream_ok [invar_intros]:
  assumes "table_ok c"
  shows "table_ok (snd (new_stream c))"
proof -
  define c1 where "c1 = c\<lparr>c_next_stream_id := c_next_stream_id c + 1\<rparr>"
  have c1: "table_ok c1" using assms by (simp add: c1_def table_defs)
  show ?thesis
  proof (cases "(ucast MAX_STREAM_ID :: u64) < c_next_stream_id c")
    case True
    then show ?thesis
      using table_ok_same[OF same_table_trans[OF same_table_note_failure same_table_alloc] c1]
      by (simp add: new_stream_def c1_def)
  next
    case False
    obtain ro c2 where m: "make_stream (ucast (c_next_stream_id c)) c1 = (ro, c2)" by fastforce
    with make_stream_ok[OF c1, of "ucast (c_next_stream_id c)"] have "table_ok c2" by simp
    with m False show ?thesis
      by (cases ro) (auto simp: new_stream_def c1_def[symmetric] intro: table_ok_same same_table_alloc)
  qed
qed

lemma close_and_count_open:
  assumes "\<not> st_closed (stream_at c r)"
  shows "close_and_count r c = c\<lparr>c_heap := (c_heap c)[r := (stream_at c r)\<lparr>st_closed := True\<rparr>],
     c_debug := (c_debug c)\<lparr>cd_streams_closed := cd_streams_closed (c_debug c) + 1\<rparr>\<rparr>"
  using assms by (simp add: close_and_count_def close_channels_def)

lemma AList_delete_length:
  "distinct (map fst xs) \<Longrightarrow> map_of xs k = Some v \<Longrightarrow> length xs = Suc (length (AList.delete k xs))"
  by (induction xs) (auto simp: delete_idem split: if_splits)

lemma remove_stream_ok [invar_intros]:
  assumes "table_ok c"
  shows "table_ok (snd (remove_stream sid c))"
proof (cases "map_of (c_streams c) sid")
  case None
  with assms show ?thesis by (simp add: remove_stream_def)
next
  case (Some r)
  let ?d = "AList.delete sid (c_streams c)"
  define c1 where "c1 = c\<lparr>c_streams := ?d,
     c_debug := promote_failure_to (c_now c) (st_debug (stream_at c r)) (c_debug c)\<rparr>"
  from Some have in_set: "(sid, r) \<in> set (c_streams c)" by (rule map_of_SomeD)
  from assms have dist: "distinct (map fst (c_streams c))" "distinct (map snd (c_streams c))"
    by (simp_all add: table_defs)
  have sub: "set ?d \<subseteq> set (c_streams c)" by (auto simp: AList.delete_eq)
  have other: "i \<noteq> sid \<and> q \<noteq> r" if "(i, q) \<in> set ?d" for i q
  proof -
    from that have "i \<noteq> sid" "(i, q) \<in> set (c_streams c)" by (auto simp: AList.delete_eq)
    with in_set dist(2) show ?thesis unfolding distinct_map inj_on_def by force
  qed
  from assms in_set have "\<not> st_closed (stream_at c1 r)" by (auto simp: table_defs c1_def)
  note cc = close_and_count_open[OF this]
  have d2: "distinct (map snd ?d)" "distinct (map fst ?d)"
    using dist by (auto simp: AList.delete_eq distinct_map_filter)
  have len: "word_of_nat (length (c_streams c)) = 1 + (word_of_nat (length ?d) :: u64)"
    using AList_delete_length[OF dist(1) Some] by simp
  have entries: "q < length (c_heap c) \<and> st_id (stream_at c q) = i \<and> \<not> st_closed (stream_at c q) \<and> q \<noteq> r"
    if "(i, q) \<in> set ?d" for i q
    using that other[OF that] sub assms by (auto simp: table_defs)
  have dflt: "q < length (c_heap c) \<and> st_id (stream_at c q) = 0" if "c_default_stream c = Some q" for q
    using that assms by (simp add: table_defs)
  have "\<forall>(i, q) \<in> set ?d. q < length (c_heap (close_and_count r c1)) \<and>
      st_id (stream_at (close_and_count r c1) q) = i \<and> \<not> st_closed (stream_at (close_and_count r c1) q)"
  proof clarify
    fix i q assume "(i, q) \<in> set ?d"
    from entries[OF this] show "q < length (c_heap (close_and_count r c1)) \<and>
      st_id (stream_at (close_and_count r c1) q) = i \<and> \<not> st_closed (stream_at (close_and_count r c1) q)"
      unfolding cc by (simp add: c1_def)
  qed
  moreover have "\<forall>q. c_default_stream c = Some q \<longrightarrow> q < length (c_heap (close_and_count r c1)) \<and>
      st_id (stream_at (close_and_count r c1) q) = 0"
  proof clarify
    fix q assume "c_default_stream c = Some q"
    from dflt[OF this] show "q < length (c_heap (close_and_count r c1)) \<and>
      st_id (stream_at (close_and_count r c1) q) = 0"
      unfolding cc by (cases "q = r") (simp_all add: c1_def)
  qed
  moreover have "c_closed c \<longrightarrow> ?d = [] \<and> c_default_stream c = None"
    using assms by (auto simp: table_defs)
  moreover have "cd_streams_opened (c_debug c) = cd_streams_closed (c_debug c) + 1 + word_of_nat (length ?d)"
    using assms len by (simp add: table_defs)
  moreover have "c_streams (close_and_count r c1) = ?d" "c_default_stream (close_and_count r c1) = c_default_stream c"
    "c_closed (close_and_count r c1) = c_closed c"
    "cd_streams_opened (c_debug (close_and_count r c1)) = cd_streams_opened (c_debug c)"
    "cd_streams_closed (c_debug (close_and_count r c1)) = cd_streams_closed (c_debug c) + 1"
    unfolding cc by (simp_all add: c1_def)
  ultimately have "table_ok (close_and_count r c1)" unfolding table_defs using d2 by simp
  with Some show ?thesis by (simp add: remove_stream_def c1_def)
qed

lemma remove_peer_stream_ok [invar_intros]:
  "table_ok c \<Longrightarrow> table_ok (snd (remove_peer_stream sid c))"
  unfolding remove_peer_stream_def by (rule remove_stream_ok) (simp add: table_defs)

text \<open>\<open>close_all_streams\<close>: the entries still to close are open, and are counted one by one.\<close>

lemma notify_close_fields [simp]:
  "c_streams (notify_close r c) = c_streams c" "c_default_stream (notify_close r c) = c_default_stream c"
  "c_closed (notify_close r c) = c_closed c" "c_heap (notify_close r c) = c_heap c"
  "c_debug (notify_close r c) = c_debug c" "c_next_stream_id (notify_close r c) = c_next_stream_id c"
  "c_closed_peer (notify_close r c) = c_closed_peer c"
  by (simp_all add: notify_close_def)

lemma close_and_count_fields [simp]:
  "c_streams (close_and_count r c) = c_streams c" "c_default_stream (close_and_count r c) = c_default_stream c"
  "c_closed (close_and_count r c) = c_closed c" "length (c_heap (close_and_count r c)) = length (c_heap c)"
  "c_next_stream_id (close_and_count r c) = c_next_stream_id c"
  "c_closed_peer (close_and_count r c) = c_closed_peer c"
  "cd_streams_opened (c_debug (close_and_count r c)) = cd_streams_opened (c_debug c)"
  by (simp_all add: close_and_count_def close_channels_def)

lemma close_fold_fields [simp]:
  fixes xs :: "(u32 \<times> nat) list"
  shows "c_streams (fold (\<lambda>(sid, r) c. notify_close r (close_and_count r c)) xs c) = c_streams c"
    "c_default_stream (fold (\<lambda>(sid, r) c. notify_close r (close_and_count r c)) xs c) = c_default_stream c"
    "c_closed (fold (\<lambda>(sid, r) c. notify_close r (close_and_count r c)) xs c) = c_closed c"
    "c_next_stream_id (fold (\<lambda>(sid, r) c. notify_close r (close_and_count r c)) xs c) = c_next_stream_id c"
    "c_closed_peer (fold (\<lambda>(sid, r) c. notify_close r (close_and_count r c)) xs c) = c_closed_peer c"
    "cd_streams_opened (c_debug (fold (\<lambda>(sid, r) c. notify_close r (close_and_count r c)) xs c)) =
       cd_streams_opened (c_debug c)"
  by (induction xs arbitrary: c) (simp_all add: split_def)

lemma close_fold_counts:
  assumes "distinct (map snd xs)" "\<forall>(sid, r) \<in> set xs. r < length (c_heap c) \<and> \<not> st_closed (stream_at c r)"
  shows "cd_streams_closed (c_debug (fold (\<lambda>(sid :: u32, r) c. notify_close r (close_and_count r c)) xs c)) =
      cd_streams_closed (c_debug c) + word_of_nat (length xs)"
  using assms
proof (induction xs arbitrary: c)
  case (Cons x xs)
  obtain sid r where x: "x = (sid, r)" by (cases x)
  with Cons(3) have cc: "close_and_count r c = c\<lparr>c_heap := (c_heap c)[r := (stream_at c r)\<lparr>st_closed := True\<rparr>],
     c_debug := (c_debug c)\<lparr>cd_streams_closed := cd_streams_closed (c_debug c) + 1\<rparr>\<rparr>"
    by (intro close_and_count_open) simp
  have "\<forall>(sid, q) \<in> set xs. q < length (c_heap (notify_close r (close_and_count r c))) \<and>
      \<not> st_closed (stream_at (notify_close r (close_and_count r c)) q)"
  proof clarify
    fix i q assume iq: "(i, q) \<in> set xs"
    then have "q \<in> set (map snd xs)" by force
    with Cons(2) x have "q \<noteq> r" by auto
    moreover from iq Cons(3) have "q < length (c_heap c) \<and> \<not> st_closed (stream_at c q)" by auto
    ultimately show "q < length (c_heap (notify_close r (close_and_count r c))) \<and>
      \<not> st_closed (stream_at (notify_close r (close_and_count r c)) q)"
      by (simp add: cc)
  qed
  from Cons(1)[OF _ this] Cons(2) x show ?case by (simp add: cc)
qed simp

lemma close_all_streams_ok:
  assumes "entries_ok c"
  shows "table_ok (close_all_streams c)" "c_streams (close_all_streams c) = []"
    "c_default_stream (close_all_streams c) = None" "c_closed (close_all_streams c) = c_closed c"
proof -
  show fields: "c_streams (close_all_streams c) = []" "c_default_stream (close_all_streams c) = None"
    "c_closed (close_all_streams c) = c_closed c"
    by (simp_all add: close_all_streams_def)
  have "distinct (map snd (c_streams c))"
    "\<forall>(sid, r) \<in> set (c_streams c). r < length (c_heap c) \<and> \<not> st_closed (stream_at c r)"
    using assms by (auto simp: entries_ok_def)
  with close_fold_counts[of "c_streams c" "c\<lparr>c_streams := [], c_default_stream := None\<rparr>"]
  have "cd_streams_closed (c_debug (close_all_streams c)) =
      cd_streams_closed (c_debug c) + word_of_nat (length (c_streams c))"
    by (simp add: close_all_streams_def)
  moreover have "cd_streams_opened (c_debug (close_all_streams c)) = cd_streams_opened (c_debug c)"
    by (simp add: close_all_streams_def)
  ultimately show "table_ok (close_all_streams c)" using assms fields by (simp add: table_defs)
qed

lemma abort_reader_fields [simp]:
  "c_streams (abort_reader c) = c_streams c" "c_heap (abort_reader c) = c_heap c"
  "c_default_stream (abort_reader c) = c_default_stream c" "c_debug (abort_reader c) = c_debug c"
  "c_next_stream_id (abort_reader c) = c_next_stream_id c" "c_closed_peer (abort_reader c) = c_closed_peer c"
  "c_closed (abort_reader c) = c_closed c"
  by (simp_all add: abort_reader_def)

lemma mark_closed_ok [invar_intros]:
  assumes "table_ok c"
  shows "table_ok (mark_closed c)"
proof (cases "c_closed c")
  case False
  have "entries_ok ((abort_reader c)\<lparr>c_closed := True, c_transport_attached := False\<rparr>)"
    using assms by (simp add: table_defs abort_reader_def)
  from close_all_streams_ok(1)[OF this] False show ?thesis by (simp add: mark_closed_def)
qed (use assms in \<open>simp add: mark_closed_def\<close>)

lemma mark_closed_closed [simp]: "c_closed (mark_closed c)"
  by (simp add: mark_closed_def close_all_streams_def)

end
