(* ===== verification/ConnectionOps.thy ===== *)
theory ConnectionOps
  imports Connection
begin

unbundle bit_operations_syntax

text \<open>
  The operations of \<open>src/src/connection.rs\<close> on frames: routing a received frame to its stream,
  queueing a frame to send, closing, and the reader and writer tasks of a version 2 connection.

  An operation that awaits a channel with no room is suspended there: its state then is a value
  (\<open>Sending\<close>, \<open>QueueFull\<close>, \<open>WaitTicket\<close>) from which it goes on later. \<open>config\<close> is the
  configuration set before the tasks start (the code panics before that).
\<close>

definition config :: "('r, 'j) connection \<Rightarrow> conn_config" where
  "config c = the (c_config c)"

definition is_recovery_enabled :: "('r, 'j) connection \<Rightarrow> bool" where
  "is_recovery_enabled c \<longleftrightarrow> c_recovery c \<noteq> None \<and> cc_version (config c) = PROTOCOL_VERSION_V3"

text \<open>\<open>notify_one\<close> of \<open>send_notify\<close> leaves a permit for the writer's next wait.\<close>

definition signal_send :: "('r, 'j) connection \<Rightarrow> ('r, 'j) connection" where
  "signal_send c = c\<lparr>c_send_permit := True\<rparr>"

section \<open>Received frames\<close>

text \<open>
  \<open>Sending r ps\<close>: the payloads still to send on the incoming channel of stream \<open>r\<close>, in order; an
  empty payload is the FIN marker of \<open>queue_fin\<close>.
\<close>

datatype accept_state = Accepted "am_error + unit" | Sending nat "bytes list"

text \<open>The local \<open>fin\<close> of \<open>accept_frame\<close>.\<close>

definition is_fin :: "u32 \<Rightarrow> u8 \<Rightarrow> bool" where
  "is_fin stream_id flags \<longleftrightarrow>
     flags AND FRAME_FLAG_FIN \<noteq> 0 \<and> stream_id \<noteq> DEFAULT_STREAM_ID \<and> stream_id \<noteq> CONTROL_STREAM_ID"

definition accept_route :: "u32 \<Rightarrow> u8 \<Rightarrow> bytes \<Rightarrow> ('r, 'j) connection \<Rightarrow> accept_state \<times> ('r, 'j) connection" where
  "accept_route stream_id flags payload c =
     (let fin = is_fin stream_id flags
      in if fin \<and> payload = []
         then let c1 = c\<lparr>c_closed_peer := c_closed_peer c - {stream_id}\<rparr>
              in (case lookup_stream_ctx stream_id c1 of
                   Some r \<Rightarrow> (Sending r [[]], c1) | None \<Rightarrow> (Accepted (Inr ()), c1))
         else (case inbound_stream stream_id c of
             (None, c1) \<Rightarrow> (Accepted (Inr ()),
                if fin then c1\<lparr>c_closed_peer := c_closed_peer c1 - {stream_id}\<rparr> else c1)
           | (Some r, c1) \<Rightarrow> (Sending r ((if payload \<noteq> [] then [payload] else []) @ (if fin then [[]] else [])), c1)))"

definition push_incoming :: "bytes \<Rightarrow> ('r, 'j) stream \<Rightarrow> ('r, 'j) stream" where
  "push_incoming p s = s\<lparr>st_incoming := st_incoming s @ [p]\<rparr>"

fun accept_step :: "accept_state \<times> ('r, 'j) connection \<Rightarrow> accept_state \<times> ('r, 'j) connection" where
  "accept_step (Accepted res, c) = (Accepted res, c)"
| "accept_step (Sending r [], c) = (Accepted (Inr ()), c)"
| "accept_step (Sending r (p # ps), c) =
     (if \<not> st_incoming_open (stream_at c r)
      then (if p = [] then (Sending r ps, c)
            else (Accepted (if c_closed c then Inl Closed else Inr ()), c))
      else if length (st_incoming (stream_at c r)) < st_capacity (stream_at c r)
      then (Sending r ps, update_stream r (push_incoming p) c)
      else (Sending r (p # ps), c))"

definition accept_frame :: "u32 \<Rightarrow> u8 \<Rightarrow> bytes \<Rightarrow> ('r, 'j) connection \<Rightarrow> accept_state \<times> ('r, 'j) connection" where
  "accept_frame stream_id flags payload c =
     accept_step (accept_step (accept_step (accept_route stream_id flags payload c)))"

section \<open>Frames to send\<close>

text \<open>
  \<open>encode\<close> is the codec of the connection (\<open>CodecImpl::encode\<close>), given the codec's ID and the
  message.
\<close>

definition encode_message ::
  "(codec_id \<Rightarrow> 'm \<Rightarrow> am_error + bytes) \<Rightarrow> 'm \<Rightarrow> ('r, 'j) connection \<Rightarrow> am_error + bytes" where
  "encode_message encode msg c =
     try_res (encode (cc_codec_id (config c)) msg) (\<lambda>payload.
       if unat (cc_max_frame (config c)) < length payload then Inl (FrameTooLarge (length payload))
       else Inr payload)"

datatype enqueue_state = Enqueued "am_error + unit" | QueueFull | WaitTicket nat

definition push_outbound :: "outbound_frame \<Rightarrow> ('r, 'j) connection \<Rightarrow> ('r, 'j) connection" where
  "push_outbound f c = c\<lparr>c_outbound := c_outbound c @ [f]\<rparr>"

definition enqueue_frame :: "outbound_frame \<Rightarrow> ('r, 'j) connection \<Rightarrow> enqueue_state \<times> ('r, 'j) connection" where
  "enqueue_frame frame c =
     (if c_closing c then (Enqueued (Inl Closed), c)
      else case c_recovery c of
        Some _ \<Rightarrow> (case (case frame of Plain sid flags payload \<Rightarrow> Some (sid, flags, payload)
                               | Recovery sid flags payload _ \<Rightarrow> Some (sid, flags, payload)
                               | CloseMarker \<Rightarrow> None) of
            None \<Rightarrow> (Enqueued (Inl Closed), c)
          | Some (sid, flags, payload) \<Rightarrow>
              if \<not> c_outbound_open c then (Enqueued (Inl Closed), c)
              else if length (c_outbound c) < STREAM_QUEUE_SIZE
              then (let ticket = c_next_ticket c in
                (WaitTicket ticket,
                 signal_send (push_outbound (Recovery sid flags payload ticket) (c\<lparr>c_next_ticket := ticket + 1\<rparr>))))
              else (QueueFull, c))
      | None \<Rightarrow>
          if \<not> c_outbound_open c then (Enqueued (Inl Closed), c)
          else if length (c_outbound c) < STREAM_QUEUE_SIZE then (Enqueued (Inr ()), push_outbound frame c)
          else (QueueFull, c))"

text \<open>
  The outcome of a ticket: the one its frame was given, or \<open>Closed\<close> if the writer is gone and
  dropped the sender.
\<close>

definition ticket_result :: "nat \<Rightarrow> ('r, 'j) connection \<Rightarrow> (am_error + unit) option" where
  "ticket_result t c = (case map_of (c_queued c) t of
     Some res \<Rightarrow> Some res | None \<Rightarrow> if c_outbound_open c then None else Some (Inl Closed))"

definition conn_write_frame :: "writer \<Rightarrow> u32 \<Rightarrow> u64 \<Rightarrow> u8 \<Rightarrow> bytes \<Rightarrow> ('r, 'j) connection \<Rightarrow>
    (am_error + unit) \<times> writer \<times> ('r, 'j) connection" where
  "conn_write_frame w sid seq flags payload c =
     (case write_frame_counted (config c) w sid seq flags payload of
        (Inl e, w') \<Rightarrow> (Inl e, w', c)
      | (Inr n, w') \<Rightarrow> (Inr (), w', c\<lparr>c_debug := note_frame_written sid n (c_debug c)\<rparr>))"

section \<open>Closing\<close>

text \<open>
  \<open>close\<close>: \<open>close_begin\<close> queues the close marker, if the writer runs; \<open>mark_closed\<close> follows when
  the peer has closed its side or the time is up. The result tells whether it waits.
\<close>

definition close_begin :: "('r, 'j) connection \<Rightarrow> bool \<times> ('r, 'j) connection" where
  "close_begin c =
     (if c_closing c then (False, mark_closed c)
      else let c1 = c\<lparr>c_closing := True\<rparr>
           in if \<not> c_writer_started c then (False, mark_closed c1)
              else if \<not> c_outbound_open c then (False, mark_closed c1)
              else (True, signal_send (push_outbound CloseMarker c1)))"

text \<open>
  \<open>close_by_peer\<close>: the streams whose queues get a FIN marker; once they are closed, or the time is
  up, \<open>mark_closed\<close> follows.
\<close>

definition close_by_peer :: "('r, 'j) connection \<Rightarrow> nat list option \<times> ('r, 'j) connection" where
  "close_by_peer c =
     (if c_closing c then (None, mark_closed c)
      else (Some (map snd (c_streams c)), c\<lparr>c_closing := True\<rparr>))"

definition conn_debug_state :: "codec_registry \<Rightarrow> ('r, 'j) connection \<Rightarrow> connection_debug_state" where
  "conn_debug_state reg c =
     (case (case c_config c of
          Some cfg \<Rightarrow> (cc_version cfg, cc_codec_id cfg, codec_name reg (cc_codec_id cfg), cc_max_frame cfg)
        | None \<Rightarrow> (0, 0, [], 0)) of (protocol, codec, cname, max_frame) \<Rightarrow>
       conn_build_state (c_debug c) (c_closed c) protocol codec cname max_frame (length (c_streams c))
         (c_next_send_seq c) (map (\<lambda>(sid, r). stream_debug (stream_at c r)) (c_streams c))
         (map_option (\<lambda>rs. recovery_debug rs (c_transport_gen c) (c_transport_attached c)
            (length (c_outbound c))) (c_recovery c)))"

section \<open>The tasks of a version 2 connection\<close>

text \<open>\<open>io\<close> is the text of an I/O error.\<close>

definition write_plain_frame_no_flush ::
  "writer \<Rightarrow> outbound_frame \<Rightarrow> ('r, 'j) connection \<Rightarrow> (am_error + unit) \<times> writer \<times> ('r, 'j) connection" where
  "write_plain_frame_no_flush w frame c = (case frame of
     Plain sid flags payload \<Rightarrow> conn_write_frame w sid 0 flags payload c
   | Recovery sid flags payload ticket \<Rightarrow>
       conn_write_frame w sid 0 flags payload (c\<lparr>c_queued := (ticket, Inr ()) # c_queued c\<rparr>)
   | CloseMarker \<Rightarrow> (Inr (), w, c))"

datatype task = Running | Done

text \<open>The inner loop of the writer: every frame queued, up to a close marker or a failure.\<close>

fun plain_batch :: "(io_kind \<Rightarrow> string) \<Rightarrow> outbound_frame list \<Rightarrow> writer \<Rightarrow> ('r, 'j) connection \<Rightarrow>
    task \<times> outbound_frame list \<times> writer \<times> ('r, 'j) connection" where
  "plain_batch io [] w c = (Running, [], w, c)"
| "plain_batch io (frame # rest) w c =
     (if frame = CloseMarker
      then (case shutdown w of (res, w') \<Rightarrow> (Done, rest, w', c\<lparr>c_written := Some (is_ok res)\<rparr>))
      else (case write_plain_frame_no_flush w frame c of
          (Inl e, w', c') \<Rightarrow>
            (Done, rest, w', mark_closed (note_conn_failure FAILURE_CONNECTION_WRITER (error_display io e) c'))
        | (Inr _, w', c') \<Rightarrow> plain_batch io rest w' c'))"

text \<open>
  One turn of the writer's loop: a command first or a batch of frames, as the caller of the step
  says, since \<open>select!\<close> takes any branch that is ready. A task that ends drops the receiver.
\<close>

definition end_writer :: "task \<times> 'w \<times> ('r, 'j) connection \<Rightarrow> task \<times> 'w \<times> ('r, 'j) connection" where
  "end_writer x = (case x of (Done, w, c) \<Rightarrow> (Done, w, c\<lparr>c_outbound_open := False\<rparr>) | _ \<Rightarrow> x)"

definition plain_writer_cmd ::
  "writer option \<Rightarrow> ('r, 'j) connection \<Rightarrow> task \<times> writer option \<times> ('r, 'j) connection" where
  "plain_writer_cmd w c = (case c_cmds c of
     [] \<Rightarrow> (Running, w, c)
   | Attach gen w' resume_seq # cmds \<Rightarrow> (Running, Some w', c\<lparr>c_cmds := cmds\<rparr>)
   | Detach gen # cmds \<Rightarrow> (Running, None, c\<lparr>c_cmds := cmds\<rparr>))"

definition plain_writer_frames :: "(io_kind \<Rightarrow> string) \<Rightarrow>
    writer option \<Rightarrow> ('r, 'j) connection \<Rightarrow> task \<times> writer option \<times> ('r, 'j) connection" where
  "plain_writer_frames io w c = (case w of
     None \<Rightarrow> (Running, w, c)
   | Some w0 \<Rightarrow>
       if c_outbound c = [] then (Running, w, c)
       else end_writer (case plain_batch io (c_outbound c) w0 c of
           (Done, rest, w1, c1) \<Rightarrow> (Done, Some w1, c1\<lparr>c_outbound := rest\<rparr>)
         | (Running, rest, w1, c1) \<Rightarrow> (case flush w1 of
               Inl e \<Rightarrow> (Done, Some w1, mark_closed (note_conn_failure FAILURE_CONNECTION_WRITER
                          (error_display io e) (c1\<lparr>c_outbound := rest\<rparr>)))
             | Inr _ \<Rightarrow> (Running, Some w1, c1\<lparr>c_outbound := rest\<rparr>))))"

text \<open>
  One turn of the reader's loop. The streams to deliver a FIN to are those of \<open>close_by_peer\<close>; the
  outer \<open>None\<close> is a panic in \<open>read_frame\<close>.
\<close>

datatype reader_task = Reading reader | Accepting accept_state reader | ClosingByPeer "nat list option" | ReaderDone

definition plain_reader_step :: "(io_kind \<Rightarrow> string) \<Rightarrow> reader \<Rightarrow> ('r, 'j) connection \<Rightarrow>
    (reader_task \<times> ('r, 'j) connection) option" where
  "plain_reader_step io r c = (case read_frame (config c) r of
     None \<Rightarrow> None
   | Some (Inl e) \<Rightarrow> Some (ReaderDone,
        mark_closed (note_conn_failure FAILURE_CONNECTION_READER (error_display io e) c))
   | Some (Inr None) \<Rightarrow> (case close_by_peer c of (streams, c1) \<Rightarrow> Some (ClosingByPeer streams, c1))
   | Some (Inr (Some ((sid, seq, flags, payload), r'))) \<Rightarrow>
       (case accept_frame sid flags payload
          (c\<lparr>c_debug := note_frame_read sid (cc_header_len (config c) + length payload) (c_debug c)\<rparr>) of
          (Accepted (Inl e), c1) \<Rightarrow> Some (ReaderDone,
             mark_closed (note_conn_failure FAILURE_CONNECTION_READER_ENQUEUE (error_display io e) c1))
        | (Accepted (Inr _), c1) \<Rightarrow> Some (Reading r', c1)
        | (Sending st ps, c1) \<Rightarrow> Some (Accepting (Sending st ps) r', c1)))"

section \<open>The table of streams under these operations\<close>

lemma push_incoming_fields [simp]:
  "st_id (push_incoming p s) = st_id s" "st_closed (push_incoming p s) = st_closed s"
  by (simp_all add: push_incoming_def)

lemma accept_step_same: "same_table (snd x) (snd (accept_step x))"
  by (cases x rule: accept_step.cases) (auto simp: Let_def intro!: same_table_update)

lemma table_ok_closed_peer: "table_ok (c\<lparr>c_closed_peer := P\<rparr>) = table_ok c"
  by (simp add: table_defs)

lemma inbound_stream_ok [invar_intros]: "table_ok c \<Longrightarrow> table_ok (snd (inbound_stream sid c))"
  using get_stream_ctx_ok[of c sid]
  by (auto simp: inbound_stream_def split: option.split prod.split)

lemma accept_route_ok [invar_intros]: "table_ok c \<Longrightarrow> table_ok (snd (accept_route sid fl pl c))"
  using inbound_stream_ok[of c sid]
  by (auto simp: accept_route_def Let_def table_ok_closed_peer split: option.splits prod.splits)

lemma accept_frame_ok [invar_intros]: "table_ok c \<Longrightarrow> table_ok (snd (accept_frame sid fl pl c))"
  unfolding accept_frame_def
  by (intro table_ok_same[OF accept_step_same] accept_route_ok)

end
