(* ===== verification/Stream.thy ===== *)
theory Stream
  imports ConnectionOps
begin

text \<open>
  \<open>src/src/stream.rs\<close>, and the decode and handler tasks of a stream (\<open>src/src/connection.rs\<close>).

  What codecs, messages and handlers do is code of the application or of third parties: an
  environment \<open>stream_env\<close> names the operations the stream calls on them. The types are those of
  received messages (\<open>'r\<close>), handler jobs (\<open>'j\<close>) and messages to send (\<open>'m\<close>).
\<close>

record ('r, 'j, 'm) stream_env =
  se_io :: "io_kind \<Rightarrow> string"
  se_encode :: "codec_id \<Rightarrow> 'm \<Rightarrow> am_error + bytes"
  se_decode_envelope :: "codec_id \<Rightarrow> bytes \<Rightarrow> am_error + 'r"
  se_wire :: "'r \<Rightarrow> string"
  se_has_handler :: "string \<Rightarrow> bool"
  se_decode_job :: "'r \<Rightarrow> am_error + 'j"
  se_decode_error_reply :: "'r \<Rightarrow> am_error + (string \<times> string)"
  se_error_reply :: "string \<Rightarrow> string \<Rightarrow> 'm"
  se_ok_reply :: 'm
  se_error_reply_wire :: string

definition display :: "('r, 'j, 'm) stream_env \<Rightarrow> am_error \<Rightarrow> string" where
  "display env e = error_display (se_io env) e"

section \<open>Counters and failures\<close>

definition count :: "msg_counter \<Rightarrow> nat \<Rightarrow> ('r, 'j) connection \<Rightarrow> ('r, 'j) connection" where
  "count k r c =
     update_stream r (\<lambda>s. s\<lparr>st_debug := (st_debug s)\<lparr>sd_messages := bump k (sd_messages (st_debug s))\<rparr>\<rparr>)
       (c\<lparr>c_debug := (c_debug c)\<lparr>cd_messages := bump k (cd_messages (c_debug c))\<rparr>\<rparr>)"

text \<open>A failure of the stream alone (\<open>self.debug.note_failure\<close>), and of both.\<close>

definition note_stream_failure :: "string \<Rightarrow> string \<Rightarrow> nat \<Rightarrow> ('r, 'j) connection \<Rightarrow> ('r, 'j) connection" where
  "note_stream_failure code reason r c =
     update_stream r (\<lambda>s. s\<lparr>st_debug := stream_note_failure (c_now c) code reason (st_debug s)\<rparr>) c"

definition note_failure :: "string \<Rightarrow> string \<Rightarrow> nat \<Rightarrow> ('r, 'j) connection \<Rightarrow> ('r, 'j) connection" where
  "note_failure code reason r c = note_stream_failure code reason r (note_conn_failure code reason c)"

definition note_decode_error ::
  "('r, 'j, 'm) stream_env \<Rightarrow> am_error \<Rightarrow> nat \<Rightarrow> ('r, 'j) connection \<Rightarrow> ('r, 'j) connection" where
  "note_decode_error env e r c =
     note_failure FAILURE_STREAM_DECODE (''decode failed: '' @ display env e) r (count DecodeErrors r c)"

section \<open>Sending\<close>

text \<open>
  \<open>send_fin\<close> and \<open>send_boxed\<close> queue a frame; where that waits, the result is the waiting state and
  \<open>send_fin_done\<close> or \<open>send_done\<close> is what follows the outcome.
\<close>

definition send_fin_done ::
  "('r, 'j, 'm) stream_env \<Rightarrow> nat \<Rightarrow> am_error + unit \<Rightarrow> ('r, 'j) connection \<Rightarrow> ('r, 'j) connection" where
  "send_fin_done env r res c = (case res of
     Inl e \<Rightarrow> note_stream_failure FAILURE_STREAM_ENQUEUE (''fin enqueue failed: '' @ display env e) r c
   | Inr _ \<Rightarrow> c)"

definition send_fin ::
  "('r, 'j, 'm) stream_env \<Rightarrow> nat \<Rightarrow> ('r, 'j) connection \<Rightarrow> enqueue_state \<times> ('r, 'j) connection" where
  "send_fin env r c = (case enqueue_frame (Plain (st_id (stream_at c r)) FRAME_FLAG_FIN []) c of
     (Enqueued res, c1) \<Rightarrow> (Enqueued res, send_fin_done env r res c1)
   | (waiting, c1) \<Rightarrow> (waiting, c1))"

definition send_done ::
  "('r, 'j, 'm) stream_env \<Rightarrow> nat \<Rightarrow> am_error + unit \<Rightarrow> ('r, 'j) connection \<Rightarrow> ('r, 'j) connection" where
  "send_done env r res c = (case res of
     Inl e \<Rightarrow> note_failure FAILURE_STREAM_ENQUEUE (''enqueue failed: '' @ display env e) r c
   | Inr _ \<Rightarrow> count DataSent r c)"

definition send_boxed ::
  "('r, 'j, 'm) stream_env \<Rightarrow> 'm \<Rightarrow> nat \<Rightarrow> ('r, 'j) connection \<Rightarrow> enqueue_state \<times> ('r, 'j) connection" where
  "send_boxed env msg r c =
     (if st_fin_started (stream_at c r) \<or> st_closed (stream_at c r) then (Enqueued (Inl Closed), c)
      else case encode_message (se_encode env) msg c of
          Inl e \<Rightarrow> (Enqueued (Inl e),
             note_failure FAILURE_STREAM_ENCODE (''encode failed: '' @ display env e) r c)
        | Inr payload \<Rightarrow> (case enqueue_frame (Plain (st_id (stream_at c r)) 0 payload) c of
            (Enqueued res, c1) \<Rightarrow> (Enqueued res, send_done env r res c1)
          | (waiting, c1) \<Rightarrow> (waiting, c1)))"

section \<open>Closing a stream\<close>

definition start_fin :: "('r, 'j) stream \<Rightarrow> ('r, 'j) stream" where
  "start_fin s = s\<lparr>st_fin_started := True\<rparr>"

text \<open>
  \<open>close\<close>: whether it spawned the task that sends the FIN; that task ends with \<open>close_task_end\<close>.
\<close>

definition stream_close :: "nat \<Rightarrow> ('r, 'j) connection \<Rightarrow> bool \<times> ('r, 'j) connection" where
  "stream_close r c =
     (let sid = st_id (stream_at c r) in
      if \<not> opened_stream sid c
      then (False, case remove_peer_stream sid c of
              (Some q, c1) \<Rightarrow> notify_close q c1 | (None, c1) \<Rightarrow> c1)
      else if st_fin_started (stream_at c r) then (False, c)
      else (True, update_stream r start_fin c))"

definition close_task_end :: "nat \<Rightarrow> ('r, 'j) connection \<Rightarrow> ('r, 'j) connection" where
  "close_task_end r c = (case remove_stream (st_id (stream_at c r)) c of
     (Some q, c1) \<Rightarrow> notify_close q c1 | (None, c1) \<Rightarrow> c1)"

section \<open>Protocol errors\<close>

text \<open>
  \<open>protocol_error\<close>: it answers with an \<open>ErrorReply\<close>, then releases the stream, with a FIN if this
  side opened it. It may wait in the reply or in the FIN.
\<close>

datatype protocol_error_state = ReplyWaits enqueue_state | FinWaits enqueue_state | Released

definition protocol_error_end ::
  "nat \<Rightarrow> ('r, 'j) connection \<Rightarrow> protocol_error_state \<times> ('r, 'j) connection" where
  "protocol_error_end r c = (Released, snd (remove_stream (st_id (stream_at c r)) c))"

definition protocol_error_sent :: "('r, 'j, 'm) stream_env \<Rightarrow> am_error + unit \<Rightarrow> nat \<Rightarrow>
    ('r, 'j) connection \<Rightarrow> protocol_error_state \<times> ('r, 'j) connection" where
  "protocol_error_sent env res r c =
     (let c1 = (case res of
            Inl e \<Rightarrow> count ReplySendFailure r (note_failure FAILURE_STREAM_PROTOCOL_REPLY_SEND
                       (''protocol error reply send failed: '' @ display env e) r c)
          | Inr _ \<Rightarrow> c);
          sid = st_id (stream_at c1 r)
      in if \<not> opened_stream sid c1 then (Released, snd (remove_peer_stream sid c1))
         else if st_fin_started (stream_at c1 r) then protocol_error_end r c1
         else (case send_fin env r (update_stream r start_fin c1) of
             (Enqueued _, c2) \<Rightarrow> protocol_error_end r c2
           | (waiting, c2) \<Rightarrow> (FinWaits waiting, c2)))"

definition protocol_error :: "('r, 'j, 'm) stream_env \<Rightarrow> string \<Rightarrow> string \<Rightarrow> nat \<Rightarrow>
    ('r, 'j) connection \<Rightarrow> protocol_error_state \<times> ('r, 'j) connection" where
  "protocol_error env code message r c =
     (let reason = (if message = [] then code else code @ '': '' @ message);
          c1 = note_conn_failure FAILURE_STREAM_PROTOCOL (''stream protocol error: '' @ reason) c;
          c2 = note_stream_failure FAILURE_STREAM_PROTOCOL reason r c1;
          c3 = count ProtocolErrors r c2
      in (case send_boxed env (se_error_reply env code message) r c3 of
           (Enqueued res, c4) \<Rightarrow> protocol_error_sent env res r c4
         | (waiting, c4) \<Rightarrow> (ReplyWaits waiting, c4)))"

definition protocol_error_for :: "('r, 'j, 'm) stream_env \<Rightarrow> am_error \<Rightarrow> nat \<Rightarrow>
    ('r, 'j) connection \<Rightarrow> protocol_error_state \<times> ('r, 'j) connection" where
  "protocol_error_for env e r c = (case e of
     TypeMismatch expected got \<Rightarrow>
       protocol_error env ''protocol_error'' (''expected '' @ expected @ '' got '' @ got) r c
   | _ \<Rightarrow> protocol_error env ''codec_error'' (display env e) r c)"

section \<open>Receiving\<close>

definition recv_guard :: "nat \<Rightarrow> ('r, 'j) connection \<Rightarrow> (am_error + unit) \<times> ('r, 'j) connection" where
  "recv_guard r c =
     (if st_recv_active (stream_at c r) then (Inl ConcurrentRecv, c)
      else (Inr (), update_stream r (\<lambda>s. s\<lparr>st_recv_active := True\<rparr>) c))"

definition release_guard :: "nat \<Rightarrow> ('r, 'j) connection \<Rightarrow> ('r, 'j) connection" where
  "release_guard r c = update_stream r (\<lambda>s. s\<lparr>st_recv_active := False\<rparr>) c"

text \<open>
  The loop of \<open>read_raw\<close> over the messages in the inbox: each stale reply is dropped, the first
  other message is the result.
\<close>

fun take_fresh :: "nat \<Rightarrow> 'r list \<Rightarrow> nat \<times> 'r option \<times> 'r list" where
  "take_fresh stale [] = (stale, None, [])"
| "take_fresh stale (m # ms) = (if 0 < stale then take_fresh (stale - 1) ms else (0, Some m, ms))"

text \<open>
  \<open>read_raw\<close> until it has a result or has to wait (\<open>None\<close>); with an empty inbox the loop ends when
  the stream or the connection is closed. \<open>read_raw_timeout\<close> is the end of the wait by its deadline.
\<close>

definition read_raw :: "nat \<Rightarrow> ('r, 'j) connection \<Rightarrow> (am_error + 'r) option \<times> ('r, 'j) connection" where
  "read_raw r c =
     (case take_fresh (st_stale_replies (stream_at c r)) (st_inbox (stream_at c r)) of
        (stale, msg, rest) \<Rightarrow>
          let c1 = update_stream r (\<lambda>s. s\<lparr>st_inbox := rest, st_stale_replies := stale\<rparr>) c
          in (case msg of
              Some m \<Rightarrow> (Some (Inr m), c1)
            | None \<Rightarrow> (if st_closed (stream_at c r) \<or> c_closed c then Some (Inl Closed) else None, c1)))"

definition read_raw_timeout :: "nat \<Rightarrow> ('r, 'j) connection \<Rightarrow> (am_error + 'r) option \<times> ('r, 'j) connection" where
  "read_raw_timeout r c =
     (if st_recv_timeout (stream_at c r) = RECV_TIMEOUT_NONE then (None, c)
      else (Some (Inl RecvTimeout),
            note_conn_failure FAILURE_STREAM_RECV_TIMEOUT ''stream recv timeout''
              (note_stream_failure FAILURE_STREAM_RECV_TIMEOUT ''recv timeout'' r c)))"

definition take_raw :: "nat \<Rightarrow> ('r, 'j) connection \<Rightarrow> (am_error + 'r) option \<times> ('r, 'j) connection" where
  "take_raw r c = (case st_peeked (stream_at c r) of
     Some m \<Rightarrow> (Some (Inr m), update_stream r (\<lambda>s. s\<lparr>st_peeked := None\<rparr>) c)
   | None \<Rightarrow> read_raw r c)"

text \<open>\<open>peek_wire\<close> and \<open>recv_raw\<close>, which hold the guard over their wait: begin, and each try.\<close>

definition peek_wire_try :: "('r, 'j, 'm) stream_env \<Rightarrow> nat \<Rightarrow> ('r, 'j) connection \<Rightarrow>
    (am_error + string) option \<times> ('r, 'j) connection" where
  "peek_wire_try env r c = (case st_peeked (stream_at c r) of
     Some m \<Rightarrow> (Some (Inr (se_wire env m)), release_guard r c)
   | None \<Rightarrow> (case read_raw r c of
         (None, c1) \<Rightarrow> (None, c1)
       | (Some (Inl e), c1) \<Rightarrow> (Some (Inl e), release_guard r c1)
       | (Some (Inr m), c1) \<Rightarrow> (Some (Inr (se_wire env m)),
            release_guard r (update_stream r (\<lambda>s. s\<lparr>st_peeked := Some m\<rparr>) c1))))"

definition recv_raw_try :: "nat \<Rightarrow> ('r, 'j) connection \<Rightarrow> (am_error + 'r) option \<times> ('r, 'j) connection" where
  "recv_raw_try r c = (case take_raw r c of
     (None, c1) \<Rightarrow> (None, c1) | (Some res, c1) \<Rightarrow> (Some res, release_guard r c1))"

text \<open>
  \<open>send_recv\<close>: the guard and the request; then each try for the reply. A deadline counts the reply
  as stale. \<open>send_recv_reply\<close> is what it does with a message.
\<close>

definition send_recv_begin :: "('r, 'j, 'm) stream_env \<Rightarrow> 'm \<Rightarrow> nat \<Rightarrow> ('r, 'j) connection \<Rightarrow>
    enqueue_state \<times> ('r, 'j) connection" where
  "send_recv_begin env msg r c = (case recv_guard r c of
     (Inl e, c1) \<Rightarrow> (Enqueued (Inl e), c1)
   | (Inr _, c1) \<Rightarrow> (case send_boxed env msg r c1 of
         (Enqueued (Inl e), c2) \<Rightarrow> (Enqueued (Inl e), release_guard r c2)
       | x \<Rightarrow> x))"

definition send_recv_try :: "nat \<Rightarrow> ('r, 'j) connection \<Rightarrow> (am_error + 'r) option \<times> ('r, 'j) connection" where
  "send_recv_try r c = (case take_raw r c of
     (Some (Inl e), c1) \<Rightarrow> (Some (Inl e), release_guard r c1) | x \<Rightarrow> x)"

definition send_recv_timeout :: "nat \<Rightarrow> ('r, 'j) connection \<Rightarrow> (am_error + 'r) option \<times> ('r, 'j) connection" where
  "send_recv_timeout r c = (case read_raw_timeout r c of
     (Some res, c1) \<Rightarrow> (Some res,
        release_guard r (update_stream r (\<lambda>s. s\<lparr>st_stale_replies := st_stale_replies s + 1\<rparr>) c1))
   | x \<Rightarrow> x)"

definition decode_reply :: "('r, 'j, 'm) stream_env \<Rightarrow> ('r \<Rightarrow> am_error + 't) \<Rightarrow> 'r \<Rightarrow> nat \<Rightarrow>
    ('r, 'j) connection \<Rightarrow> (am_error + 't) \<times> protocol_error_state \<times> ('r, 'j) connection" where
  "decode_reply env decode raw r c = (case decode raw of
     Inl e \<Rightarrow> (Inl e, protocol_error_for env e r (note_decode_error env e r c))
   | Inr t \<Rightarrow> (Inr t, Released, c))"

definition send_recv_reply :: "('r, 'j, 'm) stream_env \<Rightarrow> ('r \<Rightarrow> am_error + 't) \<Rightarrow> 'r \<Rightarrow> nat \<Rightarrow>
    ('r, 'j) connection \<Rightarrow> (am_error + 't) \<times> protocol_error_state \<times> ('r, 'j) connection" where
  "send_recv_reply env decode raw r c =
     (if se_wire env raw = se_error_reply_wire env
      then (case se_decode_error_reply env raw of
          Inr (code, message) \<Rightarrow> (Inl (Remote code message), Released, count RemoteErrors r c)
        | Inl e \<Rightarrow> (Inl e, protocol_error env ''codec_error'' (display env e) r (note_decode_error env e r c)))
      else decode_reply env decode raw r c)"

section \<open>The tasks of a stream\<close>

text \<open>\<open>inbox_q\<close> and \<open>handler_q\<close>: \<open>None\<close> while the queue is full.\<close>

definition inbox_q :: "'r \<Rightarrow> nat \<Rightarrow> ('r, 'j) connection \<Rightarrow> (am_error + unit) option \<times> ('r, 'j) connection" where
  "inbox_q raw r c =
     (if st_closed (stream_at c r) then (Some (Inl Closed), c)
      else if length (st_inbox (stream_at c r)) < st_capacity (stream_at c r)
      then (Some (Inr ()), count DataReceived r (update_stream r (\<lambda>s. s\<lparr>st_inbox := st_inbox s @ [raw]\<rparr>) c))
      else (None, c))"

definition handler_q :: "'j \<Rightarrow> nat \<Rightarrow> ('r, 'j) connection \<Rightarrow> (am_error + unit) option \<times> ('r, 'j) connection" where
  "handler_q job r c =
     (if \<not> st_has_handler_tx (stream_at c r) then (Some (Inl Closed), c)
      else if st_closed (stream_at c r) then (Some (Inl Closed), c)
      else if length (st_handler_q (stream_at c r)) < st_capacity (stream_at c r)
      then (Some (Inr ()), count DataReceived r (update_stream r (\<lambda>s. s\<lparr>st_handler_q := st_handler_q s @ [job]\<rparr>) c))
      else (None, c))"

text \<open>
  The decode task: what it waits for. \<open>decode_frame\<close> takes the next frame of a task that is idle
  (\<open>DecodeNext\<close>), \<open>decode_resume\<close> goes on where a queue was full, and \<open>decode_closed\<close> is the other
  branch of its \<open>select!\<close>.
\<close>

datatype ('r, 'j) decode_task = DecodeNext | InboxWaits 'r | HandlerWaits 'j
  | ErrorWaits protocol_error_state bool | DecodeEnded

definition end_decode :: "nat \<Rightarrow> ('r, 'j) connection \<Rightarrow> ('r, 'j) decode_task \<times> ('r, 'j) connection" where
  "end_decode r c = (DecodeEnded, update_stream r (\<lambda>s. s\<lparr>st_incoming := [], st_incoming_open := False\<rparr>) c)"

definition decode_resume :: "('r, 'j) decode_task \<Rightarrow> nat \<Rightarrow> ('r, 'j) connection \<Rightarrow>
    ('r, 'j) decode_task \<times> ('r, 'j) connection" where
  "decode_resume t r c = (case t of
     InboxWaits raw \<Rightarrow> (case inbox_q raw r c of
         (None, c1) \<Rightarrow> (InboxWaits raw, c1) | (Some _, c1) \<Rightarrow> (DecodeNext, c1))
   | HandlerWaits job \<Rightarrow> (case handler_q job r c of
         (None, c1) \<Rightarrow> (HandlerWaits job, c1) | (Some _, c1) \<Rightarrow> (DecodeNext, c1))
   | ErrorWaits Released ends \<Rightarrow> if ends then end_decode r c else (DecodeNext, c)
   | _ \<Rightarrow> (t, c))"

definition dispatch_raw :: "('r, 'j, 'm) stream_env \<Rightarrow> 'r \<Rightarrow> nat \<Rightarrow> ('r, 'j) connection \<Rightarrow>
    ('r, 'j) decode_task \<times> ('r, 'j) connection" where
  "dispatch_raw env raw r c =
     (if se_has_handler env (se_wire env raw)
      then (case se_decode_job env raw of
          Inr job \<Rightarrow> decode_resume (HandlerWaits job) r c
        | Inl e \<Rightarrow> (case protocol_error env ''codec_error'' (display env e) r (note_decode_error env e r c) of
            (st, c1) \<Rightarrow> decode_resume (ErrorWaits st False) r c1))
      else decode_resume (InboxWaits raw) r c)"

definition decode_frame :: "('r, 'j, 'm) stream_env \<Rightarrow> nat \<Rightarrow> ('r, 'j) connection \<Rightarrow>
    ('r, 'j) decode_task \<times> ('r, 'j) connection" where
  "decode_frame env r c = (case st_incoming (stream_at c r) of
     [] \<Rightarrow> (DecodeNext, c)
   | payload # rest \<Rightarrow>
       let c1 = update_stream r (\<lambda>s. s\<lparr>st_incoming := rest\<rparr>) c
       in if payload = []
          then end_decode r (case remove_stream (st_id (stream_at c1 r)) c1 of
                 (Some q, c2) \<Rightarrow> notify_close q c2 | (None, c2) \<Rightarrow> c2)
          else (case se_decode_envelope env (cc_codec_id (config c1)) payload of
              Inr raw \<Rightarrow> dispatch_raw env raw r c1
            | Inl e \<Rightarrow> (case protocol_error env ''codec_error'' (display env e) r (note_decode_error env e r c1) of
                (st, c2) \<Rightarrow> decode_resume (ErrorWaits st True) r c2)))"

definition decode_closed :: "nat \<Rightarrow> ('r, 'j) connection \<Rightarrow> ('r, 'j) decode_task \<times> ('r, 'j) connection" where
  "decode_closed r c = (if st_closed (stream_at c r) then end_decode r c else (DecodeNext, c))"

text \<open>
  The handler task: it takes the next job (before it looks whether the stream closed), runs the
  handler, and sends what the handler's result asks for. The result comes from the application.
\<close>

datatype 'm handler_result = Reply 'm | NoReply | HandlerError string

definition handler_take :: "nat \<Rightarrow> ('r, 'j) connection \<Rightarrow> 'j option \<times> ('r, 'j) connection" where
  "handler_take r c = (case st_handler_q (stream_at c r) of
     [] \<Rightarrow> (None, c)
   | job # rest \<Rightarrow> (Some job, count HandlerCalls r (update_stream r (\<lambda>s. s\<lparr>st_handler_q := rest\<rparr>) c)))"

definition handler_reply :: "('r, 'j, 'm) stream_env \<Rightarrow> 'm handler_result \<Rightarrow> nat \<Rightarrow>
    ('r, 'j) connection \<Rightarrow> enqueue_state \<times> ('r, 'j) connection" where
  "handler_reply env result r c = (case result of
     Reply m \<Rightarrow> send_boxed env m r c
   | NoReply \<Rightarrow> send_boxed env (se_ok_reply env) r c
   | HandlerError text \<Rightarrow>
       send_boxed env (se_error_reply env ''handler_error'' text) r
         (count HandlerErrors r (note_failure FAILURE_HANDLER_ERROR (''handler error: '' @ text) r c)))"

end
