(* ===== verification/StreamTable.thy ===== *)
theory StreamTable
  imports Stream
begin

text \<open>
  The table of streams over the whole life of a connection. \<open>conn_step\<close> is one atomic step of any
  task or caller that can touch it, in any order: opening, accepting frames, closing, decoding,
  protocol errors, sending. \<open>table_step\<close> is what such a step does to the table alone; every
  operation is a sequence of these. The steps inside an operation, and how those of several tasks
  interleave, are in \<open>TableRaces\<close>.
\<close>

inductive table_step :: "('r, 'j) connection \<Rightarrow> ('r, 'j) connection \<Rightarrow> bool" where
  other: "same_table c c' \<Longrightarrow> table_step c c'"
| opened: "c_next_stream_id c + 1 \<noteq> 0 \<Longrightarrow> table_step c (snd (new_stream c))"
| default: "table_step c (snd (default_stream c))"
| routed: "table_step c (snd (accept_route sid fl pl c))"
| removed: "table_step c (snd (remove_stream sid c))"
| released: "table_step c (snd (remove_peer_stream sid c))"
| closed: "table_step c (mark_closed c)"

inductive_cases table_stepE: "table_step c c'"

text \<open>
  The condition on \<open>new_stream\<close> says that the 64-bit counter has not wrapped: fewer than \<open>2^64\<close>
  calls.
\<close>

inductive conn_step :: "('r, 'j, 'm) stream_env \<Rightarrow> ('r, 'j) connection \<Rightarrow> ('r, 'j) connection \<Rightarrow> bool"
  for env where
  NewStream: "c_next_stream_id c + 1 \<noteq> 0 \<Longrightarrow> conn_step env c (snd (new_stream c))"
| DefaultStream: "conn_step env c (snd (default_stream c))"
| AcceptFrame: "conn_step env c (snd (accept_frame sid fl pl c))"
| AcceptResume: "conn_step env c (snd (accept_step (Sending r ps, c)))"
| SendBoxed: "conn_step env c (snd (send_boxed env msg r c))"
| SendDone: "conn_step env c (send_done env r res c)"
| SendFin: "conn_step env c (snd (send_fin env r c))"
| SendFinDone: "conn_step env c (send_fin_done env r res c)"
| StreamClose: "conn_step env c (snd (stream_close r c))"
| CloseTaskEnd: "conn_step env c (close_task_end r c)"
| DecodeFrame: "conn_step env c (snd (decode_frame env r c))"
| DecodeResume: "conn_step env c (snd (decode_resume t r c))"
| DecodeClosed: "conn_step env c (snd (decode_closed r c))"
| ProtocolErrorFor: "conn_step env c (snd (protocol_error_for env e r c))"
| ProtocolErrorSent: "conn_step env c (snd (protocol_error_sent env res r c))"
| ProtocolErrorEnd: "conn_step env c (snd (protocol_error_end r c))"
| RecvGuard: "conn_step env c (snd (recv_guard r c))"
| RecvTry: "conn_step env c (snd (recv_raw_try r c))"
| PeekTry: "conn_step env c (snd (peek_wire_try env r c))"
| SendRecvBegin: "conn_step env c (snd (send_recv_begin env msg r c))"
| SendRecvTry: "conn_step env c (snd (send_recv_try r c))"
| SendRecvTimeout: "conn_step env c (snd (send_recv_timeout r c))"
| SendRecvReply: "conn_step env c (snd (snd (send_recv_reply env (decode :: 'r \<Rightarrow> am_error + unit) raw r c)))"
| ReleaseGuard: "conn_step env c (release_guard r c)"
| HandlerTake: "conn_step env c (snd (handler_take r c))"
| HandlerReply: "conn_step env c (snd (handler_reply env result r c))"
| CloseBegin: "conn_step env c (snd (close_begin c))"
| CloseByPeer: "conn_step env c (snd (close_by_peer c))"
| MarkClosed: "conn_step env c (mark_closed c)"
| Tick: "conn_step env c (c\<lparr>c_now := t\<rparr>)"

abbreviation conn_run where "conn_run env \<equiv> (conn_step env)\<^sup>*\<^sup>*"

section \<open>Every operation is a sequence of table steps\<close>

lemma same_tableI: "same_table c c' \<Longrightarrow> table_step\<^sup>*\<^sup>* c c'"
  by (blast intro: table_step.other)

lemma same_count: "same_table c (count k r c)"
proof -
  have "same_table c (c\<lparr>c_debug := (c_debug c)\<lparr>cd_messages := x\<rparr>\<rparr>)" for x by (simp add: same_table_def)
  then show ?thesis unfolding count_def
    by (rule same_table_trans) (rule same_table_update; simp)
qed

lemma same_note_stream_failure: "same_table c (note_stream_failure code reason r c)"
  unfolding note_stream_failure_def by (rule same_table_update) simp_all

lemma same_note_failure: "same_table c (note_failure code reason r c)"
  unfolding note_failure_def by (rule same_table_trans[OF same_table_note_failure same_note_stream_failure])

lemma same_note_decode_error: "same_table c (note_decode_error env e r c)"
  unfolding note_decode_error_def by (rule same_table_trans[OF same_count same_note_failure])

lemma same_enqueue_frame: "same_table c (snd (enqueue_frame f c))"
  by (simp add: enqueue_frame_def same_table_def signal_send_def push_outbound_def Let_def
      split: option.split)

lemma same_send_fin_done: "same_table c (send_fin_done env r res c)"
  by (simp add: send_fin_done_def same_note_stream_failure split: sum.split)

lemma same_send_done: "same_table c (send_done env r res c)"
  by (simp add: send_done_def same_note_failure same_count split: sum.split)

lemma same_send_fin: "same_table c (snd (send_fin env r c))"
  using same_enqueue_frame[of c "Plain (st_id (stream_at c r)) FRAME_FLAG_FIN []"]
  by (auto simp: send_fin_def split: prod.split enqueue_state.split
      intro: same_table_trans[OF _ same_send_fin_done])

lemma same_send_boxed: "same_table c (snd (send_boxed env msg r c))"
proof (cases "encode_message (se_encode env) msg c")
  case (Inl e)
  then show ?thesis by (simp add: send_boxed_def same_note_failure)
next
  case (Inr p)
  obtain x c1 where x: "enqueue_frame (Plain (st_id (stream_at c r)) 0 p) c = (x, c1)" by fastforce
  with same_enqueue_frame[of c "Plain (st_id (stream_at c r)) 0 p"] have "same_table c c1" by simp
  with Inr x show ?thesis
    by (auto simp: send_boxed_def split: enqueue_state.split intro: same_table_trans[OF _ same_send_done])
qed

lemma same_guard:
  "same_table c (snd (recv_guard r c))" "same_table c (release_guard r c)"
  by (simp_all add: recv_guard_def release_guard_def same_table_update)

lemma same_read_raw: "same_table c (snd (read_raw r c))"
  by (simp add: read_raw_def Let_def same_table_update split: prod.split option.split)

lemma same_take_raw: "same_table c (snd (take_raw r c))"
  by (simp add: take_raw_def same_read_raw same_table_update split: option.split)

lemma same_read_raw_timeout: "same_table c (snd (read_raw_timeout r c))"
  by (auto simp: read_raw_timeout_def intro: same_table_trans[OF same_note_stream_failure same_table_note_failure])

lemma same_recv_raw_try: "same_table c (snd (recv_raw_try r c))"
  using same_take_raw[of c r]
  by (auto simp: recv_raw_try_def split: prod.split option.split intro: same_table_trans[OF _ same_guard(2)])

lemma same_send_recv_try: "same_table c (snd (send_recv_try r c))"
  using same_take_raw[of c r]
  by (auto simp: send_recv_try_def split: prod.split option.split sum.split
      intro: same_table_trans[OF _ same_guard(2)])

lemma same_peek_wire_try: "same_table c (snd (peek_wire_try env r c))"
  using same_read_raw[of c r]
  by (auto simp: peek_wire_try_def same_guard split: prod.split option.split sum.split
      intro: same_table_trans[OF _ same_guard(2)] same_table_trans[OF _ same_table_trans[OF same_table_update same_guard(2)]])

lemma same_send_recv_timeout: "same_table c (snd (send_recv_timeout r c))"
  using same_read_raw_timeout[of c r]
  by (auto simp: send_recv_timeout_def split: prod.split option.split
      intro: same_table_trans[OF _ same_table_trans[OF same_table_update same_guard(2)]])

lemma same_send_recv_begin: "same_table c (snd (send_recv_begin env msg r c))"
proof -
  obtain g c1 where g: "recv_guard r c = (g, c1)" by fastforce
  with same_guard(1)[of c r] have 1: "same_table c c1" by simp
  obtain x c2 where s: "send_boxed env msg r c1 = (x, c2)" by fastforce
  with same_send_boxed[of c1 env msg r] have "same_table c1 c2" by simp
  with 1 have "same_table c c2" by (rule same_table_trans)
  with 1 g s show ?thesis
    by (auto simp: send_recv_begin_def split: sum.split enqueue_state.split
        intro: same_table_trans[OF _ same_guard(2)])
qed

lemma same_inbox_q: "same_table c (snd (inbox_q raw r c))"
  by (auto simp: inbox_q_def intro: same_table_trans[OF same_table_update same_count])

lemma same_handler_q: "same_table c (snd (handler_q job r c))"
  by (auto simp: handler_q_def intro: same_table_trans[OF same_table_update same_count])

lemma same_end_decode: "same_table c (snd (end_decode r c))"
  by (simp add: end_decode_def same_table_update)

lemma same_decode_resume: "same_table c (snd (decode_resume t r c))"
proof (cases t)
  case (InboxWaits raw)
  with same_inbox_q[of c raw r] show ?thesis
    by (auto simp: decode_resume_def split: prod.split option.split)
next
  case (HandlerWaits job)
  with same_handler_q[of c job r] show ?thesis
    by (auto simp: decode_resume_def split: prod.split option.split)
next
  case (ErrorWaits st b)
  with same_end_decode[of c r] show ?thesis
    by (simp add: decode_resume_def split: protocol_error_state.split)
qed (simp_all add: decode_resume_def)

lemma same_handler_take: "same_table c (snd (handler_take r c))"
  by (auto simp: handler_take_def split: list.split intro: same_table_trans[OF same_table_update same_count])

lemma same_handler_reply: "same_table c (snd (handler_reply env result r c))"
  by (auto simp: handler_reply_def same_send_boxed split: handler_result.split
      intro: same_table_trans[OF same_table_trans[OF same_note_failure same_count] same_send_boxed])

lemma steps_remove_notify:
  "table_step\<^sup>*\<^sup>* c (case remove_stream sid c of (Some q, c1) \<Rightarrow> notify_close q c1 | (None, c1) \<Rightarrow> c1)"
  "table_step\<^sup>*\<^sup>* c (case remove_peer_stream sid c of (Some q, c1) \<Rightarrow> notify_close q c1 | (None, c1) \<Rightarrow> c1)"
  using table_step.removed[of c sid] table_step.released[of c sid]
  by (auto split: prod.split option.split intro: rtranclp.rtrancl_into_rtrancl[OF r_into_rtranclp]
      table_step.other[OF same_table_notify])

lemma steps_protocol_error_end: "table_step\<^sup>*\<^sup>* c (snd (protocol_error_end r c))"
  by (auto simp: protocol_error_end_def intro: table_step.removed)

lemma steps_protocol_error_sent: "table_step\<^sup>*\<^sup>* c (snd (protocol_error_sent env res r c))"
proof -
  define c1 where "c1 = (case res of
      Inl e \<Rightarrow> count ReplySendFailure r (note_failure FAILURE_STREAM_PROTOCOL_REPLY_SEND
                 (''protocol error reply send failed: '' @ display env e) r c) | Inr _ \<Rightarrow> c)"
  have 1: "table_step\<^sup>*\<^sup>* c c1"
    by (auto simp: c1_def intro!: same_tableI same_table_trans[OF same_note_failure same_count] split: sum.split)
  have upd: "same_table c1 (update_stream r start_fin c1)"
    by (rule same_table_update) (simp_all add: start_fin_def)
  obtain x c2 where x: "send_fin env r (update_stream r start_fin c1) = (x, c2)" by fastforce
  with same_send_fin[of "update_stream r start_fin c1" env r] have "same_table c1 c2"
    using same_table_trans[OF upd] by simp
  with 1 have 2: "table_step\<^sup>*\<^sup>* c c2" by (blast intro: rtranclp_trans same_tableI)
  show ?thesis
    using 1 2 x rtranclp_trans[OF 1 steps_protocol_error_end] rtranclp_trans[OF 2 steps_protocol_error_end]
      rtranclp.rtrancl_into_rtrancl[OF 1 table_step.released]
    by (simp add: protocol_error_sent_def c1_def[symmetric] Let_def split: enqueue_state.split)
qed

lemma steps_protocol_error: "table_step\<^sup>*\<^sup>* c (snd (protocol_error env code msg r c))"
proof -
  define reason where "reason = (if msg = [] then code else code @ '': '' @ msg)"
  define c3 where "c3 = count ProtocolErrors r (note_stream_failure FAILURE_STREAM_PROTOCOL reason r
     (note_conn_failure FAILURE_STREAM_PROTOCOL (''stream protocol error: '' @ reason) c))"
  have 3: "same_table c c3" unfolding c3_def
    by (rule same_table_trans[OF same_table_trans[OF same_table_note_failure same_note_stream_failure] same_count])
  obtain x c4 where x: "send_boxed env (se_error_reply env code msg) r c3 = (x, c4)" by fastforce
  with same_send_boxed[of c3 env "se_error_reply env code msg" r] have "same_table c3 c4" by simp
  from same_tableI[OF same_table_trans[OF 3 this]] have 4: "table_step\<^sup>*\<^sup>* c c4" .
  have "protocol_error env code msg r c = (case x of
      Enqueued res \<Rightarrow> protocol_error_sent env res r c4 | _ \<Rightarrow> (ReplyWaits x, c4))"
    unfolding protocol_error_def Let_def reason_def[symmetric] c3_def[symmetric] x prod.case
    by (simp split: enqueue_state.split)
  with 4 show ?thesis
    by (auto split: enqueue_state.split intro: rtranclp_trans[OF 4 steps_protocol_error_sent])
qed

lemma steps_protocol_error_for: "table_step\<^sup>*\<^sup>* c (snd (protocol_error_for env e r c))"
  by (simp add: protocol_error_for_def steps_protocol_error split: am_error.split)

lemma steps_send_recv_reply: "table_step\<^sup>*\<^sup>* c (snd (snd (send_recv_reply env decode raw r c)))"
  using rtranclp_trans[OF same_tableI[OF same_note_decode_error] steps_protocol_error]
    rtranclp_trans[OF same_tableI[OF same_note_decode_error] steps_protocol_error_for]
  by (auto simp: send_recv_reply_def decode_reply_def intro: same_tableI same_count split: sum.split)

lemma steps_decode_error:
  "table_step\<^sup>*\<^sup>* c (snd (case protocol_error env code msg r (note_decode_error env e r c) of
     (st, c1) \<Rightarrow> decode_resume (ErrorWaits st b) r c1))"
proof -
  obtain st c1 where p: "protocol_error env code msg r (note_decode_error env e r c) = (st, c1)" by fastforce
  with steps_protocol_error[of "note_decode_error env e r c" env code msg r]
  have "table_step\<^sup>*\<^sup>* (note_decode_error env e r c) c1" by simp
  with same_tableI[OF same_note_decode_error] have "table_step\<^sup>*\<^sup>* c c1" by (rule rtranclp_trans)
  with p same_tableI[OF same_decode_resume] show ?thesis by (auto intro: rtranclp_trans)
qed

lemma steps_dispatch_raw: "table_step\<^sup>*\<^sup>* c (snd (dispatch_raw env raw r c))"
proof (cases "se_has_handler env (se_wire env raw)")
  case True
  show ?thesis
  proof (cases "se_decode_job env raw")
    case (Inl e)
    show ?thesis unfolding dispatch_raw_def Inl sum.case if_P[OF True] by (rule steps_decode_error)
  next
    case (Inr job)
    show ?thesis unfolding dispatch_raw_def Inr sum.case if_P[OF True]
      by (rule same_tableI[OF same_decode_resume])
  qed
next
  case False
  show ?thesis unfolding dispatch_raw_def if_not_P[OF False] by (rule same_tableI[OF same_decode_resume])
qed

lemma steps_decode_frame: "table_step\<^sup>*\<^sup>* c (snd (decode_frame env r c))"
proof (cases "st_incoming (stream_at c r)")
  case (Cons payload rest)
  define c1 where "c1 = update_stream r (\<lambda>s. s\<lparr>st_incoming := rest\<rparr>) c"
  have 1: "table_step\<^sup>*\<^sup>* c c1" unfolding c1_def by (intro same_tableI same_table_update) simp_all
  have "table_step\<^sup>*\<^sup>* c1 (snd (end_decode r (case remove_stream (st_id (stream_at c1 r)) c1 of
      (Some q, c2) \<Rightarrow> notify_close q c2 | (None, c2) \<Rightarrow> c2)))"
    by (rule rtranclp_trans[OF steps_remove_notify(1) same_tableI[OF same_end_decode]])
  note fin = rtranclp_trans[OF 1 this]
  have "decode_frame env r c = (if payload = []
      then end_decode r (case remove_stream (st_id (stream_at c1 r)) c1 of
             (Some q, c2) \<Rightarrow> notify_close q c2 | (None, c2) \<Rightarrow> c2)
      else (case se_decode_envelope env (cc_codec_id (config c1)) payload of
          Inr raw \<Rightarrow> dispatch_raw env raw r c1
        | Inl e \<Rightarrow> (case protocol_error env ''codec_error'' (display env e) r (note_decode_error env e r c1) of
            (st, c2) \<Rightarrow> decode_resume (ErrorWaits st True) r c2)))"
    by (simp only: decode_frame_def Cons Let_def c1_def list.case)
  note eq = this
  show ?thesis
  proof (cases "payload = []")
    case True
    show ?thesis unfolding eq if_P[OF True] by (rule fin)
  next
    case False
    show ?thesis
    proof (cases "se_decode_envelope env (cc_codec_id (config c1)) payload")
      case (Inl e)
      show ?thesis unfolding eq if_not_P[OF False] Inl sum.case
        by (rule rtranclp_trans[OF 1 steps_decode_error])
    next
      case (Inr raw)
      show ?thesis unfolding eq if_not_P[OF False] Inr sum.case
        by (rule rtranclp_trans[OF 1 steps_dispatch_raw])
    qed
  qed
qed (simp add: decode_frame_def)

lemma steps_stream_close: "table_step\<^sup>*\<^sup>* c (snd (stream_close r c))"
proof -
  have "same_table c (update_stream r start_fin c)"
    by (rule same_table_update) (simp_all add: start_fin_def)
  with steps_remove_notify(2)[of c "st_id (stream_at c r)"] same_tableI[OF this] show ?thesis
    by (simp add: stream_close_def Let_def)
qed

lemma steps_accept_frame: "table_step\<^sup>*\<^sup>* c (snd (accept_frame sid fl pl c))"
proof -
  let ?x = "accept_route sid fl pl c"
  have "same_table (snd ?x) (snd (accept_frame sid fl pl c))" unfolding accept_frame_def
    by (rule same_table_trans[OF same_table_trans[OF accept_step_same accept_step_same] accept_step_same])
  with table_step.routed[of c sid fl pl] show ?thesis
    by (meson r_into_rtranclp rtranclp.rtrancl_into_rtrancl table_step.other)
qed

lemma steps_close_begin: "table_step\<^sup>*\<^sup>* c (snd (close_begin c))"
proof -
  have s: "same_table c (c\<lparr>c_closing := True\<rparr>)" by (simp add: same_table_def)
  have "same_table c (signal_send (push_outbound CloseMarker (c\<lparr>c_closing := True\<rparr>)))"
    by (simp add: same_table_def signal_send_def push_outbound_def)
  with s show ?thesis
    by (auto simp: close_begin_def Let_def intro: same_tableI table_step.closed
        rtranclp.rtrancl_into_rtrancl[OF same_tableI[OF s] table_step.closed])
qed

lemma steps_close_by_peer: "table_step\<^sup>*\<^sup>* c (snd (close_by_peer c))"
  by (auto simp: close_by_peer_def same_table_def intro: table_step.closed same_tableI)

lemma conn_step_table: "conn_step env c c' \<Longrightarrow> table_step\<^sup>*\<^sup>* c c'"
proof (induction rule: conn_step.induct)
  case (AcceptResume c r ps)
  show ?case using accept_step_same[of "(Sending r ps, c)"] by (simp add: same_tableI)
next
  case (DecodeClosed c r)
  show ?case by (simp add: decode_closed_def same_tableI[OF same_end_decode])
next
  case (Tick c t)
  show ?case by (intro same_tableI) (simp add: same_table_def)
next
  case (CloseTaskEnd c r)
  show ?case unfolding close_task_end_def by (rule steps_remove_notify)
qed (auto intro: table_step.intros same_tableI same_send_boxed same_send_done same_send_fin same_send_fin_done
    steps_stream_close steps_decode_frame same_decode_resume steps_protocol_error_for
    steps_protocol_error_sent steps_protocol_error_end same_guard same_recv_raw_try same_peek_wire_try
    same_send_recv_begin same_send_recv_try same_send_recv_timeout steps_send_recv_reply same_handler_take same_handler_reply
    steps_close_begin steps_close_by_peer steps_accept_frame)

lemma conn_run_table: "conn_run env c c' \<Longrightarrow> table_step\<^sup>*\<^sup>* c c'"
  by (induction rule: rtranclp_induct) (auto dest: conn_step_table)

section \<open>Invariants\<close>

lemma table_step_ok: "table_step c c' \<Longrightarrow> table_ok c \<Longrightarrow> table_ok c'"
proof (induction rule: table_step.induct)
  case (other c c')
  then show ?case by (rule table_ok_same)
next
  case (default c)
  then show ?case unfolding default_stream_def by (rule get_stream_ctx_ok)
qed (simp_all add: new_stream_ok accept_route_ok remove_stream_ok remove_peer_stream_ok mark_closed_ok)

lemma table_run_ok: "table_step\<^sup>*\<^sup>* c c' \<Longrightarrow> table_ok c \<Longrightarrow> table_ok c'"
  by (induction rule: rtranclp_induct) (auto dest: table_step_ok)

lemma make_stream_other:
  assumes "sid \<noteq> i"
  shows "map_of (c_streams (snd (make_stream i c))) sid = map_of (c_streams c) sid"
proof (cases rule: make_stream_cases[of i c])
  case (made s)
  then show ?thesis using assms by (simp add: map_add_def split: option.split)
qed simp

lemma make_stream_next [simp]: "c_next_stream_id (snd (make_stream i c)) = c_next_stream_id c"
proof (cases rule: make_stream_cases[of i c])
  case (made s)
  then show ?thesis by simp
qed simp

lemma alloc_fields [simp]:
  "c_streams (snd (alloc_stream s c)) = c_streams c"
  "c_next_stream_id (snd (alloc_stream s c)) = c_next_stream_id c"
  by (simp_all add: alloc_stream_def)

lemma get_stream_ctx_other:
  assumes "sid \<noteq> i"
  shows "map_of (c_streams (snd (get_stream_ctx i c))) sid = map_of (c_streams c) sid"
  using make_stream_other[OF assms, of c]
  by (auto simp: get_stream_ctx_def split: option.split prod.split)

lemma get_stream_ctx_next [simp]: "c_next_stream_id (snd (get_stream_ctx i c)) = c_next_stream_id c"
  using make_stream_next[of i c]
  by (auto simp del: make_stream_next simp: get_stream_ctx_def split: option.split prod.split)

lemma remove_stream_fields [simp]:
  "c_streams (snd (remove_stream i c)) = AList.delete i (c_streams c)"
  "c_next_stream_id (snd (remove_stream i c)) = c_next_stream_id c"
  by (auto simp: remove_stream_def Let_def delete_idem map_of_eq_None_iff split: option.split)

lemma remove_peer_stream_fields [simp]:
  "c_streams (snd (remove_peer_stream i c)) = AList.delete i (c_streams c)"
  "c_next_stream_id (snd (remove_peer_stream i c)) = c_next_stream_id c"
  by (simp_all add: remove_peer_stream_def)

lemma mark_closed_next [simp]: "c_next_stream_id (mark_closed c) = c_next_stream_id c"
  by (simp add: mark_closed_def close_all_streams_def)

lemma accept_route_next [simp]: "c_next_stream_id (snd (accept_route i fl pl c)) = c_next_stream_id c"
  using get_stream_ctx_next[of i c]
  by (auto simp del: get_stream_ctx_next simp: accept_route_def inbound_stream_def Let_def
      split: option.split prod.split)

lemma new_stream_next: "c_next_stream_id (snd (new_stream c)) = c_next_stream_id c + 1"
proof -
  define c1 where "c1 = c\<lparr>c_next_stream_id := c_next_stream_id c + 1\<rparr>"
  obtain r c2 where m: "make_stream (ucast (c_next_stream_id c)) c1 = (r, c2)" by fastforce
  then have "c_next_stream_id c2 = c_next_stream_id (snd (make_stream (ucast (c_next_stream_id c)) c1))"
    by (simp only: snd_conv)
  also have "\<dots> = c_next_stream_id c + 1" by (simp only: make_stream_next) (simp add: c1_def)
  finally have "c_next_stream_id c2 = c_next_stream_id c + 1" .
  with m show ?thesis
    by (auto simp: new_stream_def Let_def c1_def note_conn_failure_def split: option.split)
qed

lemma unat_MAX_STREAM_ID: "unat MAX_STREAM_ID = 2 ^ 32 - 2"
  by (simp add: MAX_STREAM_ID_def CONTROL_STREAM_ID_def)

text \<open>The ID that \<open>new_stream\<close> registers, if any, is the next one.\<close>

lemma new_stream_other:
  assumes "(ucast sid :: u64) \<noteq> c_next_stream_id c"
  shows "map_of (c_streams (snd (new_stream c))) sid = map_of (c_streams c) sid"
proof (cases "(ucast MAX_STREAM_ID :: u64) < c_next_stream_id c")
  case True
  then show ?thesis by (simp add: new_stream_def Let_def note_conn_failure_def)
next
  case False
  then have "unat (c_next_stream_id c) < 2 ^ 32"
    using unat_MAX_STREAM_ID by (simp add: word_less_nat_alt)
  then have "ucast (ucast (c_next_stream_id c) :: u32) = c_next_stream_id c" by (rule ucast_u64_small)
  with assms have ne: "sid \<noteq> ucast (c_next_stream_id c)" by auto
  define c1 where "c1 = c\<lparr>c_next_stream_id := c_next_stream_id c + 1\<rparr>"
  obtain r c2 where m: "make_stream (ucast (c_next_stream_id c)) c1 = (r, c2)" by fastforce
  with make_stream_other[OF ne, of c1] have "map_of (c_streams c2) sid = map_of (c_streams c) sid"
    by (simp add: c1_def)
  with m False show ?thesis by (auto simp: new_stream_def Let_def c1_def split: option.split)
qed

section \<open>A closed stream stays closed\<close>

text \<open>\<open>gone\<close>: this side opened the stream, and it is no longer in the table.\<close>

definition gone :: "u32 \<Rightarrow> ('r, 'j) connection \<Rightarrow> bool" where
  "gone sid c \<longleftrightarrow> opened_stream sid c \<and> map_of (c_streams c) sid = None"

lemma next_mono: "(i :: u64) < n \<Longrightarrow> n + 1 \<noteq> 0 \<Longrightarrow> i < n + 1"
  using Suc_unat_word[of n] by (simp add: word_less_nat_alt add.commute)

lemma gone_step: "table_step c c' \<Longrightarrow> gone sid c \<Longrightarrow> gone sid c'"
proof (induction rule: table_step.induct)
  case (other c c')
  then show ?case by (simp add: gone_def same_table_def opened_stream_def)
next
  case (opened c)
  then have "(ucast sid :: u64) < c_next_stream_id c" by (simp add: gone_def opened_stream_def)
  with opened next_mono[OF this] show ?case
    using new_stream_other[of sid c] by (simp add: gone_def opened_stream_def new_stream_next)
next
  case (default c)
  then show ?case using get_stream_ctx_other[of sid 0 c]
    by (simp add: gone_def opened_stream_def default_stream_def DEFAULT_STREAM_ID_def)
next
  case (routed c i fl pl)
  have "map_of (c_streams (snd (inbound_stream i c))) sid = None"
  proof (cases "i = sid")
    case True
    with routed have "inbound_stream i c = (None, c)"
      by (simp add: gone_def inbound_stream_def lookup_stream_ctx_def opened_stream_def)
    with routed show ?thesis by (simp add: gone_def)
  next
    case False
    then show ?thesis using routed get_stream_ctx_other[of sid i c]
      by (auto simp: gone_def inbound_stream_def split: option.split prod.split)
  qed
  then have "map_of (c_streams (snd (accept_route i fl pl c))) sid = None"
    using routed by (auto simp: accept_route_def gone_def Let_def split: option.split prod.split)
  with routed show ?case by (simp add: gone_def opened_stream_def)
next
  case (removed c i)
  then show ?case by (simp add: gone_def opened_stream_def delete_conv')
next
  case (released c i)
  then show ?case by (simp add: gone_def opened_stream_def delete_conv')
next
  case (closed c)
  then show ?case by (simp add: gone_def opened_stream_def mark_closed_def close_all_streams_def)
qed

lemma gone_run: "table_step\<^sup>*\<^sup>* c c' \<Longrightarrow> gone sid c \<Longrightarrow> gone sid c'"
  by (induction rule: rtranclp_induct) (auto dest: gone_step)

section \<open>Properties\<close>

text \<open>An environment for the concrete runs of the witnesses: messages are bytes.\<close>

definition ex_env :: "(bytes, bytes, bytes) stream_env" where
  "ex_env = \<lparr>se_io = (\<lambda>k. ''io''), se_encode = (\<lambda>i m. Inr m), se_decode_envelope = (\<lambda>i b. Inr b),
     se_wire = (\<lambda>b. ''bytes''), se_has_handler = (\<lambda>w. False), se_decode_job = Inr,
     se_decode_error_reply = (\<lambda>b. Inr ([], [])), se_error_reply = (\<lambda>c m. []), se_ok_reply = [],
     se_error_reply_wire = ''am.message.ErrorReply''\<rparr>"

definition ex_conn0 :: "(bytes, bytes) connection" where
  "ex_conn0 = new_unstarted False False False"

definition ex_conn :: "(bytes, bytes) connection" where
  "ex_conn = (new_unstarted False False False)
     \<lparr>c_config := Some \<lparr>cc_version = PROTOCOL_VERSION_V2, cc_codec_id = CodecPostcard,
        cc_max_frame = 1024, cc_header_len = 10\<rparr>\<rparr>"

text \<open>
  C9: A closed stream is never opened again. Once a stream that \<open>new_stream\<close> on this side opened
  is out of the table, no later step of any task puts its ID back, whatever frames arrive for it;
  such a frame (but for a FIN, which changes nothing either) is dropped.
\<close>

theorem closed_stream_never_reopens:
  assumes "opened_stream sid c" "map_of (c_streams c) sid = None" "conn_run env c c'"
  shows "map_of (c_streams c') sid = None \<and> opened_stream sid c' \<and>
    inbound_stream sid c' = (None, c')"
proof -
  from assms(1,2) have "gone sid c" by (simp add: gone_def)
  with conn_run_table[OF assms(3)] have "gone sid c'" by (rule gone_run)
  then show ?thesis by (simp add: gone_def inbound_stream_def lookup_stream_ctx_def opened_stream_def)
qed

lemma closed_stream_never_reopens_witness:
  "let c = snd (remove_stream 1 (snd (new_stream ex_conn)));
       c' = snd (accept_frame 1 0 [7] c)
   in map_of (c_streams (snd (new_stream ex_conn))) 1 = Some 0 \<and> map_of (c_streams c') 1 = None"
proof -
  define c where "c = snd (remove_stream 1 (snd (new_stream ex_conn)))"
  have s: "map_of (c_streams (snd (new_stream ex_conn))) 1 = Some 0" "opened_stream 1 c"
    "map_of (c_streams c) 1 = None" unfolding c_def by code_simp+
  have "conn_run ex_env c (snd (accept_frame 1 0 [7] c))"
    by (intro r_into_rtranclp conn_step.AcceptFrame)
  from closed_stream_never_reopens[OF s(2,3) this] s(1) show ?thesis by (simp add: c_def)
qed

lemma new_stream_open:
  assumes "new_stream c = (r, c')" "\<not> st_closed (stream_at c' r)"
  shows "c_next_stream_id c \<le> ucast MAX_STREAM_ID" "(ucast (st_id (stream_at c' r)) :: u64) = c_next_stream_id c"
proof -
  have closed: "st_closed (new_closed_stream :: ('a, 'b) stream)" by (simp add: new_closed_stream_def)
  have top: "stream_at (snd (alloc_stream s d)) (fst (alloc_stream s d)) = s" for s and d :: "('a, 'b) connection"
    by (simp add: alloc_stream_def)
  show le: "c_next_stream_id c \<le> ucast MAX_STREAM_ID"
  proof (rule ccontr)
    assume "\<not> ?thesis"
    then have "new_stream c = alloc_stream new_closed_stream (note_conn_failure FAILURE_STREAM_IDS_EXHAUSTED
        ''stream IDs exhausted'' (c\<lparr>c_next_stream_id := c_next_stream_id c + 1\<rparr>))"
      by (simp add: new_stream_def Let_def not_le)
    with assms closed show False by (auto simp: alloc_stream_def)
  qed
  define c1 where "c1 = c\<lparr>c_next_stream_id := c_next_stream_id c + 1\<rparr>"
  from le have "\<not> (ucast MAX_STREAM_ID :: u64) < c_next_stream_id c" by (simp add: not_less)
  then have ns: "new_stream c = (case make_stream (ucast (c_next_stream_id c)) c1 of
      (Some q, c2) \<Rightarrow> (q, c2) | (None, c2) \<Rightarrow> alloc_stream new_closed_stream c2)"
    by (simp add: new_stream_def Let_def c1_def)
  have "unat (c_next_stream_id c) < 2 ^ 32"
    using le unat_MAX_STREAM_ID by (simp add: word_le_nat_alt)
  then have id: "ucast (ucast (c_next_stream_id c) :: u32) = c_next_stream_id c" by (rule ucast_u64_small)
  show "(ucast (st_id (stream_at c' r)) :: u64) = c_next_stream_id c"
  proof (cases rule: make_stream_cases[of "ucast (c_next_stream_id c)" c1])
    case (made s)
    have "r = length (c_heap c1)" "c_heap c' = c_heap c1 @ [s]"
      using ns made(1) assms(1) by simp_all
    with made(4) id show ?thesis by simp
  next
    case refused
    with ns assms closed show ?thesis by (auto simp: alloc_stream_def)
  qed
qed

lemma next_id_mono_step: "table_step c c' \<Longrightarrow> c_next_stream_id c \<le> c_next_stream_id c'"
proof (induction rule: table_step.induct)
  case (opened c)
  then show ?case using Suc_unat_word[of "c_next_stream_id c"]
    by (simp add: new_stream_next word_le_nat_alt add.commute)
qed (simp_all add: same_table_def default_stream_def)

lemma next_id_mono_run:
  assumes "conn_run env c c'"
  shows "c_next_stream_id c \<le> c_next_stream_id c'"
  using conn_run_table[OF assms] by (induction rule: rtranclp_induct) (auto dest: next_id_mono_step)

text \<open>
  C19: Stream IDs are never reused. Two open streams returned by \<open>new_stream\<close> at different times in
  the life of a connection have different IDs, the later one the larger; neither is 0, the default
  stream, or \<open>0xFFFFFFFF\<close>, the control stream. Once the IDs are exhausted, \<open>new_stream\<close> only returns
  closed streams.
\<close>

theorem stream_ids_unique:
  assumes "conn_run env (new_unstarted h on_new on_close) c1" "new_stream c1 = (r1, c2)"
    "\<not> st_closed (stream_at c2 r1)" "conn_run env c2 c3" "new_stream c3 = (r2, c4)"
  shows "0 < st_id (stream_at c2 r1) \<and> st_id (stream_at c2 r1) \<le> 0xFFFFFFFE \<and>
    (st_closed (stream_at c4 r2) \<or>
      st_id (stream_at c2 r1) < st_id (stream_at c4 r2) \<and> st_id (stream_at c4 r2) \<le> 0xFFFFFFFE) \<and>
    (0xFFFFFFFE < c_next_stream_id c3 \<longrightarrow> st_closed (stream_at c4 r2))"
proof -
  let ?n1 = "unat (c_next_stream_id c1)" and ?n3 = "unat (c_next_stream_id c3)"
  have max: "unat (ucast MAX_STREAM_ID :: u64) = 2 ^ 32 - 2" by (simp add: unat_MAX_STREAM_ID)
  have open_id: "unat (c_next_stream_id c) \<le> 2 ^ 32 - 2 \<and> unat (st_id (stream_at c' r)) = unat (c_next_stream_id c)"
    if "new_stream c = (r, c')" "\<not> st_closed (stream_at c' r)" for r and c c' :: "('a, 'b) connection"
    using new_stream_open[OF that] max by (metis unat_ucast_u64 word_le_nat_alt)
  note id1 = open_id[OF assms(2,3)]
  have "c_next_stream_id (new_unstarted h on_new on_close :: ('a, 'b) connection) \<le> c_next_stream_id c1"
    by (rule next_id_mono_run[OF assms(1)])
  then have n1: "0 < ?n1" by (simp add: new_unstarted_def word_le_nat_alt)
  have "unat (c_next_stream_id c1 + 1) = Suc ?n1" using id1 by (intro unat_Suc_word[of _ "0xFFFFFFFF"]) (simp add: word_less_nat_alt)
  moreover have "c_next_stream_id c1 + 1 \<le> c_next_stream_id c3"
    using next_id_mono_run[OF assms(4)] new_stream_next[of c1] assms(2) by simp
  ultimately have n3: "?n1 < ?n3" by (simp add: word_le_nat_alt)
  have "unat (st_id (stream_at c2 r1)) < unat (st_id (stream_at c4 r2)) \<and> unat (st_id (stream_at c4 r2)) \<le> 2 ^ 32 - 2 \<and>
      ?n3 \<le> 2 ^ 32 - 2" if "\<not> st_closed (stream_at c4 r2)"
    using open_id[OF assms(5) that] id1 n3 by simp
  with id1 n1 show ?thesis
    by (cases "st_closed (stream_at c4 r2)") (simp_all add: word_less_nat_alt word_le_nat_alt)
qed

lemma stream_ids_unique_witness:
  "let (r1, c2) = new_stream ex_conn0; (r2, c4) = new_stream c2
   in 0 < st_id (stream_at c2 r1) \<and> st_id (stream_at c2 r1) < st_id (stream_at c4 r2) \<and>
      st_id (stream_at c4 r2) \<le> 0xFFFFFFFE"
proof -
  obtain r1 c2 where 1: "new_stream ex_conn0 = (r1, c2)" by fastforce
  obtain r2 c4 where 2: "new_stream c2 = (r2, c4)" by fastforce
  have k: "\<not> st_closed (stream_at (snd (new_stream ex_conn0)) (fst (new_stream ex_conn0)))"
    "\<not> st_closed (stream_at (snd (new_stream (snd (new_stream ex_conn0)))) (fst (new_stream (snd (new_stream ex_conn0)))))"
    by code_simp+
  note k' = k[unfolded 1 fst_conv snd_conv, unfolded 2 fst_conv snd_conv]
  have "conn_run ex_env (new_unstarted False False False) ex_conn0" by (simp add: ex_conn0_def)
  from stream_ids_unique[OF this 1 k'(1) rtranclp.rtrancl_refl 2] k'(2) show ?thesis by (simp add: 1 2)
qed

end
