(* ===== verification/RecoveryRuntime.thy ===== *)
theory RecoveryRuntime
  imports StreamTable
begin

text \<open>
  The transports of a version 3 connection (\<open>src/src/recovery_runtime.rs\<close>, but for the writer task,
  which is in \<open>RecoveryWriter\<close>): attaching and detaching, the expiry of a detached connection on the
  server, the reconnect loop of the client, the control and data frames, and the reader task. Every
  operation is one atomic step on the connection record of \<open>Connection\<close>; a task that waits is a
  value that says what it waits for.
\<close>

section \<open>Attaching and detaching\<close>

abbreviation recovery :: "('r, 'j) connection \<Rightarrow> recovery_state" where
  "recovery c \<equiv> the (c_recovery c)"

abbreviation set_recovery :: "recovery_state \<Rightarrow> ('r, 'j) connection \<Rightarrow> ('r, 'j) connection" where
  "set_recovery rs c \<equiv> c\<lparr>c_recovery := Some rs\<rparr>"

definition detached_ttl :: "recovery_state \<Rightarrow> duration" where "detached_ttl st = rs_detached_ttl st"

text \<open>
  The result is the reader to run, with its generation; which reader it is, plain or recovery,
  \<open>is_recovery_enabled\<close> tells.
\<close>

definition attach_transport_parts :: "reader \<Rightarrow> writer \<Rightarrow> u64 \<Rightarrow> ('r, 'j) connection \<Rightarrow>
    (u64 \<times> reader) option \<times> ('r, 'j) connection" where
  "attach_transport_parts r w peer_last_recv_seq c =
     (if c_closed c then (None, c)
      else let gen = c_transport_gen c + 1;
               c1 = abort_reader (c\<lparr>c_transport_gen := gen\<rparr>);
               c2 = c1\<lparr>c_cmds := c_cmds c1 @ [Attach gen w peer_last_recv_seq]\<rparr>;
               c3 = signal_send (c2\<lparr>c_transport_attached := True\<rparr>)
           in (Some (gen, r), c3\<lparr>c_reader_gen := Some gen,
                c_debug := (c_debug c3)\<lparr>cd_transport_attaches := cd_transport_attaches (c_debug c3) + 1\<rparr>\<rparr>))"

definition spawn_server_expiry :: "u64 \<Rightarrow> ('r, 'j) connection \<Rightarrow> ('r, 'j) connection" where
  "spawn_server_expiry detached_gen c = (case c_recovery c of
     None \<Rightarrow> c
   | Some rs \<Rightarrow> let ttl = detached_ttl rs in
       if ttl = 0 then mark_closed c
       else c\<lparr>c_tasks := c_tasks c @ [ServerExpiry detached_gen (c_now c + ttl)]\<rparr>)"

text \<open>The rest of the expiry task, after its sleep.\<close>

definition server_expiry_fires :: "u64 \<Rightarrow> ('r, 'j) connection \<Rightarrow> ('r, 'j) connection" where
  "server_expiry_fires detached_gen c =
     (if \<not> c_closed c \<and> c_transport_gen c = detached_gen then mark_closed c else c)"

definition spawn_reconnect_loop :: "('r, 'j) connection \<Rightarrow> ('r, 'j) connection" where
  "spawn_reconnect_loop c = (case c_recovery c of
     None \<Rightarrow> c
   | Some rs \<Rightarrow>
       if rs_role rs \<noteq> RoleClient then c
       else if rs_reconnect_active rs then c
       else (set_recovery (rs\<lparr>rs_reconnect_active := True\<rparr>) c)\<lparr>c_tasks := c_tasks c @ [ReconnectLoop]\<rparr>)"

definition detach_transport :: "u64 \<Rightarrow> bool \<Rightarrow> ('r, 'j) connection \<Rightarrow> ('r, 'j) connection" where
  "detach_transport gen abort c =
     (if c_closed c then c
      else if c_transport_gen c \<noteq> gen then c
      else let c1 = c\<lparr>c_transport_gen := gen + 1, c_transport_attached := False,
                 c_debug := (c_debug c)\<lparr>cd_transport_detaches := cd_transport_detaches (c_debug c) + 1\<rparr>\<rparr>;
               c2 = (if abort
                     then (if c_reader_gen c1 = Some gen then abort_reader c1 else c1\<lparr>c_reader_gen := None\<rparr>)
                     else c1);
               c3 = c2\<lparr>c_cmds := c_cmds c2 @ [Detach gen]\<rparr>
           in (case c_recovery c3 of
                 None \<Rightarrow> c3
               | Some rs \<Rightarrow> (case rs_role rs of
                     RoleClient \<Rightarrow> spawn_reconnect_loop c3
                   | RoleServer \<Rightarrow> spawn_server_expiry (gen + 1) c3)))"

text \<open>\<open>fail\<close>: a failure the connection cannot recover from.\<close>

definition fail :: "(io_kind \<Rightarrow> string) \<Rightarrow> string \<Rightarrow> am_error \<Rightarrow> ('r, 'j) connection \<Rightarrow> ('r, 'j) connection" where
  "fail io code e c = mark_closed (note_conn_failure code (error_display io e) c)"

section \<open>Starting a connection\<close>

text \<open>
  \<open>start_with_config\<close>: the configuration and the recovery state are set once (\<open>OnceLock\<close>), the
  writer task starts, and the transport of the handshake is attached.
\<close>

definition start_with_config :: "codec_registry \<Rightarrow> handshake_config \<Rightarrow> recovery_state option \<Rightarrow> u64 \<Rightarrow>
    reader \<Rightarrow> writer \<Rightarrow> ('r, 'j) connection \<Rightarrow> am_error + ((u64 \<times> reader) option \<times> ('r, 'j) connection)" where
  "start_with_config reg hc rs peer_last_recv_seq r w c =
     try_res (build_config reg hc) (\<lambda>cfg.
       let c1 = (if c_config c = None then c\<lparr>c_config := Some cfg\<rparr> else c);
           c2 = (if rs \<noteq> None \<and> c_recovery c1 = None then c1\<lparr>c_recovery := rs\<rparr> else c1)
       in Inr (attach_transport_parts r w peer_last_recv_seq (c2\<lparr>c_writer_started := True\<rparr>)))"

section \<open>Reconnecting\<close>

text \<open>
  \<open>resume_client_transport\<close>: what one attempt does on the transport that the connector returned
  (\<open>conn\<close>), and then on the connection. \<open>timed_out\<close> tells whether the reconnect timeout passed
  before the attempt was done.
\<close>

definition resume_attempt :: "codec_registry \<Rightarrow> am_error + (reader \<times> writer) \<Rightarrow> conn_config \<Rightarrow>
    recovery_state \<Rightarrow> am_error + ((reader \<times> writer) \<times> attach_response)" where
  "resume_attempt reg conn cfg rs =
     try_res conn (\<lambda>(r, w).
       case handshake_client reg [cc_codec_id cfg] (cc_max_frame cfg) PROTOCOL_VERSION_V3 r w of
         (Inl e, w1) \<Rightarrow> Inl e
       | (Inr (hc, r1), w1) \<Rightarrow>
           if hc_codec_id hc \<noteq> cc_codec_id cfg then Inl (ResumeRejected ''codec changed on resume'')
           else (case write_attach_request \<lparr>arq_mode = ATTACH_MODE_RESUME,
                   arq_connection_id = rs_connection_id rs, arq_resume_secret = rs_resume_secret rs,
                   arq_last_recv_seq = last_received rs\<rparr> w1 of
               (Inl e, w2) \<Rightarrow> Inl e
             | (Inr _, w2) \<Rightarrow> try_res (read_attach_response r1) (\<lambda>(resp, r2). Inr ((r2, w2), resp))))"

definition resume_client_transport :: "codec_registry \<Rightarrow> am_error + (reader \<times> writer) \<Rightarrow> bool \<Rightarrow>
    ('r, 'j) connection \<Rightarrow> (am_error + (u64 \<times> reader) option) \<times> ('r, 'j) connection" where
  "resume_client_transport reg conn timed_out c = (case c_recovery c of
     None \<Rightarrow> (Inl Closed, c)
   | Some rs \<Rightarrow>
       if \<not> rs_has_connector rs then (Inl (ResumeRejected ''resume connector missing''), c)
       else if rs_reconnect_timeout rs \<noteq> None \<and> timed_out then (Inl (ConnectTimeout None), c)
       else (case resume_attempt reg conn (config c) rs of
           Inl e \<Rightarrow> (Inl e, c)
         | Inr ((r, w), resp) \<Rightarrow>
             if arp_status resp \<noteq> ATTACH_STATUS_OK then (Inl (ResumeRejected ''resume rejected''), c)
             else (case attach_transport_parts r w (arp_last_recv_seq resp)
                     (set_recovery (set_negotiated (arp_negotiated resp) rs) c) of
                 (started, c1) \<Rightarrow> (Inr started, c1))))"

text \<open>
  The reconnect task. \<open>Attempt backoff\<close> is the head of the loop of \<open>reconnect_until_attached\<close> and
  \<open>BackOff\<close> its sleep; \<open>Returned\<close> is the return of that function, and \<open>Cleared\<close> the point after the
  task has cleared \<open>reconnect_active\<close> and before it looks whether it has to go on.
\<close>

datatype reconnect_phase = Attempt duration | BackOff duration nat | Returned | Cleared | LoopEnded

definition reconnect_start :: "recovery_state \<Rightarrow> reconnect_phase" where
  "reconnect_start rs = Attempt (rs_reconnect_min_backoff rs)"

definition max_backoff :: "recovery_state \<Rightarrow> duration" where
  "max_backoff rs = max (rs_reconnect_max_backoff rs) (rs_reconnect_min_backoff rs)"

definition count_reconnect :: "(conn_counters \<Rightarrow> conn_counters) \<Rightarrow> ('r, 'j) connection \<Rightarrow> ('r, 'j) connection" where
  "count_reconnect f c = c\<lparr>c_debug := f (c_debug c)\<rparr>"

definition count_attempt :: "('r, 'j) connection \<Rightarrow> ('r, 'j) connection" where
  "count_attempt = count_reconnect (\<lambda>d. d\<lparr>cd_reconnect_attempts := cd_reconnect_attempts d + 1\<rparr>)"

definition count_success :: "('r, 'j) connection \<Rightarrow> ('r, 'j) connection" where
  "count_success = count_reconnect (\<lambda>d. d\<lparr>cd_reconnect_successes := cd_reconnect_successes d + 1\<rparr>)"

definition count_reconnect_failure :: "('r, 'j) connection \<Rightarrow> ('r, 'j) connection" where
  "count_reconnect_failure = count_reconnect (\<lambda>d. d\<lparr>cd_reconnect_failures := cd_reconnect_failures d + 1\<rparr>)"

definition terminal_resume_error :: "am_error \<Rightarrow> bool" where
  "terminal_resume_error e = (case e of ResumeRejected _ \<Rightarrow> True | UnsupportedFrameVersion _ \<Rightarrow> True | _ \<Rightarrow> False)"

text \<open>The match on the result of an attempt.\<close>

definition reconnect_result :: "(io_kind \<Rightarrow> string) \<Rightarrow> am_error + 'x \<Rightarrow> duration \<Rightarrow> ('r, 'j) connection \<Rightarrow>
    reconnect_phase \<times> ('r, 'j) connection" where
  "reconnect_result io res backoff c = (case res of
     Inr _ \<Rightarrow> (Returned, count_success c)
   | Inl e \<Rightarrow>
       let c1 = count_reconnect_failure
             (note_conn_failure FAILURE_RECOVERY_RESUME (''resume failed: '' @ error_display io e) c)
       in if terminal_resume_error e
          then (Returned, mark_closed (note_conn_failure FAILURE_RECOVERY_RECONNECT_TERMINAL
                  (''reconnect terminal failure: '' @ error_display io e) c1))
          else (BackOff backoff (c_now c1 + backoff), c1))"

text \<open>
  One step of the task. \<open>conn\<close> and \<open>timed_out\<close> are what the network does to an attempt. The second
  part of the result is the reader that the attempt started.
\<close>

definition reconnect_step :: "(io_kind \<Rightarrow> string) \<Rightarrow> codec_registry \<Rightarrow> am_error + (reader \<times> writer) \<Rightarrow> bool \<Rightarrow>
    reconnect_phase \<Rightarrow> ('r, 'j) connection \<Rightarrow>
    reconnect_phase \<times> (u64 \<times> reader) option \<times> ('r, 'j) connection" where
  "reconnect_step io reg conn timed_out phase c = (case phase of
     Attempt backoff \<Rightarrow>
       if c_closed c then (Returned, None, c)
       else (case resume_client_transport reg conn timed_out (count_attempt c) of (res, c1) \<Rightarrow>
           (case reconnect_result io res backoff c1 of (phase', c2) \<Rightarrow>
               (phase', (case res of Inr started \<Rightarrow> started | Inl _ \<Rightarrow> None), c2)))
   | BackOff backoff until \<Rightarrow>
       if c_closed c then (Returned, None, c)
       else if until \<le> c_now c then (Attempt (min (backoff * 2) (max_backoff (recovery c))), None, c)
       else (phase, None, c)
   | Returned \<Rightarrow> (Cleared, None, set_recovery ((recovery c)\<lparr>rs_reconnect_active := False\<rparr>) c)
   | Cleared \<Rightarrow>
       if c_closed c \<or> c_transport_attached c \<or> rs_reconnect_active (recovery c) then (LoopEnded, None, c)
       else (reconnect_start (recovery c), None,
             set_recovery ((recovery c)\<lparr>rs_reconnect_active := True\<rparr>) c)
   | LoopEnded \<Rightarrow> (LoopEnded, None, c))"

section \<open>Control and data frames\<close>

text \<open>\<open>handle_control_frame\<close>: whether the frame was CLOSE.\<close>

definition handle_control_frame :: "bytes \<Rightarrow> ('r, 'j) connection \<Rightarrow> (am_error + bool) \<times> ('r, 'j) connection" where
  "handle_control_frame payload c = (case parse_control_payload payload of
     Inl e \<Rightarrow> (Inl e, c)
   | Inr (control_type, val) \<Rightarrow>
       if control_type = CONTROL_TYPE_ACK
       then (case c_recovery c of
           Some rs \<Rightarrow> (Inr False, signal_send (set_recovery (ack_received val rs) c))
         | None \<Rightarrow> (Inr False, c))
       else if control_type = CONTROL_TYPE_PING then (Inr False, c)
       else if control_type = CONTROL_TYPE_CLOSE then (Inr True, c)
       else (Inl (InvalidMessage ''unknown control frame type''), c))"

definition note_and_signal :: "u64 \<Rightarrow> ('r, 'j) connection \<Rightarrow> ('r, 'j) connection" where
  "note_and_signal seq c = (case note_received (c_now c) seq (recovery c) of
     (due, rs) \<Rightarrow> if due then signal_send (set_recovery rs c) else set_recovery rs c)"

text \<open>
  \<open>handle_recovery_data_frame\<close>: its result, or that it waits for room in the queue of the stream.
  \<open>data_accepted\<close> is what follows \<open>accept_frame\<close>.
\<close>

datatype data_state = DataDone "am_error + u64" | DataWaits accept_state

definition data_accepted :: "u64 \<Rightarrow> accept_state \<times> ('r, 'j) connection \<Rightarrow> data_state \<times> ('r, 'j) connection" where
  "data_accepted seq x = (case x of
     (Accepted (Inl e), c) \<Rightarrow> (DataDone (Inl e), c)
   | (Accepted (Inr _), c) \<Rightarrow> (DataDone (Inr seq), note_and_signal seq c)
   | (Sending r ps, c) \<Rightarrow> (DataWaits (Sending r ps), c))"

definition handle_recovery_data_frame :: "u64 \<Rightarrow> u32 \<Rightarrow> u64 \<Rightarrow> u8 \<Rightarrow> bytes \<Rightarrow> ('r, 'j) connection \<Rightarrow>
    data_state \<times> ('r, 'j) connection" where
  "handle_recovery_data_frame last_recv_seq stream_id seq flags payload c =
     (if seq = 0 then (DataDone (Inl (InvalidMessage ''recovery data frame missing seq'')), c)
      else if seq \<le> last_recv_seq then (DataDone (Inr last_recv_seq), note_and_signal seq c)
      else if seq \<noteq> last_recv_seq + 1
      then (DataDone (Inl (InvalidMessage ''recovery frame sequence gap'')), c)
      else data_accepted seq (accept_frame stream_id flags payload c))"

section \<open>The reader task\<close>

text \<open>
  \<open>read_frame_within\<close>: what happens when its timer fires. The frame must have arrived within the
  timeout of starting to read it, else the timer is set to that time.
\<close>

datatype deadline = Expired | Rearmed nat

definition read_deadline :: "duration \<Rightarrow> nat \<Rightarrow> nat \<Rightarrow> deadline" where
  "read_deadline timeout read_started now =
     (let expires = read_started + timeout in if expires \<le> now then Expired else Rearmed expires)"

text \<open>
  The reader task: reading a frame with the last sequence number it received, waiting in
  \<open>accept_frame\<close>, or waiting for the streams after a CLOSE.
\<close>

datatype recovery_reader = RReading u64 u64 reader | RAccepting u64 u64 u64 accept_state reader
  | RClosing "nat list option" | REnded

definition recovery_reader_start :: "u64 \<Rightarrow> reader \<Rightarrow> ('r, 'j) connection \<Rightarrow> recovery_reader" where
  "recovery_reader_start gen r c = (case c_recovery c of
     None \<Rightarrow> REnded | Some rs \<Rightarrow> RReading gen (last_received rs) r)"

text \<open>The match on the outcome of \<open>handle_recovery_data_frame\<close>.\<close>

definition data_outcome :: "(io_kind \<Rightarrow> string) \<Rightarrow> u64 \<Rightarrow> u64 \<Rightarrow> u64 \<Rightarrow> reader \<Rightarrow>
    data_state \<times> ('r, 'j) connection \<Rightarrow> recovery_reader \<times> ('r, 'j) connection" where
  "data_outcome io gen last_recv_seq seq r x = (case x of
     (DataDone (Inr seq'), c) \<Rightarrow> (RReading gen seq' r, c)
   | (DataDone (Inl e), c) \<Rightarrow> (REnded, fail io FAILURE_RECOVERY_DATA e c)
   | (DataWaits st, c) \<Rightarrow> (RAccepting gen last_recv_seq seq st r, c))"

text \<open>
  One turn of the loop, for the outcome \<open>res\<close> of \<open>read_frame_within\<close>: a frame with the rest of the
  input, the end of the input, or an error (\<open>RecvTimeout\<close> for an expired deadline).
\<close>

definition recovery_reader_turn :: "(io_kind \<Rightarrow> string) \<Rightarrow> am_error + (inbound_frame \<times> reader) option \<Rightarrow>
    u64 \<Rightarrow> u64 \<Rightarrow> ('r, 'j) connection \<Rightarrow> recovery_reader \<times> ('r, 'j) connection" where
  "recovery_reader_turn io res gen last_recv_seq c = (case res of
     Inr (Some ((sid, seq, flags, payload), r)) \<Rightarrow>
       let c1 = c\<lparr>c_debug := note_frame_read sid (cc_header_len (config c) + length payload) (c_debug c)\<rparr>
       in if sid = CONTROL_STREAM_ID
          then (case handle_control_frame payload c1 of
              (Inr False, c2) \<Rightarrow> (RReading gen last_recv_seq r, c2)
            | (Inr True, c2) \<Rightarrow> (case close_by_peer c2 of (streams, c3) \<Rightarrow> (RClosing streams, c3))
            | (Inl e, c2) \<Rightarrow> (REnded, fail io FAILURE_RECOVERY_CONTROL e c2))
          else data_outcome io gen last_recv_seq seq r
                 (handle_recovery_data_frame last_recv_seq sid seq flags payload c1)
   | Inl (InvalidMessage m) \<Rightarrow> (REnded, fail io FAILURE_RECOVERY_DATA (InvalidMessage m) c)
   | Inl (UnsupportedFrameVersion v) \<Rightarrow> (REnded, fail io FAILURE_RECOVERY_DATA (UnsupportedFrameVersion v) c)
   | Inl (FrameTooLarge n) \<Rightarrow> (REnded, fail io FAILURE_RECOVERY_DATA (FrameTooLarge n) c)
   | Inr None \<Rightarrow>
       if c_closing c then (REnded, mark_closed c) else (REnded, detach_transport gen False c)
   | Inl e \<Rightarrow>
       if c_closing c then (REnded, mark_closed c)
       else (REnded, detach_transport gen False (note_conn_failure FAILURE_RECOVERY_READ (error_display io e) c)))"

definition recovery_reader_resume :: "(io_kind \<Rightarrow> string) \<Rightarrow> recovery_reader \<Rightarrow> ('r, 'j) connection \<Rightarrow>
    recovery_reader \<times> ('r, 'j) connection" where
  "recovery_reader_resume io t c = (case t of
     RAccepting gen last_recv_seq seq st r \<Rightarrow>
       data_outcome io gen last_recv_seq seq r (data_accepted seq (accept_step (st, c)))
   | _ \<Rightarrow> (t, c))"

end
