(* ===== verification/RecoveryWriter.thy ===== *)
theory RecoveryWriter
  imports RecoveryRuntime "HOL-Library.Monad_Syntax"
begin

text \<open>
  The writer task of a version 3 connection (\<open>RecoveryWriter\<close> of \<open>src/src/recovery_runtime.rs\<close>). Its
  queues (\<open>outbound_rx\<close>, \<open>writer_cmd_rx\<close>) and the recovery state it shares with the readers are
  fields of the connection. There are two history variables: \<open>rw_log\<close>, the frames handed to a
  transport, each with the generation of the transport and whether the write succeeded, and
  \<open>rw_hist\<close>, the frames kept in the replay buffer so far.

  A function that could reach \<open>expect("writer missing")\<close> returns an option, with \<open>None\<close> for the panic.
\<close>

record write_event =
  we_gen :: u64
  we_frame :: inbound_frame
  we_ok :: bool

record recovery_writer =
  rw_writer :: "writer option"
  rw_gen :: u64
  rw_last_sent_seq :: u64
  rw_resume :: "frame_record list"
  rw_held :: "outbound_frame option"
  rw_dirty :: bool
  rw_log :: "write_event list"
  rw_hist :: "frame_record list"

definition new_recovery_writer :: recovery_writer where
  "new_recovery_writer = \<lparr>rw_writer = None, rw_gen = 0, rw_last_sent_seq = 0, rw_resume = [],
     rw_held = None, rw_dirty = False, rw_log = [], rw_hist = []\<rparr>"

text \<open>The shorter of the two waits, and whether it is the heartbeat; zero means no ACK deadline.\<close>

definition min_wait :: "duration \<Rightarrow> duration \<Rightarrow> duration \<times> bool" where
  "min_wait ack_wait heartbeat_wait =
     (if heartbeat_wait = 0 then (ack_wait, False)
      else if ack_wait = 0 \<or> heartbeat_wait < ack_wait then (heartbeat_wait, True)
      else (ack_wait, False))"

section \<open>Writing\<close>

definition writer_detach :: "recovery_writer \<Rightarrow> ('r, 'j) connection \<Rightarrow> recovery_writer \<times> ('r, 'j) connection" where
  "writer_detach rw c = (rw\<lparr>rw_writer := None\<rparr>, detach_transport (rw_gen rw) True c)"

definition log_write :: "inbound_frame \<Rightarrow> bool \<Rightarrow> recovery_writer \<Rightarrow> recovery_writer" where
  "log_write f ok rw = rw\<lparr>rw_log := rw_log rw @ [\<lparr>we_gen = rw_gen rw, we_frame = f, we_ok = ok\<rparr>]\<rparr>"

definition rw_write :: "(io_kind \<Rightarrow> string) \<Rightarrow> u32 \<Rightarrow> u64 \<Rightarrow> u8 \<Rightarrow> bytes \<Rightarrow> string \<Rightarrow> recovery_writer \<Rightarrow>
    ('r, 'j) connection \<Rightarrow> (bool \<times> recovery_writer \<times> ('r, 'j) connection) option" where
  "rw_write io stream_id seq flags payload failure rw c = (case rw_writer rw of
     None \<Rightarrow> None
   | Some w \<Rightarrow> Some (case conn_write_frame w stream_id seq flags payload c of
         (Inr _, w', c1) \<Rightarrow> (True, log_write (stream_id, seq, flags, payload) True
            (rw\<lparr>rw_writer := Some w', rw_dirty := True\<rparr>), c1)
       | (Inl e, w', c1) \<Rightarrow> (case writer_detach (log_write (stream_id, seq, flags, payload) False rw)
              (note_conn_failure failure (error_display io e) c1) of (rw2, c2) \<Rightarrow> (False, rw2, c2))))"

definition write_record :: "(io_kind \<Rightarrow> string) \<Rightarrow> frame_record \<Rightarrow> string \<Rightarrow> recovery_writer \<Rightarrow>
    ('r, 'j) connection \<Rightarrow> (recovery_writer \<times> ('r, 'j) connection) option" where
  "write_record io frame failure rw c = do {
     (ok, rw1, c1) \<leftarrow> rw_write io (fr_stream_id frame) (fr_seq frame) (fr_flags frame) (fr_payload frame)
       failure rw c;
     Some (if ok then rw1\<lparr>rw_last_sent_seq := fr_seq frame\<rparr> else rw1, c1)
   }"

section \<open>Staging\<close>

definition resolve :: "nat option \<Rightarrow> am_error + unit \<Rightarrow> ('r, 'j) connection \<Rightarrow> ('r, 'j) connection" where
  "resolve ticket res c = (case ticket of
     Some t \<Rightarrow> c\<lparr>c_queued := (t, res) # c_queued c\<rparr> | None \<Rightarrow> c)"

definition frame_parts :: "outbound_frame \<Rightarrow> (u32 \<times> u8 \<times> bytes \<times> nat option) option" where
  "frame_parts frame = (case frame of
     Plain sid flags payload \<Rightarrow> Some (sid, flags, payload, None)
   | Recovery sid flags payload ticket \<Rightarrow> Some (sid, flags, payload, Some ticket)
   | CloseMarker \<Rightarrow> None)"

definition rw_stage :: "outbound_frame \<Rightarrow> recovery_writer \<Rightarrow> ('r, 'j) connection \<Rightarrow>
    frame_record option \<times> recovery_writer \<times> ('r, 'j) connection" where
  "rw_stage frame rw c = (case frame_parts frame of
     None \<Rightarrow> (None, rw, c)
   | Some (sid, flags, payload, ticket) \<Rightarrow>
       let seq = c_next_send_seq c + 1
       in (case stage sid seq flags payload (rs_replay (recovery c)) of
           (Inr (Kept record), replay) \<Rightarrow> (Some record, rw\<lparr>rw_hist := rw_hist rw @ [record]\<rparr>,
              resolve ticket (Inr ())
                (set_recovery ((recovery c)\<lparr>rs_replay := replay\<rparr>) (c\<lparr>c_next_send_seq := seq\<rparr>)))
         | (Inr (Full payload'), replay) \<Rightarrow> (None, rw\<lparr>rw_held := Some (case ticket of
              Some t \<Rightarrow> Recovery sid flags payload' t | None \<Rightarrow> Plain sid flags payload')\<rparr>,
              set_recovery ((recovery c)\<lparr>rs_replay := replay\<rparr>) c)
         | (Inl e, replay) \<Rightarrow> (None, rw,
              resolve ticket (Inl e) (set_recovery ((recovery c)\<lparr>rs_replay := replay\<rparr>) c))))"

text \<open>\<open>finish_on_close\<close>: whether the frame is a data frame; for the close marker the task is done.\<close>

definition finish_on_close :: "outbound_frame \<Rightarrow> recovery_writer \<Rightarrow> ('r, 'j) connection \<Rightarrow>
    task \<times> recovery_writer \<times> ('r, 'j) connection" where
  "finish_on_close frame rw c =
     (if frame \<noteq> CloseMarker then (Running, rw, c)
      else case rw_writer rw of
        None \<Rightarrow> (Done, rw, c\<lparr>c_written := Some False\<rparr>)
      | Some w \<Rightarrow> (case conn_write_frame w CONTROL_STREAM_ID 0 0 build_close_control_payload c of
            (Inl e, w1, c1) \<Rightarrow> (Done, log_write (CONTROL_STREAM_ID, 0, 0, build_close_control_payload) False
               (rw\<lparr>rw_writer := Some w1\<rparr>), c1\<lparr>c_written := Some False\<rparr>)
          | (Inr _, w1, c1) \<Rightarrow> (case shutdown w1 of
              (res, w2) \<Rightarrow> (Done, log_write (CONTROL_STREAM_ID, 0, 0, build_close_control_payload) True
                 (rw\<lparr>rw_writer := Some w2\<rparr>), c1\<lparr>c_written := Some (is_ok res)\<rparr>))))"

definition write_live :: "(io_kind \<Rightarrow> string) \<Rightarrow> outbound_frame \<Rightarrow> recovery_writer \<Rightarrow> ('r, 'j) connection \<Rightarrow>
    (task \<times> recovery_writer \<times> ('r, 'j) connection) option" where
  "write_live io frame rw c = (case finish_on_close frame rw c of
     (Done, rw1, c1) \<Rightarrow> Some (Done, rw1, c1)
   | (Running, rw1, c1) \<Rightarrow> (case rw_stage frame rw1 c1 of
         (None, rw2, c2) \<Rightarrow> Some (Running, rw2, c2)
       | (Some record, rw2, c2) \<Rightarrow>
           if rw_last_sent_seq rw2 < fr_seq record
           then do { (rw3, c3) \<leftarrow> write_record io record FAILURE_RECOVERY_LIVE_WRITE rw2 c2; Some (Running, rw3, c3) }
           else Some (Running, rw2, c2)))"

section \<open>Transport changes\<close>

definition rw_apply :: "writer_cmd \<Rightarrow> recovery_writer \<Rightarrow> ('r, 'j) connection \<Rightarrow>
    recovery_writer \<times> ('r, 'j) connection" where
  "rw_apply cmd rw c = (case cmd of
     Attach gen w resume_seq \<Rightarrow>
       let last_sent = min resume_seq (c_next_send_seq c)
       in (case prepare_resume last_sent (recovery c) of (frames, rs) \<Rightarrow>
           (rw\<lparr>rw_gen := gen, rw_last_sent_seq := last_sent, rw_resume := frames,
               rw_writer := Some w, rw_dirty := False\<rparr>, set_recovery rs c))
   | Detach gen \<Rightarrow> (if gen = rw_gen rw then rw\<lparr>rw_writer := None\<rparr> else rw, c))"

fun rw_apply_all :: "writer_cmd list \<Rightarrow> recovery_writer \<Rightarrow> ('r, 'j) connection \<Rightarrow>
    recovery_writer \<times> ('r, 'j) connection" where
  "rw_apply_all [] rw c = (rw, c)"
| "rw_apply_all (cmd # cmds) rw c = (case rw_apply cmd rw c of (rw1, c1) \<Rightarrow> rw_apply_all cmds rw1 c1)"

section \<open>The next thing to write\<close>

definition set_resume_depth :: "nat \<Rightarrow> ('r, 'j) connection \<Rightarrow> ('r, 'j) connection" where
  "set_resume_depth n c = set_recovery ((recovery c)\<lparr>rs_resume_depth := n\<rparr>) c"

text \<open>\<open>write_next\<close>: whether there may be more to write.\<close>

definition write_resume :: "(io_kind \<Rightarrow> string) \<Rightarrow> frame_record \<Rightarrow> frame_record list \<Rightarrow> recovery_writer \<Rightarrow>
    ('r, 'j) connection \<Rightarrow> (recovery_writer \<times> ('r, 'j) connection) option" where
  "write_resume io frame rest rw c =
     (let rw1 = rw\<lparr>rw_resume := rest\<rparr>; c1 = set_resume_depth (length rest) c
      in if rw_last_sent_seq rw1 < fr_seq frame \<and> last_acked_seq (rs_replay (recovery c1)) < fr_seq frame
         then write_record io frame FAILURE_RECOVERY_RESUME_WRITE rw1 c1
         else Some (rw1, c1))"

definition write_queued :: "(io_kind \<Rightarrow> string) \<Rightarrow> recovery_writer \<Rightarrow> ('r, 'j) connection \<Rightarrow>
    (task \<times> bool \<times> recovery_writer \<times> ('r, 'j) connection) option" where
  "write_queued io rw c = (case rw_held rw of
     Some frame \<Rightarrow> do { (t, rw1, c1) \<leftarrow> write_live io frame (rw\<lparr>rw_held := None\<rparr>) c;
                       Some (t, rw_held rw1 = None, rw1, c1) }
   | None \<Rightarrow> (case c_outbound c of
         [] \<Rightarrow> Some (Running, False, rw, c)
       | frame # rest \<Rightarrow> do { (t, rw1, c1) \<leftarrow> write_live io frame rw (c\<lparr>c_outbound := rest\<rparr>);
                             Some (t, rw_held rw1 = None, rw1, c1) }))"

definition write_next :: "(io_kind \<Rightarrow> string) \<Rightarrow> recovery_writer \<Rightarrow> ('r, 'j) connection \<Rightarrow>
    (task \<times> bool \<times> recovery_writer \<times> ('r, 'j) connection) option" where
  "write_next io rw c = (case take_pending_ack (c_now c) (recovery c) of
     (Some ack_seq, rs) \<Rightarrow> do {
       (_, rw1, c1) \<leftarrow> rw_write io CONTROL_STREAM_ID 0 0 (build_ack_control_payload ack_seq)
         FAILURE_RECOVERY_ACK_WRITE rw (set_recovery rs c);
       Some (Running, True, rw1, c1) }
   | (None, rs) \<Rightarrow> (case rw_resume rw of
         frame # rest \<Rightarrow> do { (rw1, c1) \<leftarrow> write_resume io frame rest rw (set_recovery rs c);
                             Some (Running, True, rw1, c1) }
       | [] \<Rightarrow> write_queued io rw (set_recovery rs c)))"

text \<open>The first half of \<open>flush_and_wait\<close>: whether the transport is still attached.\<close>

definition rw_flush :: "(io_kind \<Rightarrow> string) \<Rightarrow> recovery_writer \<Rightarrow> ('r, 'j) connection \<Rightarrow>
    (bool \<times> recovery_writer \<times> ('r, 'j) connection) option" where
  "rw_flush io rw c =
     (if \<not> rw_dirty rw then Some (True, rw, c)
      else case rw_writer rw of
          None \<Rightarrow> None
        | Some w \<Rightarrow> Some (case flush w of
              Inr _ \<Rightarrow> (True, rw\<lparr>rw_dirty := False\<rparr>, c)
            | Inl e \<Rightarrow> (case writer_detach (rw\<lparr>rw_dirty := False\<rparr>)
                  (note_conn_failure FAILURE_RECOVERY_LIVE_WRITE (error_display io e) c) of
                (rw1, c1) \<Rightarrow> (False, rw1, c1))))"

section \<open>The task\<close>

text \<open>
  Where the task is: at the head of \<open>step\<close>, in \<open>wait_detached\<close>, before the flush of
  \<open>flush_and_wait\<close>, or in its \<open>select!\<close> with the time its timer fires (if it is armed) and whether
  that is a heartbeat. The clock may advance between any two of them.
\<close>

datatype writer_phase = Turn | WaitDetached | Flushing | Waiting "nat option" bool | WriterEnded | WriterPanic

definition rw_turn :: "(io_kind \<Rightarrow> string) \<Rightarrow> recovery_writer \<Rightarrow> ('r, 'j) connection \<Rightarrow>
    writer_phase \<times> recovery_writer \<times> ('r, 'j) connection" where
  "rw_turn io rw c =
     (if c_closed c then (WriterEnded, rw, c)
      else if rw_writer rw = None then (WaitDetached, rw, c)
      else case rw_apply_all (c_cmds c) rw (c\<lparr>c_cmds := []\<rparr>) of (rw1, c1) \<Rightarrow>
        if rw_writer rw1 = None then (Turn, rw1, c1)
        else (case write_next io rw1 c1 of
            None \<Rightarrow> (WriterPanic, rw1, c1)
          | Some (Done, _, rw2, c2) \<Rightarrow> (WriterEnded, rw2, c2)
          | Some (Running, again, rw2, c2) \<Rightarrow> (if again then Turn else Flushing, rw2, c2)))"

definition rw_flush_turn :: "(io_kind \<Rightarrow> string) \<Rightarrow> recovery_writer \<Rightarrow> ('r, 'j) connection \<Rightarrow>
    writer_phase \<times> recovery_writer \<times> ('r, 'j) connection" where
  "rw_flush_turn io rw c = (case rw_flush io rw c of
     None \<Rightarrow> (WriterPanic, rw, c)
   | Some (False, rw1, c1) \<Rightarrow> (Turn, rw1, c1)
   | Some (True, rw1, c1) \<Rightarrow>
       (case min_wait (next_ack_wait (c_now c1) (recovery c1)) (heartbeat_interval (recovery c1)) of
          (wait, heartbeat_tick) \<Rightarrow>
            (Waiting (if wait = 0 then None else Some (c_now c1 + wait)) heartbeat_tick, rw1, c1)))"

definition rw_command :: "recovery_writer \<Rightarrow> ('r, 'j) connection \<Rightarrow>
    writer_phase \<times> recovery_writer \<times> ('r, 'j) connection" where
  "rw_command rw c = (case c_cmds c of
     [] \<Rightarrow> (WriterEnded, rw, c)
   | cmd # rest \<Rightarrow> (case rw_apply cmd rw (c\<lparr>c_cmds := rest\<rparr>) of (rw1, c1) \<Rightarrow> (Turn, rw1, c1)))"

definition rw_frame :: "(io_kind \<Rightarrow> string) \<Rightarrow> recovery_writer \<Rightarrow> ('r, 'j) connection \<Rightarrow>
    writer_phase \<times> recovery_writer \<times> ('r, 'j) connection" where
  "rw_frame io rw c = (case c_outbound c of
     [] \<Rightarrow> (WriterEnded, rw, c)
   | frame # rest \<Rightarrow> (case write_live io frame rw (c\<lparr>c_outbound := rest\<rparr>) of
         None \<Rightarrow> (WriterPanic, rw, c)
       | Some (Done, rw1, c1) \<Rightarrow> (WriterEnded, rw1, c1)
       | Some (Running, rw1, c1) \<Rightarrow> (Turn, rw1, c1)))"

definition rw_timer :: "(io_kind \<Rightarrow> string) \<Rightarrow> bool \<Rightarrow> recovery_writer \<Rightarrow> ('r, 'j) connection \<Rightarrow>
    writer_phase \<times> recovery_writer \<times> ('r, 'j) connection" where
  "rw_timer io heartbeat_tick rw c =
     (if \<not> heartbeat_tick then (Turn, rw, c)
      else case rw_write io CONTROL_STREAM_ID 0 0 build_ping_control_payload FAILURE_RECOVERY_PING_WRITE rw c of
          None \<Rightarrow> (WriterPanic, rw, c)
        | Some (_, rw1, c1) \<Rightarrow> (Turn, rw1, c1))"

definition rw_detached_frame :: "recovery_writer \<Rightarrow> ('r, 'j) connection \<Rightarrow>
    writer_phase \<times> recovery_writer \<times> ('r, 'j) connection" where
  "rw_detached_frame rw c = (case c_outbound c of
     [] \<Rightarrow> (WriterEnded, rw, c)
   | frame # rest \<Rightarrow> (case finish_on_close frame rw (c\<lparr>c_outbound := rest\<rparr>) of
         (Done, rw1, c1) \<Rightarrow> (WriterEnded, rw1, c1)
       | (Running, rw1, c1) \<Rightarrow> (case rw_stage frame rw1 c1 of (_, rw2, c2) \<Rightarrow> (Turn, rw2, c2))))"

text \<open>
  The steps of the task. \<open>wait_detached\<close> is biased: a command goes before a frame, and a frame before
  a signal. The queues are never closed while the connection exists, as it holds their senders.
\<close>

inductive writer_step :: "(io_kind \<Rightarrow> string) \<Rightarrow>
    writer_phase \<times> recovery_writer \<times> ('r, 'j) connection \<Rightarrow>
    writer_phase \<times> recovery_writer \<times> ('r, 'j) connection \<Rightarrow> bool" for io where
  turn: "writer_step io (Turn, rw, c) (rw_turn io rw c)"
| flush: "writer_step io (Flushing, rw, c) (rw_flush_turn io rw c)"
| closed: "ph \<in> {WaitDetached, Waiting due tick} \<Longrightarrow> c_closed c \<Longrightarrow>
     writer_step io (ph, rw, c) (WriterEnded, rw, c)"
| command: "ph \<in> {WaitDetached, Waiting due tick} \<Longrightarrow> c_cmds c \<noteq> [] \<Longrightarrow>
     writer_step io (ph, rw, c) (rw_command rw c)"
| signal: "c_send_permit c \<Longrightarrow>
     writer_step io (Waiting due tick, rw, c) (Turn, rw, c\<lparr>c_send_permit := False\<rparr>)"
| frame: "rw_held rw = None \<Longrightarrow> c_outbound c \<noteq> [] \<Longrightarrow>
     writer_step io (Waiting due tick, rw, c) (rw_frame io rw c)"
| timer: "due \<le> c_now c \<Longrightarrow>
     writer_step io (Waiting (Some due) tick, rw, c) (rw_timer io tick rw c)"
| detached_frame: "rw_held rw = None \<Longrightarrow> c_cmds c = [] \<Longrightarrow> c_outbound c \<noteq> [] \<Longrightarrow>
     writer_step io (WaitDetached, rw, c) (rw_detached_frame rw c)"
| detached_signal: "rw_held rw \<noteq> None \<Longrightarrow> c_cmds c = [] \<Longrightarrow> c_send_permit c \<Longrightarrow>
     writer_step io (WaitDetached, rw, c)
       (if c_closing c then WriterEnded else Turn, rw, c\<lparr>c_send_permit := False\<rparr>)"

inductive_cases writer_stepE: "writer_step io (ph, rw, c) x"

end
