(* ===== verification/RecoveryFields.thy ===== *)
theory RecoveryFields
  imports RecoveryWriter
begin

text \<open>
  Which fields of a connection the operations leave alone: the facts about the recovery state, the
  queues of the writer task and the sequence numbers that the proofs about a whole link rest on.
\<close>

section \<open>The fields of recovery\<close>

text \<open>\<open>link_same\<close>: none of the fields that the writer works with has changed.\<close>

definition link_same :: "('r, 'j) connection \<Rightarrow> ('r, 'j) connection \<Rightarrow> bool" where
  "link_same c c' \<longleftrightarrow> c_recovery c' = c_recovery c \<and> c_next_send_seq c' = c_next_send_seq c \<and>
     c_cmds c' = c_cmds c \<and> c_outbound c' = c_outbound c \<and> c_transport_gen c' = c_transport_gen c \<and>
     c_config c' = c_config c"

lemma link_same_refl [simp]: "link_same c c"
  by (simp add: link_same_def)

lemma link_same_trans [trans]: "link_same a b \<Longrightarrow> link_same b c \<Longrightarrow> link_same a c"
  by (simp add: link_same_def)

lemma link_same_basic [simp]:
  "link_same c (note_conn_failure code reason c)" "link_same c (signal_send c)"
  "link_same c (notify_close r c)" "link_same c (abort_reader c)" "link_same c (update_stream r f c)"
  "link_same c (close_and_count r c)" "link_same c (snd (alloc_stream s c))"
  by (simp_all add: link_same_def note_conn_failure_def signal_send_def notify_close_def abort_reader_def
      update_stream_def close_and_count_def close_channels_def alloc_stream_def)

lemma link_same_close_fold:
  "link_same c (fold (\<lambda>(sid :: u32, r) c. notify_close r (close_and_count r c)) xs c)"
proof (induction xs arbitrary: c)
  case (Cons x xs)
  have "link_same c (notify_close (snd x) (close_and_count (snd x) c))"
    by (rule link_same_trans[OF link_same_basic(6) link_same_basic(3)])
  with Cons[of "notify_close (snd x) (close_and_count (snd x) c)"] show ?case
    by (simp add: split_def link_same_trans)
qed simp

lemma link_same_close_all: "link_same c (close_all_streams c)"
  using link_same_close_fold[of "c\<lparr>c_streams := [], c_default_stream := None\<rparr>" "c_streams c"]
  by (simp add: close_all_streams_def link_same_def)

lemma link_same_mark_closed [simp]: "link_same c (mark_closed c)"
  using link_same_close_all[of "(abort_reader c)\<lparr>c_closed := True, c_transport_attached := False\<rparr>"]
    link_same_basic(4)[of c]
  by (simp add: mark_closed_def link_same_def)

lemma link_same_fail [simp]: "link_same c (fail io code e c)"
  unfolding fail_def by (rule link_same_trans[OF link_same_basic(1) link_same_mark_closed])

lemma link_same_make_stream [simp]: "link_same c (snd (make_stream sid c))"
  by (cases rule: make_stream_cases[of sid c]) (simp_all add: link_same_def)

lemma link_same_get_stream_ctx [simp]: "link_same c (snd (get_stream_ctx sid c))"
proof (cases "lookup_stream_ctx sid c")
  case None
  obtain r c1 where m: "make_stream sid c = (r, c1)" by fastforce
  with link_same_make_stream[of c sid] have "link_same c c1" by simp
  with None m link_same_basic(7)[of c1] show ?thesis
    by (auto simp: get_stream_ctx_def link_same_def split: option.split)
qed (simp add: get_stream_ctx_def)

lemma link_same_inbound [simp]: "link_same c (snd (inbound_stream sid c))"
proof -
  obtain r c1 where "get_stream_ctx sid c = (r, c1)" by fastforce
  with link_same_get_stream_ctx[of c sid] show ?thesis
    by (simp add: inbound_stream_def split: option.split)
qed

lemma link_same_accept_route [simp]: "link_same c (snd (accept_route sid fl pl c))"
  using link_same_inbound[of c sid]
  by (auto simp: accept_route_def Let_def link_same_def split: option.split prod.split)

lemma link_same_accept_step [simp]: "link_same (snd x) (snd (accept_step x))"
  by (cases x rule: accept_step.cases) auto

lemma link_same_accept_frame [simp]: "link_same c (snd (accept_frame sid fl pl c))"
  unfolding accept_frame_def
  by (rule link_same_trans[OF link_same_accept_route])
    (rule link_same_trans[OF link_same_trans[OF link_same_accept_step link_same_accept_step] link_same_accept_step])

lemma link_same_close_by_peer [simp]: "link_same c (snd (close_by_peer c))"
proof (cases "c_closing c")
  case False
  then show ?thesis by (simp add: close_by_peer_def) (simp add: link_same_def)
qed (simp add: close_by_peer_def)

lemma conn_write_frame_same:
  "conn_write_frame w sid seq fl pl c = (res, w', c') \<Longrightarrow> link_same c c'"
  by (auto simp: conn_write_frame_def link_same_def split: prod.splits sum.splits)

text \<open>
  \<open>link_env\<close>: what the other tasks may do to these fields. They queue frames to send and Detach
  commands, and change the recovery state, but not its replay buffer.
\<close>

definition frame_allowed :: "outbound_frame \<Rightarrow> bool" where
  "frame_allowed f \<longleftrightarrow> (case frame_parts f of
     None \<Rightarrow> True | Some (sid, flags, payload, ticket) \<Rightarrow> sid \<noteq> CONTROL_STREAM_ID \<and> length payload < 2 ^ 62)"

definition link_env :: "('r, 'j) connection \<Rightarrow> ('r, 'j) connection \<Rightarrow> bool" where
  "link_env c c' \<longleftrightarrow> c_next_send_seq c' = c_next_send_seq c \<and>
     map_option rs_replay (c_recovery c') = map_option rs_replay (c_recovery c) \<and>
     (\<exists>gens. c_cmds c' = c_cmds c @ map Detach gens) \<and>
     (\<exists>fs. c_outbound c' = c_outbound c @ fs \<and> list_all frame_allowed fs)"

lemma link_env_refl [simp]: "link_env c c"
  by (simp add: link_env_def)

lemma link_env_trans [trans]:
  assumes "link_env a b" "link_env b c"
  shows "link_env a c"
proof -
  from assms obtain gs gs' fs fs' where
    "c_cmds b = c_cmds a @ map Detach gs" "c_cmds c = c_cmds b @ map Detach gs'"
    "c_outbound b = c_outbound a @ fs" "c_outbound c = c_outbound b @ fs'"
    "list_all frame_allowed fs" "list_all frame_allowed fs'"
    by (auto simp: link_env_def)
  then have "c_cmds c = c_cmds a @ map Detach (gs @ gs')" "c_outbound c = c_outbound a @ (fs @ fs')"
    "list_all frame_allowed (fs @ fs')" by simp_all
  with assms show ?thesis unfolding link_env_def by metis
qed

lemma link_same_env: "link_same c c' \<Longrightarrow> link_env c c'"
  by (auto simp: link_same_def link_env_def)

lemma link_env_spawn [simp]: "link_env c (spawn_reconnect_loop c)" "link_env c (spawn_server_expiry g c)"
proof -
  show "link_env c (spawn_reconnect_loop c)"
    by (auto simp: spawn_reconnect_loop_def link_env_def split: option.split)
  show "link_env c (spawn_server_expiry g c)"
    by (auto simp: spawn_server_expiry_def Let_def link_same_env split: option.split)
      (simp_all add: link_env_def)
qed

lemma link_env_detach [simp]: "link_env c (detach_transport gen abort c)"
proof (cases "c_closed c \<or> c_transport_gen c \<noteq> gen")
  case False
  define c1 where "c1 = c\<lparr>c_transport_gen := gen + 1, c_transport_attached := False,
     c_debug := (c_debug c)\<lparr>cd_transport_detaches := cd_transport_detaches (c_debug c) + 1\<rparr>\<rparr>"
  define c2 where "c2 = (if abort
     then (if c_reader_gen c1 = Some gen then abort_reader c1 else c1\<lparr>c_reader_gen := None\<rparr>) else c1)"
  define c3 where "c3 = c2\<lparr>c_cmds := c_cmds c2 @ [Detach gen]\<rparr>"
  have "c_cmds c3 = c_cmds c @ map Detach [gen]" "c_recovery c3 = c_recovery c"
    "c_outbound c3 = c_outbound c @ []" "c_next_send_seq c3 = c_next_send_seq c"
    by (auto simp: c3_def c2_def c1_def abort_reader_def)
  then have 3: "link_env c c3" unfolding link_env_def by (metis list.pred_inject(1))
  have "detach_transport gen abort c = (case c_recovery c3 of None \<Rightarrow> c3
     | Some rs \<Rightarrow> (case rs_role rs of RoleClient \<Rightarrow> spawn_reconnect_loop c3
                   | RoleServer \<Rightarrow> spawn_server_expiry (gen + 1) c3))"
    using False unfolding detach_transport_def Let_def c3_def c2_def c1_def
    by (simp only: de_Morgan_disj not_not if_False simp_thms cong: if_cong)
  with 3 show ?thesis
    by (auto split: option.split recovery_role.split intro: link_env_trans[OF 3])
qed (auto simp: detach_transport_def)

end
