(* ===== verification/LinkSender.thy ===== *)
theory LinkSender
  imports RecoveryFields "HOL-Library.Sublist"
begin

text \<open>
  The sending side of a link: what the writer task keeps true of the replay buffer, of the frames on
  the transports, and of what it still has to write, in terms of the number \<open>R\<close> of frames that the
  receiver has. \<open>RecoverySystem\<close> puts it together with the receiving side.
\<close>

section \<open>Frames by sequence number\<close>

definition frame_of :: "frame_record \<Rightarrow> inbound_frame" where
  "frame_of r = (fr_stream_id r, fr_seq r, fr_flags r, fr_payload r)"

definition is_data :: "inbound_frame \<Rightarrow> bool" where "is_data f \<longleftrightarrow> fst f \<noteq> CONTROL_STREAM_ID"
definition seq_of :: "inbound_frame \<Rightarrow> nat" where "seq_of f = unat (fst (snd f))"

text \<open>The data frames with a number above \<open>R\<close>.\<close>

definition fresh :: "nat \<Rightarrow> inbound_frame list \<Rightarrow> inbound_frame list" where
  "fresh R xs = filter (\<lambda>f. is_data f \<and> R < seq_of f) xs"

lemma fresh_simps [simp]:
  "fresh R [] = []" "fresh R (xs @ ys) = fresh R xs @ fresh R ys"
  "fresh R (f # xs) = (if is_data f \<and> R < seq_of f then f # fresh R xs else fresh R xs)"
  by (simp_all add: fresh_def)

lemma fresh_fresh: "R \<le> Q \<Longrightarrow> fresh Q (fresh R xs) = fresh Q xs"
  by (induction xs) auto

text \<open>The history of the frames kept: the \<open>i\<close>th has the number \<open>i + 1\<close>.\<close>

definition hist_ok :: "frame_record list \<Rightarrow> bool" where
  "hist_ok H \<longleftrightarrow> (\<forall>i < length H. unat (fr_seq (H ! i)) = Suc i \<and> fr_stream_id (H ! i) \<noteq> CONTROL_STREAM_ID)"

lemma hist_ok_take: "hist_ok H \<Longrightarrow> hist_ok (take m H)"
  by (simp add: hist_ok_def)

lemma hist_ok_snoc:
  "hist_ok (H @ [r]) \<longleftrightarrow> hist_ok H \<and> unat (fr_seq r) = Suc (length H) \<and> fr_stream_id r \<noteq> CONTROL_STREAM_ID"
  by (auto simp: hist_ok_def nth_append less_Suc_eq)

lemma hist_filter:
  assumes "hist_ok H"
  shows "filter (\<lambda>r. k < unat (fr_seq r)) (drop j H) = drop (max j k) H"
proof (induction "length H - j" arbitrary: j)
  case 0
  then show ?case by simp
next
  case (Suc m)
  then have j: "j < length H" by simp
  then have d: "drop j H = H ! j # drop (Suc j) H" by (simp add: Cons_nth_drop_Suc)
  have IH: "filter (\<lambda>r. k < unat (fr_seq r)) (drop (Suc j) H) = drop (max (Suc j) k) H"
    using Suc by simp
  have s: "unat (fr_seq (H ! j)) = Suc j" using assms j by (simp add: hist_ok_def)
  show ?case
  proof (cases "k < Suc j")
    case True
    then have "max (Suc j) k = Suc j" "max j k = j" by simp_all
    with IH s True d show ?thesis by simp
  next
    case False
    then have "max (Suc j) k = k" "max j k = k" by simp_all
    with IH s False d show ?thesis by simp
  qed
qed

lemma hist_fresh:
  assumes "hist_ok H"
  shows "fresh R (map frame_of (drop j H)) = map frame_of (drop (max j R) H)"
proof -
  have "fresh R (map frame_of (drop j H)) = map frame_of (filter (\<lambda>r. R < unat (fr_seq r)) (drop j H))"
    unfolding fresh_def filter_map comp_def
  proof (intro arg_cong[of _ _ "map frame_of"] filter_cong refl)
    fix r assume "r \<in> set (drop j H)"
    then obtain i where "i < length H" "r = H ! i" by (metis in_set_conv_nth in_set_dropD)
    with assms have "fr_stream_id r \<noteq> CONTROL_STREAM_ID" by (simp add: hist_ok_def)
    then show "(is_data (frame_of r) \<and> R < seq_of (frame_of r)) = (R < unat (fr_seq r))"
      by (simp add: is_data_def seq_of_def frame_of_def)
  qed
  with hist_filter[OF assms] show ?thesis by simp
qed

lemma hist_fresh_take:
  "hist_ok H \<Longrightarrow> fresh R (map frame_of (drop j (take m H))) = map frame_of (drop (max j R) (take m H))"
  by (rule hist_fresh) (rule hist_ok_take)

section \<open>The invariant of the sender\<close>

text \<open>The frames on each transport, by its generation, in the order written.\<close>

type_synonym wires = "u64 \<Rightarrow> inbound_frame list"

text \<open>
  The writer's log extends the wires. Whether a frame whose write failed still arrives is open
  (\<open>keep\<close>).
\<close>

definition arrive :: "bool \<Rightarrow> write_event list \<Rightarrow> wires \<Rightarrow> wires" where
  "arrive keep es W = (\<lambda>g. W g @ map we_frame (filter (\<lambda>e. we_gen e = g \<and> (we_ok e \<or> keep)) es))"

lemma arrive_Nil [simp]: "arrive keep [] W = W"
  by (simp add: arrive_def)

text \<open>
  The Attach commands to come: rising generations up to \<open>T\<close>, the last one given out, and no number
  above what the receiver has.
\<close>

fun cmds_ok :: "u64 \<Rightarrow> nat \<Rightarrow> u64 \<Rightarrow> writer_cmd list \<Rightarrow> bool" where
  "cmds_ok T R g [] = (g \<le> T)"
| "cmds_ok T R g (Detach d # cs) = cmds_ok T R g cs"
| "cmds_ok T R g (Attach g' w s # cs) = (g < g' \<and> unat s \<le> R \<and> cmds_ok T R g' cs)"

definition store_ok :: "nat \<Rightarrow> recovery_writer \<Rightarrow> ('r, 'j) connection \<Rightarrow> bool" where
  "store_ok R rw c \<longleftrightarrow> hist_ok (rw_hist rw) \<and> length (rw_hist rw) = unat (c_next_send_seq c) \<and>
     R \<le> length (rw_hist rw) \<and>
     (\<exists>rs. c_recovery c = Some rs \<and> replay.holds (rw_hist rw) (rs_replay rs) \<and>
        rb_header_len (rs_replay rs) \<le> 18 \<and> unat (rb_last_acked (rs_replay rs)) \<le> R)"

definition wires_ok :: "nat \<Rightarrow> wires \<Rightarrow> recovery_writer \<Rightarrow> bool" where
  "wires_ok R W rw \<longleftrightarrow> (\<forall>g. prefix (fresh R (W g)) (map frame_of (drop R (rw_hist rw)))) \<and>
     (\<forall>g. rw_gen rw < g \<longrightarrow> W g = []) \<and> (\<forall>g. \<forall>f \<in> set (W g). is_data f \<longrightarrow> 0 < seq_of f)"

definition queue_ok :: "recovery_writer \<Rightarrow> ('r, 'j) connection \<Rightarrow> bool" where
  "queue_ok rw c \<longleftrightarrow> list_all frame_allowed (c_outbound c) \<and> pred_option frame_allowed (rw_held rw)"

definition base_inv :: "u64 \<Rightarrow> nat \<Rightarrow> wires \<Rightarrow> recovery_writer \<Rightarrow> ('r, 'j) connection \<Rightarrow> bool" where
  "base_inv T R W rw c \<longleftrightarrow> store_ok R rw c \<and> wires_ok R W rw \<and> queue_ok rw c \<and> cmds_ok T R (rw_gen rw) (c_cmds c)"

text \<open>
  Up to where the current transport carries the history: what the receiver has, or the last frame
  written on it. The frames to replay go on from there.
\<close>

definition sent_upto :: "nat \<Rightarrow> recovery_writer \<Rightarrow> nat" where
  "sent_upto R rw = max R (unat (rw_last_sent_seq rw))"

definition attached_ok :: "nat \<Rightarrow> wires \<Rightarrow> recovery_writer \<Rightarrow> bool" where
  "attached_ok R W rw \<longleftrightarrow> unat (rw_last_sent_seq rw) \<le> length (rw_hist rw) \<and>
     fresh R (W (rw_gen rw)) = map frame_of (drop R (take (sent_upto R rw) (rw_hist rw))) \<and>
     filter (\<lambda>f. sent_upto R rw < unat (fr_seq f)) (rw_resume rw) = drop (sent_upto R rw) (rw_hist rw) \<and>
     set (rw_resume rw) \<subseteq> set (rw_hist rw)"

definition sender_inv :: "u64 \<Rightarrow> nat \<Rightarrow> wires \<Rightarrow> recovery_writer \<Rightarrow> ('r, 'j) connection \<Rightarrow> bool" where
  "sender_inv T R W rw c \<longleftrightarrow> base_inv T R W rw c \<and> (rw_writer rw \<noteq> None \<longrightarrow> attached_ok R W rw)"

lemmas base_defs = base_inv_def store_ok_def wires_ok_def queue_ok_def

text \<open>What an operation of the writer guarantees: it logs events, and the invariant holds after them.\<close>

definition sends :: "u64 \<Rightarrow> nat \<Rightarrow> wires \<Rightarrow> recovery_writer \<Rightarrow> recovery_writer \<Rightarrow> ('r, 'j) connection \<Rightarrow> bool" where
  "sends T R W rw rw' c' \<longleftrightarrow> (\<exists>es. rw_log rw' = rw_log rw @ es \<and> (\<forall>keep. sender_inv T R (arrive keep es W) rw' c'))"

lemma sends_quiet: "rw_log rw' = rw_log rw \<Longrightarrow> sender_inv T R W rw' c' \<Longrightarrow> sends T R W rw rw' c'"
  unfolding sends_def by (intro exI[of _ "[]"]) simp

lemma cmds_ok_append_Detach: "cmds_ok T R g (cs @ map Detach gs) = cmds_ok T R g cs"
proof (induction R g cs rule: cmds_ok.induct)
  case (1 T R g)
  show ?case by (induction gs) simp_all
qed simp_all

lemma base_inv_env [invar_intros]:
  assumes "base_inv T R W rw c" "link_env c c'"
  shows "base_inv T R W rw c'"
proof -
  from assms(1) obtain rs where rs: "c_recovery c = Some rs" "replay.holds (rw_hist rw) (rs_replay rs)"
    "rb_header_len (rs_replay rs) \<le> 18" "unat (rb_last_acked (rs_replay rs)) \<le> R"
    by (auto simp: base_defs)
  from assms(2) rs(1) obtain rs' where "c_recovery c' = Some rs'" "rs_replay rs' = rs_replay rs"
    by (auto simp: link_env_def)
  with rs have "\<exists>rs. c_recovery c' = Some rs \<and> replay.holds (rw_hist rw) (rs_replay rs) \<and>
      rb_header_len (rs_replay rs) \<le> 18 \<and> unat (rb_last_acked (rs_replay rs)) \<le> R" by metis
  with assms show ?thesis
    by (auto simp: base_defs link_env_def cmds_ok_append_Detach)
qed

lemma sender_inv_env [invar_intros]: "sender_inv T R W rw c \<Longrightarrow> link_env c c' \<Longrightarrow> sender_inv T R W rw c'"
  using base_inv_env by (auto simp: sender_inv_def)

lemma base_inv_fields [simp]:
  "base_inv T R W (rw\<lparr>rw_writer := w\<rparr>) c = base_inv T R W rw c"
  "base_inv T R W (rw\<lparr>rw_dirty := d\<rparr>) c = base_inv T R W rw c"
  "base_inv T R W (rw\<lparr>rw_log := l\<rparr>) c = base_inv T R W rw c"
  "base_inv T R W (rw\<lparr>rw_resume := rs\<rparr>) c = base_inv T R W rw c"
  "base_inv T R W (rw\<lparr>rw_last_sent_seq := n\<rparr>) c = base_inv T R W rw c"
  by (simp_all add: base_defs)

lemma attached_ok_fields [simp]:
  "attached_ok R W (rw\<lparr>rw_writer := w\<rparr>) = attached_ok R W rw"
  "attached_ok R W (rw\<lparr>rw_dirty := d\<rparr>) = attached_ok R W rw"
  "attached_ok R W (rw\<lparr>rw_log := l\<rparr>) = attached_ok R W rw"
  "attached_ok R W (rw\<lparr>rw_held := h\<rparr>) = attached_ok R W rw"
  by (simp_all add: attached_ok_def sent_upto_def)

lemma sender_inv_detached: "base_inv T R W rw c \<Longrightarrow> rw_writer rw = None \<Longrightarrow> sender_inv T R W rw c"
  by (simp add: sender_inv_def)

lemma writer_detach_inv:
  assumes "base_inv T R W rw c" "writer_detach rw c = (rw', c')"
  shows "sender_inv T R W rw' c'" "rw_writer rw' = None" "rw_log rw' = rw_log rw" "rw_hist rw' = rw_hist rw"
proof -
  from assms(2) have rw': "rw' = rw\<lparr>rw_writer := None\<rparr>" "c' = detach_transport (rw_gen rw) True c"
    by (simp_all add: writer_detach_def)
  show "sender_inv T R W rw' c'" unfolding rw'
    by (rule sender_inv_detached) (simp_all add: base_inv_env[OF assms(1)])
qed (use assms(2) in \<open>auto simp: writer_detach_def\<close>)

section \<open>Writing a frame\<close>

lemma arrive_one:
  "arrive keep [\<lparr>we_gen = g, we_frame = f, we_ok = ok\<rparr>] W =
     (if ok \<or> keep then W(g := W g @ [f]) else W)"
  by (auto simp: arrive_def)

text \<open>Appending to a wire keeps the invariant if the frame is not fresh, or is the next of the history.\<close>

lemma base_inv_arrive:
  assumes "base_inv T R W rw c" "fresh R [f] = [] \<or> prefix (fresh R (W (rw_gen rw)) @ [f]) (map frame_of (drop R (rw_hist rw)))"
    and "is_data f \<Longrightarrow> 0 < seq_of f"
  shows "base_inv T R (arrive keep [\<lparr>we_gen = rw_gen rw, we_frame = f, we_ok = ok\<rparr>] W) rw c"
proof -
  from assms(1) have "prefix (fresh R (W g)) (map frame_of (drop R (rw_hist rw)))" for g
    by (simp add: base_defs)
  with assms(2) have "prefix (fresh R ((W(rw_gen rw := W (rw_gen rw) @ [f])) g)) (map frame_of (drop R (rw_hist rw)))" for g
    by (auto split: if_splits)
  with assms(1,3) show ?thesis by (auto simp: arrive_one base_defs)
qed

lemma rw_write_cases:
  assumes "rw_write io sid seq fl pl failure rw c = Some (ok, rw', c')"
  obtains (ok) w where "ok" "rw' = log_write (sid, seq, fl, pl) True (rw\<lparr>rw_writer := Some w, rw_dirty := True\<rparr>)"
      "link_env c c'" "rw_writer rw \<noteq> None"
  | (failed) "\<not> ok" "rw' = (log_write (sid, seq, fl, pl) False rw)\<lparr>rw_writer := None\<rparr>" "link_env c c'" "rw_writer rw \<noteq> None"
proof -
  from assms obtain w where w: "rw_writer rw = Some w" by (auto simp: rw_write_def split: option.splits)
  obtain res w' c1 where x: "conn_write_frame w sid seq fl pl c = (res, w', c1)" by (metis prod_cases3)
  note e1 = link_same_env[OF conn_write_frame_same[OF x]]
  show thesis
  proof (cases res)
    case (Inl e)
    have "link_env c1 (detach_transport g True (note_conn_failure failure (error_display io e) c1))" for g
      by (rule link_env_trans[OF link_same_env[OF link_same_basic(1)] link_env_detach])
    with assms w x Inl failed link_env_trans[OF e1] show thesis
      by (auto simp: rw_write_def writer_detach_def)
  next
    case (Inr u)
    with assms w x ok e1 show thesis by (auto simp: rw_write_def)
  qed
qed

text \<open>A control frame.\<close>

lemma rw_write_control:
  assumes "sender_inv T R W rw c" "rw_write io sid seq fl pl failure rw c = Some (ok, rw', c')"
    and control: "\<not> is_data (sid, seq, fl, pl)"
  shows "sends T R W rw rw' c'" "rw_gen rw' = rw_gen rw" "rw_resume rw' = rw_resume rw" "rw_held rw' = rw_held rw"
    "ok \<longrightarrow> rw_writer rw' \<noteq> None"
proof -
  let ?e = "\<lparr>we_gen = rw_gen rw, we_frame = (sid, seq, fl, pl), we_ok = ok\<rparr>"
  from control have stale: "fresh R [(sid, seq, fl, pl)] = []" by simp
  have arr: "base_inv T R W rw c \<Longrightarrow> base_inv T R (arrive keep [?e] W) rw c" for keep
    by (rule base_inv_arrive[OF _ disjI1[OF stale]]) (use control in simp_all)
  from assms(1) have b: "base_inv T R W rw c" and a: "rw_writer rw \<noteq> None \<longrightarrow> attached_ok R W rw"
    by (simp_all add: sender_inv_def)
  have "rw_log rw' = rw_log rw @ [?e] \<and> (\<forall>keep. sender_inv T R (arrive keep [?e] W) rw' c') \<and> rw_gen rw' = rw_gen rw \<and>
    rw_resume rw' = rw_resume rw \<and> rw_held rw' = rw_held rw \<and> (ok \<longrightarrow> rw_writer rw' \<noteq> None)"
    using assms(2)
  proof (cases rule: rw_write_cases)
    case (ok w)
    have "base_inv T R (arrive keep [?e] W) rw c'" for keep
      by (rule base_inv_env[OF arr[OF b] ok(3)])
    moreover have "attached_ok R (arrive keep [?e] W) rw" for keep
      using a ok(4) stale by (auto simp: attached_ok_def arrive_one split: if_splits)
    ultimately show ?thesis using ok by (simp add: log_write_def sender_inv_def)
  next
    case failed
    have "base_inv T R (arrive keep [?e] W) rw c'" for keep
      by (rule base_inv_env[OF arr[OF b] failed(3)])
    with failed show ?thesis by (simp add: log_write_def sender_inv_def)
  qed
  then show "sends T R W rw rw' c'" "rw_gen rw' = rw_gen rw" "rw_resume rw' = rw_resume rw" "rw_held rw' = rw_held rw"
    "ok \<longrightarrow> rw_writer rw' \<noteq> None"
    unfolding sends_def by blast+
qed

text \<open>
  A record of the history, \<open>s\<close> its number, above the last one sent on this transport. It is either
  one the receiver has, or the next; and what is left to replay goes on after it.
\<close>

lemma write_record_sends:
  assumes b: "base_inv T R W rw c" and w: "write_record io r failure rw c = Some (rw', c')"
    and r: "r = rw_hist rw ! (s - 1)" "s = unat (fr_seq r)" "0 < s" "s \<le> length (rw_hist rw)"
    and sent: "unat (rw_last_sent_seq rw) < s" "s \<le> Suc (sent_upto R rw)" "unat (rw_last_sent_seq rw) \<le> length (rw_hist rw)"
    and wire: "fresh R (W (rw_gen rw)) = map frame_of (drop R (take (sent_upto R rw) (rw_hist rw)))"
    and rest: "filter (\<lambda>f. max R s < unat (fr_seq f)) (rw_resume rw) = drop (max R s) (rw_hist rw)"
      "set (rw_resume rw) \<subseteq> set (rw_hist rw)"
  shows "sends T R W rw rw' c'" "rw_gen rw' = rw_gen rw" "rw_resume rw' = rw_resume rw" "rw_held rw' = rw_held rw"
proof -
  let ?H = "rw_hist rw"
  let ?S = "sent_upto R rw"
  let ?f = "(fr_stream_id r, fr_seq r, fr_flags r, fr_payload r)"
  have fo: "frame_of r = ?f" by (simp add: frame_of_def)
  from b have H: "hist_ok ?H" "R \<le> length ?H" by (simp_all add: base_defs)
  have r': "?H ! (s - 1) = r" "s - 1 < length ?H" using r by auto
  with H(1) have data: "is_data ?f" unfolding hist_ok_def is_data_def by force
  have fresh_f: "fresh R [?f] = (if R < s then [?f] else [])" using data r(2) by (simp add: seq_of_def)
  have take_s: "drop R (take s ?H) = drop R (take (s - 1) ?H) @ [r]" if "R < s"
  proof -
    from r(3) r' have "take s ?H = take (s - 1) ?H @ [r]"
      by (metis Suc_pred' take_Suc_conv_app_nth)
    with that r' show ?thesis by simp
  qed
  have S: "?S = s - 1" if "R < s"
    using that sent(1,2) by (auto simp: sent_upto_def max_def split: if_splits)
  have next_f: "fresh R (W (rw_gen rw)) @ fresh R [?f] = map frame_of (drop R (take (max R s) ?H))"
  proof (cases "R < s")
    case True
    with wire S take_s fresh_f fo show ?thesis by (simp add: max_def)
  next
    case False
    with sent(1) have "?S = R" by (simp add: sent_upto_def)
    with False wire fresh_f show ?thesis by (simp add: max_def)
  qed
  have arr: "fresh R [?f] = [] \<or> prefix (fresh R (W (rw_gen rw)) @ [?f]) (map frame_of (drop R ?H))"
    using next_f fresh_f by (auto simp: take_is_prefix drop_take map_mono_prefix)
  have pos: "is_data ?f \<Longrightarrow> 0 < seq_of ?f" using r(2,3) by (simp add: seq_of_def)
  from w obtain ok rw1 where x: "rw_write io (fr_stream_id r) (fr_seq r) (fr_flags r) (fr_payload r) failure rw c = Some (ok, rw1, c')"
    and rw': "rw' = (if ok then rw1\<lparr>rw_last_sent_seq := fr_seq r\<rparr> else rw1)"
    by (auto simp: write_record_def split: Option.bind_splits)
  let ?e = "\<lparr>we_gen = rw_gen rw, we_frame = ?f, we_ok = ok\<rparr>"
  have "rw_log rw' = rw_log rw @ [?e] \<and> (\<forall>keep. sender_inv T R (arrive keep [?e] W) rw' c') \<and> rw_gen rw' = rw_gen rw \<and>
    rw_resume rw' = rw_resume rw \<and> rw_held rw' = rw_held rw"
    using x
  proof (cases rule: rw_write_cases)
    case (ok w)
    have base: "base_inv T R (arrive keep [?e] W) rw c'" for keep
      by (rule base_inv_env[OF base_inv_arrive[OF b arr pos] ok(3)])
    have "attached_ok R (arrive keep [?e] W) (rw\<lparr>rw_last_sent_seq := fr_seq r\<rparr>)" for keep
      using ok(1) next_f rest r(2,4) fo by (simp add: attached_ok_def sent_upto_def arrive_one)
    with base show ?thesis using ok(1,2) rw' by (simp add: log_write_def sender_inv_def attached_ok_def sent_upto_def)
  next
    case failed
    have "base_inv T R (arrive keep [?e] W) rw c'" for keep
      by (rule base_inv_env[OF base_inv_arrive[OF b arr pos] failed(3)])
    with failed rw' show ?thesis by (simp add: log_write_def sender_inv_def)
  qed
  then show "sends T R W rw rw' c'" "rw_gen rw' = rw_gen rw" "rw_resume rw' = rw_resume rw" "rw_held rw' = rw_held rw"
    unfolding sends_def by blast+
qed
section \<open>Replaying and staging\<close>

lemma sends_trans:
  assumes "rw_log rw1 = rw_log rw" "sends T R W rw1 rw' c'"
  shows "sends T R W rw rw' c'"
  using assms by (simp add: sends_def)

lemma hist_index:
  assumes "hist_ok H" "r \<in> set H"
  shows "r = H ! (unat (fr_seq r) - 1)" "0 < unat (fr_seq r)" "unat (fr_seq r) \<le> length H"
proof -
  from assms(2) obtain i where "i < length H" "r = H ! i" by (metis in_set_conv_nth)
  with assms(1) show "r = H ! (unat (fr_seq r) - 1)" "0 < unat (fr_seq r)" "unat (fr_seq r) \<le> length H"
    by (simp_all add: hist_ok_def)
qed

lemma link_env_set_recovery:
  "c_recovery c = Some rs0 \<Longrightarrow> rs_replay rs = rs_replay rs0 \<Longrightarrow> link_env c (set_recovery rs c)"
  by (simp add: link_env_def)

lemma write_resume_sends:
  assumes inv: "sender_inv T R W rw c" "rw_writer rw \<noteq> None" "rw_resume rw = r # rest"
    and w: "write_resume io r rest rw c = Some (rw', c')"
  shows "sends T R W rw rw' c'" "rw_gen rw' = rw_gen rw"
proof -
  let ?S = "sent_upto R rw"
  let ?rw = "rw\<lparr>rw_resume := rest\<rparr>" and ?c = "set_resume_depth (length rest) c"
  let ?s = "unat (fr_seq r)"
  from inv have b: "base_inv T R W rw c" and a: "attached_ok R W rw" by (auto simp: sender_inv_def)
  from b obtain rs where rs: "c_recovery c = Some rs" "unat (rb_last_acked (rs_replay rs)) \<le> R"
    by (auto simp: base_defs)
  have env: "link_env c ?c" using rs(1) by (simp add: set_resume_depth_def link_env_set_recovery)
  have b1: "base_inv T R W ?rw ?c" using base_inv_env[OF b env] by simp
  from b have H: "hist_ok (rw_hist rw)" by (simp add: base_defs)
  from a inv(3) have a': "filter (\<lambda>f. ?S < unat (fr_seq f)) (r # rest) = drop ?S (rw_hist rw)"
    "r \<in> set (rw_hist rw)" "set rest \<subseteq> set (rw_hist rw)" by (auto simp: attached_ok_def)
  note idx = hist_index[OF H a'(2)]
  have S: "sent_upto R ?rw = ?S" by (simp add: sent_upto_def)
  have next_s: "?s = Suc ?S \<and> filter (\<lambda>f. Suc ?S < unat (fr_seq f)) rest = drop (Suc ?S) (rw_hist rw)" if "?S < ?s"
  proof -
    from a'(1) that have d: "drop ?S (rw_hist rw) = r # filter (\<lambda>f. ?S < unat (fr_seq f)) rest" by simp
    then have lt: "?S < length (rw_hist rw)" by (metis drop_all linorder_not_less list.distinct(1))
    with d have "rw_hist rw ! ?S = r" by (metis hd_drop_conv_nth list.sel(1))
    with H lt have s: "?s = Suc ?S" by (auto simp: hist_ok_def)
    from d have tl: "filter (\<lambda>f. ?S < unat (fr_seq f)) rest = drop (Suc ?S) (rw_hist rw)"
      by (metis drop_Suc list.sel(3) tl_drop)
    have "filter (\<lambda>f. Suc ?S < unat (fr_seq f)) rest =
        filter (\<lambda>f. Suc ?S < unat (fr_seq f)) (filter (\<lambda>f. ?S < unat (fr_seq f)) rest)"
      by (simp add: conj_commute cong: filter_cong) (auto intro: filter_cong)
    with tl hist_filter[OF H, of "Suc ?S" "Suc ?S"] s show ?thesis by simp
  qed
  show "sends T R W rw rw' c'" "rw_gen rw' = rw_gen rw"
  proof (atomize(full), cases "rw_last_sent_seq rw < fr_seq r \<and> last_acked_seq (rs_replay (recovery ?c)) < fr_seq r")
    case True
    with w have w': "write_record io r FAILURE_RECOVERY_RESUME_WRITE ?rw ?c = Some (rw', c')"
      by (simp add: write_resume_def)
    from True have lt: "unat (rw_last_sent_seq rw) < ?s" by (simp add: word_less_nat_alt)
    have rest: "filter (\<lambda>f. max R ?s < unat (fr_seq f)) rest = drop (max R ?s) (rw_hist rw)" "?s \<le> Suc ?S"
    proof (atomize(full), cases "?S < ?s")
      case True
      then have "max R ?s = ?s" by (simp add: sent_upto_def)
      with next_s[OF True] show "filter (\<lambda>f. max R ?s < unat (fr_seq f)) rest = drop (max R ?s) (rw_hist rw) \<and> ?s \<le> Suc ?S"
        by simp
    next
      case False
      with lt have "?S = R" "max R ?s = R" by (auto simp: sent_upto_def max_def split: if_splits)
      with a'(1) False show "filter (\<lambda>f. max R ?s < unat (fr_seq f)) rest = drop (max R ?s) (rw_hist rw) \<and> ?s \<le> Suc ?S"
        by simp
    qed
    have "sends T R W ?rw rw' c'" "rw_gen rw' = rw_gen ?rw"
      using write_record_sends[OF b1 w', of ?s] idx lt rest a a'(3) S by (simp_all add: attached_ok_def)
    then show "sends T R W rw rw' c' \<and> rw_gen rw' = rw_gen rw" by (simp add: sends_def)
  next
    case False
    with w have eq: "rw' = ?rw" "c' = ?c" by (simp_all add: write_resume_def Let_def split: if_splits)
    from False rs have "\<not> ?S < ?s"
      by (auto simp: sent_upto_def set_resume_depth_def last_acked_seq_def word_less_nat_alt max_def)
    with a' a have "attached_ok R W ?rw" by (simp add: attached_ok_def S)
    with b1 show "sends T R W rw rw' c' \<and> rw_gen rw' = rw_gen rw"
      unfolding eq by (auto intro!: sends_quiet simp: sender_inv_def)
  qed
qed

text \<open>Staging: with a number above the last one and below the end of the counter, it never fails on the number.\<close>

lemma link_env_resolve: "link_env c (resolve t res c)"
  by (simp add: resolve_def link_env_def split: option.split)

lemma unat_next: "(n :: u64) \<noteq> - 1 \<Longrightarrow> unat (n + 1) = Suc (unat n)"
  by (rule Suc_unat_word) (metis add.commute add_eq_0_iff)

lemma held_update_same: "\<exists>h. rw = rw\<lparr>rw_held := h\<rparr>"
proof (cases rw)
  case (fields w g n r h d l H)
  then show ?thesis by (intro exI[of _ h]) simp
qed

lemma rw_stage_base:
  assumes b: "base_inv T R W rw c" and f: "frame_allowed f" and n: "c_next_send_seq c \<noteq> - 1"
    and s: "rw_stage f rw c = (ro, rw', c')"
  shows "base_inv T R W rw' c' \<and> (case ro of
      None \<Rightarrow> \<exists>h. rw' = rw\<lparr>rw_held := h\<rparr>
    | Some r \<Rightarrow> rw' = rw\<lparr>rw_hist := rw_hist rw @ [r]\<rparr> \<and> unat (fr_seq r) = Suc (length (rw_hist rw)))"
proof (cases "frame_parts f")
  case None
  with s have eq: "ro = None" "rw' = rw" "c' = c" by (simp_all add: rw_stage_def)
  note held_same = held_update_same[of rw]
  from b show ?thesis unfolding eq option.case by (intro conjI held_same)
next
  case (Some p)
  obtain sid fl pl t where p: "p = (sid, fl, pl, t)" by (cases p)
  let ?H = "rw_hist rw"
  from b obtain rs where rs: "c_recovery c = Some rs" "replay.holds ?H (rs_replay rs)"
    "rb_header_len (rs_replay rs) \<le> 18" "unat (rb_last_acked (rs_replay rs)) \<le> R"
    and H: "hist_ok ?H" "length ?H = unat (c_next_send_seq c)" "R \<le> length ?H" by (auto simp: base_defs)
  from f Some p have pl: "sid \<noteq> CONTROL_STREAM_ID" "length pl < 2 ^ 62" by (simp_all add: frame_allowed_def)
  let ?seq = "c_next_send_seq c + 1"
  have seq: "unat ?seq = Suc (length ?H)" using n H(2) by (simp add: unat_next)
  obtain res rep where st: "stage sid ?seq fl pl (rs_replay rs) = (res, rep)" by fastforce
  have fits: "small_payload pl (rs_replay rs)" using rs(3) pl(2) by (intro small_payloadI) simp
  have quiet: "rep = rs_replay rs" if "\<nexists>r. res = Inr (Kept r)" using replay.stage_other[OF st that] .
  have env: "link_env c (set_recovery (rs\<lparr>rs_replay := rs_replay rs\<rparr>) c)" using rs(1) by (simp add: link_env_def)
  show ?thesis
  proof (cases "\<exists>r. res = Inr (Kept r)")
    case True
    then obtain r where r: "res = Inr (Kept r)" by blast
    note k = stage_keptD[OF st[unfolded r]]
    note h = replay.holds_stage[OF rs(2) fits st[unfolded r]]
    have hl: "rb_header_len rep = rb_header_len (rs_replay rs)" using rb_header_len_stage[of sid ?seq fl pl "rs_replay rs"] st by simp
    let ?c = "set_recovery (rs\<lparr>rs_replay := rep\<rparr>) (c\<lparr>c_next_send_seq := ?seq\<rparr>)"
    from s Some p rs(1) st r have eq: "ro = Some r" "rw' = rw\<lparr>rw_hist := ?H @ [r]\<rparr>" "c' = resolve t (Inr ()) ?c"
      by (simp_all add: rw_stage_def Let_def)
    have "store_ok R (rw\<lparr>rw_hist := ?H @ [r]\<rparr>) ?c"
      using H h hl rs k seq pl(1) by (auto simp: store_ok_def hist_ok_snoc)
    moreover have "prefix (fresh R (W g)) (map frame_of (drop R (?H @ [r])))" for g
      using b H(3) by (auto simp: base_defs intro: prefix_order.trans)
    ultimately have "base_inv T R W (rw\<lparr>rw_hist := ?H @ [r]\<rparr>) ?c" using b by (simp add: base_defs)
    from base_inv_env[OF this link_env_resolve] k(5) seq eq show ?thesis by simp
  next
    case False
    have "base_inv T R W (rw\<lparr>rw_held := h\<rparr>) (set_recovery (rs\<lparr>rs_replay := rep\<rparr>) c)" if "pred_option frame_allowed h" for h
      using base_inv_env[OF b env] that unfolding quiet[OF False] by (simp add: base_defs)
    moreover have "pred_option frame_allowed (rw_held rw)" using b by (simp add: base_defs)
    moreover from s Some p rs(1) st False have "ro = None \<and>
      (\<exists>h d. rw' = rw\<lparr>rw_held := h\<rparr> \<and> pred_option frame_allowed h \<and>
        (c' = set_recovery (rs\<lparr>rs_replay := rep\<rparr>) c \<or> c' = resolve t d (set_recovery (rs\<lparr>rs_replay := rep\<rparr>) c)))"
    proof (cases res)
      case (Inl e)
      then have "rw' = rw\<lparr>rw_held := rw_held rw\<rparr>" using s Some p rs(1) st by (simp add: rw_stage_def Let_def)
      with Inl s Some p rs(1) st \<open>pred_option frame_allowed (rw_held rw)\<close> show ?thesis
        by (auto simp: rw_stage_def Let_def intro!: exI[of _ "rw_held rw"])
    next
      case (Inr st')
      with False obtain pl' where "st' = Full pl'" by (cases st') auto
      with Inr st have "pl' = pl" by (cases rule: stage_cases[of sid ?seq fl pl "rs_replay rs"]) auto
      with Inr s Some p rs(1) st pl \<open>st' = Full pl'\<close> show ?thesis
        by (auto simp: rw_stage_def Let_def frame_allowed_def frame_parts_def split: option.splits)
    qed
    ultimately show ?thesis by (auto intro: base_inv_env[OF _ link_env_resolve])
  qed
qed
lemma finish_on_close_sends:
  assumes inv: "sender_inv T R W rw c" and f: "finish_on_close f rw c = (t, rw', c')"
  shows "sends T R W rw rw' c'" "t = Running \<Longrightarrow> rw' = rw \<and> c' = c \<and> f \<noteq> CloseMarker"
proof -
  let ?f = "(CONTROL_STREAM_ID, 0, 0, build_close_control_payload)"
  have control: "\<not> is_data ?f" by (simp add: is_data_def)
  then have stale: "fresh R [?f] = []" by simp
  from inv have b: "base_inv T R W rw c" and a: "rw_writer rw \<noteq> None \<longrightarrow> attached_ok R W rw"
    by (simp_all add: sender_inv_def)
  have w: "link_env c (c1\<lparr>c_written := x\<rparr>)" if "link_env c c1" for c1 x
    using that by (simp add: link_env_def)
  have close: "sends T R W rw (log_write ?f ok (rw\<lparr>rw_writer := Some w1\<rparr>)) c1"
    if "link_env c c1" "rw_writer rw \<noteq> None" for ok w1 c1
  proof -
    let ?e = "\<lparr>we_gen = rw_gen rw, we_frame = ?f, we_ok = ok\<rparr>"
    have "base_inv T R (arrive keep [?e] W) rw c1" for keep
      by (rule base_inv_env[OF base_inv_arrive[OF b disjI1[OF stale]] that(1)]) (use control in simp_all)
    moreover have "attached_ok R (arrive keep [?e] W) rw" for keep
      using a that(2) stale by (auto simp: attached_ok_def arrive_one split: if_splits)
    ultimately show ?thesis
      unfolding sends_def by (intro exI[of _ "[?e]"]) (simp add: log_write_def sender_inv_def)
  qed
  show "sends T R W rw rw' c'"
  proof (cases "f = CloseMarker")
    case False
    with f inv show ?thesis by (simp add: finish_on_close_def sends_quiet)
  next
    case True
    show ?thesis
    proof (cases "rw_writer rw")
      case None
      with f True inv w[OF link_env_refl] show ?thesis
        by (auto simp: finish_on_close_def intro!: sends_quiet intro: sender_inv_env)
    next
      case (Some w0)
      obtain res w1 c1 where x: "conn_write_frame w0 CONTROL_STREAM_ID 0 0 build_close_control_payload c = (res, w1, c1)"
        by (metis prod_cases3)
      note e = w[OF link_same_env[OF conn_write_frame_same[OF x]]]
      obtain res2 w2 where y: "shutdown w1 = (res2, w2)" by fastforce
      show ?thesis
        using f True Some x y close[OF e] by (cases res) (auto simp: finish_on_close_def)
    qed
  qed
  show "t = Running \<Longrightarrow> rw' = rw \<and> c' = c \<and> f \<noteq> CloseMarker"
    using f by (auto simp: finish_on_close_def split: if_splits option.splits prod.splits sum.splits)
qed

text \<open>A live frame on an attached transport with nothing left to replay.\<close>

lemma write_live_sends:
  assumes inv: "sender_inv T R W rw c" "rw_writer rw \<noteq> None" "rw_resume rw = []"
    and f: "frame_allowed f" "c_next_send_seq c \<noteq> - 1"
    and w: "write_live io f rw c = Some (t, rw', c')"
  shows "sends T R W rw rw' c'"
    "rw_held rw = None \<Longrightarrow> rw_held rw' \<noteq> None \<Longrightarrow> t = Running \<Longrightarrow> rw_writer rw' \<noteq> None \<and> rw_resume rw' = []"
proof -
  obtain t0 rw1 c1 where x: "finish_on_close f rw c = (t0, rw1, c1)" by (metis prod_cases3)
  note fin = finish_on_close_sends[OF inv(1) x]
  have "sends T R W rw rw' c' \<and>
    (rw_held rw = None \<longrightarrow> rw_held rw' \<noteq> None \<longrightarrow> t = Running \<longrightarrow> rw_writer rw' \<noteq> None \<and> rw_resume rw' = [])"
  proof (cases t0)
    case Done
    with w x fin(1) show ?thesis by (auto simp: write_live_def)
  next
    case Running
    with fin(2) have eq: "rw1 = rw" "c1 = c" by auto
    obtain ro rw2 c2 where st: "rw_stage f rw c = (ro, rw2, c2)" by (metis prod_cases3)
    from inv(1,2) have b: "base_inv T R W rw c" and a: "attached_ok R W rw" by (simp_all add: sender_inv_def)
    note stg = rw_stage_base[OF b f st]
    show ?thesis
    proof (cases ro)
      case None
      with stg obtain h where h: "base_inv T R W rw2 c2" "rw2 = rw\<lparr>rw_held := h\<rparr>" by auto
      from w x Running eq st None have "rw' = rw2" "c' = c2" by (auto simp: write_live_def)
      with h a inv show ?thesis by (auto intro!: sends_quiet simp: sender_inv_def)
    next
      case (Some r)
      let ?H = "rw_hist rw"
      from stg[unfolded Some option.case]
      have s: "base_inv T R W rw2 c2" "rw2 = rw\<lparr>rw_hist := ?H @ [r]\<rparr>" "unat (fr_seq r) = Suc (length ?H)"
        by blast+
      from a inv(3) have n: "length ?H \<le> sent_upto R rw" "unat (rw_last_sent_seq rw) \<le> length ?H"
        by (simp_all add: attached_ok_def)
      with b have S: "sent_upto R rw = length ?H" by (auto simp: sent_upto_def base_defs)
      from n s have "rw_last_sent_seq rw2 < fr_seq r" by (simp add: word_less_nat_alt)
      with w x Running eq st Some obtain rw3 c3 where wr:
        "write_record io r FAILURE_RECOVERY_LIVE_WRITE rw2 c2 = Some (rw3, c3)" "rw' = rw3" "c' = c3"
        by (auto simp: write_live_def split: Option.bind_splits)
      have s2: "sent_upto R rw2 = length ?H" using S s(2) by (simp add: sent_upto_def)
      have wire: "fresh R (W (rw_gen rw2)) = map frame_of (drop R (take (sent_upto R rw2) (rw_hist rw2)))"
        using a S s(2) s2 by (simp add: attached_ok_def)
      have fields: "rw_hist rw2 = ?H @ [r]" "rw_resume rw2 = []" "rw_last_sent_seq rw2 = rw_last_sent_seq rw"
        unfolding s(2) using inv(3) by simp_all
      have R: "R \<le> length ?H" using b by (simp add: base_defs)
      have wrs: "sends T R W rw2 rw3 c3" "rw_held rw3 = rw_held rw2"
      proof -
        have 1: "r = rw_hist rw2 ! (Suc (length ?H) - 1)" "Suc (length ?H) \<le> length (rw_hist rw2)"
          unfolding fields by simp_all
        have 2: "unat (rw_last_sent_seq rw2) < Suc (length ?H)" "Suc (length ?H) \<le> Suc (sent_upto R rw2)"
          "unat (rw_last_sent_seq rw2) \<le> length (rw_hist rw2)"
          unfolding fields s2 using n by simp_all
        have 3: "filter (\<lambda>f. max R (Suc (length ?H)) < unat (fr_seq f)) (rw_resume rw2) =
            drop (max R (Suc (length ?H))) (rw_hist rw2)" "set (rw_resume rw2) \<subseteq> set (rw_hist rw2)"
          unfolding fields by simp_all
        note w = write_record_sends[OF s(1) wr(1) 1(1) s(3)[symmetric] zero_less_Suc 1(2) 2(1) 2(2) 2(3) wire 3]
        show "sends T R W rw2 rw3 c3" "rw_held rw3 = rw_held rw2" by (rule w(1), rule w(4))
      qed
      have "rw_log rw2 = rw_log rw" "rw_held rw2 = rw_held rw" by (simp_all add: s(2))
      from sends_trans[OF this(1) wrs(1)] wrs(2)[unfolded this(2)] show ?thesis unfolding wr(2,3) by simp
    qed
  qed
  then show "sends T R W rw rw' c'"
    "rw_held rw = None \<Longrightarrow> rw_held rw' \<noteq> None \<Longrightarrow> t = Running \<Longrightarrow> rw_writer rw' \<noteq> None \<and> rw_resume rw' = []"
    by blast+
qed

section \<open>Commands\<close>

lemma rw_apply_inv:
  assumes inv: "sender_inv T R W rw (c\<lparr>c_cmds := cmd # cs\<rparr>)" and x: "rw_apply cmd rw c = (rw', c')"
  shows "sender_inv T R W rw' (c'\<lparr>c_cmds := cs\<rparr>) \<and> c_cmds c' = c_cmds c \<and> rw_log rw' = rw_log rw \<and>
    c_next_send_seq c' = c_next_send_seq c \<and> rw_held rw' = rw_held rw"
proof (cases cmd)
  case (Detach g)
  with x have "c' = c" "rw' = rw \<or> rw' = rw\<lparr>rw_writer := None\<rparr>" by (auto simp: rw_apply_def split: if_splits)
  with inv Detach show ?thesis by (auto simp: sender_inv_def base_defs)
next
  case (Attach g w s)
  let ?H = "rw_hist rw" and ?ls = "min s (c_next_send_seq c)"
  from inv obtain rs where rs: "c_recovery c = Some rs" "replay.holds ?H (rs_replay rs)"
    "rb_header_len (rs_replay rs) \<le> 18" "unat (rb_last_acked (rs_replay rs)) \<le> R"
    by (auto simp: sender_inv_def base_defs)
  from inv Attach have H: "hist_ok ?H" "length ?H = unat (c_next_send_seq c)" "R \<le> length ?H"
    and g: "rw_gen rw < g" "unat s \<le> R" "cmds_ok T R g cs" and W: "W g = []" "\<forall>g' > g. W g' = []"
    by (auto simp: sender_inv_def base_defs)
  let ?rep = "snd (ack ?ls (rs_replay rs))"
  have ls: "unat ?ls \<le> R" "unat ?ls \<le> length ?H"
    using g(2) H(2) by (simp_all add: min_def word_le_nat_alt)
  from rs(2) have ok: "buffer_ok (rs_replay rs)" by (simp add: replay.holds_def)
  from ok have acked: "rb_last_acked ?rep = max (rb_last_acked (rs_replay rs)) ?ls"
    "rb_header_len ?rep = rb_header_len (rs_replay rs)" by (simp_all add: buffer_ok_def ack_queue)
  have R': "unat (rb_last_acked ?rep) \<le> R" using acked(1) rs(4) ls(1) by (simp add: max_def)
  have holds: "replay.holds ?H ?rep" by (rule replay.holds_ack[OF rs(2)])
  then have "snapshot_from ?ls ?rep = filter (\<lambda>f. ?ls < fr_seq f) (filter (\<lambda>f. rb_last_acked ?rep < fr_seq f) ?H)"
    by (simp add: replay.holds_def replay.snap_frames)
  then have snap: "filter (\<lambda>f. R < unat (fr_seq f)) (snapshot_from ?ls ?rep) = drop R ?H"
    "set (snapshot_from ?ls ?rep) \<subseteq> set ?H"
  proof -
    assume snap: "snapshot_from ?ls ?rep = filter (\<lambda>f. ?ls < fr_seq f) (filter (\<lambda>f. rb_last_acked ?rep < fr_seq f) ?H)"
    have "filter (\<lambda>f. R < unat (fr_seq f)) (snapshot_from ?ls ?rep) = filter (\<lambda>f. R < unat (fr_seq f)) ?H"
      unfolding snap filter_filter
      by (rule filter_cong[OF refl]) (use R' ls(1) in \<open>auto simp: word_less_nat_alt\<close>)
    with hist_filter[OF H(1), of R 0] show "filter (\<lambda>f. R < unat (fr_seq f)) (snapshot_from ?ls ?rep) = drop R ?H"
      by simp
    show "set (snapshot_from ?ls ?rep) \<subseteq> set ?H" unfolding snap by auto
  qed
  have up: "max R (unat ?ls) = R" using ls(1) by simp
  from x Attach rs(1) have eq: "rw' = rw\<lparr>rw_gen := g, rw_last_sent_seq := ?ls, rw_resume := snapshot_from ?ls ?rep,
      rw_writer := Some w, rw_dirty := False\<rparr>"
    "c' = set_recovery (rs\<lparr>rs_replay := ?rep, rs_resume_depth := length (snapshot_from ?ls ?rep)\<rparr>) c"
    by (simp_all add: rw_apply_def Let_def prepare_resume_def)
  have "attached_ok R W rw'"
    using ls W(1) snap up by (simp add: eq(1) attached_ok_def sent_upto_def)
  moreover have "base_inv T R W rw' (c'\<lparr>c_cmds := cs\<rparr>)"
    using inv rs H g W holds acked R' by (simp add: eq sender_inv_def base_defs)
  ultimately show ?thesis by (simp add: sender_inv_def eq)
qed

lemma rw_apply_all_inv:
  "sender_inv T R W rw (c\<lparr>c_cmds := cs\<rparr>) \<Longrightarrow> rw_apply_all cs rw c = (rw', c') \<Longrightarrow>
    sender_inv T R W rw' (c'\<lparr>c_cmds := []\<rparr>) \<and> c_cmds c' = c_cmds c \<and> rw_log rw' = rw_log rw \<and>
    c_next_send_seq c' = c_next_send_seq c \<and> rw_held rw' = rw_held rw"
proof (induction cs arbitrary: rw c)
  case Nil
  then show ?case by simp
next
  case (Cons cmd cs)
  obtain rw1 c1 where x: "rw_apply cmd rw c = (rw1, c1)" by fastforce
  note step = rw_apply_inv[OF Cons(2) x]
  from Cons(3) x have "rw_apply_all cs rw1 c1 = (rw', c')" by simp
  with Cons(1)[of rw1 c1] step show ?case by simp
qed
section \<open>The task\<close>

text \<open>The invariant of the task: before the flush and in the wait a transport is attached, with nothing to replay.\<close>

definition phase_ok :: "writer_phase \<Rightarrow> recovery_writer \<Rightarrow> bool" where
  "phase_ok ph rw \<longleftrightarrow> (case ph of
     Flushing \<Rightarrow> rw_writer rw \<noteq> None \<and> rw_resume rw = []
   | Waiting _ _ \<Rightarrow> rw_writer rw \<noteq> None \<and> rw_resume rw = []
   | WriterPanic \<Rightarrow> False
   | _ \<Rightarrow> True)"

definition task_sends :: "u64 \<Rightarrow> nat \<Rightarrow> wires \<Rightarrow> recovery_writer \<Rightarrow>
    writer_phase \<times> recovery_writer \<times> ('r, 'j) connection \<Rightarrow> bool" where
  "task_sends T R W rw x = (case x of (ph, rw', c') \<Rightarrow> sends T R W rw rw' c' \<and> phase_ok ph rw')"

lemma rw_write_Some: "rw_writer rw \<noteq> None \<Longrightarrow> \<exists>ok rw' c'. rw_write io sid seq fl pl failure rw c = Some (ok, rw', c')"
proof -
  assume "rw_writer rw \<noteq> None"
  then have "\<exists>x. rw_write io sid seq fl pl failure rw c = Some x"
    unfolding rw_write_def by (simp only: option.case not_None_eq) (elim exE, simp only: option.case, blast)
  then show ?thesis by (metis prod_cases3)
qed

lemma write_record_Some:
  assumes "rw_writer rw \<noteq> None"
  shows "\<exists>rw' c'. write_record io r failure rw c = Some (rw', c')"
  using rw_write_Some[OF assms, of io "fr_stream_id r" "fr_seq r" "fr_flags r" "fr_payload r" failure c]
  by (auto simp: write_record_def)

lemma write_live_Some:
  assumes "rw_writer rw \<noteq> None"
  obtains t rw' c' where "write_live io f rw c = Some (t, rw', c')"
proof -
  obtain t0 rw1 c1 where x: "finish_on_close f rw c = (t0, rw1, c1)" by (metis prod_cases3)
  show thesis
  proof (cases t0)
    case Done
    with x that show thesis by (simp add: write_live_def)
  next
    case Running
    with x have "rw1 = rw" by (auto simp: finish_on_close_def split: if_splits option.splits prod.splits sum.splits)
    obtain ro rw2 c2 where st: "rw_stage f rw1 c1 = (ro, rw2, c2)" by (metis prod_cases3)
    have "rw_writer rw2 = rw_writer rw1"
      using st by (auto simp: rw_stage_def Let_def split: option.splits sum.splits staged.splits prod.splits)
    with assms \<open>rw1 = rw\<close> have "rw_writer rw2 \<noteq> None" by simp
    note wr = write_record_Some[OF this, of io "the ro" FAILURE_RECOVERY_LIVE_WRITE c2]
    have "\<exists>t rw' c'. write_live io f rw c = Some (t, rw', c')"
      using wr x Running st by (cases ro) (auto simp: write_live_def)
    with that show thesis by blast
  qed
qed

lemma take_pending_ack_replay: "take_pending_ack now rs = (r, rs') \<Longrightarrow> rs_replay rs' = rs_replay rs"
  by (auto simp: take_pending_ack_def split: if_splits)

lemma sender_inv_recovery:
  "sender_inv T R W rw c \<Longrightarrow> \<exists>rs. c_recovery c = Some rs"
  by (auto simp: sender_inv_def base_defs)

lemma pop_outbound: "sender_inv T R W rw c \<Longrightarrow> c_outbound c = f # fs \<Longrightarrow>
    sender_inv T R W rw (c\<lparr>c_outbound := fs\<rparr>) \<and> frame_allowed f"
  by (auto simp: sender_inv_def base_defs)

lemma pop_held: "sender_inv T R W rw c \<Longrightarrow> rw_held rw = Some f \<Longrightarrow>
    sender_inv T R W (rw\<lparr>rw_held := None\<rparr>) c \<and> frame_allowed f"
  by (auto simp: sender_inv_def base_defs)

lemma write_queued_sends:
  assumes inv: "sender_inv T R W rw c" "rw_writer rw \<noteq> None" "rw_resume rw = []" "c_next_send_seq c \<noteq> - 1"
  shows "\<exists>t again rw' c'. write_queued io rw c = Some (t, again, rw', c') \<and> sends T R W rw rw' c' \<and>
    (t = Running \<longrightarrow> \<not> again \<longrightarrow> rw_writer rw' \<noteq> None \<and> rw_resume rw' = [])"
proof (cases "rw_held rw")
  case (Some f)
  let ?rw = "rw\<lparr>rw_held := None\<rparr>"
  note p = pop_held[OF inv(1) Some]
  obtain t rw' c' where w: "write_live io f ?rw c = Some (t, rw', c')"
    by (rule write_live_Some[of ?rw]) (use inv(2) in simp_all)
  from write_live_sends[OF conjunct1[OF p] _ _ conjunct2[OF p] inv(4) w] inv(2,3)
  have "sends T R W ?rw rw' c'" "t = Running \<Longrightarrow> rw_held rw' \<noteq> None \<Longrightarrow> rw_writer rw' \<noteq> None \<and> rw_resume rw' = []"
    by simp_all
  with Some w show ?thesis by (simp add: write_queued_def sends_def)
next
  case None
  show ?thesis
  proof (cases "c_outbound c")
    case Nil
    with None inv show ?thesis by (auto simp: write_queued_def sends_quiet intro!: exI[of "\<lambda>b. \<not> b" False])
  next
    case (Cons f fs)
    let ?c = "c\<lparr>c_outbound := fs\<rparr>"
    note p = pop_outbound[OF inv(1) Cons]
    obtain t rw' c' where w: "write_live io f rw ?c = Some (t, rw', c')"
      by (rule write_live_Some[of rw]) (use inv(2) in simp_all)
    from write_live_sends[OF conjunct1[OF p] inv(2,3) conjunct2[OF p] _ w] inv(4) None
    have "sends T R W rw rw' c'" "t = Running \<Longrightarrow> rw_held rw' \<noteq> None \<Longrightarrow> rw_writer rw' \<noteq> None \<and> rw_resume rw' = []"
      by simp_all
    with None Cons w show ?thesis by (simp add: write_queued_def)
  qed
qed

lemma control_not_data: "\<not> is_data (CONTROL_STREAM_ID, s, fl, pl)"
  by (simp add: is_data_def)

lemma write_next_sends:
  assumes inv: "sender_inv T R W rw c" "rw_writer rw \<noteq> None" "c_next_send_seq c \<noteq> - 1"
  shows "\<exists>t again rw' c'. write_next io rw c = Some (t, again, rw', c') \<and> sends T R W rw rw' c' \<and>
    (t = Running \<longrightarrow> \<not> again \<longrightarrow> rw_writer rw' \<noteq> None \<and> rw_resume rw' = [])"
proof -
  from sender_inv_recovery[OF inv(1)] obtain rs0 where rs0: "c_recovery c = Some rs0" ..
  obtain ack rs where a: "take_pending_ack (c_now c) rs0 = (ack, rs)" by fastforce
  let ?c = "set_recovery rs c"
  have inv1: "sender_inv T R W rw ?c"
    by (rule sender_inv_env[OF inv(1) link_env_set_recovery[OF rs0 take_pending_ack_replay[OF a]]])
  show ?thesis
  proof (cases ack)
    case (Some n)
    from rw_write_Some[OF inv(2)] obtain ok rw1 c1 where w: "rw_write io CONTROL_STREAM_ID 0 0 (build_ack_control_payload n) FAILURE_RECOVERY_ACK_WRITE rw ?c = Some (ok, rw1, c1)"
      by blast
    from rw_write_control(1)[OF inv1 w control_not_data] have "sends T R W rw rw1 c1" .
    with Some a rs0 w show ?thesis by (intro exI[of _ Running] exI[of _ True] exI) (simp add: write_next_def)
  next
    case None
    show ?thesis
    proof (cases "rw_resume rw")
      case Nil
      with write_queued_sends[OF inv1 inv(2) Nil] inv(3) None a rs0 show ?thesis by (simp add: write_next_def)
    next
      case (Cons r rest)
      have "\<exists>rw1 c1. write_resume io r rest rw ?c = Some (rw1, c1)"
        using inv(2) write_record_Some[of "rw\<lparr>rw_resume := rest\<rparr>" io r FAILURE_RECOVERY_RESUME_WRITE
          "set_resume_depth (length rest) ?c"]
        by (simp add: write_resume_def Let_def)
      then obtain rw1 c1 where w: "write_resume io r rest rw ?c = Some (rw1, c1)" by blast
      from write_resume_sends(1)[OF inv1 inv(2) Cons w] Cons None a rs0 w show ?thesis
        by (intro exI[of _ Running] exI[of _ True] exI) (simp add: write_next_def)
    qed
  qed
qed

lemma rw_turn_sends:
  assumes inv: "sender_inv T R W rw c" "c_next_send_seq c \<noteq> - 1"
  shows "task_sends T R W rw (rw_turn io rw c)"
proof (cases "c_closed c \<or> rw_writer rw = None")
  case True
  with inv show ?thesis by (auto simp: rw_turn_def task_sends_def phase_ok_def intro: sends_quiet)
next
  case False
  obtain rw1 c1 where x: "rw_apply_all (c_cmds c) rw (c\<lparr>c_cmds := []\<rparr>) = (rw1, c1)" by fastforce
  from rw_apply_all_inv[OF _ x, of T R W] inv
  have a: "sender_inv T R W rw1 (c1\<lparr>c_cmds := []\<rparr>)" "c_cmds c1 = []" "rw_log rw1 = rw_log rw"
    "c_next_send_seq c1 \<noteq> - 1" by simp_all
  have "c1\<lparr>c_cmds := []\<rparr> = c1" using a(2) by (cases c1) simp
  with a(1) have inv1: "sender_inv T R W rw1 c1" by simp
  show ?thesis
  proof (cases "rw_writer rw1 = None")
    case True
    with False x inv1 a(3) show ?thesis by (auto simp: rw_turn_def task_sends_def phase_ok_def sends_quiet)
  next
    case w: False
    from write_next_sends[OF inv1 w a(4), of io] obtain t again rw' c' where n:
      "write_next io rw1 c1 = Some (t, again, rw', c')" "sends T R W rw1 rw' c'"
      "t = Running \<longrightarrow> \<not> again \<longrightarrow> rw_writer rw' \<noteq> None \<and> rw_resume rw' = []" by blast
    from sends_trans[OF a(3) n(2)] n(1,3) False x w show ?thesis
      by (cases t) (auto simp: rw_turn_def task_sends_def phase_ok_def)
  qed
qed

lemma rw_flush_turn_sends:
  assumes inv: "sender_inv T R W rw c" "phase_ok Flushing rw"
  shows "task_sends T R W rw (rw_flush_turn io rw c)"
proof -
  from inv(2) obtain w where w: "rw_writer rw = Some w" "rw_resume rw = []" by (auto simp: phase_ok_def)
  from inv(1) have b: "base_inv T R W (rw\<lparr>rw_dirty := False\<rparr>) c" and s: "sender_inv T R W (rw\<lparr>rw_dirty := False\<rparr>) c"
    by (simp_all add: sender_inv_def)
  show ?thesis
  proof (cases "rw_dirty rw \<and> \<not> is_ok (flush w)")
    case True
    then obtain e where e: "flush w = Inl e" by (cases "flush w") auto
    obtain rw1 c1 where d: "writer_detach (rw\<lparr>rw_dirty := False\<rparr>)
        (note_conn_failure FAILURE_RECOVERY_LIVE_WRITE (error_display io e) c) = (rw1, c1)" by fastforce
    from writer_detach_inv[OF base_inv_env[OF b link_same_env[OF link_same_basic(1)]] d]
    have "sends T R W rw rw1 c1" by (auto intro: sends_quiet)
    with True e d w show ?thesis by (simp add: rw_flush_turn_def rw_flush_def task_sends_def phase_ok_def)
  next
    case False
    then have "rw_flush io rw c = Some (True, if rw_dirty rw then rw\<lparr>rw_dirty := False\<rparr> else rw, c)"
      using w(1) by (cases "flush w") (auto simp: rw_flush_def)
    with s inv(1) w show ?thesis
      by (auto simp: rw_flush_turn_def task_sends_def phase_ok_def split: prod.split intro: sends_quiet)
  qed
qed

lemma rw_command_sends:
  assumes inv: "sender_inv T R W rw c" and "c_cmds c \<noteq> []"
  shows "task_sends T R W rw (rw_command rw c)"
proof -
  from assms(2) obtain cmd rest where cs: "c_cmds c = cmd # rest" by (cases "c_cmds c") auto
  obtain rw1 c1 where x: "rw_apply cmd rw (c\<lparr>c_cmds := rest\<rparr>) = (rw1, c1)" by fastforce
  have "(c\<lparr>c_cmds := rest\<rparr>)\<lparr>c_cmds := cmd # rest\<rparr> = c" using cs by (cases c) simp
  with inv rw_apply_inv[OF _ x, of T R W rest] have a: "sender_inv T R W rw1 (c1\<lparr>c_cmds := rest\<rparr>)" "c_cmds c1 = rest"
    "rw_log rw1 = rw_log rw" by simp_all
  have "c1\<lparr>c_cmds := rest\<rparr> = c1" using a(2) by (cases c1) simp
  with a x cs show ?thesis by (simp add: rw_command_def task_sends_def phase_ok_def sends_quiet)
qed

lemma rw_frame_sends:
  assumes inv: "sender_inv T R W rw c" "phase_ok (Waiting due tick) rw" "c_next_send_seq c \<noteq> - 1" and "c_outbound c \<noteq> []"
  shows "task_sends T R W rw (rw_frame io rw c)"
proof -
  from inv(2) have w: "rw_writer rw \<noteq> None" "rw_resume rw = []" by (simp_all add: phase_ok_def)
  from assms(4) obtain f fs where fs: "c_outbound c = f # fs" by (cases "c_outbound c") auto
  note p = pop_outbound[OF inv(1) fs]
  obtain t rw' c' where x: "write_live io f rw (c\<lparr>c_outbound := fs\<rparr>) = Some (t, rw', c')"
    by (rule write_live_Some[of rw]) (use w in simp_all)
  from write_live_sends(1)[OF conjunct1[OF p] w conjunct2[OF p] _ x] inv(3) have "sends T R W rw rw' c'" by simp
  with fs x show ?thesis by (cases t) (simp_all add: rw_frame_def task_sends_def phase_ok_def)
qed

lemma rw_timer_sends:
  assumes inv: "sender_inv T R W rw c" "phase_ok (Waiting due tick') rw"
  shows "task_sends T R W rw (rw_timer io tick rw c)"
proof (cases tick)
  case True
  from inv(2) have "rw_writer rw \<noteq> None" by (simp add: phase_ok_def)
  from rw_write_Some[OF this] obtain ok rw1 c1 where w:
    "rw_write io CONTROL_STREAM_ID 0 0 build_ping_control_payload FAILURE_RECOVERY_PING_WRITE rw c = Some (ok, rw1, c1)"
    by blast
  from rw_write_control(1)[OF inv(1) w control_not_data] True w show ?thesis
    by (simp add: rw_timer_def task_sends_def phase_ok_def)
qed (use inv in \<open>simp add: rw_timer_def task_sends_def phase_ok_def sends_quiet\<close>)

lemma rw_detached_frame_sends:
  assumes inv: "sender_inv T R W rw c" "rw_writer rw = None" "c_next_send_seq c \<noteq> - 1" and "c_outbound c \<noteq> []"
  shows "task_sends T R W rw (rw_detached_frame rw c)"
proof -
  from assms(4) obtain f fs where fs: "c_outbound c = f # fs" by (cases "c_outbound c") auto
  let ?c = "c\<lparr>c_outbound := fs\<rparr>"
  note p = pop_outbound[OF inv(1) fs]
  obtain t rw1 c1 where x: "finish_on_close f rw ?c = (t, rw1, c1)" by (metis prod_cases3)
  note fin = finish_on_close_sends[OF conjunct1[OF p] x]
  show ?thesis
  proof (cases t)
    case Done
    with fs x fin(1) show ?thesis by (simp add: rw_detached_frame_def task_sends_def phase_ok_def)
  next
    case Running
    with fin(2) have eq: "rw1 = rw" "c1 = ?c" by simp_all
    obtain ro rw2 c2 where st: "rw_stage f rw ?c = (ro, rw2, c2)" by (metis prod_cases3)
    from p have b: "base_inv T R W rw ?c" by (simp add: sender_inv_def)
    from rw_stage_base[OF b conjunct2[OF p] _ st] inv(3) have s: "base_inv T R W rw2 c2"
      "rw_writer rw2 = rw_writer rw \<and> rw_log rw2 = rw_log rw"
      by (auto split: option.splits)
    with inv(2) have "sends T R W rw rw2 c2" by (intro sends_quiet sender_inv_detached) simp_all
    with fs x Running eq st show ?thesis by (simp add: rw_detached_frame_def task_sends_def phase_ok_def)
  qed
qed

text \<open>In \<open>wait_detached\<close> no transport is attached.\<close>

definition task_inv :: "u64 \<Rightarrow> nat \<Rightarrow> wires \<Rightarrow> writer_phase \<times> recovery_writer \<times> ('r, 'j) connection \<Rightarrow> bool" where
  "task_inv T R W x = (case x of (ph, rw, c) \<Rightarrow> sender_inv T R W rw c \<and> phase_ok ph rw \<and>
     (ph = WaitDetached \<longrightarrow> rw_writer rw = None))"

lemma rw_turn_detached: "rw_turn io rw c = (WaitDetached, rw', c') \<Longrightarrow> rw_writer rw' = None"
  by (auto simp: rw_turn_def split: if_splits prod.splits option.splits task.splits)

lemma other_turns_not_detached:
  "fst (rw_flush_turn io rw c) \<noteq> WaitDetached" "fst (rw_command rw c) \<noteq> WaitDetached"
  "fst (rw_frame io rw c) \<noteq> WaitDetached" "fst (rw_timer io tick rw c) \<noteq> WaitDetached"
  "fst (rw_detached_frame rw c) \<noteq> WaitDetached"
  by (auto simp: rw_flush_turn_def rw_command_def rw_frame_def rw_timer_def rw_detached_frame_def
      split: option.splits prod.splits bool.splits list.splits task.splits)

lemma task_invI:
  "task_sends T R W rw (ph', rw', c') \<Longrightarrow> (ph' = WaitDetached \<Longrightarrow> rw_writer rw' = None) \<Longrightarrow>
    \<exists>es. rw_log rw' = rw_log rw @ es \<and> (\<forall>keep. task_inv T R (arrive keep es W) (ph', rw', c'))"
  by (auto simp: task_sends_def sends_def task_inv_def)

lemma writer_step_inv:
  assumes step: "writer_step io (ph, rw, c) (ph', rw', c')" and inv: "task_inv T R W (ph, rw, c)"
    and n: "c_next_send_seq c \<noteq> - 1"
  shows "\<exists>es. rw_log rw' = rw_log rw @ es \<and> (\<forall>keep. task_inv T R (arrive keep es W) (ph', rw', c'))"
proof -
  from inv have s: "sender_inv T R W rw c" and p: "phase_ok ph rw"
    and d: "ph = WaitDetached \<longrightarrow> rw_writer rw = None" by (simp_all add: task_inv_def)
  have quiet: "task_sends T R W rw (ph', rw, c')" if "link_env c c'" "ph' \<in> {Turn, WriterEnded}" for c' ph'
    using sends_quiet[OF refl sender_inv_env[OF s that(1)]] that(2) by (auto simp: task_sends_def phase_ok_def)
  have permit: "link_env c (c\<lparr>c_send_permit := b\<rparr>)" for b by (simp add: link_env_def)
  from step have "task_sends T R W rw (ph', rw', c') \<and> (ph' = WaitDetached \<longrightarrow> rw_writer rw' = None)"
  proof cases
    case turn
    from rw_turn_sends[OF s n, of io] turn rw_turn_detached[of io rw c rw' c'] show ?thesis by auto
  next
    case flush
    with p rw_flush_turn_sends[OF s, of io] other_turns_not_detached(1)[of io rw c] show ?thesis by (metis fst_conv)
  next
    case (closed due tick)
    with quiet[of c WriterEnded] show ?thesis by simp
  next
    case (command due tick)
    with rw_command_sends[OF s] other_turns_not_detached(2)[of rw c] show ?thesis by (metis fst_conv)
  next
    case (signal due tick)
    with quiet[OF permit, of Turn] show ?thesis by simp
  next
    case (frame due tick)
    with p rw_frame_sends[OF s _ n, of due tick io] other_turns_not_detached(3)[of io rw c] show ?thesis by (metis fst_conv)
  next
    case (timer due tick)
    with p rw_timer_sends[OF s, of "Some due" tick io tick] other_turns_not_detached(4)[of io tick rw c] show ?thesis
      by (metis fst_conv)
  next
    case detached_frame
    with d rw_detached_frame_sends[OF s _ n] other_turns_not_detached(5)[of rw c] show ?thesis by (metis fst_conv)
  next
    case detached_signal
    with quiet[OF permit, of "if c_closing c then WriterEnded else Turn"] show ?thesis by auto
  qed
  then show ?thesis using task_invI by blast
qed

end
