(* ===== verification/LinkReceiver.thy ===== *)
theory LinkReceiver
  imports LinkSender
begin

text \<open>
  The receiving side of a link: what a turn of the reader task does with the last sequence number
  received and with the frame it read; and that the history of the writer task only grows.
\<close>

section \<open>The history of the writer grows\<close>

definition hist_grows :: "recovery_writer \<Rightarrow> recovery_writer \<Rightarrow> bool" where
  "hist_grows rw rw' \<longleftrightarrow> prefix (rw_hist rw) (rw_hist rw')"

lemma hist_growsI [intro]: "rw_hist rw' = rw_hist rw @ rs \<Longrightarrow> hist_grows rw rw'"
  by (simp add: hist_grows_def)

lemma hist_grows_eq [intro]: "rw_hist rw' = rw_hist rw \<Longrightarrow> hist_grows rw rw'"
  by (simp add: hist_grows_def)

lemma hist_grows_trans [trans]: "hist_grows a b \<Longrightarrow> hist_grows b c \<Longrightarrow> hist_grows a c"
  using prefix_order.trans by (auto simp: hist_grows_def)

lemma rw_write_hist: "rw_write io sid seq fl pl failure rw c = Some (ok, rw', c') \<Longrightarrow> rw_hist rw' = rw_hist rw"
  by (erule rw_write_cases) (simp_all add: log_write_def)

lemma write_record_hist: "write_record io r failure rw c = Some (rw', c') \<Longrightarrow> rw_hist rw' = rw_hist rw"
  by (auto simp: write_record_def dest: rw_write_hist split: Option.bind_splits if_splits)

lemma rw_stage_hist: "rw_stage f rw c = (ro, rw', c') \<Longrightarrow> hist_grows rw rw'"
  by (auto simp: rw_stage_def Let_def split: option.splits prod.splits sum.splits staged.splits)

lemma finish_on_close_hist: "finish_on_close f rw c = (t, rw', c') \<Longrightarrow> rw_hist rw' = rw_hist rw"
  by (auto simp: finish_on_close_def log_write_def split: if_splits option.splits prod.splits sum.splits)

lemma write_live_hist: "write_live io f rw c = Some (t, rw', c') \<Longrightarrow> hist_grows rw rw'"
  by (auto simp: write_live_def split: prod.splits task.splits option.splits if_splits Option.bind_splits
      dest!: finish_on_close_hist rw_stage_hist write_record_hist simp: hist_grows_def)

lemma rw_apply_hist: "rw_apply cmd rw c = (rw', c') \<Longrightarrow> rw_hist rw' = rw_hist rw"
  by (auto simp: rw_apply_def Let_def split: writer_cmd.splits prod.splits if_splits)

lemma rw_apply_all_hist: "rw_apply_all cmds rw c = (rw', c') \<Longrightarrow> rw_hist rw' = rw_hist rw"
  by (induction cmds rw c rule: rw_apply_all.induct) (auto split: prod.splits dest!: rw_apply_hist)

lemma write_queued_hist: "write_queued io rw c = Some (t, again, rw', c') \<Longrightarrow> hist_grows rw rw'"
  by (auto simp: write_queued_def split: option.splits list.splits Option.bind_splits dest!: write_live_hist
      simp: hist_grows_def)

lemma write_next_hist: "write_next io rw c = Some (t, again, rw', c') \<Longrightarrow> hist_grows rw rw'"
  by (auto simp: write_next_def write_resume_def Let_def hist_grows_eq write_queued_hist
      split: option.splits prod.splits list.splits Option.bind_splits if_splits
      dest!: rw_write_hist write_record_hist)

lemma rw_turn_hist: "rw_turn io rw c = (ph, rw', c') \<Longrightarrow> hist_grows rw rw'"
  by (auto simp: rw_turn_def hist_grows_eq split: if_splits prod.splits option.splits task.splits
      dest!: write_next_hist rw_apply_all_hist) (auto simp: hist_grows_def)

lemma rw_flush_hist: "rw_flush io rw c = Some (ok, rw', c') \<Longrightarrow> rw_hist rw' = rw_hist rw"
  by (auto simp: rw_flush_def writer_detach_def split: if_splits option.splits sum.splits)

lemma rw_other_turns_hist:
  "rw_flush_turn io rw c = (ph, rw', c') \<Longrightarrow> hist_grows rw rw'"
  "rw_command rw c = (ph, rw', c') \<Longrightarrow> hist_grows rw rw'"
  "rw_frame io rw c = (ph, rw', c') \<Longrightarrow> hist_grows rw rw'"
  "rw_timer io tick rw c = (ph, rw', c') \<Longrightarrow> hist_grows rw rw'"
  by (auto simp: rw_flush_turn_def rw_command_def rw_frame_def rw_timer_def hist_grows_eq
      dest!: rw_flush_hist rw_apply_hist write_live_hist rw_write_hist
      split: option.splits prod.splits bool.splits list.splits task.splits if_splits)

lemma rw_detached_frame_hist: "rw_detached_frame rw c = (ph, rw', c') \<Longrightarrow> hist_grows rw rw'"
  by (auto simp: rw_detached_frame_def hist_grows_eq dest!: rw_stage_hist finish_on_close_hist
      split: prod.splits list.splits task.splits) (auto simp: hist_grows_def)

lemma writer_step_hist:
  assumes "writer_step io (ph, rw, c) (ph', rw', c')"
  shows "hist_grows rw rw'"
  using assms
proof cases
  case turn
  then show ?thesis using rw_turn_hist by metis
qed (metis rw_other_turns_hist rw_detached_frame_hist hist_grows_eq)+

section \<open>The last sequence number received\<close>

definition recv_seq :: "('r, 'j) connection \<Rightarrow> u64" where
  "recv_seq c = rs_last_recv_seq (recovery c)"

definition recv_same :: "('r, 'j) connection \<Rightarrow> ('r, 'j) connection \<Rightarrow> bool" where
  "recv_same c c' \<longleftrightarrow> map_option rs_last_recv_seq (c_recovery c') = map_option rs_last_recv_seq (c_recovery c)"

lemma recv_same_refl [simp]: "recv_same c c" by (simp add: recv_same_def)

lemma recv_same_trans [trans]: "recv_same a b \<Longrightarrow> recv_same b c \<Longrightarrow> recv_same a c"
  by (simp add: recv_same_def)

lemma link_same_recv: "link_same c c' \<Longrightarrow> recv_same c c'"
  by (simp add: link_same_def recv_same_def)

lemma recv_sameD: "recv_same c c' \<Longrightarrow> c_recovery c \<noteq> None \<Longrightarrow> c_recovery c' \<noteq> None \<and> recv_seq c' = recv_seq c"
  by (auto simp: recv_same_def recv_seq_def)

lemma mark_closed_recovery [simp]: "c_recovery (mark_closed c) = c_recovery c"
  using link_same_mark_closed[of c] by (simp add: link_same_def)

lemma recv_same_detach [simp]: "recv_same c (detach_transport gen abort c)"
proof (cases "c_closed c \<or> c_transport_gen c \<noteq> gen")
  case False
  have "recv_same c' (spawn_reconnect_loop c')" "recv_same c' (spawn_server_expiry g c')" for c' :: "('a, 'b) connection" and g
    by (auto simp: spawn_reconnect_loop_def spawn_server_expiry_def Let_def recv_same_def
        link_same_recv[unfolded recv_same_def] split: option.split)
  note sp = this[THEN recv_same_trans[rotated]]
  show ?thesis using False
    by (auto simp: detach_transport_def Let_def abort_reader_def split: option.split recovery_role.split
        intro!: sp) (auto simp: recv_same_def)
qed (auto simp: detach_transport_def)

lemma recv_same_control [simp]: "recv_same c (snd (handle_control_frame pl c))"
  by (auto simp: handle_control_frame_def ack_received_def recv_same_def signal_send_def
      split: sum.split prod.split option.split)

lemma recv_seq_note:
  "recv_seq (note_and_signal seq c) = max (recv_seq c) seq" "c_recovery (note_and_signal seq c) \<noteq> None"
  by (auto simp: note_and_signal_def recv_seq_def signal_send_def note_received_seq split: prod.splits)
    (metis note_received_seq(1) snd_conv)+


section \<open>A turn of the reader\<close>

lemma c_debug_recovery [simp]:
  "c_recovery (c\<lparr>c_debug := d\<rparr>) = c_recovery c" "recv_seq (c\<lparr>c_debug := d\<rparr>) = recv_seq c"
  "recv_same c (c\<lparr>c_debug := d\<rparr>)"
  by (simp_all add: recv_seq_def recv_same_def)

lemma recv_same_fail [simp]: "recv_same c (fail io code e c)"
  by (rule link_same_recv) simp

lemma accept_frame_recv: "accept_frame sid fl pl c = (st, c') \<Longrightarrow> recv_same c c'"
  using link_same_recv[OF link_same_accept_frame[of c sid fl pl]] by simp

lemma accept_step_recv: "accept_step (st, c) = (st', c') \<Longrightarrow> recv_same c c'"
  using link_same_recv[OF link_same_accept_step[of "(st, c)"]] by simp

text \<open>
  What follows when the connection has taken a data frame, or waits: the frame counts as received,
  the reader waits with it, or the connection failed.
\<close>

lemma data_accepted_outcome:
  assumes "data_outcome io g seq s r (data_accepted s x) = (t, b)" "recv_same c (snd x)"
    "c_recovery c \<noteq> None" "recv_seq c = seq" "seq < s"
  obtains (got) "t = RReading g s r" "c_recovery b \<noteq> None" "recv_seq b = s"
  | (waits) st where "t = RAccepting g seq s st r" "recv_same c b"
  | (ended) "t = REnded" "recv_same c b"
proof -
  obtain st c1 where x: "x = (st, c1)" by fastforce
  with assms(2,3,4) have c1: "c_recovery c1 \<noteq> None" "recv_seq c1 = seq" "recv_same c c1"
    using recv_sameD[of c c1] by simp_all
  show thesis
  proof (cases st)
    case (Accepted res)
    show thesis
    proof (cases res)
      case (Inl e)
      with x Accepted assms(1) have "t = REnded" "b = fail io FAILURE_RECOVERY_DATA e c1"
        by (simp_all add: data_accepted_def data_outcome_def)
      with ended recv_same_trans[OF c1(3) recv_same_fail] show thesis by simp
    next
      case (Inr u)
      with x Accepted assms(1) have "t = RReading g s r" "b = note_and_signal s c1"
        by (simp_all add: data_accepted_def data_outcome_def)
      moreover have "max (recv_seq c1) s = s" using c1(2) assms(5) by (simp add: max_absorb2)
      ultimately show thesis using got recv_seq_note[of s c1] by simp
    qed
  next
    case (Sending r' ps)
    with x assms(1) have "t = RAccepting g seq s st r" "b = c1"
      by (simp_all add: data_accepted_def data_outcome_def)
    with waits c1(3) show thesis by simp
  qed
qed

text \<open>A frame that the connection does not take, or takes, or waits with, or that ends the reader.\<close>

lemma reader_turn_frame:
  assumes "recovery_reader_turn io (Inr (Some (f, r))) g seq c = (t, b)"
    "c_recovery c \<noteq> None" "recv_seq c = seq"
  obtains (skip) "t = RReading g seq r" "c_recovery b \<noteq> None" "recv_seq b = seq" "fresh (unat seq) [f] = []"
  | (got) "t = RReading g (seq + 1) r" "c_recovery b \<noteq> None" "recv_seq b = seq + 1"
      "is_data f" "fst (snd f) = seq + 1" "seq < seq + 1"
  | (waits) st where "t = RAccepting g seq (seq + 1) st r" "recv_same c b"
      "is_data f" "fst (snd f) = seq + 1" "seq < seq + 1"
  | (ended) "\<forall>g s r. t \<noteq> RReading g s r" "\<forall>g s s' st r. t \<noteq> RAccepting g s s' st r" "recv_same c b"
proof -
  obtain sid s fl pl where f: "f = (sid, s, fl, pl)" by (metis prod_cases4)
  define c1 where "c1 = c\<lparr>c_debug := note_frame_read sid (cc_header_len (config c) + length pl) (c_debug c)\<rparr>"
  have c1: "recv_same c c1" "c_recovery c1 \<noteq> None" "recv_seq c1 = seq"
    using assms(2,3) by (simp_all add: c1_def)
  show thesis
  proof (cases "sid = CONTROL_STREAM_ID")
    case True
    obtain res c2 where h: "handle_control_frame pl c1 = (res, c2)" by fastforce
    with recv_same_trans[OF c1(1)] recv_same_control[of c1 pl] have c2: "recv_same c c2" by simp
    note turn = assms(1)[unfolded f recovery_reader_turn_def Let_def]
    show thesis
    proof (cases res)
      case (Inl e)
      with turn True h have "t = REnded" "b = fail io FAILURE_RECOVERY_CONTROL e c2"
        by (simp_all add: c1_def)
      with ended recv_same_trans[OF c2 recv_same_fail] show thesis by simp
    next
      case (Inr close)
      show thesis
      proof (cases close)
        case True
        obtain streams c3 where cl: "close_by_peer c2 = (streams, c3)" by fastforce
        with turn \<open>sid = _\<close> h Inr True have "t = RClosing streams" "b = c3"
          by (simp_all add: c1_def)
        moreover have "recv_same c c3"
          using recv_same_trans[OF c2 link_same_recv[OF link_same_close_by_peer[of c2]]] cl by simp
        ultimately show thesis using ended by simp
      next
        case False
        with turn \<open>sid = _\<close> h Inr have "t = RReading g seq r" "b = c2"
          by (simp_all add: c1_def)
        with skip recv_sameD[OF c2 assms(2)] assms(3) f True show thesis by (simp add: is_data_def)
      qed
    qed
  next
    case False
    then have data: "data_outcome io g seq s r (handle_recovery_data_frame seq sid s fl pl c1) = (t, b)"
      using assms(1) by (simp add: f recovery_reader_turn_def Let_def c1_def)
    have d: "is_data f" using False f by (simp add: is_data_def)
    consider "s = 0 \<or> (seq < s \<and> s \<noteq> seq + 1)" | "s \<noteq> 0" "s \<le> seq" | "s = seq + 1" "seq < s" by force
    then show thesis
    proof cases
      case 1
      then have "\<exists>e. handle_recovery_data_frame seq sid s fl pl c1 = (DataDone (Inl e), c1)"
        by (cases "s = 0") (simp_all add: handle_recovery_data_frame_def not_le[symmetric])
      then obtain e where "handle_recovery_data_frame seq sid s fl pl c1 = (DataDone (Inl e), c1)" by blast
      with data have "t = REnded" "b = fail io FAILURE_RECOVERY_DATA e c1" by (simp_all add: data_outcome_def)
      with ended recv_same_trans[OF c1(1) recv_same_fail] show thesis by simp
    next
      case 2
      then have "handle_recovery_data_frame seq sid s fl pl c1 = (DataDone (Inr seq), note_and_signal s c1)"
        by (simp add: handle_recovery_data_frame_def)
      with data have "t = RReading g seq r" "b = note_and_signal s c1" by (simp_all add: data_outcome_def)
      moreover have "max seq s = seq" using 2 by (simp add: max_def)
      moreover have "unat s \<le> unat seq" using 2 by (simp add: word_le_nat_alt)
      ultimately show thesis using skip recv_seq_note[of s c1] c1(3) f by (simp add: seq_of_def)
    next
      case 3
      then have "handle_recovery_data_frame seq sid s fl pl c1 = data_accepted s (accept_frame sid fl pl c1)"
        by (auto simp: handle_recovery_data_frame_def)
      with data have x: "data_outcome io g seq s r (data_accepted s (accept_frame sid fl pl c1)) = (t, b)" by simp
      have r: "recv_same c1 (snd (accept_frame sid fl pl c1))"
        by (rule link_same_recv) simp
      from x r c1(2,3) 3(2) show thesis
      proof (cases rule: data_accepted_outcome)
        case got
        with that(2) 3 f d show thesis by simp
      next
        case (waits st)
        with that(3) 3 f d recv_same_trans[OF c1(1)] show thesis by simp
      next
        case ended
        with that(4) recv_same_trans[OF c1(1)] show thesis by simp
      qed
    qed
  qed
qed

lemma reader_turn_other:
  assumes "recovery_reader_turn io res g seq c = (t, b)" "res = Inr None \<or> res = Inl e"
  shows "t = REnded" "recv_same c b"
proof -
  have n: "recv_same c (detach_transport g False (note_conn_failure code reason c))" for code reason
    by (rule recv_same_trans[OF link_same_recv[OF link_same_basic(1)] recv_same_detach])
  have m: "recv_same c (mark_closed c)" by (simp add: link_same_recv)
  show "t = REnded"
    using assms by (auto simp: recovery_reader_turn_def split: if_splits am_error.splits)
  show "recv_same c b"
    using assms n m by (auto simp: recovery_reader_turn_def split: if_splits am_error.splits)
qed

lemma reader_resume:
  assumes "recovery_reader_resume io (RAccepting g seq s st r) c = (t, b)"
    "c_recovery c \<noteq> None" "recv_seq c = seq" "seq < s"
  obtains (got) "t = RReading g s r" "c_recovery b \<noteq> None" "recv_seq b = s"
  | (waits) st where "t = RAccepting g seq s st r" "recv_same c b"
  | (ended) "t = REnded" "recv_same c b"
proof -
  from assms(1) have x: "data_outcome io g seq s r (data_accepted s (accept_step (st, c))) = (t, b)"
    by (simp add: recovery_reader_resume_def)
  have r: "recv_same c (snd (accept_step (st, c)))"
    using link_same_recv[OF link_same_accept_step[of "(st, c)"]] by simp
  from data_accepted_outcome[OF x r assms(2,3,4)] that show thesis by metis
qed

end
