(* ===== verification/RecoverySystem.thy ===== *)
theory RecoverySystem
  imports LinkReceiver
begin

text \<open>
  One direction of a version 3 connection over any number of lost transports: the sender's writer
  task and connection, the frames on each transport, the receiver's connection and its reader task.
  \<open>link_step\<close> is a step of any of these, in any order; transports may be lost at any moment, and
  each end notices at a different time.

  What is assumed of the rest: a transport delivers a prefix of the bytes written to it, in order; a
  reader that was told to stop does not run on once the next one has started (\<open>StartReader\<close> replaces
  it); ACKs and resume offers that the sender gets were sent by the receiver before; and no 64-bit
  counter wraps.
\<close>

record ('r, 'j) link =
  lk_phase :: writer_phase
  lk_writer :: recovery_writer
  lk_sender :: "('r, 'j) connection"
  lk_wires :: wires
  lk_receiver :: "('r, 'j) connection"
  lk_reader :: recovery_reader
  lk_read_gen :: u64
  lk_delivered :: "inbound_frame list"
  lk_offers :: "u64 set"
  lk_acks :: "u64 set"

text \<open>Whether a turn of the reader took its frame: its last sequence number has moved.\<close>

definition took :: "recovery_reader \<Rightarrow> u64 \<Rightarrow> bool" where
  "took t seq \<longleftrightarrow> (case t of RReading _ seq' _ \<Rightarrow> seq' \<noteq> seq | _ \<Rightarrow> False)"

text \<open>A frame leaves its wire when the reader goes on to the next one.\<close>

definition after_read :: "recovery_reader \<Rightarrow> u64 \<Rightarrow> wires \<Rightarrow> wires" where
  "after_read t g W = (case t of RReading _ _ _ \<Rightarrow> W(g := tl (W g)) | _ \<Rightarrow> W)"

inductive link_step :: "(io_kind \<Rightarrow> string) \<Rightarrow> ('r, 'j) link \<Rightarrow> ('r, 'j) link \<Rightarrow> bool" for io where
  Write: "writer_step io (lk_phase l, lk_writer l, lk_sender l) (ph, rw, a) \<Longrightarrow>
     c_next_send_seq (lk_sender l) \<noteq> - 1 \<Longrightarrow> c_transport_gen (lk_sender l) \<le> c_transport_gen a \<Longrightarrow>
     rw_log rw = rw_log (lk_writer l) @ es \<Longrightarrow>
     link_step io l (l\<lparr>lk_phase := ph, lk_writer := rw, lk_sender := a,
       lk_wires := arrive keep es (lk_wires l)\<rparr>)"
| SenderTasks: "link_env (lk_sender l) a \<Longrightarrow> c_transport_gen (lk_sender l) \<le> c_transport_gen a \<Longrightarrow>
     link_step io l (l\<lparr>lk_sender := a\<rparr>)"
| AckArrives: "n \<in> lk_acks l \<Longrightarrow>
     link_step io l (l\<lparr>lk_sender := snd (handle_control_frame (build_ack_control_payload n) (lk_sender l))\<rparr>)"
| AttachSender: "n \<in> lk_offers l \<Longrightarrow> c_transport_gen (lk_sender l) < c_transport_gen (lk_sender l) + 1 \<Longrightarrow>
     link_step io l (l\<lparr>lk_sender := snd (attach_transport_parts r w n (lk_sender l))\<rparr>)"
| ReceiverTasks: "recv_same (lk_receiver l) b \<Longrightarrow> link_step io l (l\<lparr>lk_receiver := b\<rparr>)"
| AckSent: "take_pending_ack now (recovery (lk_receiver l)) = (Some n, rs) \<Longrightarrow>
     link_step io l (l\<lparr>lk_receiver := set_recovery rs (lk_receiver l), lk_acks := insert n (lk_acks l)\<rparr>)"
| Offer: "link_step io l (l\<lparr>lk_offers := insert (last_received (recovery (lk_receiver l))) (lk_offers l)\<rparr>)"
| StartReader: "link_step io l (l\<lparr>lk_reader := recovery_reader_start g' r (lk_receiver l), lk_read_gen := g\<rparr>)"
| StopReader: "link_step io l (l\<lparr>lk_reader := REnded\<rparr>)"
| ReadFrame: "lk_reader l = RReading g seq r \<Longrightarrow> lk_wires l (lk_read_gen l) = f # rest \<Longrightarrow>
     recovery_reader_turn io (Inr (Some (f, r'))) g seq (lk_receiver l) = (t, b) \<Longrightarrow>
     link_step io l (l\<lparr>lk_reader := t, lk_receiver := b, lk_wires := after_read t (lk_read_gen l) (lk_wires l),
       lk_delivered := lk_delivered l @ (if took t seq then [f] else [])\<rparr>)"
| ReadOther: "lk_reader l = RReading g seq r \<Longrightarrow> res = Inr None \<or> res = Inl e \<Longrightarrow>
     recovery_reader_turn io res g seq (lk_receiver l) = (t, b) \<Longrightarrow>
     link_step io l (l\<lparr>lk_reader := t, lk_receiver := b\<rparr>)"
| ReadResume: "lk_reader l = RAccepting g seq seq' st r \<Longrightarrow>
     recovery_reader_resume io (lk_reader l) (lk_receiver l) = (t, b) \<Longrightarrow>
     link_step io l (l\<lparr>lk_reader := t, lk_receiver := b, lk_wires := after_read t (lk_read_gen l) (lk_wires l),
       lk_delivered := lk_delivered l @ (if took t seq then [hd (lk_wires l (lk_read_gen l))] else [])\<rparr>)"

inductive_cases link_stepE: "link_step io l l'"

abbreviation link_run where "link_run io \<equiv> (link_step io)\<^sup>*\<^sup>*"

text \<open>
  The start: two connections with a new recovery state each. The first attach of a connection goes
  by the number 0, as an offer made before anything was received.
\<close>

definition fresh_side :: "('r, 'j) connection \<Rightarrow> bool" where
  "fresh_side c \<longleftrightarrow> c_next_send_seq c = 0 \<and> c_cmds c = [] \<and> c_outbound c = [] \<and>
     (\<exists>co neg cid sec t so. c_recovery c = Some (new_client co neg cid sec t) \<or>
        c_recovery c = Some (new_server so cid sec))"

definition link_init :: "('r, 'j) connection \<Rightarrow> ('r, 'j) connection \<Rightarrow> ('r, 'j) link" where
  "link_init a b = \<lparr>lk_phase = Turn, lk_writer = new_recovery_writer, lk_sender = a, lk_wires = (\<lambda>_. []),
     lk_receiver = b, lk_reader = REnded, lk_read_gen = 0, lk_delivered = [],
     lk_offers = {0}, lk_acks = {}\<rparr>"

section \<open>The invariant\<close>

definition reader_ok :: "('r, 'j) link \<Rightarrow> bool" where
  "reader_ok l \<longleftrightarrow> (case lk_reader l of
     RReading _ seq _ \<Rightarrow> seq = recv_seq (lk_receiver l)
   | RAccepting _ seq seq' _ _ \<Rightarrow> seq = recv_seq (lk_receiver l) \<and> seq' = seq + 1 \<and> seq < seq + 1 \<and>
       (\<exists>f rest. lk_wires l (lk_read_gen l) = f # rest \<and> is_data f \<and> fst (snd f) = seq + 1)
   | _ \<Rightarrow> True)"

definition link_inv :: "('r, 'j) link \<Rightarrow> bool" where
  "link_inv l \<longleftrightarrow> (let R = unat (recv_seq (lk_receiver l)) in
     task_inv (c_transport_gen (lk_sender l)) R (lk_wires l) (lk_phase l, lk_writer l, lk_sender l) \<and>
     c_recovery (lk_receiver l) \<noteq> None \<and> reader_ok l \<and>
     lk_delivered l = map frame_of (take R (rw_hist (lk_writer l))) \<and>
     (\<forall>n \<in> lk_offers l \<union> lk_acks l. unat n \<le> R))"

lemma cmds_ok_mono: "cmds_ok T R g cs \<Longrightarrow> T \<le> T' \<Longrightarrow> R \<le> R' \<Longrightarrow> cmds_ok T' R' g cs"
  by (induction T R g cs rule: cmds_ok.induct) auto

lemma cmds_ok_attach: "cmds_ok T R g cs \<Longrightarrow> T < T' \<Longrightarrow> unat s \<le> R \<Longrightarrow> cmds_ok T' R g (cs @ [Attach T' w s])"
  by (induction T R g cs rule: cmds_ok.induct) auto

lemma sender_inv_mono: "sender_inv T R W rw c \<Longrightarrow> T \<le> T' \<Longrightarrow> sender_inv T' R W rw c"
  by (auto simp: sender_inv_def base_inv_def intro: cmds_ok_mono)

lemma task_inv_mono: "task_inv T R W x \<Longrightarrow> T \<le> T' \<Longrightarrow> task_inv T' R W x"
  by (auto simp: task_inv_def intro: sender_inv_mono)

text \<open>The receiver gets one more frame.\<close>

lemma fresh_Suc: "fresh (Suc R) xs = fresh (Suc R) (fresh R xs)"
  by (simp add: fresh_fresh)

lemma prefix_fresh_Suc:
  assumes "hist_ok H" "prefix (fresh R xs) (map frame_of (drop R H))"
  shows "prefix (fresh (Suc R) xs) (map frame_of (drop (Suc R) H))"
proof -
  from assms(2) obtain ys where ys: "map frame_of (drop R H) = fresh R xs @ ys" by (auto simp: prefix_def)
  have "map frame_of (drop (Suc R) H) = fresh (Suc R) (map frame_of (drop R H))"
    using hist_fresh[OF assms(1), of "Suc R" R] by (simp add: max_def)
  also have "\<dots> = fresh (Suc R) xs @ fresh (Suc R) ys" by (simp add: ys fresh_Suc[symmetric])
  finally show ?thesis by simp
qed

lemma sender_inv_advance:
  assumes inv: "sender_inv T R W rw c" and n: "R < length (rw_hist rw)"
  shows "sender_inv T (Suc R) W rw c"
proof -
  let ?H = "rw_hist rw"
  from inv have H: "hist_ok ?H" by (simp add: sender_inv_def base_defs)
  have base: "base_inv T (Suc R) W rw c"
    using inv n prefix_fresh_Suc[OF H] by (auto simp: sender_inv_def base_defs intro: cmds_ok_mono)
  have "attached_ok (Suc R) W rw" if a: "attached_ok R W rw"
  proof (cases "R < unat (rw_last_sent_seq rw)")
    case True
    then have S: "sent_upto (Suc R) rw = sent_upto R rw" "R < sent_upto R rw" by (auto simp: sent_upto_def)
    have "fresh (Suc R) (W (rw_gen rw)) = fresh (Suc R) (map frame_of (drop R (take (sent_upto R rw) ?H)))"
      using a by (simp add: fresh_Suc[of R "W (rw_gen rw)"] attached_ok_def)
    with a S hist_fresh_take[OF H, of "Suc R" R "sent_upto R rw"] show ?thesis
      by (simp add: attached_ok_def max_def)
  next
    case False
    then have S: "sent_upto R rw = R" "sent_upto (Suc R) rw = Suc R" by (auto simp: sent_upto_def)
    have "filter (\<lambda>f. Suc R < unat (fr_seq f)) (rw_resume rw) =
        filter (\<lambda>f. Suc R < unat (fr_seq f)) (filter (\<lambda>f. R < unat (fr_seq f)) (rw_resume rw))"
      unfolding filter_filter by (rule filter_cong[OF refl]) auto
    also have "\<dots> = drop (Suc R) ?H" using a S hist_filter[OF H, of "Suc R" R] by (simp add: attached_ok_def max_def)
    finally have 1: "filter (\<lambda>f. Suc R < unat (fr_seq f)) (rw_resume rw) = drop (Suc R) ?H" .
    have "fresh (Suc R) (W (rw_gen rw)) = []"
      using a S by (simp add: fresh_Suc[of R "W (rw_gen rw)"] attached_ok_def)
    with a S 1 show ?thesis by (simp add: attached_ok_def)
  qed
  with base inv show ?thesis by (simp add: sender_inv_def)
qed

text \<open>The receiver reads a frame that it has, or a control frame.\<close>

lemma sender_inv_consume:
  assumes inv: "sender_inv T R W rw c" and w: "W g = f # rest" and f: "fresh R [f] = []"
  shows "sender_inv T R (W(g := rest)) rw c"
proof -
  have fr: "fresh R ((W(g := rest)) g') = fresh R (W g')" for g'
    using w f by (auto split: if_splits)
  have sub: "set ((W(g := rest)) g') \<subseteq> set (W g')" for g'
    using w by auto
  from inv have ok: "wires_ok R W rw" by (simp add: sender_inv_def base_inv_def)
  have "wires_ok R (W(g := rest)) rw" unfolding wires_ok_def
  proof (intro conjI allI)
    show "prefix (fresh R ((W(g := rest)) g')) (map frame_of (drop R (rw_hist rw)))" for g'
      using ok unfolding fr by (simp add: wires_ok_def)
    show "rw_gen rw < g' \<longrightarrow> (W(g := rest)) g' = []" for g'
      using ok w by (auto simp: wires_ok_def)
    show "\<forall>f \<in> set ((W(g := rest)) g'). is_data f \<longrightarrow> 0 < seq_of f" for g'
      using ok sub[of g'] by (auto simp: wires_ok_def simp del: fun_upd_apply)
  qed
  with inv fr show ?thesis by (simp add: sender_inv_def base_inv_def attached_ok_def)
qed

lemma sender_inv_ack:
  assumes inv: "sender_inv T R W rw c" and n: "unat n \<le> R"
  shows "sender_inv T R W rw (snd (handle_control_frame (build_ack_control_payload n) c))"
proof -
  from inv obtain rs where rs: "c_recovery c = Some rs" "replay.holds (rw_hist rw) (rs_replay rs)"
    "rb_header_len (rs_replay rs) \<le> 18" "unat (rb_last_acked (rs_replay rs)) \<le> R"
    by (auto simp: sender_inv_def base_defs)
  from rs(2) have "replay_ok (rs_replay rs)" by (simp add: replay.holds_def buffer_ok_def)
  then have "rb_header_len (snd (ack n (rs_replay rs))) \<le> 18"
    "unat (rb_last_acked (snd (ack n (rs_replay rs)))) \<le> R"
    using rs n by (simp_all add: ack_queue max_def)
  with inv rs replay.holds_ack[OF rs(2), of n] show ?thesis
    by (simp add: handle_control_frame_def ack_received_def signal_send_def sender_inv_def base_defs)
qed

lemma attach_link_fields:
  assumes "\<not> c_closed c"
  shows "link_same (c\<lparr>c_cmds := c_cmds c @ [Attach (c_transport_gen c + 1) w n],
      c_transport_gen := c_transport_gen c + 1\<rparr>) (snd (attach_transport_parts r w n c))"
  using assms by (simp add: attach_transport_parts_def Let_def link_same_def signal_send_def abort_reader_def)

lemma task_inv_attach:
  fixes r :: reader and w :: writer
  assumes inv: "task_inv (c_transport_gen c) R W (ph, rw, c)" and n: "unat n \<le> R"
    and g: "c_transport_gen c < c_transport_gen c + 1"
  defines "c' \<equiv> snd (attach_transport_parts r w n c)"
  shows "task_inv (c_transport_gen c') R W (ph, rw, c')"
proof (cases "c_closed c")
  case True
  with inv show ?thesis by (simp add: c'_def attach_transport_parts_def)
next
  case False
  let ?T = "c_transport_gen c + 1"
  let ?c = "c\<lparr>c_cmds := c_cmds c @ [Attach ?T w n], c_transport_gen := ?T\<rparr>"
  from inv have s: "sender_inv (c_transport_gen c) R W rw c" by (simp add: task_inv_def)
  then have "sender_inv ?T R W rw ?c"
    using cmds_ok_attach[OF _ g n, of "rw_gen rw" "c_cmds c" w] by (simp add: sender_inv_def base_defs)
  from sender_inv_env[OF this link_same_env[OF attach_link_fields[OF False]]]
  have "sender_inv ?T R W rw c'" unfolding c'_def .
  moreover have "c_transport_gen c' = ?T"
    using attach_link_fields[OF False, of w n r] by (simp add: c'_def link_same_def)
  ultimately show ?thesis using inv by (simp add: task_inv_def)
qed

section \<open>Every step keeps the invariant\<close>

lemma recv_Suc: "(seq :: u64) < seq + 1 \<Longrightarrow> unat (seq + 1) = Suc (unat seq)"
  by (metis unat_next less_irrefl add.commute add_neg_numeral_special(7) not_less_zero word_coorder.extremum_strict)

text \<open>The head of a wire is the next frame of the history if the receiver does not have it.\<close>

lemma wire_head:
  assumes inv: "link_inv l" and w: "lk_wires l g = f # rest" and seq: "seq = recv_seq (lk_receiver l)"
    and f: "is_data f" "fst (snd f) = seq + 1" "seq < seq + 1"
  shows "unat seq < length (rw_hist (lk_writer l))" "f = frame_of (rw_hist (lk_writer l) ! unat seq)"
proof -
  let ?H = "rw_hist (lk_writer l)" and ?R = "unat seq"
  from inv seq have "prefix (fresh ?R (lk_wires l g)) (map frame_of (drop ?R ?H))"
    by (simp add: link_inv_def Let_def task_inv_def sender_inv_def base_defs)
  moreover have "?R < seq_of f" using f(2) recv_Suc[OF f(3)] by (simp add: seq_of_def)
  ultimately have p: "prefix (f # fresh ?R rest) (map frame_of (drop ?R ?H))" using w f(1) by simp
  then show lt: "?R < length ?H" by (cases "?R < length ?H") simp_all
  from p show "f = frame_of (?H ! ?R)" using Cons_nth_drop_Suc[OF lt, symmetric] by simp
qed

lemma inv_got:
  assumes inv: "link_inv l" and w: "lk_wires l (lk_read_gen l) = f # rest" and seq: "seq = recv_seq (lk_receiver l)"
    and f: "is_data f" "fst (snd f) = seq + 1" "seq < seq + 1"
    and b: "c_recovery b \<noteq> None" "recv_seq b = seq + 1"
  shows "link_inv (l\<lparr>lk_reader := RReading g (seq + 1) r, lk_receiver := b,
    lk_wires := (lk_wires l)(lk_read_gen l := rest), lk_delivered := lk_delivered l @ [f]\<rparr>)"
proof -
  let ?H = "rw_hist (lk_writer l)" and ?R = "unat seq" and ?T = "c_transport_gen (lk_sender l)"
  note head = wire_head[OF inv w seq f]
  from inv seq have t: "task_inv ?T ?R (lk_wires l) (lk_phase l, lk_writer l, lk_sender l)"
    and d: "lk_delivered l = map frame_of (take ?R ?H)" and o: "\<forall>n \<in> lk_offers l \<union> lk_acks l. unat n \<le> ?R"
    by (simp_all add: link_inv_def Let_def)
  from t have s: "sender_inv ?T ?R (lk_wires l) (lk_writer l) (lk_sender l)" by (simp add: task_inv_def)
  have stale: "fresh (Suc ?R) [f] = []" using f(2) recv_Suc[OF f(3)] by (simp add: seq_of_def)
  from sender_inv_consume[OF sender_inv_advance[OF s head(1)] w stale] t
  have "task_inv ?T (Suc ?R) ((lk_wires l)(lk_read_gen l := rest)) (lk_phase l, lk_writer l, lk_sender l)"
    by (simp add: task_inv_def)
  moreover have "lk_delivered l @ [f] = map frame_of (take (Suc ?R) ?H)"
    using d head by (simp add: take_Suc_conv_app_nth)
  moreover have "\<forall>n \<in> lk_offers l \<union> lk_acks l. unat n \<le> Suc ?R" using o le_SucI by blast
  ultimately show ?thesis using b recv_Suc[OF f(3)] by (simp add: link_inv_def Let_def reader_ok_def)
qed

lemma inv_skip:
  assumes inv: "link_inv l" and w: "lk_wires l (lk_read_gen l) = f # rest" and seq: "seq = recv_seq (lk_receiver l)"
    and f: "fresh (unat seq) [f] = []" and b: "c_recovery b \<noteq> None" "recv_seq b = seq"
  shows "link_inv (l\<lparr>lk_reader := RReading g seq r, lk_receiver := b,
    lk_wires := (lk_wires l)(lk_read_gen l := rest), lk_delivered := lk_delivered l\<rparr>)"
proof -
  let ?R = "unat seq" and ?T = "c_transport_gen (lk_sender l)"
  from inv seq have t: "task_inv ?T ?R (lk_wires l) (lk_phase l, lk_writer l, lk_sender l)"
    by (simp add: link_inv_def Let_def)
  then have s: "sender_inv ?T ?R (lk_wires l) (lk_writer l) (lk_sender l)" by (simp add: task_inv_def)
  from sender_inv_consume[OF s w f] t
  have "task_inv ?T ?R ((lk_wires l)(lk_read_gen l := rest)) (lk_phase l, lk_writer l, lk_sender l)"
    by (simp add: task_inv_def)
  with inv seq b show ?thesis by (simp add: link_inv_def Let_def reader_ok_def)
qed

text \<open>A step of the receiver that neither takes a frame nor moves its number.\<close>

lemma inv_receiver:
  assumes "link_inv l" "recv_same (lk_receiver l) b" "reader_ok (l\<lparr>lk_reader := t, lk_receiver := b\<rparr>)"
  shows "link_inv (l\<lparr>lk_reader := t, lk_receiver := b, lk_wires := lk_wires l, lk_delivered := lk_delivered l\<rparr>)"
  using assms(1,3) recv_sameD[OF assms(2)] by (cases t) (simp_all add: link_inv_def Let_def reader_ok_def)

lemma took_simps [simp]:
  "took (RReading g s r) seq = (s \<noteq> seq)" "\<not> took (RAccepting g s s' st r) seq" "\<not> took REnded seq"
  "after_read (RReading g s r) g' W = W(g' := tl (W g'))" "after_read (RAccepting g s s' st r) g' W = W"
  "after_read REnded g' W = W"
  by (simp_all add: took_def after_read_def)

lemma not_took: "\<forall>g s r. t \<noteq> RReading g s r \<Longrightarrow> \<not> took t seq \<and> after_read t g' W = W"
  by (cases t) (simp_all add: took_def after_read_def)

lemma inv_read_frame:
  assumes inv: "link_inv l" and rd: "lk_reader l = RReading g seq r" and w: "lk_wires l (lk_read_gen l) = f # rest"
    and turn: "recovery_reader_turn io (Inr (Some (f, r'))) g seq (lk_receiver l) = (t, b)"
  shows "link_inv (l\<lparr>lk_reader := t, lk_receiver := b, lk_wires := after_read t (lk_read_gen l) (lk_wires l),
       lk_delivered := lk_delivered l @ (if took t seq then [f] else [])\<rparr>)"
proof -
  from inv rd have c: "c_recovery (lk_receiver l) \<noteq> None" "recv_seq (lk_receiver l) = seq"
    by (simp_all add: link_inv_def Let_def reader_ok_def)
  from turn c show ?thesis
  proof (cases rule: reader_turn_frame)
    case skip
    with inv_skip[OF inv w c(2)[symmetric] skip(4,2,3), of g r'] w show ?thesis by simp
  next
    case got
    with inv_got[OF inv w c(2)[symmetric] got(4,5,6,2,3), of g r'] w show ?thesis by simp
  next
    case (waits st)
    have "reader_ok (l\<lparr>lk_reader := t, lk_receiver := b\<rparr>)"
      using waits w c recv_sameD[OF waits(2) c(1)] by (simp add: reader_ok_def)
    from inv_receiver[OF inv waits(2) this] waits(1) show ?thesis by simp
  next
    case ended
    have "reader_ok (l\<lparr>lk_reader := t, lk_receiver := b\<rparr>)"
      using ended by (cases t) (simp_all add: reader_ok_def)
    from inv_receiver[OF inv ended(3) this] not_took[OF ended(1), of seq] show ?thesis by simp
  qed
qed

lemma inv_read_resume:
  assumes inv: "link_inv l" and rd: "lk_reader l = RAccepting g seq seq' st r"
    and turn: "recovery_reader_resume io (lk_reader l) (lk_receiver l) = (t, b)"
  shows "link_inv (l\<lparr>lk_reader := t, lk_receiver := b, lk_wires := after_read t (lk_read_gen l) (lk_wires l),
       lk_delivered := lk_delivered l @ (if took t seq then [hd (lk_wires l (lk_read_gen l))] else [])\<rparr>)"
proof -
  from inv rd obtain f rest where c: "c_recovery (lk_receiver l) \<noteq> None" "recv_seq (lk_receiver l) = seq"
    and seq': "seq' = seq + 1" "seq < seq + 1" and w: "lk_wires l (lk_read_gen l) = f # rest"
    and f: "is_data f" "fst (snd f) = seq + 1"
    by (auto simp: link_inv_def Let_def reader_ok_def)
  from turn c seq'(2) show ?thesis unfolding rd seq'(1)
  proof (cases rule: reader_resume)
    case got
    with inv_got[OF inv w c(2)[symmetric] f seq'(2) got(2,3), of g r] w seq'(2) show ?thesis by simp
  next
    case (waits st)
    have "reader_ok (l\<lparr>lk_reader := t, lk_receiver := b\<rparr>)"
      using waits w f seq' c recv_sameD[OF waits(2) c(1)] by (simp add: reader_ok_def)
    from inv_receiver[OF inv waits(2) this] waits(1) show ?thesis by simp
  next
    case ended
    have "reader_ok (l\<lparr>lk_reader := t, lk_receiver := b\<rparr>)"
      using ended by (simp add: reader_ok_def)
    from inv_receiver[OF inv ended(2) this] ended(1) show ?thesis by simp
  qed
qed

lemma arrive_extends: "\<exists>ys. arrive keep es W g = W g @ ys"
  by (simp add: arrive_def)

lemma inv_write:
  assumes inv: "link_inv l" and step: "writer_step io (lk_phase l, lk_writer l, lk_sender l) (ph, rw, a)"
    and n: "c_next_send_seq (lk_sender l) \<noteq> - 1" and g: "c_transport_gen (lk_sender l) \<le> c_transport_gen a"
    and es: "rw_log rw = rw_log (lk_writer l) @ es"
  shows "link_inv (l\<lparr>lk_phase := ph, lk_writer := rw, lk_sender := a, lk_wires := arrive keep es (lk_wires l)\<rparr>)"
proof -
  let ?R = "unat (recv_seq (lk_receiver l))"
  from inv have t: "task_inv (c_transport_gen (lk_sender l)) ?R (lk_wires l) (lk_phase l, lk_writer l, lk_sender l)"
    by (simp add: link_inv_def Let_def)
  from writer_step_inv[OF step t n] es
  have "task_inv (c_transport_gen (lk_sender l)) ?R (arrive keep es (lk_wires l)) (ph, rw, a)" by auto
  from task_inv_mono[OF this g] have t': "task_inv (c_transport_gen a) ?R (arrive keep es (lk_wires l)) (ph, rw, a)" .
  from t have R: "?R \<le> length (rw_hist (lk_writer l))"
    by (simp add: task_inv_def sender_inv_def base_defs)
  from writer_step_hist[OF step] obtain ys where "rw_hist rw = rw_hist (lk_writer l) @ ys"
    by (auto simp: hist_grows_def prefix_def)
  with R have h: "take ?R (rw_hist rw) = take ?R (rw_hist (lk_writer l))" by simp
  obtain ys where w: "arrive keep es (lk_wires l) (lk_read_gen l) = lk_wires l (lk_read_gen l) @ ys"
    using arrive_extends by blast
  from inv have r: "reader_ok l" by (simp add: link_inv_def Let_def)
  have "reader_ok (l\<lparr>lk_phase := ph, lk_writer := rw, lk_sender := a, lk_wires := arrive keep es (lk_wires l)\<rparr>)"
    using r w by (cases "lk_reader l") (auto simp: reader_ok_def)
  with inv t' h show ?thesis by (simp add: link_inv_def Let_def)
qed

lemma inv_sender:
  assumes inv: "link_inv l" and s: "task_inv (c_transport_gen a) (unat (recv_seq (lk_receiver l))) (lk_wires l)
      (lk_phase l, lk_writer l, a)"
  shows "link_inv (l\<lparr>lk_sender := a\<rparr>)"
  using assms by (cases "lk_reader l") (simp_all add: link_inv_def Let_def reader_ok_def)

lemma control_gen [simp]: "c_transport_gen (snd (handle_control_frame pl c)) = c_transport_gen c"
  by (auto simp: handle_control_frame_def signal_send_def split: sum.split prod.split option.split)

lemma inv_receiver_tasks:
  assumes inv: "link_inv l" and b: "recv_same (lk_receiver l) b"
  shows "link_inv (l\<lparr>lk_receiver := b\<rparr>)"
  using inv recv_sameD[OF b] by (cases "lk_reader l") (simp_all add: link_inv_def Let_def reader_ok_def)

lemma inv_numbers:
  assumes "link_inv l" "unat n \<le> unat (recv_seq (lk_receiver l))"
  shows "link_inv (l\<lparr>lk_offers := insert n (lk_offers l)\<rparr>)" "link_inv (l\<lparr>lk_acks := insert n (lk_acks l)\<rparr>)"
  using assms by (cases "lk_reader l", simp_all add: link_inv_def Let_def reader_ok_def)+

lemma inv_reader:
  assumes "link_inv l" "case t of RReading _ seq _ \<Rightarrow> seq = recv_seq (lk_receiver l) | REnded \<Rightarrow> True | _ \<Rightarrow> False"
  shows "link_inv (l\<lparr>lk_reader := t, lk_read_gen := g\<rparr>)" "link_inv (l\<lparr>lk_reader := t\<rparr>)"
  using assms by (cases t; simp add: link_inv_def Let_def reader_ok_def)+

lemma link_step_inv:
  assumes step: "link_step io l l'" and inv: "link_inv l"
  shows "link_inv l'"
proof -
  let ?R = "unat (recv_seq (lk_receiver l))" and ?T = "c_transport_gen (lk_sender l)"
  from inv have t: "task_inv ?T ?R (lk_wires l) (lk_phase l, lk_writer l, lk_sender l)"
    and c: "c_recovery (lk_receiver l) \<noteq> None" and n: "\<forall>n \<in> lk_offers l \<union> lk_acks l. unat n \<le> ?R"
    by (simp_all add: link_inv_def Let_def)
  then have s: "sender_inv ?T ?R (lk_wires l) (lk_writer l) (lk_sender l)" by (simp add: task_inv_def)
  from step show ?thesis
  proof cases
    case Write
    with inv_write[OF inv] show ?thesis by simp
  next
    case (SenderTasks a)
    from sender_inv_mono[OF sender_inv_env[OF s SenderTasks(2)] SenderTasks(3)] t inv_sender[OF inv]
    show ?thesis unfolding SenderTasks(1) by (simp add: task_inv_def)
  next
    case (AckArrives k)
    with n have "unat k \<le> ?R" by blast
    from sender_inv_ack[OF s this] t inv_sender[OF inv] show ?thesis
      unfolding AckArrives(1) by (simp add: task_inv_def)
  next
    case (AttachSender k r w)
    with n have "unat k \<le> ?R" by blast
    from task_inv_attach[OF t this AttachSender(3)] inv_sender[OF inv] show ?thesis
      unfolding AttachSender(1) by simp
  next
    case (ReceiverTasks b)
    with inv_receiver_tasks[OF inv] show ?thesis by simp
  next
    case (AckSent now k rs)
    from take_pending_ack_Some[OF AckSent(2)] c
    have "recv_same (lk_receiver l) (set_recovery rs (lk_receiver l))" "k = recv_seq (lk_receiver l)"
      "recv_seq (set_recovery rs (lk_receiver l)) = recv_seq (lk_receiver l)"
      by (auto simp: recv_same_def recv_seq_def)
    with inv_numbers(2)[OF inv_receiver_tasks[OF inv this(1)], of k] show ?thesis
      unfolding AckSent(1) by simp
  next
    case Offer
    with inv_numbers(1)[OF inv, of "recv_seq (lk_receiver l)"] show ?thesis
      by (simp add: recv_seq_def last_received_def)
  next
    case (StartReader g' g r)
    have "recovery_reader_start g r (lk_receiver l) = RReading g (recv_seq (lk_receiver l)) r"
      using c by (auto simp: recovery_reader_start_def recv_seq_def last_received_def)
    with inv_reader(1)[OF inv] show ?thesis unfolding StartReader(1) by simp
  next
    case StopReader
    with inv_reader(2)[OF inv, of REnded] show ?thesis by simp
  next
    case (ReadFrame g seq r f rest r' t b)
    with inv_read_frame[OF inv ReadFrame(2,3,4)] show ?thesis by simp
  next
    case (ReadOther g seq r res e t b)
    from reader_turn_other[OF ReadOther(4,3)] have "t = REnded" "recv_same (lk_receiver l) b" .
    with inv_receiver_tasks[OF inv_reader(2)[OF inv, of REnded], of b] show ?thesis
      unfolding ReadOther(1) by simp
  next
    case (ReadResume g seq seq' st r t b)
    with inv_read_resume[OF inv ReadResume(2,3)] show ?thesis by simp
  qed
qed

lemma link_run_inv: "link_run io l l' \<Longrightarrow> link_inv l \<Longrightarrow> link_inv l'"
  by (induction rule: rtranclp_induct) (auto intro: link_step_inv)

lemma new_buffer_holds:
  "replay.holds [] (new_replay_buffer m v) \<and> rb_header_len (new_replay_buffer m v) \<le> 18 \<and>
     rb_last_acked (new_replay_buffer m v) = 0"
  using new_buffer_header_len[of m v]
  by (simp add: replay.holds_def buffer_ok_new) (simp add: new_replay_buffer_def)

lemma link_init_inv:
  assumes a: "fresh_side a" and b: "fresh_side b"
  shows "link_inv (link_init a b)"
proof -
  have new: "replay.holds [] (rs_replay rs) \<and> rb_header_len (rs_replay rs) \<le> 18 \<and>
      rb_last_acked (rs_replay rs) = 0 \<and> rs_last_recv_seq rs = 0"
    if "rs = new_client co neg cid sec t \<or> rs = new_server so cid sec" for rs co neg cid sec t so
    using that new_buffer_holds by (auto simp: new_client_def new_server_def Let_def)
  from a new obtain rs where rs: "c_recovery a = Some rs" "replay.holds [] (rs_replay rs)"
      "rb_header_len (rs_replay rs) \<le> 18" "rb_last_acked (rs_replay rs) = 0"
    unfolding fresh_side_def by metis
  from b new obtain rs' where rs': "c_recovery b = Some rs'" "rs_last_recv_seq rs' = 0"
    unfolding fresh_side_def by metis
  from a rs have "task_inv (c_transport_gen a) 0 (\<lambda>_. []) (Turn, new_recovery_writer, a)"
    by (simp add: task_inv_def sender_inv_def base_defs new_recovery_writer_def fresh_side_def hist_ok_def phase_ok_def)
  with rs' show ?thesis
    by (simp add: link_inv_def Let_def link_init_def reader_ok_def recv_seq_def)
qed

end
