(* ===== verification/LinkProperties.thy ===== *)
theory LinkProperties
  imports RecoverySystem "HOL-Library.Code_Target_Nat"
begin

text \<open>
  The properties of a version 3 link as a whole (\<open>link_step\<close> of \<open>RecoverySystem\<close>), each for every
  run from two new connections.
\<close>

section \<open>Schedules\<close>

text \<open>
  A schedule is a list of moves, each of them one step of the link with its choices made. It computes
  a run, for the witnesses.
\<close>

datatype move = Queue outbound_frame | WriterMove | AttachMove u64 writer | OfferMove | AckMove nat | GetAck u64
  | ReaderMove u64 | ReadMove

definition io_name :: "io_kind \<Rightarrow> string" where "io_name k = ''io''"

definition idle_reader :: reader where "idle_reader = \<lparr>rd_chunks = [], rd_end = None\<rparr>"

definition open_writer :: writer where
  "open_writer = \<lparr>wr_out = [], wr_room = None, wr_flush_error = None, wr_shut = False\<rparr>"

definition writer_move :: "writer_phase \<times> recovery_writer \<times> ('r, 'j) connection \<Rightarrow>
    (writer_phase \<times> recovery_writer \<times> ('r, 'j) connection) option" where
  "writer_move x = (case x of (ph, rw, c) \<Rightarrow> (case ph of
     Turn \<Rightarrow> Some (rw_turn io_name rw c)
   | Flushing \<Rightarrow> Some (rw_flush_turn io_name rw c)
   | WaitDetached \<Rightarrow> if c_cmds c \<noteq> [] then Some (rw_command rw c) else None
   | Waiting due tick \<Rightarrow> if c_cmds c \<noteq> [] then Some (rw_command rw c)
       else if rw_held rw = None \<and> c_outbound c \<noteq> [] then Some (rw_frame io_name rw c) else None
   | _ \<Rightarrow> None))"

lemma writer_move_step: "writer_move x = Some y \<Longrightarrow> writer_step io_name x y"
  by (cases x) (auto simp: writer_move_def split: writer_phase.splits if_splits
      intro: writer_step.turn writer_step.flush writer_step.command writer_step.frame)

definition move :: "move \<Rightarrow> ('r, 'j) link \<Rightarrow> ('r, 'j) link option" where
  "move m l = (case m of
     Queue f \<Rightarrow> if frame_allowed f
       then Some (l\<lparr>lk_sender := (lk_sender l)\<lparr>c_outbound := c_outbound (lk_sender l) @ [f]\<rparr>\<rparr>) else None
   | WriterMove \<Rightarrow> (case writer_move (lk_phase l, lk_writer l, lk_sender l) of
         None \<Rightarrow> None
       | Some (ph, rw, a) \<Rightarrow>
           let n = length (rw_log (lk_writer l))
           in if c_next_send_seq (lk_sender l) \<noteq> - 1 \<and> c_transport_gen (lk_sender l) \<le> c_transport_gen a \<and>
               take n (rw_log rw) = rw_log (lk_writer l)
              then Some (l\<lparr>lk_phase := ph, lk_writer := rw, lk_sender := a,
                lk_wires := arrive False (drop n (rw_log rw)) (lk_wires l)\<rparr>) else None)
   | AttachMove n w \<Rightarrow>
       if n \<in> lk_offers l \<and> c_transport_gen (lk_sender l) < c_transport_gen (lk_sender l) + 1
       then Some (l\<lparr>lk_sender := snd (attach_transport_parts idle_reader w n (lk_sender l))\<rparr>) else None
   | OfferMove \<Rightarrow> Some (l\<lparr>lk_offers := insert (last_received (recovery (lk_receiver l))) (lk_offers l)\<rparr>)
   | AckMove now \<Rightarrow> (case take_pending_ack now (recovery (lk_receiver l)) of
         (Some n, rs) \<Rightarrow> Some (l\<lparr>lk_receiver := set_recovery rs (lk_receiver l), lk_acks := insert n (lk_acks l)\<rparr>)
       | (None, rs) \<Rightarrow> None)
   | GetAck n \<Rightarrow> if n \<in> lk_acks l
       then Some (l\<lparr>lk_sender := snd (handle_control_frame (build_ack_control_payload n) (lk_sender l))\<rparr>) else None
   | ReaderMove g \<Rightarrow> Some (l\<lparr>lk_reader := recovery_reader_start g idle_reader (lk_receiver l), lk_read_gen := g\<rparr>)
   | ReadMove \<Rightarrow> (case (lk_reader l, lk_wires l (lk_read_gen l)) of
         (RReading g seq r, f # rest) \<Rightarrow>
           (case recovery_reader_turn io_name (Inr (Some (f, r))) g seq (lk_receiver l) of (t, b) \<Rightarrow>
              Some (l\<lparr>lk_reader := t, lk_receiver := b, lk_wires := after_read t (lk_read_gen l) (lk_wires l),
                lk_delivered := lk_delivered l @ (if took t seq then [f] else [])\<rparr>))
       | _ \<Rightarrow> None))"

fun moves :: "move list \<Rightarrow> ('r, 'j) link \<Rightarrow> ('r, 'j) link option" where
  "moves [] l = Some l"
| "moves (m # ms) l = (case move m l of None \<Rightarrow> None | Some l' \<Rightarrow> moves ms l')"

lemma queue_env: "frame_allowed f \<Longrightarrow> link_env c (c\<lparr>c_outbound := c_outbound c @ [f]\<rparr>)"
  by (auto simp: link_env_def)

lemma move_step:
  assumes "move m l = Some l'"
  shows "link_step io_name l l'"
proof (cases m)
  case (Queue f)
  with assms show ?thesis
    by (auto simp: move_def intro!: link_step.SenderTasks queue_env split: if_splits)
next
  case WriterMove
  with assms obtain ph rw a where w: "writer_move (lk_phase l, lk_writer l, lk_sender l) = Some (ph, rw, a)"
    by (auto simp: move_def split: option.splits)
  let ?n = "length (rw_log (lk_writer l))"
  from assms WriterMove w have l': "l' = l\<lparr>lk_phase := ph, lk_writer := rw, lk_sender := a,
      lk_wires := arrive False (drop ?n (rw_log rw)) (lk_wires l)\<rparr>"
    and c: "c_next_send_seq (lk_sender l) \<noteq> - 1" "c_transport_gen (lk_sender l) \<le> c_transport_gen a"
      "take ?n (rw_log rw) = rw_log (lk_writer l)"
    by (auto simp: move_def Let_def split: if_splits)
  from c(3) have "rw_log rw = rw_log (lk_writer l) @ drop ?n (rw_log rw)" by (metis append_take_drop_id)
  with link_step.Write[OF writer_move_step[OF w] c(1,2)] show ?thesis unfolding l' by blast
next
  case (AttachMove n w)
  with assms show ?thesis by (auto simp: move_def intro!: link_step.AttachSender split: if_splits)
next
  case OfferMove
  with assms show ?thesis by (auto simp: move_def intro!: link_step.Offer)
next
  case (AckMove now)
  with assms show ?thesis
    by (auto simp: move_def intro!: link_step.AckSent split: prod.splits option.splits)
next
  case (GetAck n)
  with assms show ?thesis by (auto simp: move_def intro!: link_step.AckArrives split: if_splits)
next
  case (ReaderMove g)
  with assms show ?thesis by (auto simp: move_def intro!: link_step.StartReader)
next
  case ReadMove
  with assms obtain g seq r f rest t b where "lk_reader l = RReading g seq r" "lk_wires l (lk_read_gen l) = f # rest"
    "recovery_reader_turn io_name (Inr (Some (f, r))) g seq (lk_receiver l) = (t, b)"
    "l' = l\<lparr>lk_reader := t, lk_receiver := b, lk_wires := after_read t (lk_read_gen l) (lk_wires l),
       lk_delivered := lk_delivered l @ (if took t seq then [f] else [])\<rparr>"
    by (auto simp: move_def split: recovery_reader.splits list.splits prod.splits)
  then show ?thesis by (simp add: link_step.ReadFrame)
qed

lemma moves_run: "moves ms l = Some l' \<Longrightarrow> link_run io_name l l'"
proof (induction ms arbitrary: l)
  case (Cons m ms)
  then obtain l1 where "move m l = Some l1" "moves ms l1 = Some l'" by (auto split: option.splits)
  with Cons(1) move_step show ?case by (metis converse_rtranclp_into_rtranclp)
qed simp

text \<open>
  Two new connections, and a schedule in which the first transport is lost while the only frame is
  written to it; the second one replays it.
\<close>

definition ex_side :: "recovery_state \<Rightarrow> (bytes, bytes) connection" where
  "ex_side rs = (new_unstarted False False False)
     \<lparr>c_config := Some \<lparr>cc_version = PROTOCOL_VERSION_V3, cc_codec_id = CodecPostcard,
        cc_max_frame = 1024, cc_header_len = 18\<rparr>, c_recovery := Some rs\<rparr>"

definition ex_client :: "(bytes, bytes) connection" where
  "ex_client = ex_side (new_client default_client_recovery default_negotiated [1] [2] None)"

definition ex_server :: "(bytes, bytes) connection" where
  "ex_server = ex_side (new_server default_server_recovery [1] [2])"

lemma ex_sides_fresh: "fresh_side ex_client" "fresh_side ex_server"
  unfolding fresh_side_def ex_client_def ex_server_def ex_side_def new_unstarted_def by simp_all blast+

definition ex_moves :: "move list" where
  "ex_moves = [Queue (Recovery 5 0 [7] 0), WriterMove,
     AttachMove 0 (open_writer\<lparr>wr_room := Some (5, BrokenPipe)\<rparr>), WriterMove, WriterMove,
     AttachMove 0 open_writer, WriterMove, WriterMove, WriterMove, WriterMove, WriterMove,
     ReaderMove 3, ReadMove]"

lemma ex_run:
  obtains l where "link_run io_name (link_init ex_client ex_server) l" "lk_delivered l = [(5, 1, 0, [7])]"
    "lk_reader l = RReading 3 1 idle_reader" "length (rw_hist (lk_writer l)) = 1" "lk_wires l (rw_gen (lk_writer l)) = []"
    "rw_writer (lk_writer l) \<noteq> None" "rw_resume (lk_writer l) = []"
    "map we_ok (rw_log (lk_writer l)) = [False, True]"
proof -
  have *: "case moves ex_moves (link_init ex_client ex_server) of None \<Rightarrow> False | Some l \<Rightarrow>
      lk_delivered l = [(5, 1, 0, [7])] \<and> lk_reader l = RReading 3 1 idle_reader \<and>
      length (rw_hist (lk_writer l)) = 1 \<and> lk_wires l (rw_gen (lk_writer l)) = [] \<and>
      rw_writer (lk_writer l) \<noteq> None \<and> rw_resume (lk_writer l) = [] \<and>
      map we_ok (rw_log (lk_writer l)) = [False, True]"
    by code_simp
  then obtain l where l: "moves ex_moves (link_init ex_client ex_server) = Some l"
    by (cases "moves ex_moves (link_init ex_client ex_server)") simp_all
  with * that[OF moves_run[OF l]] show thesis by simp
qed

section \<open>Properties\<close>

lemma link_reachable_inv:
  "fresh_side a \<Longrightarrow> fresh_side b \<Longrightarrow> link_run io (link_init a b) l \<Longrightarrow> link_inv l"
  using link_run_inv link_init_inv by blast

lemma link_sender_inv:
  "link_inv l \<Longrightarrow> sender_inv (c_transport_gen (lk_sender l)) (unat (recv_seq (lk_receiver l))) (lk_wires l)
     (lk_writer l) (lk_sender l)"
  by (simp add: link_inv_def Let_def task_inv_def)



text \<open>
  C2: Nothing is lost. At every moment, whatever has happened to the transports, the frames that
  \<open>prepare_resume\<close> hands to the writer for a peer that reports what it has received are exactly
  those frames kept that the peer does not have.
\<close>

theorem resume_sends_what_is_missing:
  assumes "fresh_side a" "fresh_side b" "link_run io (link_init a b) l"
  shows "fst (prepare_resume (last_received (recovery (lk_receiver l))) (recovery (lk_sender l))) =
    drop (length (lk_delivered l)) (rw_hist (lk_writer l))"
proof -
  from link_reachable_inv[OF assms] have inv: "link_inv l" .
  let ?n = "recv_seq (lk_receiver l)" and ?H = "rw_hist (lk_writer l)" and ?rs = "recovery (lk_sender l)"
  from link_sender_inv[OF inv] have H: "hist_ok ?H" and R: "unat ?n \<le> length ?H"
    and h: "replay.holds ?H (rs_replay ?rs)" and acked: "unat (rb_last_acked (rs_replay ?rs)) \<le> unat ?n"
    by (auto simp: sender_inv_def base_defs)
  have "fst (prepare_resume ?n ?rs) = filter (\<lambda>f. ?n < fr_seq f) ?H"
    using replay.ack_then_snapshot[OF h, of ?n] acked by (simp add: prepare_resume_def Let_def word_le_nat_alt)
  also have "\<dots> = drop (unat ?n) ?H"
    using hist_filter[OF H, of "unat ?n" 0] by (simp add: word_less_nat_alt)
  also have "unat ?n = length (lk_delivered l)" using inv R by (simp add: link_inv_def Let_def)
  finally show ?thesis by (simp add: recv_seq_def last_received_def)
qed

lemma resume_sends_what_is_missing_witness:
  "\<exists>l. link_run io_name (link_init ex_client ex_server) l \<and> length (rw_hist (lk_writer l)) = 1 \<and>
     fst (prepare_resume (last_received (recovery (lk_receiver l))) (recovery (lk_sender l))) = []"
proof -
  obtain l where l: "link_run io_name (link_init ex_client ex_server) l" "lk_delivered l = [(5, 1, 0, [7])]"
    "length (rw_hist (lk_writer l)) = 1" by (rule ex_run)
  from resume_sends_what_is_missing[OF ex_sides_fresh l(1)] l show ?thesis by auto
qed

text \<open>
  C4: The receiver never sees a gap: whenever the reader is about to read a data frame, its number
  is not zero and at most one above the last one received, so the errors "recovery data frame missing
  seq" and "recovery frame sequence gap" do not occur on a link, after any number of lost transports.
\<close>

theorem reader_sees_no_gap:
  assumes "fresh_side a" "fresh_side b" "link_run io (link_init a b) l"
    "lk_reader l = RReading g seq r" "lk_wires l (lk_read_gen l) = (sid, s, fl, pl) # rest" "sid \<noteq> CONTROL_STREAM_ID"
  shows "s \<noteq> 0 \<and> (s \<le> seq \<or> s = seq + 1)"
proof -
  from link_reachable_inv[OF assms(1-3)] have inv: "link_inv l" .
  let ?R = "unat (recv_seq (lk_receiver l))" and ?H = "rw_hist (lk_writer l)"
  let ?f = "(sid, s, fl, pl)"
  from inv assms(4) have seq: "seq = recv_seq (lk_receiver l)" by (simp add: link_inv_def Let_def reader_ok_def)
  have d: "is_data ?f" using assms(6) by (simp add: is_data_def)
  from link_sender_inv[OF inv] have "\<forall>f \<in> set (lk_wires l (lk_read_gen l)). is_data f \<longrightarrow> 0 < seq_of f"
    and p: "prefix (fresh ?R (lk_wires l (lk_read_gen l))) (map frame_of (drop ?R ?H))" and H: "hist_ok ?H"
    by (simp_all add: sender_inv_def base_defs)
  with assms(5) d have s0: "s \<noteq> 0" by (auto simp: seq_of_def)
  have "s \<le> seq \<or> s = seq + 1"
  proof (cases "?R < seq_of ?f")
    case True
    with p assms(5) d have p': "prefix (?f # fresh ?R rest) (map frame_of (drop ?R ?H))" by simp
    then have lt: "?R < length ?H" by (cases "?R < length ?H") simp_all
    with p' have "?f = frame_of (?H ! ?R)" by (simp add: Cons_nth_drop_Suc[OF lt, symmetric])
    with H lt have "unat s = Suc (unat seq)" by (simp add: frame_of_def hist_ok_def seq)
    then have "word_of_nat (unat s) = (word_of_nat (Suc (unat seq)) :: u64)" by simp
    then show ?thesis by (simp add: add.commute)
  next
    case False
    then show ?thesis by (simp add: seq_of_def seq word_le_nat_alt)
  qed
  with s0 show ?thesis by blast
qed

lemma reader_sees_no_gap_witness:
  "\<exists>l. link_run io_name (link_init ex_client ex_server) l \<and> lk_reader l = RReading 3 0 idle_reader \<and>
     lk_wires l (lk_read_gen l) = [(5, 1, 0, [7])] \<and> (1 :: u64) \<le> 0 + 1"
proof -
  have *: "case moves (butlast ex_moves) (link_init ex_client ex_server) of None \<Rightarrow> False | Some l \<Rightarrow>
      lk_reader l = RReading 3 0 idle_reader \<and> lk_wires l (lk_read_gen l) = [(5, 1, 0, [7])]"
    by code_simp
  then obtain l where l: "moves (butlast ex_moves) (link_init ex_client ex_server) = Some l"
    by (cases "moves (butlast ex_moves) (link_init ex_client ex_server)") simp_all
  with * have s: "lk_reader l = RReading 3 0 idle_reader" "lk_wires l (lk_read_gen l) = [(5, 1, 0, [7])]" by simp_all
  from reader_sees_no_gap[OF ex_sides_fresh moves_run[OF l] s] moves_run[OF l] s show ?thesis
    by (auto simp: CONTROL_STREAM_ID_def)
qed

text \<open>
  C5: The writer task never panics on a missing writer (the \<open>expect("writer missing")\<close> of
  \<open>write\<close> and \<open>flush_and_wait\<close>), and never numbers a frame at or below an acknowledgement, so a
  frame is refused only for its size.
\<close>

theorem writer_never_panics:
  assumes "fresh_side a" "fresh_side b" "link_run io (link_init a b) l"
  shows "lk_phase l \<noteq> WriterPanic \<and> last_acked_seq (rs_replay (recovery (lk_sender l))) \<le> c_next_send_seq (lk_sender l)"
proof -
  from link_reachable_inv[OF assms] have inv: "link_inv l" .
  then have "lk_phase l \<noteq> WriterPanic" by (auto simp: link_inv_def Let_def task_inv_def phase_ok_def)
  with link_sender_inv[OF inv] show ?thesis
    by (auto simp: sender_inv_def base_defs last_acked_seq_def word_le_nat_alt)
qed

lemma writer_never_panics_witness:
  "\<exists>l. link_run io_name (link_init ex_client ex_server) l \<and> map we_ok (rw_log (lk_writer l)) = [False, True] \<and>
     lk_phase l \<noteq> WriterPanic"
proof -
  obtain l where l: "link_run io_name (link_init ex_client ex_server) l"
    "map we_ok (rw_log (lk_writer l)) = [False, True]" by (rule ex_run)
  from writer_never_panics[OF ex_sides_fresh l(1)] l show ?thesis by auto
qed



end
