(* ===== verification/LinkRefinement.thy ===== *)
theory LinkRefinement
  imports LinkProperties
begin

text \<open>
  The contract of a version 3 link: a first-in first-out queue from the sender's outbound queue to the
  receiver, which refuses a frame only if it is too large for the replay buffer. Its inputs are the
  frames that the tasks of the sender put into the outbound queue, its outputs those that the receiver
  hands on. Losing transports, replaying, acknowledging and holding frames back are invisible in it:
  every step of the link is a step of the queue with the same inputs and outputs.
\<close>

section \<open>The contract\<close>

type_synonym limits = "int \<times> nat"








section \<open>The abstraction\<close>




definition limits :: "('r, 'j) connection \<Rightarrow> limits" where
  "limits c = (rb_max_bytes (rs_replay (recovery c)), rb_header_len (rs_replay (recovery c)))"


section \<open>What an operation of the writer does to the queue\<close>


definition quiet :: "recovery_writer \<Rightarrow> ('r, 'j) connection \<Rightarrow> recovery_writer \<Rightarrow> ('r, 'j) connection \<Rightarrow> bool" where
  "quiet rw c rw' c' \<longleftrightarrow> rw_hist rw' = rw_hist rw \<and> rw_held rw' = rw_held rw \<and>
     c_outbound c' = c_outbound c \<and> limits c' = limits c"

lemma quiet_refl [simp]: "quiet rw c rw c" by (simp add: quiet_def)







lemma outbound_detach [simp]: "c_outbound (detach_transport gen abort c) = c_outbound c"
proof -
  have [simp]: "c_outbound (mark_closed c) = c_outbound c" for c :: "('a, 'b) connection"
    using link_same_mark_closed[of c] by (simp add: link_same_def)
  have [simp]: "c_outbound (spawn_reconnect_loop c) = c_outbound c" "c_outbound (spawn_server_expiry g c) = c_outbound c"
    for c :: "('a, 'b) connection" and g
    by (auto simp: spawn_reconnect_loop_def spawn_server_expiry_def Let_def split: option.split)
  show ?thesis
    by (simp add: detach_transport_def Let_def abort_reader_def split: option.split recovery_role.split)
qed





lemma limits_resolve [simp]: "limits (resolve t res c) = limits c" "c_outbound (resolve t res c) = c_outbound c"
  by (simp_all add: resolve_def limits_def split: option.split)














section \<open>The refinement\<close>





















end
