(* ===== verification/TableRaces.thy ===== *)
theory TableRaces
  imports StreamTable ConnectionOps "HOL-Library.Multiset"
begin

text \<open>
  Opening, removing and closing streams at the grain of the code: each step holds a lock once, or does
  one atomic operation, and the steps of any number of tasks interleave. Run without interruption, the
  steps of a task are the atomic operations of \<open>Connection\<close>; interleaved, they keep the table
  consistent, no stream is registered after a close has taken the table, and every stream is closed
  and counted once.
\<close>

section \<open>The steps of one task\<close>

text \<open>
  Opening (\<open>make_stream\<close>): the flag is checked under the lock of the table, the stream registered under
  the same lock, and counted after it. Removing: a stream of the peer is first reserved; then the
  entry is taken out, its failure promoted, its channels closed, and the close counted by the one who
  closed them. Closing (\<open>mark_closed\<close>): the flag, the table, the default stream, then one stream after
  the other.
\<close>

datatype table_task = OpenCheck u32 | OpenHolds u32 | OpenCount
  | ReleaseCheck u32 | ReleaseMark u32 | RemoveTake u32 | RemovePromote nat | RemoveClose nat | RemoveCount
  | CloseFlag | CloseTake | CloseDefault "nat list" | CloseEach "nat list" | CloseCount nat "nat list"
  | CloseNotify nat "nat list" | TaskEnded

definition count_opened :: "('r, 'j) connection \<Rightarrow> ('r, 'j) connection" where
  "count_opened c = c\<lparr>c_debug := (c_debug c)\<lparr>cd_streams_opened := cd_streams_opened (c_debug c) + 1\<rparr>\<rparr>"

definition count_closed :: "('r, 'j) connection \<Rightarrow> ('r, 'j) connection" where
  "count_closed c = c\<lparr>c_debug := (c_debug c)\<lparr>cd_streams_closed := cd_streams_closed (c_debug c) + 1\<rparr>\<rparr>"

definition open_check :: "u32 \<Rightarrow> ('r, 'j) connection \<Rightarrow> table_task \<times> ('r, 'j) connection" where
  [simp]: "open_check sid c = (if c_closed c then TaskEnded else OpenHolds sid, c)"

definition open_register :: "u32 \<Rightarrow> ('r, 'j) connection \<Rightarrow> table_task \<times> ('r, 'j) connection" where
  "open_register sid c =
     (let s0 = new_stream_inner sid (stream_queue_size c) (c_has_handlers c);
          s = (case c_default_recv_timeout c of Some timeout \<Rightarrow> set_recv_timeout timeout s0 | None \<Rightarrow> s0)
      in if map_of (c_streams c) sid \<noteq> None then (TaskEnded, c)
         else (case alloc_stream s c of
           (r, c1) \<Rightarrow>
             let c2 = c1\<lparr>c_streams := AList.update sid r (c_streams c1)\<rparr>
             in (OpenCount, if sid = DEFAULT_STREAM_ID then c2\<lparr>c_default_stream := Some r\<rparr> else c2)))"

text \<open>\<open>close_one\<close>: \<open>close_channels\<close> on a stream of the store; the task goes on as the first or the second one.\<close>

definition close_one :: "nat \<Rightarrow> table_task \<Rightarrow> table_task \<Rightarrow> ('r, 'j) connection \<Rightarrow> table_task \<times> ('r, 'j) connection" where
  "close_one r closed already c = (case close_channels (stream_at c r) of
     (True, s) \<Rightarrow> (closed, c\<lparr>c_heap := (c_heap c)[r := s]\<rparr>) | (False, _) \<Rightarrow> (already, c))"

text \<open>\<open>close_all_streams\<close> takes the table, and its loop goes over the streams taken.\<close>

definition close_take :: "('r, 'j) connection \<Rightarrow> table_task \<times> ('r, 'j) connection" where
  [simp]: "close_take c = (CloseDefault (map snd (c_streams c)), c\<lparr>c_streams := []\<rparr>)"

fun close_loop :: "nat list \<Rightarrow> ('r, 'j) connection \<Rightarrow> table_task \<times> ('r, 'j) connection" where
  "close_loop [] c = (TaskEnded, c)"
| "close_loop (r # rs) c = close_one r (CloseCount r rs) (CloseNotify r rs) c"

fun table_turn :: "table_task \<Rightarrow> ('r, 'j) connection \<Rightarrow> table_task \<times> ('r, 'j) connection" where
  "table_turn (OpenCheck sid) c = open_check sid c"
| "table_turn (OpenHolds sid) c = open_register sid c"
| "table_turn OpenCount c = (TaskEnded, count_opened c)"
| "table_turn (ReleaseCheck sid) c =
     (if sid \<noteq> DEFAULT_STREAM_ID \<and> map_of (c_streams c) sid \<noteq> None then ReleaseMark sid else RemoveTake sid, c)"
| "table_turn (ReleaseMark sid) c = (RemoveTake sid, c\<lparr>c_closed_peer := insert sid (c_closed_peer c)\<rparr>)"
| "table_turn (RemoveTake sid) c = (case map_of (c_streams c) sid of
     None \<Rightarrow> (TaskEnded, c)
   | Some r \<Rightarrow> (RemovePromote r, c\<lparr>c_streams := AList.delete sid (c_streams c)\<rparr>))"
| "table_turn (RemovePromote r) c =
     (RemoveClose r, c\<lparr>c_debug := promote_failure_to (c_now c) (st_debug (stream_at c r)) (c_debug c)\<rparr>)"
| "table_turn (RemoveClose r) c = close_one r RemoveCount TaskEnded c"
| "table_turn RemoveCount c = (TaskEnded, count_closed c)"
| "table_turn CloseFlag c =
     (if c_closed c then (TaskEnded, c)
      else (CloseTake, (abort_reader c)\<lparr>c_closed := True, c_transport_attached := False\<rparr>))"
| "table_turn CloseTake c = close_take c"
| "table_turn (CloseDefault rs) c = (CloseEach rs, c\<lparr>c_default_stream := None\<rparr>)"
| "table_turn (CloseEach rs) c = close_loop rs c"
| "table_turn (CloseCount r rs) c = (CloseNotify r rs, count_closed c)"
| "table_turn (CloseNotify r rs) c = (CloseEach rs, notify_close r c)"
| "table_turn TaskEnded c = (TaskEnded, c)"

section \<open>A task alone\<close>

inductive alone :: "table_task \<times> ('r, 'j) connection \<Rightarrow> table_task \<times> ('r, 'j) connection \<Rightarrow> bool" where
  "alone (t, c) (table_turn t c)"

lemma alone_turn: "alone\<^sup>*\<^sup>* (table_turn t c) x \<Longrightarrow> alone\<^sup>*\<^sup>* (t, c) x"
  using converse_rtranclp_into_rtranclp[of alone "(t, c)" "table_turn t c" x] alone.intros by blast

lemma alone_make_stream: "alone\<^sup>*\<^sup>* (OpenCheck sid, c) (TaskEnded, snd (make_stream sid c))"
proof (cases "c_closed c \<or> map_of (c_streams c) sid \<noteq> None")
  case True
  then show ?thesis
    by (cases "c_closed c") (auto simp: make_stream_def Let_def open_register_def intro!: alone_turn)
next
  case False
  have "alone\<^sup>*\<^sup>* (table_turn OpenCount (snd (open_register sid c))) (TaskEnded, snd (make_stream sid c))"
    using False by (simp add: make_stream_def open_register_def Let_def count_opened_def alloc_stream_def)
  moreover have "open_register sid c = (OpenCount, snd (open_register sid c))"
    using False by (simp add: open_register_def Let_def alloc_stream_def)
  ultimately have "alone\<^sup>*\<^sup>* (open_register sid c) (TaskEnded, snd (make_stream sid c))"
    using alone_turn by metis
  with False show ?thesis by (auto intro!: alone_turn)
qed

lemma alone_remove_stream: "alone\<^sup>*\<^sup>* (RemoveTake sid, c) (TaskEnded, snd (remove_stream sid c))"
  by (rule alone_turn, cases "map_of (c_streams c) sid")
    (auto simp: remove_stream_def close_one_def close_and_count_def close_channels_def count_closed_def
      intro!: alone_turn)

lemma alone_remove_peer_stream: "alone\<^sup>*\<^sup>* (ReleaseCheck sid, c) (TaskEnded, snd (remove_peer_stream sid c))"
  using alone_remove_stream[of sid c]
    alone_remove_stream[of sid "c\<lparr>c_closed_peer := insert sid (c_closed_peer c)\<rparr>"]
  by (auto simp: remove_peer_stream_def intro!: alone_turn)

lemma alone_close_each:
  "alone\<^sup>*\<^sup>* (CloseEach (map snd xs), c)
     (TaskEnded, fold (\<lambda>(sid :: u32, r) c. notify_close r (close_and_count r c)) xs c)"
proof (induction xs arbitrary: c)
  case Nil
  then show ?case by (auto intro!: alone_turn)
next
  case (Cons x xs)
  obtain sid r where x: "x = (sid, r)" by (cases x)
  let ?c = "notify_close r (close_and_count r c)"
  have "alone\<^sup>*\<^sup>* (CloseEach (map snd (x # xs)), c) (CloseEach (map snd xs), ?c)"
    by (rule alone_turn)
      (auto simp: x close_one_def close_and_count_def close_channels_def count_closed_def intro!: alone_turn)
  with Cons.IH[of ?c] x show ?case by simp
qed

lemma alone_mark_closed: "alone\<^sup>*\<^sup>* (CloseFlag, c) (TaskEnded, mark_closed c)"
  by (rule alone_turn)
    (auto simp: mark_closed_def close_all_streams_def intro!: alone_turn alone_close_each[of _ "_\<lparr>c_default_stream := _\<rparr>"])

section \<open>The tasks together\<close>

text \<open>\<open>tb_opened\<close> are the streams registered so far. A task that needs the lock of the table waits for its holder.\<close>

record ('r, 'j) tables =
  tb_conn :: "('r, 'j) connection"
  tb_tasks :: "table_task multiset"
  tb_opened :: "nat list"

definition needs_lock :: "table_task \<Rightarrow> bool" where
  "needs_lock t \<longleftrightarrow> (case t of OpenCheck _ \<Rightarrow> True | ReleaseCheck sid \<Rightarrow> sid \<noteq> DEFAULT_STREAM_ID
     | RemoveTake _ \<Rightarrow> True | CloseTake \<Rightarrow> True | _ \<Rightarrow> False)"

definition holds_lock :: "table_task \<Rightarrow> bool" where
  "holds_lock t \<longleftrightarrow> (case t of OpenHolds _ \<Rightarrow> True | _ \<Rightarrow> False)"

definition starting :: "table_task \<Rightarrow> bool" where
  "starting t \<longleftrightarrow> (case t of OpenCheck _ \<Rightarrow> True | ReleaseCheck _ \<Rightarrow> True | RemoveTake _ \<Rightarrow> True | CloseFlag \<Rightarrow> True | _ \<Rightarrow> False)"

definition registered :: "table_task \<Rightarrow> table_task \<Rightarrow> ('r, 'j) connection \<Rightarrow> nat list" where
  "registered t t' c = (case t of OpenHolds _ \<Rightarrow> (if t' = OpenCount then [length (c_heap c)] else []) | _ \<Rightarrow> [])"

text \<open>A call begins; a task makes a turn; or anything else happens that leaves the table and its counters alone.\<close>

inductive race_step :: "('r, 'j) tables \<Rightarrow> ('r, 'j) tables \<Rightarrow> bool" where
  Begin: "starting t \<Longrightarrow> race_step x (x\<lparr>tb_tasks := add_mset t (tb_tasks x)\<rparr>)"
| Go: "tb_tasks x = add_mset t M \<Longrightarrow> (needs_lock t \<longrightarrow> (\<forall>u \<in># M. \<not> holds_lock u)) \<Longrightarrow>
     table_turn t (tb_conn x) = (t', c') \<Longrightarrow>
     race_step x (x\<lparr>tb_conn := c', tb_tasks := add_mset t' M,
       tb_opened := tb_opened x @ registered t t' (tb_conn x)\<rparr>)"
| Other: "same_table (tb_conn x) c' \<Longrightarrow> race_step x (x\<lparr>tb_conn := c'\<rparr>)"

abbreviation race_run where "race_run \<equiv> race_step\<^sup>*\<^sup>*"

section \<open>The invariant\<close>

text \<open>The streams that a task has taken out of the table and not yet closed, and its counts to come.\<close>

fun held_by :: "table_task \<Rightarrow> nat list" where
  "held_by (RemovePromote r) = [r]"
| "held_by (RemoveClose r) = [r]"
| "held_by (CloseDefault rs) = rs"
| "held_by (CloseEach rs) = rs"
| "held_by (CloseCount r rs) = rs"
| "held_by (CloseNotify r rs) = rs"
| "held_by _ = []"

definition held :: "table_task multiset \<Rightarrow> nat multiset" where
  "held M = (\<Sum>t \<in># M. mset (held_by t))"

definition uncounted :: "(table_task \<Rightarrow> bool) \<Rightarrow> table_task multiset \<Rightarrow> nat" where
  "uncounted P M = size (filter_mset P M)"

definition counts_open :: "table_task \<Rightarrow> bool" where "counts_open t \<longleftrightarrow> t = OpenCount"

definition counts_close :: "table_task \<Rightarrow> bool" where
  "counts_close t \<longleftrightarrow> (case t of RemoveCount \<Rightarrow> True | CloseCount _ _ \<Rightarrow> True | _ \<Rightarrow> False)"

definition takes_default :: "table_task \<Rightarrow> bool" where
  "takes_default t \<longleftrightarrow> (case t of CloseTake \<Rightarrow> True | CloseDefault _ \<Rightarrow> True | _ \<Rightarrow> False)"

definition open_refs :: "('r, 'j) connection \<Rightarrow> nat list \<Rightarrow> nat list" where
  "open_refs c rs = filter (\<lambda>r. \<not> st_closed (stream_at c r)) rs"

definition refs_ok :: "('r, 'j) connection \<Rightarrow> table_task multiset \<Rightarrow> nat list \<Rightarrow> bool" where
  "refs_ok c M rs \<longleftrightarrow> distinct rs \<and> (\<forall>r \<in> set rs. r < length (c_heap c)) \<and>
     distinct (map fst (c_streams c)) \<and> (\<forall>(sid, r) \<in> set (c_streams c). st_id (stream_at c r) = sid) \<and>
     mset (map snd (c_streams c)) + held M = mset (open_refs c rs)"

definition counts_ok :: "('r, 'j) connection \<Rightarrow> table_task multiset \<Rightarrow> nat list \<Rightarrow> bool" where
  "counts_ok c M rs \<longleftrightarrow>
     cd_streams_opened (c_debug c) + word_of_nat (uncounted counts_open M) = word_of_nat (length rs) \<and>
     cd_streams_closed (c_debug c) + word_of_nat (uncounted counts_close M) =
       word_of_nat (length rs - length (open_refs c rs))"

definition flags_ok :: "('r, 'j) connection \<Rightarrow> table_task multiset \<Rightarrow> bool" where
  "flags_ok c M \<longleftrightarrow>
     (c_closed c \<and> CloseTake \<notin># M \<longrightarrow> c_streams c = [] \<and> (\<forall>u \<in># M. \<not> holds_lock u)) \<and>
     (c_closed c \<and> (\<forall>u \<in># M. \<not> takes_default u) \<longrightarrow> c_default_stream c = None) \<and>
     ((\<exists>u \<in># M. takes_default u) \<longrightarrow> c_closed c)"

definition race_ok :: "('r, 'j) tables \<Rightarrow> bool" where
  "race_ok x \<longleftrightarrow> refs_ok (tb_conn x) (tb_tasks x) (tb_opened x) \<and> counts_ok (tb_conn x) (tb_tasks x) (tb_opened x) \<and>
     flags_ok (tb_conn x) (tb_tasks x)"

lemmas race_defs = race_ok_def refs_ok_def counts_ok_def flags_ok_def

lemma held_add [simp]: "held (add_mset t M) = mset (held_by t) + held M" "held {#} = {#}"
  by (simp_all add: held_def)

lemma uncounted_add [simp]:
  "uncounted P (add_mset t M) = (if P t then 1 else 0) + uncounted P M" "uncounted P {#} = 0"
  by (simp_all add: uncounted_def)

lemmas task_defs = needs_lock_def holds_lock_def starting_def registered_def counts_open_def counts_close_def
  takes_default_def

lemma race_ok_begin: "starting t \<Longrightarrow> race_ok x \<Longrightarrow> race_ok (x\<lparr>tb_tasks := add_mset t (tb_tasks x)\<rparr>)"
  by (cases t) (auto simp: race_defs task_defs)

lemma open_refs_cong:
  "(\<And>r. r \<in> set rs \<Longrightarrow> st_closed (stream_at c' r) = st_closed (stream_at c r)) \<Longrightarrow> open_refs c' rs = open_refs c rs"
  by (simp add: open_refs_def cong: filter_cong)

lemma entries_opened:
  assumes "race_ok x" "(sid, r) \<in> set (c_streams (tb_conn x))"
  shows "r \<in> set (tb_opened x)" "\<not> st_closed (stream_at (tb_conn x) r)" "r < length (c_heap (tb_conn x))"
proof -
  have "r \<in># mset (map snd (c_streams (tb_conn x))) + held (tb_tasks x)" using assms(2) by force
  with assms(1) have "r \<in># mset (open_refs (tb_conn x) (tb_opened x))" by (simp add: race_defs)
  then show "r \<in> set (tb_opened x)" "\<not> st_closed (stream_at (tb_conn x) r)" by (auto simp: open_refs_def)
  with assms(1) show "r < length (c_heap (tb_conn x))" by (auto simp: race_defs)
qed

lemma race_ok_other:
  assumes "same_table (tb_conn x) c'" "race_ok x"
  shows "race_ok (x\<lparr>tb_conn := c'\<rparr>)"
proof -
  have "open_refs c' (tb_opened x) = open_refs (tb_conn x) (tb_opened x)"
    using assms by (intro open_refs_cong) (auto simp: race_defs same_table_def)
  moreover have "\<forall>(sid, r) \<in> set (c_streams (tb_conn x)). st_id (stream_at c' r) = sid"
    using assms entries_opened[OF assms(2)] by (fastforce simp: same_table_def race_defs)
  ultimately show ?thesis using assms by (auto simp: race_defs same_table_def)
qed

abbreviation race_after :: "table_task \<Rightarrow> table_task multiset \<Rightarrow> ('r, 'j) tables \<Rightarrow> ('r, 'j) tables" where
  "race_after t M x \<equiv> (case table_turn t (tb_conn x) of (t', c') \<Rightarrow>
     x\<lparr>tb_conn := c', tb_tasks := add_mset t' M, tb_opened := tb_opened x @ registered t t' (tb_conn x)\<rparr>)"

text \<open>Registering: the stream is the next of the store.\<close>

lemma race_ok_register:
  assumes ok: "race_ok x" and M: "tb_tasks x = add_mset (OpenHolds sid) M"
  shows "race_ok (race_after (OpenHolds sid) M x)"
proof -
  let ?c = "tb_conn x" and ?rs = "tb_opened x"
  let ?r = "length (c_heap ?c)"
  define s0 :: "('a, 'b) stream" where "s0 = new_stream_inner sid (stream_queue_size ?c) (c_has_handlers ?c)"
  define s where "s = (case c_default_recv_timeout ?c of Some timeout \<Rightarrow> set_recv_timeout timeout s0 | None \<Rightarrow> s0)"
  have s: "st_id s = sid" "\<not> st_closed s"
    by (simp_all add: s_def s0_def new_stream_inner_def set_recv_timeout_def split: option.split)
  have lt: "\<forall>r \<in> set ?rs. r < ?r" using ok by (simp add: race_defs)
  show ?thesis
  proof (cases "map_of (c_streams ?c) sid")
    case (Some q)
    with ok M show ?thesis by (auto simp: open_register_def race_defs task_defs)
  next
    case None
    then have new: "sid \<notin> fst ` set (c_streams ?c)" by (simp add: map_of_eq_None_iff)
    define c' where "c' = ?c\<lparr>c_heap := c_heap ?c @ [s], c_streams := c_streams ?c @ [(sid, ?r)],
      c_default_stream := (if sid = 0 then Some ?r else c_default_stream ?c)\<rparr>"
    have turn: "open_register sid ?c = (OpenCount, c')"
      using None AList_update_new[OF None] by (simp add: open_register_def alloc_stream_def Let_def DEFAULT_STREAM_ID_def
          c'_def s_def[symmetric] s0_def[symmetric]) auto
    have open': "open_refs c' (?rs @ [?r]) = open_refs ?c ?rs @ [?r]"
      using s lt by (auto simp: open_refs_def c'_def nth_append intro!: filter_cong)
    have len: "length (open_refs ?c ?rs) \<le> length ?rs" by (simp add: open_refs_def)
    have ids: "\<forall>(i, r) \<in> set (c_streams c'). st_id (stream_at c' r) = i"
      using ok s entries_opened(3)[OF ok] by (fastforce simp: c'_def race_defs nth_append)
    have closing: "c_closed ?c \<longrightarrow> CloseTake \<in># M"
      using ok M by (auto simp: race_defs task_defs)
    have fields: "c_streams c' = c_streams ?c @ [(sid, ?r)]" "c_debug c' = c_debug ?c" "c_closed c' = c_closed ?c"
      "length (c_heap c') = Suc ?r"
      by (simp_all add: c'_def)
    have late: "\<not> (c_closed ?c \<and> (\<forall>u \<in># M. \<not> takes_default u))"
      using closing by (force simp: takes_default_def)
    have tasks: "\<not> takes_default (OpenHolds sid)" "\<not> takes_default OpenCount" "counts_open OpenCount"
      "\<not> counts_open (OpenHolds sid)" "\<not> counts_close OpenCount" "\<not> counts_close (OpenHolds sid)"
      by (simp_all add: task_defs)
    have old: "refs_ok ?c (add_mset (OpenHolds sid) M) ?rs" "counts_ok ?c (add_mset (OpenHolds sid) M) ?rs"
      "flags_ok ?c (add_mset (OpenHolds sid) M)" using ok M by (simp_all add: race_ok_def)
    have "refs_ok c' (add_mset OpenCount M) (?rs @ [?r])"
      using old(1) new ids lt unfolding refs_ok_def by (auto simp: fields open')
    moreover have "counts_ok c' (add_mset OpenCount M) (?rs @ [?r])"
      using old(2) len tasks unfolding counts_ok_def by (simp add: fields open' Suc_diff_le algebra_simps)
    moreover have "flags_ok c' (add_mset OpenCount M)"
      using old(3) tasks late closing unfolding flags_ok_def by (auto simp: fields)
    ultimately have "race_ok (x\<lparr>tb_conn := c', tb_tasks := add_mset OpenCount M, tb_opened := ?rs @ [?r]\<rparr>)"
      by (simp add: race_ok_def)
    with turn show ?thesis by (simp add: registered_def)
  qed
qed

text \<open>Closing one stream that the task holds.\<close>

lemma race_ok_close_one:
  assumes ok: "race_ok x" and M: "tb_tasks x = add_mset t M" and r: "held_by t = r # rs"
    and t: "\<not> counts_close t" "\<not> counts_open t" "\<not> holds_lock t" "\<not> takes_default t"
    and t1: "counts_close t1" "\<not> counts_open t1" "\<not> holds_lock t1" "\<not> takes_default t1" "held_by t1 = rs"
  shows "\<exists>c'. close_one r t1 t2 (tb_conn x) = (t1, c') \<and> race_ok (x\<lparr>tb_conn := c', tb_tasks := add_mset t1 M\<rparr>)"
proof -
  let ?c = "tb_conn x" and ?os = "tb_opened x"
  have eq: "mset (map snd (c_streams ?c)) + (add_mset r (mset rs) + held M) = mset (open_refs ?c ?os)"
    and dist: "distinct ?os" using ok M r by (simp_all add: race_defs)
  have "r \<in># mset (open_refs ?c ?os)" unfolding eq[symmetric] by simp
  then have in_set: "r \<in> set ?os" and "\<not> st_closed (stream_at ?c r)" by (auto simp: open_refs_def)
  then have lt: "r < length (c_heap ?c)" using ok by (simp add: race_defs)
  define c' where "c' = ?c\<lparr>c_heap := (c_heap ?c)[r := (stream_at ?c r)\<lparr>st_closed := True\<rparr>]\<rparr>"
  have c: "close_one r t1 t2 ?c = (t1, c')"
    using \<open>\<not> st_closed (stream_at ?c r)\<close> by (simp add: close_one_def close_channels_def c'_def)
  have "open_refs c' ?os = filter (\<lambda>q. q \<noteq> r) (open_refs ?c ?os)"
    using lt by (auto simp: open_refs_def c'_def nth_list_update intro!: filter_cong)
  then have "mset (open_refs c' ?os) = filter_mset (\<lambda>q. q \<noteq> r) (mset (open_refs ?c ?os))" by simp
  also have "\<dots> = mset (open_refs ?c ?os) - {#r#}"
  proof -
    have "distinct (open_refs ?c ?os)" using dist by (simp add: open_refs_def)
    then have "filter (\<lambda>q. q \<noteq> r) (open_refs ?c ?os) = remove1 r (open_refs ?c ?os)"
      by (simp add: distinct_remove1_removeAll removeAll_filter_not_eq) (metis (no_types, lifting) filter_cong)
    then show ?thesis by (metis mset_filter mset_remove1)
  qed
  finally have refs: "mset (open_refs c' ?os) = mset (map snd (c_streams ?c)) + (mset rs + held M)"
    unfolding eq[symmetric] by simp
  have "Suc (length (open_refs c' ?os)) = length (open_refs ?c ?os)"
    using arg_cong[OF eq, of size] arg_cong[OF refs, of size] by simp
  moreover have "length (open_refs ?c ?os) \<le> length ?os" by (simp add: open_refs_def)
  ultimately have "length ?os - length (open_refs c' ?os) = Suc (length ?os - length (open_refs ?c ?os))" by simp
  moreover have "\<forall>(i, q) \<in> set (c_streams ?c). st_id (stream_at c' q) = i"
    using ok lt by (fastforce simp: c'_def race_defs nth_list_update)
  moreover have "c_streams c' = c_streams ?c" "c_debug c' = c_debug ?c" "c_closed c' = c_closed ?c"
    "c_default_stream c' = c_default_stream ?c" "length (c_heap c') = length (c_heap ?c)"
    by (simp_all add: c'_def)
  moreover have "t \<noteq> CloseTake" "t1 \<noteq> CloseTake" using t(4) t1(4) by (auto simp: takes_default_def)
  ultimately have "race_ok (x\<lparr>tb_conn := c', tb_tasks := add_mset t1 M\<rparr>)"
    using ok t t1 unfolding race_defs M by (simp add: refs)
  with c show ?thesis by blast
qed

text \<open>Taking one entry out of the table.\<close>

lemma mset_take_entry:
  assumes "distinct (map fst xs)" "map_of xs k = Some r"
  shows "mset (map snd xs) = add_mset r (mset (map snd (AList.delete k xs)))"
  using assms
proof (induction xs)
  case (Cons x xs)
  show ?case
  proof (cases "fst x = k")
    case True
    with Cons.prems have "k \<notin> fst ` set xs" by auto
    then have "AList.delete k xs = xs" by (simp add: delete_idem)
    with True Cons.prems(2) show ?thesis by (cases x) (auto simp: AList.delete_eq)
  next
    case False
    with Cons show ?thesis by (cases x) (auto simp: AList.delete_eq)
  qed
qed simp

lemma word_of_nat_if: "(word_of_nat (if P then 1 else 0) :: u64) = (if P then 1 else 0)" by simp

lemma refs_ok_cong:
  assumes "refs_ok c M rs" "c_streams c' = c_streams c" "c_heap c' = c_heap c" "held M' = held M"
  shows "refs_ok c' M' rs"
  using assms by (simp add: refs_ok_def open_refs_def)

lemma race_ok_take_entry:
  assumes ok: "race_ok x" and M: "tb_tasks x = add_mset (RemoveTake sid) M"
  shows "race_ok (race_after (RemoveTake sid) M x)"
proof (cases "map_of (c_streams (tb_conn x)) sid")
  case None
  with ok M show ?thesis by (auto simp: race_defs task_defs)
next
  case (Some r)
  let ?d = "AList.delete sid (c_streams (tb_conn x))"
  have d: "distinct (map fst (c_streams (tb_conn x)))" using ok by (simp add: race_defs)
  have "distinct (map fst ?d)" "set ?d \<subseteq> set (c_streams (tb_conn x))"
    using d by (auto simp: AList.delete_eq distinct_map_filter)
  with ok M Some mset_take_entry[OF d Some] have "refs_ok (tb_conn x\<lparr>c_streams := ?d\<rparr>) (add_mset (RemovePromote r) M) (tb_opened x)"
    by (auto simp: race_ok_def refs_ok_def open_refs_def)
  moreover have "counts_ok (tb_conn x\<lparr>c_streams := ?d\<rparr>) (add_mset (RemovePromote r) M) (tb_opened x)"
    "flags_ok (tb_conn x\<lparr>c_streams := ?d\<rparr>) (add_mset (RemovePromote r) M)"
    using ok M by (auto simp: race_ok_def counts_ok_def flags_ok_def task_defs open_refs_def)
  ultimately show ?thesis using Some by (simp add: race_ok_def registered_def)
qed

text \<open>The turns that leave the store and the table alone.\<close>

lemma race_ok_local:
  assumes ok: "race_ok x" and M: "tb_tasks x = add_mset t M"
    and t: "t \<in> {OpenCheck sid, OpenCount, ReleaseCheck sid, ReleaseMark sid, RemovePromote r, RemoveCount, CloseFlag,
      CloseDefault rs, CloseEach [], CloseCount r rs, CloseNotify r rs, TaskEnded}"
  shows "race_ok (race_after t M x)"
proof -
  obtain t' c' where turn: "table_turn t (tb_conn x) = (t', c')" by fastforce
  have heap: "c_streams c' = c_streams (tb_conn x)" "c_heap c' = c_heap (tb_conn x)" "held_by t' = held_by t"
    using t turn by (auto simp: count_opened_def count_closed_def split: if_splits)
  from ok M have old: "refs_ok (tb_conn x) (add_mset t M) (tb_opened x)"
    "counts_ok (tb_conn x) (add_mset t M) (tb_opened x)" "flags_ok (tb_conn x) (add_mset t M)"
    by (simp_all add: race_ok_def)
  have "refs_ok c' (add_mset t' M) (tb_opened x)" using refs_ok_cong[OF old(1)] heap by simp
  moreover have open_eq: "open_refs c' (tb_opened x) = open_refs (tb_conn x) (tb_opened x)"
    using heap by (simp add: open_refs_def)
  have cnt: "cd_streams_opened (c_debug c') + (if counts_open t' then 1 else 0) =
      cd_streams_opened (c_debug (tb_conn x)) + (if counts_open t then 1 else 0)"
    "cd_streams_closed (c_debug c') + (if counts_close t' then 1 else 0) =
      cd_streams_closed (c_debug (tb_conn x)) + (if counts_close t then 1 else 0)"
    using t turn
    by (auto simp: counts_open_def counts_close_def count_opened_def count_closed_def split: if_splits)
  then have "counts_ok c' (add_mset t' M) (tb_opened x)"
    using old(2) unfolding counts_ok_def open_eq uncounted_add of_nat_add word_of_nat_if
    by (metis (no_types) add.assoc)
  moreover have "flags_ok c' (add_mset t' M)" using t
    by (elim insertE emptyE; use old(3) turn in
        \<open>auto simp: flags_ok_def count_opened_def count_closed_def takes_default_def holds_lock_def split: if_splits\<close>)
  moreover have "registered t t' (tb_conn x) = []" using t by (auto simp: registered_def)
  ultimately show ?thesis using turn by (simp add: race_ok_def)
qed

text \<open>\<open>close_all_streams\<close> takes the whole table, under its lock.\<close>

lemma race_ok_take_table:
  assumes ok: "race_ok x" and M: "tb_tasks x = add_mset CloseTake M" and lock: "\<forall>u \<in># M. \<not> holds_lock u"
  shows "race_ok (race_after CloseTake M x)"
  using ok M lock by (auto simp: race_ok_def refs_ok_def counts_ok_def flags_ok_def open_refs_def task_defs)

lemma race_ok_go:
  assumes ok: "race_ok x" and M: "tb_tasks x = add_mset t M" and lock: "needs_lock t \<longrightarrow> (\<forall>u \<in># M. \<not> holds_lock u)"
  shows "race_ok (race_after t M x)"
proof (cases t)
  case (OpenHolds sid)
  with race_ok_register[OF ok, of sid M] M show ?thesis by simp
next
  case (RemoveTake sid)
  with race_ok_take_entry[OF ok, of sid M] M show ?thesis by simp
next
  case CloseTake
  with race_ok_take_table[OF ok] M lock show ?thesis by (simp add: needs_lock_def)
next
  case (RemoveClose r)
  with race_ok_close_one[OF ok M, of r "[]" RemoveCount TaskEnded] show ?thesis
    by (auto simp: task_defs)
next
  case (CloseEach rs)
  show ?thesis
  proof (cases rs)
    case Nil
    with race_ok_local[OF ok M] CloseEach show ?thesis by simp
  next
    case (Cons r rs')
    with CloseEach race_ok_close_one[OF ok M, of r rs' "CloseCount r rs'" "CloseNotify r rs'"] show ?thesis
      by (auto simp: task_defs)
  qed
qed (use race_ok_local[OF ok M] in simp_all)

lemma race_step_ok: "race_step x y \<Longrightarrow> race_ok x \<Longrightarrow> race_ok y"
proof (induction rule: race_step.induct)
  case (Begin t x)
  then show ?case by (rule race_ok_begin)
next
  case (Go x t M t' c')
  from race_ok_go[OF Go(4,1,2)] Go(3) show ?case by simp
next
  case (Other x c')
  then show ?case by (rule race_ok_other)
qed

definition race_init :: "bool \<Rightarrow> bool \<Rightarrow> bool \<Rightarrow> ('r, 'j) tables" where
  "race_init h on_new on_close = \<lparr>tb_conn = new_unstarted h on_new on_close, tb_tasks = {#}, tb_opened = []\<rparr>"

lemma race_init_ok: "race_ok (race_init h on_new on_close)"
  by (simp add: race_init_def race_defs open_refs_def new_unstarted_def new_conn_counters_def)

lemma race_run_ok: "race_run (race_init h on_new on_close) x \<Longrightarrow> race_ok x"
  by (induction rule: rtranclp_induct) (simp_all add: race_init_ok race_step_ok)

lemma distinct_part:
  assumes "mset xs + B = mset ys" "distinct ys"
  shows "distinct xs"
proof -
  obtain zs where "mset zs = B" using ex_mset by blast
  with assms(1) have "mset (xs @ zs) = mset ys" by simp
  with assms(2) have "distinct (xs @ zs)" using mset_eq_imp_distinct_iff by blast
  then show ?thesis by simp
qed

section \<open>Properties\<close>

text \<open>
  C10: The table of streams survives races. Whatever the interleaving of opening, removing and closing
  calls, at the grain of single locks and atomic operations: IDs and streams of the table are distinct,
  and each entry is an open stream of its ID; after a close has taken the table, it stays empty,
  even if a stream was about to be registered; and once all calls have returned, the counters of the
  debug state are the numbers of streams registered and of those closed, their difference is the
  number of entries, and on a closed connection there is no default stream left and every stream ever
  registered is closed. (In between the counters lag behind, as the documentation says.)
\<close>

theorem table_survives_races:
  fixes reg :: codec_registry
  assumes "race_run (race_init h on_new on_close) x"
  defines "c \<equiv> tb_conn x" and "dbg \<equiv> conn_debug_state reg (tb_conn x)"
  shows "distinct (map fst (c_streams c)) \<and> distinct (map snd (c_streams c)) \<and>
    (\<forall>(sid, r) \<in> set (c_streams c). st_id (stream_at c r) = sid \<and> \<not> st_closed (stream_at c r)) \<and>
    (c_closed c \<and> CloseTake \<notin># tb_tasks x \<longrightarrow> c_streams c = []) \<and>
    (set_mset (tb_tasks x) \<subseteq> {TaskEnded} \<longrightarrow>
      cc_streams_opened (cds_counters dbg) = word_of_nat (length (tb_opened x)) \<and>
      cc_streams_closed (cds_counters dbg) = word_of_nat (length (filter (\<lambda>r. st_closed (stream_at c r)) (tb_opened x))) \<and>
      cc_streams_opened (cds_counters dbg) = cc_streams_closed (cds_counters dbg) + word_of_nat (cds_stream_count dbg) \<and>
      (c_closed c \<longrightarrow> c_default_stream c = None \<and> (\<forall>r \<in> set (tb_opened x). st_closed (stream_at c r))))"
proof -
  from race_run_ok[OF assms(1)] have ok: "race_ok x" .
  have dbg: "cc_streams_opened (cds_counters dbg) = cd_streams_opened (c_debug c)"
    "cc_streams_closed (cds_counters dbg) = cd_streams_closed (c_debug c)" "cds_stream_count dbg = length (c_streams c)"
    by (simp_all add: c_def dbg_def conn_debug_state_def conn_build_state_def conn_snapshot_def Let_def split: prod.split)
  let ?os = "open_refs c (tb_opened x)" and ?cs = "filter (\<lambda>r. st_closed (stream_at c r)) (tb_opened x)"
  have eq: "mset (map snd (c_streams c)) + held (tb_tasks x) = mset ?os" using ok by (simp add: race_defs c_def)
  have dist: "distinct (map snd (c_streams c))"
    using distinct_part[OF eq] ok by (simp add: race_defs open_refs_def c_def)
  have len: "length ?os + length ?cs = length (tb_opened x)"
    unfolding open_refs_def using sum_length_filter_compl[of "\<lambda>r. st_closed (stream_at c r)" "tb_opened x"] by simp
  have quiet: "cd_streams_opened (c_debug c) = word_of_nat (length (tb_opened x)) \<and>
      cd_streams_closed (c_debug c) = word_of_nat (length ?cs) \<and> length ?os = length (c_streams c) \<and>
      (c_closed c \<longrightarrow> c_default_stream c = None \<and> c_streams c = [])"
    if q: "set_mset (tb_tasks x) \<subseteq> {TaskEnded}"
  proof -
    have "filter_mset counts_open (tb_tasks x) = {#}" "filter_mset counts_close (tb_tasks x) = {#}"
      using q by (auto simp: filter_mset_eq_conv counts_open_def counts_close_def)
    then have "uncounted counts_open (tb_tasks x) = 0" "uncounted counts_close (tb_tasks x) = 0"
      by (simp_all only: uncounted_def size_empty)
    moreover have "held (tb_tasks x) = {#}" using q by (auto simp: held_def subset_iff)
    then have "length ?os = length (c_streams c)" using arg_cong[OF eq, of size] by simp
    moreover have "CloseTake \<notin># tb_tasks x" "\<forall>u \<in># tb_tasks x. \<not> takes_default u"
      using q by (auto simp: takes_default_def)
    moreover have "length (tb_opened x) - length ?os = length ?cs" using len by simp
    ultimately show ?thesis using ok by (simp add: race_defs c_def)
  qed
  have "\<forall>r \<in> set (tb_opened x). st_closed (stream_at c r)" if "length ?os = 0"
    using that by (auto simp: open_refs_def filter_empty_conv)
  with quiet have "set_mset (tb_tasks x) \<subseteq> {TaskEnded} \<longrightarrow> cd_streams_opened (c_debug c) = word_of_nat (length (tb_opened x)) \<and>
      cd_streams_closed (c_debug c) = word_of_nat (length ?cs) \<and>
      cd_streams_opened (c_debug c) = cd_streams_closed (c_debug c) + word_of_nat (length (c_streams c)) \<and>
      (c_closed c \<longrightarrow> c_default_stream c = None \<and> (\<forall>r \<in> set (tb_opened x). st_closed (stream_at c r)))"
    using len by (metis add.commute list.size(3) of_nat_add)
  moreover have "\<forall>(sid, r) \<in> set (c_streams c). st_id (stream_at c r) = sid \<and> \<not> st_closed (stream_at c r)"
    using entries_opened(2)[OF ok] ok by (auto simp: race_defs c_def)
  moreover have "distinct (map fst (c_streams c))" "c_closed c \<and> CloseTake \<notin># tb_tasks x \<longrightarrow> c_streams c = []"
    using ok by (simp_all add: race_defs c_def)
  ultimately show ?thesis using dist unfolding dbg by blast
qed

text \<open>
  A stream of the peer is about to be registered when the connection is closed: the flag is set in
  between, but the table is taken only after it.
\<close>

fun race_move :: "bool \<times> table_task \<Rightarrow> ('r, 'j) connection \<times> table_task list \<times> nat list \<Rightarrow>
    (('r, 'j) connection \<times> table_task list \<times> nat list) option" where
  "race_move (True, t) (c, ts, rs) = (if starting t then Some (c, t # ts, rs) else None)"
| "race_move (False, t) (c, ts, rs) =
     (if t \<notin> set ts \<or> needs_lock t \<and> list_ex holds_lock ts then None
      else case table_turn t c of (t', c') \<Rightarrow> Some (c', t' # remove1 t ts, rs @ registered t t' c))"

fun race_moves :: "(bool \<times> table_task) list \<Rightarrow> ('r, 'j) connection \<times> table_task list \<times> nat list \<Rightarrow>
    (('r, 'j) connection \<times> table_task list \<times> nat list) option" where
  "race_moves [] x = Some x"
| "race_moves (m # ms) x = (case race_move m x of None \<Rightarrow> None | Some y \<Rightarrow> race_moves ms y)"

definition tables_of :: "('r, 'j) connection \<times> table_task list \<times> nat list \<Rightarrow> ('r, 'j) tables" where
  "tables_of = (\<lambda>(c, ts, rs). \<lparr>tb_conn = c, tb_tasks = mset ts, tb_opened = rs\<rparr>)"

lemma race_move_step: "race_move m x = Some y \<Longrightarrow> race_step (tables_of x) (tables_of y)"
proof (cases "(m, x)" rule: race_move.cases)
  case (1 t c ts rs)
  moreover assume "race_move m x = Some y"
  ultimately show ?thesis using race_step.Begin[of t "tables_of x"] by (auto simp: tables_of_def split: if_splits)
next
  case (2 t c ts rs)
  moreover assume m: "race_move m x = Some y"
  ultimately have t: "t \<in> set ts" "needs_lock t \<longrightarrow> \<not> list_ex holds_lock ts" by (auto split: if_splits)
  obtain t' c' where turn: "table_turn t c = (t', c')" by fastforce
  have "mset ts = add_mset t (mset (remove1 t ts))" using t(1) by simp
  moreover have "needs_lock t \<longrightarrow> (\<forall>u \<in># mset (remove1 t ts). \<not> holds_lock u)"
    using t(2) by (auto simp: list_ex_iff dest: in_diffD)
  ultimately show ?thesis
    using race_step.Go[of "tables_of x" t "mset (remove1 t ts)" t' c'] turn t m 2
    by (auto simp: tables_of_def split: if_splits)
qed

lemma race_moves_run: "race_moves ms x = Some y \<Longrightarrow> race_run (tables_of x) (tables_of y)"
  by (induction ms arbitrary: x)
    (auto split: option.splits intro: converse_rtranclp_into_rtranclp dest: race_move_step)

definition ex_race :: "(bool \<times> table_task) list" where
  "ex_race = [(True, OpenCheck 5), (False, OpenCheck 5), (True, CloseFlag), (False, CloseFlag), (False, OpenHolds 5),
     (False, CloseTake), (False, CloseDefault [0]), (False, CloseEach [0]), (False, CloseCount 0 []), (False, OpenCount),
     (False, CloseNotify 0 []), (False, CloseEach []), (True, OpenCheck 7), (False, OpenCheck 7)]"

lemma ex_race_facts:
  "case race_moves ex_race (new_unstarted False False False :: (bytes, bytes) connection, [], []) of
     None \<Rightarrow> False
   | Some (c, ts, rs) \<Rightarrow> ts = [TaskEnded, TaskEnded, TaskEnded] \<and> rs = [0] \<and> c_closed c"
  by code_simp

lemma table_survives_races_witness:
  "\<exists>x :: (bytes, bytes) tables. race_run (race_init False False False) x \<and> tb_opened x = [0] \<and> c_closed (tb_conn x) \<and>
     cc_streams_closed (cds_counters (conn_debug_state new_codec_registry (tb_conn x))) = 1 \<and>
     c_streams (tb_conn x) = [] \<and> st_closed (stream_at (tb_conn x) 0)"
proof -
  obtain c :: "(bytes, bytes) connection" and ts rs where
    y: "race_moves ex_race (new_unstarted False False False, [], []) = Some (c, ts, rs)"
      "ts = [TaskEnded, TaskEnded, TaskEnded]" "rs = [0]" "c_closed c"
    using ex_race_facts by (auto split: option.splits)
  let ?x = "tables_of (c, ts, rs)"
  have run: "race_run (race_init False False False) ?x"
    using race_moves_run[OF y(1)] by (simp add: tables_of_def race_init_def)
  from table_survives_races[OF run, of new_codec_registry] y(2-4) run show ?thesis
    by (intro exI[of _ ?x]) (simp add: tables_of_def)
qed

end
