(* ===== verification/RuntimeProperties.thy ===== *)
theory RuntimeProperties
  imports LinkProperties
begin

text \<open>
  The timing and the background tasks of a version 3 connection: heartbeats and delayed ACKs in the
  writer's wait, the reconnect loop of the client, and what stale events of an old transport do.
\<close>

section \<open>The wait of the writer\<close>

lemma min_wait_bound: "0 < hb \<Longrightarrow> fst (min_wait a hb) \<noteq> 0 \<and> fst (min_wait a hb) \<le> hb"
  by (auto simp: min_wait_def)

lemma rw_flush_fields:
  assumes "rw_flush io rw c = Some (True, rw', c')"
  shows "c' = c" "rw_log rw' = rw_log rw" "rw_writer rw' = rw_writer rw"
  using assms by (auto simp: rw_flush_def writer_detach_def split: if_splits option.splits sum.splits)

text \<open>A write hands its frame to the transport, whether that takes it or not.\<close>

lemma rw_write_logs:
  assumes "rw_writer rw \<noteq> None"
  obtains ok rw' c' where "rw_write io sid seq fl pl failure rw c = Some (ok, rw', c')"
    "rw_log rw' = rw_log rw @ [\<lparr>we_gen = rw_gen rw, we_frame = (sid, seq, fl, pl), we_ok = ok\<rparr>]"
proof -
  from assms obtain w where w: "rw_writer rw = Some w" by blast
  obtain res w' c1 where x: "conn_write_frame w sid seq fl pl c = (res, w', c1)" by (metis prod_cases3)
  show thesis
    by (cases res) (use w x that in \<open>auto simp: rw_write_def log_write_def writer_detach_def\<close>)
qed

text \<open>
  C30: An idle writer keeps the peer alive. Whatever the options of the server, if the client accepts
  them: from its flush the writer waits at most its heartbeat interval, and less than the timeout after
  which the reader of the peer gives up. If nothing else happens until then, its timer fires and it
  hands the next frame to the transport, which is PING at the end of the interval, or an ACK of the
  last frame received, if one is due before. The writer is that of the server or of the client.
\<close>

theorem idle_writer_pings:
  assumes opts: "encode_negotiated (server_negotiated so) = Inr enc"
      "decode_negotiated (eo_ack_every enc) (eo_ack_delay_ms enc) (eo_heartbeat_interval_ms enc)
        (eo_heartbeat_timeout_ms enc) = Inr n"
    and sides: "(hb_own, hb_peer) = (new_server so cid sec, set_negotiated n st) \<or>
      (hb_own, hb_peer) = (set_negotiated n st, new_server so cid sec)"
    and own: "c_recovery c = Some rs" "heartbeat_interval rs = heartbeat_interval hb_own" "due_unacked rs"
    and wait: "rw_flush_turn io rw c = (Waiting due tick, rw', c')" "rw_writer rw \<noteq> None"
    and idle: "c_cmds c = []" "\<not> c_closed c" "c_now c + heartbeat_interval rs < 2 ^ 64"
  shows "\<exists>w. due = Some w \<and> c_now c < w \<and> w \<le> c_now c + heartbeat_interval rs \<and>
    w < c_now c + heartbeat_timeout hb_peer \<and>
    (if tick then w = c_now c + heartbeat_interval rs \<and>
       (\<exists>ok rw2 c2. rw_timer io tick rw' (c'\<lparr>c_now := w\<rparr>) = (Turn, rw2, c2) \<and>
         rw_log rw2 = rw_log rw @ [\<lparr>we_gen = rw_gen rw',
           we_frame = (CONTROL_STREAM_ID, 0, 0, build_ping_control_payload), we_ok = ok\<rparr>])
     else rw_timer io tick rw' (c'\<lparr>c_now := w\<rparr>) = (Turn, rw', c'\<lparr>c_now := w\<rparr>) \<and>
       (\<exists>ok rw2 c2. rw_turn io rw' (c'\<lparr>c_now := w\<rparr>) = (Turn, rw2, c2) \<and>
         rw_log rw2 = rw_log rw @ [\<lparr>we_gen = rw_gen rw', we_frame = (CONTROL_STREAM_ID, 0, 0,
           build_ack_control_payload (last_received rs)), we_ok = ok\<rparr>]))"
proof -
  have hb: "0 < heartbeat_interval rs" "heartbeat_interval rs < heartbeat_timeout hb_peer"
    using heartbeat_before_timeout[OF opts, of cid sec st] sides own(2) by auto
  have rec: "recovery c = rs" using own(1) by simp
  from wait(1) obtain rw1 c1 where "rw_flush io rw c = Some (True, rw1, c1)"
    by (auto simp: rw_flush_turn_def split: option.splits bool.splits prod.splits)
  note fl = this rw_flush_fields[OF this]
  obtain wt tk where w: "min_wait (next_ack_wait (c_now c) rs) (heartbeat_interval rs) = (wt, tk)" by fastforce
  with wait(1) fl rec have eq: "tick = tk" "due = (if wt = 0 then None else Some (c_now c + wt))" "rw' = rw1" "c' = c"
    by (auto simp: rw_flush_turn_def)
  have bound: "0 < wt" "wt \<le> heartbeat_interval rs" using min_wait_bound[OF hb(1), of "next_ack_wait (c_now c) rs"] w by simp_all
  have wr: "rw_writer rw' \<noteq> None" "rw_log rw' = rw_log rw" using fl eq wait(2) by simp_all
  let ?d = "c\<lparr>c_now := c_now c + wt\<rparr>"
  show ?thesis
  proof (cases tk)
    case True
    then have "wt = heartbeat_interval rs" using w hb(1) by (auto simp: min_wait_def split: if_splits)
    moreover obtain ok rw2 c2 where "rw_write io CONTROL_STREAM_ID 0 0 build_ping_control_payload
        FAILURE_RECOVERY_PING_WRITE rw' ?d = Some (ok, rw2, c2)"
      "rw_log rw2 = rw_log rw' @ [\<lparr>we_gen = rw_gen rw', we_frame = (CONTROL_STREAM_ID, 0, 0, build_ping_control_payload), we_ok = ok\<rparr>]"
      by (rule rw_write_logs[OF wr(1)])
    ultimately show ?thesis using True eq bound hb(2) wr(2) by (auto simp: rw_timer_def)
  next
    case False
    then have ack: "wt = next_ack_wait (c_now c) rs" using w hb(1) by (auto simp: min_wait_def split: if_splits)
    then have at: "rs_ack_due_at rs \<noteq> 0" "wt = unat (rs_ack_due_at rs) - c_now c"
      using bound(1) idle(3) by (auto simp: next_ack_wait_def unat_of_nat split: if_splits)
    then have now: "c_now c + wt = unat (rs_ack_due_at rs)" using bound(1) by simp
    then have "ack_may_be_due (c_now c + wt) rs" using at(1) by (simp add: ack_may_be_due_def)
    moreover have "unacked rs" using at(1) own(3) by (simp add: due_unacked_def)
    ultimately have "fst (take_pending_ack (c_now c + wt) rs) = Some (last_received rs)"
      by (simp add: take_pending_ack_def unacked_def last_received_def not_le)
    then obtain rs' where take: "take_pending_ack (c_now c + wt) rs = (Some (last_received rs), rs')"
      by (metis prod.collapse)
    obtain ok rw2 c2 where wrt: "rw_write io CONTROL_STREAM_ID 0 0 (build_ack_control_payload (last_received rs))
        FAILURE_RECOVERY_ACK_WRITE rw' (set_recovery rs' (?d\<lparr>c_cmds := []\<rparr>)) = Some (ok, rw2, c2)"
      "rw_log rw2 = rw_log rw' @ [\<lparr>we_gen = rw_gen rw', we_frame = (CONTROL_STREAM_ID, 0, 0,
         build_ack_control_payload (last_received rs)), we_ok = ok\<rparr>]"
      by (rule rw_write_logs[OF wr(1)])
    have "rw_turn io rw' ?d = (Turn, rw2, c2)"
      using idle(1,2) wr(1) take wrt(1) own(1) by (auto simp: rw_turn_def write_next_def)
    moreover have "rw_timer io False rw' ?d = (Turn, rw', ?d)" by (simp add: rw_timer_def)
    ultimately show ?thesis using False eq bound hb(2) wr(2) wrt(2) by auto
  qed
qed

lemma word_next_less: "(n :: u64) \<noteq> - 1 \<Longrightarrow> n < n + 1"
  by (simp add: word_less_nat_alt unat_next)

definition ex_conn3 :: "recovery_state \<Rightarrow> (bytes, bytes) connection" where
  "ex_conn3 rs = (new_unstarted False False False)\<lparr>c_recovery := Some rs\<rparr>"

definition ex_options :: negotiated_recovery_options where
  "ex_options = \<lparr>nro_ack_every = 64, nro_ack_delay = from_millis 20,
     nro_heartbeat_interval = from_millis 30000, nro_heartbeat_timeout = from_millis 90000\<rparr>"

definition ex_state :: recovery_state where
  "ex_state = set_negotiated ex_options (new_client default_client_recovery default_negotiated [] [] None)"

lemma ex_options_accepted: "decode_negotiated 64 20 30000 90000 = Inr ex_options"
  by (simp add: decode_negotiated_def Let_def saturating_mul_def DURATION_MAX_def from_millis_def ex_options_def)

lemma ex_state_fields [simp]:
  "heartbeat_interval ex_state = 30000000000" "rs_ack_due ex_state = False" "rs_ack_due_at ex_state = 0"
  "rs_last_ack_sent ex_state = 0" "rs_last_recv_seq ex_state = 0" "rs_role ex_state = RoleClient"
  using negotiated_in_effect[OF ex_options_accepted, of "new_client default_client_recovery default_negotiated [] [] None"]
  by (simp_all add: ex_state_def from_millis_def) (simp_all add: set_negotiated_def new_client_def Let_def)

text \<open>A server with the default options pings 30 s after its last flush; the client gives up after 90 s.\<close>

definition ex_idle_writer :: recovery_writer where
  "ex_idle_writer = new_recovery_writer\<lparr>rw_writer :=
     Some \<lparr>wr_out = [], wr_room = None, wr_flush_error = None, wr_shut = False\<rparr>\<rparr>"

definition ex_server_state :: recovery_state where
  "ex_server_state = new_server default_server_recovery [] []"

lemma ex_server_facts:
  "encode_negotiated (server_negotiated default_server_recovery) =
     Inr \<lparr>eo_ack_every = 64, eo_ack_delay_ms = 20, eo_heartbeat_interval_ms = 30000, eo_heartbeat_timeout_ms = 90000\<rparr>"
  "heartbeat_interval ex_server_state = 30000000000" "rs_ack_due ex_server_state = False" "rs_ack_due_at ex_server_state = 0"
proof -
  have "server_options_ok default_server_recovery"
    by (simp add: server_options_ok_def default_server_recovery_def saturating_mul_def DURATION_MAX_def
        duration_defs DEFAULT_MAX_FRAME_def)
  from server_normalized_id[OF this] have norm: "server_normalized default_server_recovery = default_server_recovery" .
  have neg: "server_negotiated default_server_recovery = ex_options"
    unfolding server_negotiated_def norm Let_def
    by (simp add: default_server_recovery_def duration_defs ex_options_def)
  have "negotiated_normalized ex_options = ex_options"
    using server_negotiated_ok[of default_server_recovery] by (simp add: negotiated_normalized_id neg)
  then show enc: "encode_negotiated (server_negotiated default_server_recovery) =
     Inr \<lparr>eo_ack_every = 64, eo_ack_delay_ms = 20, eo_heartbeat_interval_ms = 30000, eo_heartbeat_timeout_ms = 90000\<rparr>"
    by (simp add: encode_negotiated_def neg) (simp add: ex_options_def duration_to_millis_def duration_defs Let_def)
  show "heartbeat_interval ex_server_state = 30000000000" "rs_ack_due ex_server_state = False"
    "rs_ack_due_at ex_server_state = 0"
    unfolding ex_server_state_def server_heartbeat[OF enc]
    by (simp_all add: norm) (simp_all add: default_server_recovery_def duration_defs new_server_def Let_def)
qed

lemma idle_writer_pings_witness:
  "rw_flush_turn io_name ex_idle_writer (ex_conn3 ex_server_state) =
     (Waiting (Some 30000000000) True, ex_idle_writer, ex_conn3 ex_server_state) \<and>
   heartbeat_timeout ex_state = 90000000000 \<and>
   (\<exists>rw2 c2. rw_timer io_name True ex_idle_writer ((ex_conn3 ex_server_state)\<lparr>c_now := 30000000000\<rparr>) = (Turn, rw2, c2) \<and>
     map we_frame (rw_log rw2) = [(CONTROL_STREAM_ID, 0, 0, build_ping_control_payload)])"
proof -
  have wait: "rw_flush_turn io_name ex_idle_writer (ex_conn3 ex_server_state) =
     (Waiting (Some 30000000000) True, ex_idle_writer, ex_conn3 ex_server_state)"
    by (simp add: rw_flush_turn_def rw_flush_def ex_idle_writer_def new_recovery_writer_def ex_conn3_def new_unstarted_def
        next_ack_wait_def min_wait_def ex_server_facts)
  have t: "heartbeat_timeout ex_state = 90000000000"
    using negotiated_in_effect[OF ex_options_accepted, of "new_client default_client_recovery default_negotiated [] [] None"]
    by (simp add: ex_state_def from_millis_def)
  have s: "(ex_server_state, ex_state) = (new_server default_server_recovery [] [], set_negotiated ex_options
      (new_client default_client_recovery default_negotiated [] [] None))"
    by (simp add: ex_server_state_def ex_state_def)
  have dec: "decode_negotiated (eo_ack_every e) (eo_ack_delay_ms e) (eo_heartbeat_interval_ms e)
        (eo_heartbeat_timeout_ms e) = Inr ex_options" if "e = \<lparr>eo_ack_every = 64, eo_ack_delay_ms = 20,
        eo_heartbeat_interval_ms = 30000, eo_heartbeat_timeout_ms = 90000\<rparr>" for e
    using ex_options_accepted that by simp
  have own: "c_recovery (ex_conn3 ex_server_state) = Some ex_server_state" "due_unacked ex_server_state"
    "rw_writer ex_idle_writer \<noteq> None" "c_cmds (ex_conn3 ex_server_state) = []" "\<not> c_closed (ex_conn3 ex_server_state)"
    "c_now (ex_conn3 ex_server_state) + heartbeat_interval ex_server_state < 2 ^ 64"
    by (simp_all add: ex_conn3_def new_unstarted_def ex_server_facts ex_idle_writer_def)
      (simp add: ex_server_state_def due_unacked_new)
  have log: "rw_log ex_idle_writer = []" by (simp add: ex_idle_writer_def new_recovery_writer_def)
  from idle_writer_pings[OF ex_server_facts(1) dec[OF refl] disjI1[OF s] own(1) refl own(2) wait own(3-6)]
  show ?thesis using wait t log by auto
qed

text \<open>
  C39: A delayed ACK can be late by a whole heartbeat interval. When the deadline of the ACK passes
  between the check of \<open>take_pending_ack\<close> and the computation of the wait (while the writer
  flushes, say), \<open>next_ack_wait\<close> is zero, which \<open>min_wait\<close> takes for "no ACK pending": the
  writer waits for the heartbeat, though the ACK is due.
\<close>

theorem overdue_ack_waits_for_heartbeat:
  assumes "rw_flush io rw c = Some (True, rw', c)" "\<not> rs_ack_due (recovery c)" "rs_ack_due_at (recovery c) \<noteq> 0"
    "unat (rs_ack_due_at (recovery c)) \<le> c_now c" "c_now c < 2 ^ 64" "unacked (recovery c)"
    "0 < heartbeat_interval (recovery c)"
  shows "fst (take_pending_ack (c_now c) (recovery c)) = Some (last_received (recovery c)) \<and>
    rw_flush_turn io rw c = (Waiting (Some (c_now c + heartbeat_interval (recovery c))) True, rw', c)"
proof
  have "rs_ack_due_at (recovery c) \<le> word_of_nat (c_now c)"
    using assms(4,5) by (simp add: word_le_nat_alt unat_word_of_nat)
  with assms show "fst (take_pending_ack (c_now c) (recovery c)) = Some (last_received (recovery c))"
    by (simp add: take_pending_ack_def ack_may_be_due_def unacked_def last_received_def)
  have "next_ack_wait (c_now c) (recovery c) = 0"
    using assms(2-5) by (simp add: next_ack_wait_def unat_word_of_nat)
  with assms show "rw_flush_turn io rw c = (Waiting (Some (c_now c + heartbeat_interval (recovery c))) True, rw', c)"
    by (simp add: rw_flush_turn_def min_wait_def)
qed

lemma ack_every_64: "\<not> (64 :: u32) \<le> 1"
  by (simp add: word_le_nat_alt)

lemma overdue_ack_waits_for_heartbeat_witness:
  "let st = snd (note_received 1000 1 ex_state); c = (ex_conn3 st)\<lparr>c_now := 20001000\<rparr>
   in fst (take_pending_ack 1000 st) = None \<and>
      rw_flush_turn io_name new_recovery_writer c = (Waiting (Some 30020001000) True, new_recovery_writer, c)"
proof -
  define st where "st = snd (note_received 1000 1 ex_state)"
  define c where "c = (ex_conn3 st)\<lparr>c_now := 20001000\<rparr>"
  have eff: "rs_ack_every ex_state = 64 \<and> nanos_u64 (rs_ack_delay_nanos ex_state) = word_of_nat (from_millis 20)"
    using negotiated_in_effect[OF ex_options_accepted, of "new_client default_client_recovery default_negotiated [] [] None"]
    by (simp add: ex_state_def)
  have p: "rs_ack_pending ex_state = 0" by (simp add: ex_state_def set_negotiated_def new_client_def Let_def)
  have st: "st = ex_state\<lparr>rs_last_recv_seq := 1, rs_ack_pending := 1, rs_ack_due_at := 20001000\<rparr>"
    using eff p ack_every_64 by (simp add: st_def note_received_def Let_def from_millis_def)
  have hb: "heartbeat_interval st = 30000000000"
    using ex_state_fields(1) by (simp add: st heartbeat_interval_def)
  have f: "rw_flush io_name new_recovery_writer c = Some (True, new_recovery_writer, c)"
    by (simp add: rw_flush_def new_recovery_writer_def)
  have c: "recovery c = st" "c_now c = 20001000" by (simp_all add: c_def ex_conn3_def)
  have "fst (take_pending_ack 1000 st) = None"
    by (simp add: st take_pending_ack_def ack_may_be_due_def)
  moreover from overdue_ack_waits_for_heartbeat[OF f] have
    "rw_flush_turn io_name new_recovery_writer c = (Waiting (Some (c_now c + heartbeat_interval (recovery c))) True, new_recovery_writer, c)"
    unfolding c using hb by (simp add: st unacked_def)
  ultimately show ?thesis unfolding Let_def st_def[symmetric] c_def[symmetric] using hb c by simp
qed

section \<open>An acknowledgement of what was never sent\<close>

text \<open>
  C40: An ACK beyond what was sent ends sending. \<open>handle_control_frame\<close> takes the number of an ACK
  as it comes (the attach of a transport limits it to what was sent): after an ACK above the next
  number, every further data frame fails with an error, and takes no number, so none
  ever succeeds again on this connection.
\<close>

theorem ack_beyond_sent_stops_sending:
  assumes "buffer_ok (rs_replay rs)" "c_recovery c = Some rs" "c_next_send_seq c + 1 \<le> n"
    "\<forall>f \<in> set (rb_queue (rs_replay rs)). fr_seq f \<le> c_next_send_seq c" "c_next_send_seq c \<noteq> - 1"
    "frame_parts f = Some (sid, fl, pl, Some t)"
  defines "c1 \<equiv> snd (handle_control_frame (build_ack_control_payload n) c)"
  shows "\<exists>e c2. rw_stage f rw c1 = (None, rw, c2) \<and> c_next_send_seq c2 = c_next_send_seq c \<and>
     ticket_result t c2 = Some (Inl e) \<and> rs_replay (recovery c2) = rs_replay (recovery c1)"
proof -
  let ?b = "rs_replay rs" and ?seq = "c_next_send_seq c + 1"
  obtain b1 where b1: "b1 = snd (ack n ?b)" by simp
  have c1: "c1 = signal_send (set_recovery (rs\<lparr>rs_replay := b1\<rparr>) c)"
    using assms(2) by (simp add: c1_def b1 handle_control_frame_def ack_received_def)
  have q: "rb_queue b1 = filter (\<lambda>f. n < fr_seq f) (rb_queue ?b)" "rb_last_acked b1 = max (rb_last_acked ?b) n"
    "replay_ok b1" "rb_max_bytes b1 = rb_max_bytes ?b"
    using assms(1) by (simp_all add: b1 ack_queue buffer_ok_def ack_ok)
  have empty: "rb_queue b1 = []" using q(1) assms(3,4) word_next_less[OF assms(5)]
    by (auto simp: filter_empty_conv not_less intro: order_trans order_less_imp_le)
  with q(3) have used: "rb_used_bytes b1 = 0" by (simp add: replay_ok_def)
  have acked: "?seq \<le> rb_last_acked b1" using assms(3) by (simp add: q(2) max.coboundedI2)
  obtain e where st: "stage sid ?seq fl pl b1 = (Inl e, b1)"
  proof (cases rule: stage_cases[of sid ?seq fl pl b1])
    case (kept r)
    with acked show thesis by simp
  next
    case full
    with used show thesis by simp
  next
    case (failed e)
    with that show thesis by blast
  qed
  have "rw_stage f rw c1 = (None, rw, resolve (Some t) (Inl e) c1)"
    using st assms(6) by (simp add: rw_stage_def c1 signal_send_def resolve_def)
  then show ?thesis by (auto simp: c1 signal_send_def resolve_def ticket_result_def)
qed

lemma ack_beyond_sent_stops_sending_witness:
  "let c = snd (handle_control_frame (build_ack_control_payload 5) (ex_conn3 ex_state))
   in \<exists>e c2. rw_stage (Recovery 1 0 [7] 0) new_recovery_writer c = (None, new_recovery_writer, c2) \<and>
     ticket_result 0 c2 = Some (Inl e)"
proof -
  have r: "rs_replay ex_state = new_replay_buffer PROTOCOL_VERSION_V3 (cro_max_replay_bytes (client_normalized default_client_recovery))"
    by (simp add: ex_state_def set_negotiated_def new_client_def Let_def)
  have b: "buffer_ok (rs_replay ex_state)" "rb_queue (rs_replay ex_state) = []"
    unfolding r by (simp_all add: buffer_ok_new) (simp add: new_replay_buffer_def)
  have p: "frame_parts (Recovery 1 0 [7] 0) = Some (1, 0, [7], Some 0)" by (simp add: frame_parts_def)
  have le: "(1 :: u64) \<le> 5" by (simp add: word_le_nat_alt)
  from ack_beyond_sent_stops_sending[OF b(1) _ _ _ _ p, of "ex_conn3 ex_state" 5 new_recovery_writer] b(2) le
  show ?thesis unfolding Let_def by (auto simp: ex_conn3_def new_unstarted_def)
qed

section \<open>Reconnecting\<close>

text \<open>
  The reconnect tasks of a connection, each with its phase. A step is a step of one of them, a
  detach, which may spawn another one, or a step of anything else (\<open>reconnect_env\<close>): it leaves the
  flag alone, and detaches nothing but by closing.
\<close>

definition reconnect_env :: "('r, 'j) connection \<Rightarrow> ('r, 'j) connection \<Rightarrow> bool" where
  "reconnect_env c c' \<longleftrightarrow> map_option (\<lambda>rs. (rs_role rs, rs_reconnect_active rs)) (c_recovery c') =
     map_option (\<lambda>rs. (rs_role rs, rs_reconnect_active rs)) (c_recovery c) \<and>
     (c_closed c \<longrightarrow> c_closed c') \<and> (c_closed c' \<or> (c_transport_attached c \<longrightarrow> c_transport_attached c'))"

definition loops :: "('r, 'j) connection \<Rightarrow> nat" where
  "loops c = length (filter (\<lambda>t. t = ReconnectLoop) (c_tasks c))"

inductive reconnect_system :: "(io_kind \<Rightarrow> string) \<Rightarrow> codec_registry \<Rightarrow>
    reconnect_phase list \<times> ('r, 'j) connection \<Rightarrow> reconnect_phase list \<times> ('r, 'j) connection \<Rightarrow> bool" for io reg where
  task: "reconnect_step io reg conn timed_out ph c = (ph', r, c') \<Longrightarrow>
    reconnect_system io reg (xs @ ph # ys, c) (xs @ ph' # ys, c')"
| detach: "detach_transport gen abort c = c' \<Longrightarrow>
    reconnect_system io reg (xs, c) (xs @ replicate (loops c' - loops c) (reconnect_start (recovery c)), c')"
| other: "reconnect_env c c' \<Longrightarrow> reconnect_system io reg (xs, c) (xs, c')"

text \<open>A task that holds the flag: it has set it and not cleared it.\<close>

definition holds_flag :: "reconnect_phase \<Rightarrow> bool" where
  "holds_flag ph \<longleftrightarrow> (case ph of Attempt _ \<Rightarrow> True | BackOff _ _ \<Rightarrow> True | Returned \<Rightarrow> True | _ \<Rightarrow> False)"

definition reconnect_inv :: "reconnect_phase list \<times> ('r, 'j) connection \<Rightarrow> bool" where
  "reconnect_inv x \<longleftrightarrow> (case x of (phs, c) \<Rightarrow>
     (\<exists>rs. c_recovery c = Some rs \<and> rs_role rs = RoleClient \<and>
        length (filter holds_flag phs) = (if rs_reconnect_active rs then 1 else 0) \<and>
        (\<not> c_closed c \<and> \<not> c_transport_attached c \<longrightarrow> rs_reconnect_active rs \<or> Cleared \<in> set phs)))"

text \<open>What a step of a task does with the flag.\<close>

definition flag_of :: "('r, 'j) connection \<Rightarrow> (recovery_role \<times> bool) option" where
  "flag_of c = map_option (\<lambda>rs. (rs_role rs, rs_reconnect_active rs)) (c_recovery c)"

lemma flag_of_same [simp]:
  "flag_of (count_attempt c) = flag_of c" "flag_of (count_success c) = flag_of c"
  "flag_of (count_reconnect_failure c) = flag_of c" "flag_of (note_conn_failure code reason c) = flag_of c"
  "flag_of (mark_closed c) = flag_of c" "flag_of (snd (attach_transport_parts r w n c)) = flag_of c"
  by (simp_all add: flag_of_def count_attempt_def count_success_def count_reconnect_failure_def count_reconnect_def
      note_conn_failure_def attach_transport_parts_def Let_def signal_send_def abort_reader_def)

lemma flag_of_attach: "attach_transport_parts r w n c = (s, c') \<Longrightarrow> flag_of c' = flag_of c"
  using flag_of_same(6)[of r w n c] by simp

lemma flag_of_resume: "resume_client_transport reg conn timed_out c = (res, c') \<Longrightarrow> flag_of c' = flag_of c"
proof -
  have [simp]: "flag_of (set_recovery (set_negotiated opts rs) c) = flag_of c" if "c_recovery c = Some rs" for opts rs
    using that by (simp add: flag_of_def set_negotiated_def Let_def)
  assume "resume_client_transport reg conn timed_out c = (res, c')"
  then show ?thesis
    by (auto simp: resume_client_transport_def split: option.splits if_splits sum.splits prod.splits
        dest!: flag_of_attach)
qed

lemma flag_of_result: "reconnect_result io res backoff c = (ph, c') \<Longrightarrow>
    flag_of c' = flag_of c \<and> holds_flag ph"
  by (auto simp: reconnect_result_def holds_flag_def Let_def split: sum.splits if_splits)

lemma reconnect_step_cases:
  assumes "reconnect_step io reg conn timed_out ph c = (ph', r, c')" "flag_of c = Some (RoleClient, active)"
  obtains (hold) "holds_flag ph" "holds_flag ph'" "flag_of c' = flag_of c"
  | (clear) "holds_flag ph" "ph' = Cleared" "flag_of c' = Some (RoleClient, False)"
  | (stop) "ph = Cleared" "ph' = LoopEnded" "c' = c" "c_closed c \<or> c_transport_attached c \<or> active"
  | (again) "ph = Cleared" "holds_flag ph'" "\<not> active" "flag_of c' = Some (RoleClient, True)"
  | (ended) "ph = LoopEnded" "ph' = LoopEnded" "c' = c"
proof (cases ph)
  case (Attempt b)
  show thesis
  proof (cases "c_closed c")
    case False
    obtain res c1 where x: "resume_client_transport reg conn timed_out (count_attempt c) = (res, c1)" by fastforce
    obtain ph2 c2 where y: "reconnect_result io res b c1 = (ph2, c2)" by fastforce
    from flag_of_resume[OF x] flag_of_result[OF y] assms(1) Attempt False x y hold show thesis
      by (simp add: reconnect_step_def holds_flag_def)
  qed (use assms(1) Attempt hold in \<open>auto simp: reconnect_step_def holds_flag_def\<close>)
next
  case (BackOff b u)
  with assms(1) hold show thesis by (auto simp: reconnect_step_def holds_flag_def split: if_splits)
next
  case Returned
  with assms clear show thesis by (auto simp: reconnect_step_def holds_flag_def flag_of_def)
next
  case Cleared
  from assms(2) obtain rs where "c_recovery c = Some rs" "rs_role rs = RoleClient" "rs_reconnect_active rs = active"
    by (auto simp: flag_of_def)
  with Cleared assms(1) stop again show thesis
    by (auto simp: reconnect_step_def holds_flag_def flag_of_def reconnect_start_def split: if_splits)
next
  case LoopEnded
  with assms(1) ended show thesis by (simp add: reconnect_step_def)
qed

lemma reconnect_inv_flag: "reconnect_inv (phs, c) \<longleftrightarrow> (\<exists>active. flag_of c = Some (RoleClient, active) \<and>
    length (filter holds_flag phs) = (if active then 1 else 0) \<and>
    (\<not> c_closed c \<and> \<not> c_transport_attached c \<longrightarrow> active \<or> Cleared \<in> set phs))"
  by (cases "c_recovery c") (auto simp: reconnect_inv_def flag_of_def)

lemma holds_flag_simps [simp]: "\<not> holds_flag Cleared" "\<not> holds_flag LoopEnded" "holds_flag (reconnect_start rs)"
  by (simp_all add: holds_flag_def reconnect_start_def)

lemma detach_open:
  assumes "flag_of c = Some (RoleClient, active)" "\<not> (c_closed c \<or> c_transport_gen c \<noteq> gen)"
  shows "flag_of (detach_transport gen abort c) = Some (RoleClient, True)"
    "loops (detach_transport gen abort c) - loops c = (if active then 0 else 1)"
  using assms
  by (auto simp: detach_transport_def Let_def flag_of_def abort_reader_def spawn_reconnect_loop_def loops_def
      split: option.split)

lemma reconnect_system_inv:
  assumes step: "reconnect_system io reg x y" and inv: "reconnect_inv x"
  shows "reconnect_inv y"
  using step
proof cases
  case (task conn timed_out ph c ph' r c' xs ys)
  from inv obtain active where f: "flag_of c = Some (RoleClient, active)"
    and n: "length (filter holds_flag (xs @ ph # ys)) = (if active then 1 else 0)"
    and d: "\<not> c_closed c \<and> \<not> c_transport_attached c \<longrightarrow> active \<or> Cleared \<in> set (xs @ ph # ys)"
    by (auto simp: task(1) reconnect_inv_flag)
  have act: "active" if "holds_flag ph" using n that by (cases active) simp_all
  from task(3) f have "reconnect_inv (xs @ ph' # ys, c')"
  proof (cases rule: reconnect_step_cases)
    case hold
    with f n d act[OF hold(1)] show ?thesis by (simp add: reconnect_inv_flag exI[of _ True])
  next
    case clear
    with n act[OF clear(1)] show ?thesis by (simp add: reconnect_inv_flag exI[of _ False])
  next
    case stop
    with f n d show ?thesis by (cases active) (auto simp: reconnect_inv_flag)
  next
    case again
    with n show ?thesis by (simp add: reconnect_inv_flag exI[of _ True])
  next
    case ended
    with inv task(1) show ?thesis by simp
  qed
  then show ?thesis by (simp add: task(2))
next
  case (detach gen abort c c' xs)
  from inv obtain active where f: "flag_of c = Some (RoleClient, active)"
    and n: "length (filter holds_flag xs) = (if active then 1 else 0)"
    by (auto simp: detach(1) reconnect_inv_flag)
  show ?thesis
  proof (cases "c_closed c \<or> c_transport_gen c \<noteq> gen")
    case True
    with detach(3) have "c' = c" by (auto simp: detach_transport_def)
    with inv show ?thesis unfolding detach(1,2) by simp
  next
    case False
    from detach_open[OF f False, of abort] detach(3) n show ?thesis
      unfolding detach(2) by (cases active) (simp_all add: reconnect_inv_flag exI[of _ True])
  qed
next
  case (other c c' xs)
  then have f: "flag_of c' = flag_of c" "c_closed c \<longrightarrow> c_closed c'"
    "c_closed c' \<or> (c_transport_attached c \<longrightarrow> c_transport_attached c')"
    by (simp_all add: reconnect_env_def flag_of_def)
  from inv[unfolded other(1) reconnect_inv_flag] f(2,3) show ?thesis
    unfolding other(2) reconnect_inv_flag f(1) by blast
qed

text \<open>
  C25: Reconnecting is never lost and never doubled. Whenever transports are lost, and however this
  interleaves with the reconnect tasks, at most one task is reconnecting, and while the client is
  open with no transport there is one, or one about to look whether it must go on. (The flag is
  cleared before that look, so a detach in between starts a task of its own.)
\<close>

theorem reconnect_never_lost:
  assumes "c_recovery c = Some rs" "rs_role rs = RoleClient" "\<not> rs_reconnect_active rs" "c_transport_attached c"
    "(reconnect_system io reg)\<^sup>*\<^sup>* ([], c) (phs, c')"
  shows "length (filter holds_flag phs) \<le> 1 \<and>
    (\<not> c_closed c' \<and> \<not> c_transport_attached c' \<longrightarrow> (\<exists>ph \<in> set phs. holds_flag ph \<or> ph = Cleared))"
proof -
  have "reconnect_inv ([], c)" using assms(1-4) by (simp add: reconnect_inv_def)
  with assms(5) have "reconnect_inv (phs, c')"
    by (induction rule: rtranclp_induct) (auto intro: reconnect_system_inv)
  then obtain active where "length (filter holds_flag phs) = (if active then 1 else 0)"
    "\<not> c_closed c' \<and> \<not> c_transport_attached c' \<longrightarrow> active \<or> Cleared \<in> set phs"
    unfolding reconnect_inv_flag by blast
  moreover from this(1) have "active \<Longrightarrow> \<exists>ph \<in> set phs. holds_flag ph"
    by (metis One_nat_def filter_False list.size(3) zero_neq_one)
  ultimately show ?thesis by (auto split: if_splits)
qed

lemma reconnect_never_lost_witness:
  "let c = (ex_conn3 ex_state)\<lparr>c_transport_attached := True\<rparr>; c' = detach_transport 0 True c
   in \<not> c_closed c' \<and> \<not> c_transport_attached c' \<and>
      (reconnect_system io_name new_codec_registry)\<^sup>*\<^sup>* ([], c) ([reconnect_start ex_state], c') \<and>
      (\<exists>ph \<in> set [reconnect_start ex_state]. holds_flag ph \<or> ph = Cleared)"
proof -
  define c where "c = (ex_conn3 ex_state)\<lparr>c_transport_attached := True\<rparr>"
  have a: "rs_reconnect_active ex_state = False" by (simp add: ex_state_def set_negotiated_def new_client_def Let_def)
  have c: "c_recovery c = Some ex_state" "c_transport_attached c" "\<not> c_closed c" "c_transport_gen c = 0"
    by (simp_all add: c_def ex_conn3_def new_unstarted_def)
  then have f: "flag_of c = Some (RoleClient, False)" "\<not> (c_closed c \<or> c_transport_gen c \<noteq> 0)"
    using a by (simp_all add: flag_of_def)
  from reconnect_system.detach[OF refl, of io_name new_codec_registry "[]" c 0 True] detach_open(2)[OF f, of True]
  have s: "reconnect_system io_name new_codec_registry ([], c) ([reconnect_start ex_state], detach_transport 0 True c)"
    by (simp add: c)
  have "\<not> c_closed (detach_transport 0 True c) \<and> \<not> c_transport_attached (detach_transport 0 True c)"
    using c a by (simp add: detach_transport_def Let_def abort_reader_def spawn_reconnect_loop_def)
  with reconnect_never_lost[OF c(1) _ _ c(2) r_into_rtranclp[where r = "reconnect_system io_name new_codec_registry", OF s]]
    r_into_rtranclp[where r = "reconnect_system io_name new_codec_registry", OF s] a show ?thesis
    unfolding Let_def c_def[symmetric] by auto
qed

section \<open>Events of an old transport\<close>

text \<open>
  C31: An attach makes the past harmless. Once a new transport is attached, neither a detach for an
  older transport (by its reader, or by the writer after a failed write) nor the expiry of an older
  detach changes the connection, and the reader of the transport before was told to stop.
\<close>

theorem attach_makes_old_events_harmless:
  assumes "attach_transport_parts r w n c = (Some (g, r'), c1)" "c_transport_gen c < c_transport_gen c + 1"
    "g' \<le> c_transport_gen c"
  shows "detach_transport g' abort c1 = c1 \<and> server_expiry_fires g' c1 = c1 \<and>
    c_transport_gen c1 = g \<and> c_reader_gen c1 = Some g \<and> c_transport_attached c1 \<and>
    (\<forall>g0. c_reader_gen c = Some g0 \<longrightarrow> g0 \<in> set (c_aborted c1))"
proof -
  from assms(1) have c1: "c_transport_gen c1 = g" "g = c_transport_gen c + 1" "c_reader_gen c1 = Some g"
    "c_transport_attached c1" "\<forall>g0. c_reader_gen c = Some g0 \<longrightarrow> g0 \<in> set (c_aborted c1)"
    by (auto simp: attach_transport_parts_def Let_def signal_send_def abort_reader_def split: if_splits)
  with assms(2,3) have "c_transport_gen c1 \<noteq> g'" by auto
  with c1 show ?thesis by (simp add: detach_transport_def server_expiry_fires_def)
qed

lemma attach_makes_old_events_harmless_witness:
  "let c = (ex_conn3 ex_state)\<lparr>c_transport_gen := 3, c_reader_gen := Some 3\<rparr>;
       c1 = snd (attach_transport_parts idle_reader open_writer 0 c)
   in detach_transport 3 True c1 = c1 \<and> c_transport_gen c1 = 4 \<and> c_aborted c1 = [3]"
proof -
  define c where "c = (ex_conn3 ex_state)\<lparr>c_transport_gen := 3, c_reader_gen := Some 3\<rparr>"
  have a: "attach_transport_parts idle_reader open_writer 0 c =
      (Some (4, idle_reader), snd (attach_transport_parts idle_reader open_writer 0 c))"
    by (simp add: attach_transport_parts_def Let_def c_def ex_conn3_def new_unstarted_def)
  have "c_aborted (snd (attach_transport_parts idle_reader open_writer 0 c)) = [3]"
    by (simp add: attach_transport_parts_def Let_def c_def ex_conn3_def new_unstarted_def abort_reader_def signal_send_def)
  moreover have "c_transport_gen c < c_transport_gen c + 1" "(3 :: u64) \<le> c_transport_gen c" by (simp_all add: c_def)
  ultimately show ?thesis
    unfolding Let_def c_def[symmetric] using attach_makes_old_events_harmless[OF a, of 3 True] by simp
qed

text \<open>
  C34: A detached server connection does not live on: the detach closes it at once if the detached
  time to live is zero, and else leaves a task that closes it after that time, unless a transport was
  attached (or detached) since.
\<close>

theorem detached_server_expires:
  fixes abort :: bool and c :: "('r, 'j) connection"
  assumes "c_recovery c = Some rs" "rs_role rs = RoleServer" "\<not> c_closed c"
  defines "c1 \<equiv> detach_transport (c_transport_gen c) abort c"
  shows "if detached_ttl rs = 0 then c_closed c1
    else \<not> c_closed c1 \<and> ServerExpiry (c_transport_gen c1) (c_now c + detached_ttl rs) \<in> set (c_tasks c1) \<and>
      (\<forall>c2 :: ('r, 'j) connection. c_closed (server_expiry_fires (c_transport_gen c1) c2) \<longleftrightarrow>
         c_closed c2 \<or> c_transport_gen c2 = c_transport_gen c1)"
proof -
  have e: "c_closed (server_expiry_fires g c2) \<longleftrightarrow> c_closed c2 \<or> c_transport_gen c2 = g" for g and c2 :: "('r, 'j) connection"
    by (auto simp: server_expiry_fires_def)
  have "c_closed c1" if "detached_ttl rs = 0"
    using assms(1-3) that unfolding c1_def
    by (auto simp: detach_transport_def Let_def spawn_server_expiry_def abort_reader_def)
  moreover have "\<not> c_closed c1 \<and> ServerExpiry (c_transport_gen c1) (c_now c + detached_ttl rs) \<in> set (c_tasks c1)"
    if "detached_ttl rs \<noteq> 0"
    using assms(1-3) that unfolding c1_def
    by (simp add: detach_transport_def Let_def spawn_server_expiry_def abort_reader_def)
  ultimately show ?thesis using e by simp
qed

lemma detached_server_expires_witness:
  "let st = ex_state\<lparr>rs_role := RoleServer, rs_detached_ttl := 5\<rparr>;
       c1 = detach_transport 0 True (ex_conn3 st)
   in ServerExpiry 1 5 \<in> set (c_tasks c1) \<and> c_closed (server_expiry_fires 1 c1)"
proof -
  define st where "st = ex_state\<lparr>rs_role := RoleServer, rs_detached_ttl := 5\<rparr>"
  have c: "c_recovery (ex_conn3 st) = Some st" "rs_role st = RoleServer" "\<not> c_closed (ex_conn3 st)"
    by (simp_all add: ex_conn3_def new_unstarted_def st_def)
  have g: "c_transport_gen (ex_conn3 st) = 0" "c_now (ex_conn3 st) = 0" "detached_ttl st = 5"
    by (simp_all add: ex_conn3_def new_unstarted_def st_def detached_ttl_def)
  have "c_transport_gen (detach_transport 0 True (ex_conn3 st)) = 1"
    using c g by (simp add: detach_transport_def Let_def spawn_server_expiry_def abort_reader_def)
  with detached_server_expires[OF c, of True] g show ?thesis
    unfolding Let_def st_def[symmetric] by simp
qed

end
