(* ===== verification/FrameProperties.thy ===== *)
theory FrameProperties
  imports ConnectionOps "HOL-Library.Code_Target_Nat"
begin

text \<open>
  Frames over a transport: the read loop against its reference on bytes, and the way of a batch of
  frames from the queue of a version 2 writer through any cut of the bytes to the reader.
\<close>

section \<open>The read loop\<close>

text \<open>The frames that a reader task gets from its transport, until the end or an error.\<close>

fun read_frames :: "nat \<Rightarrow> conn_config \<Rightarrow> reader \<Rightarrow> inbound_frame list" where
  "read_frames 0 cfg r = []"
| "read_frames (Suc n) cfg r = (case read_frame cfg r of
     Some (Inr (Some (f, r'))) \<Rightarrow> f # read_frames n cfg r'
   | _ \<Rightarrow> [])"

lemma frame_of_bytes_end:
  "frame_of_bytes cfg bs fin = Some (Inr (Some (f, rest))) \<Longrightarrow> dec_frame cfg bs = Some (f, rest)"
  "dec_frame cfg bs = Some (f, rest) \<Longrightarrow> frame_of_bytes cfg bs fin = Some (Inr (Some (f, rest)))"
  by (auto simp: dec_frame_def frame_of_bytes_def Let_def split: if_splits option.splits sum.splits)

lemma dec_frame_shorter:
  assumes "config_ok cfg" "dec_frame cfg bs = Some (f, rest)"
  shows "length rest < length bs"
proof -
  from config_ok_header_len[OF assms(1)] have "0 < cc_header_len cfg" by simp
  then show ?thesis using frame_of_bytes_end(2)[OF assms(2), of None]
    by (auto simp: frame_of_bytes_def Let_def split: if_splits option.splits sum.splits)
qed

lemma read_frame_dec:
  assumes "config_ok cfg"
  shows "read_frame cfg r = Some (Inr (Some (f, r'))) \<Longrightarrow> dec_frame cfg (rd_bytes r) = Some (f, rd_bytes r')"
    "dec_frame cfg (rd_bytes r) = Some (f, rest) \<Longrightarrow>
       \<exists>r'. read_frame cfg r = Some (Inr (Some (f, r'))) \<and> rd_bytes r' = rest"
proof -
  note eq = read_frame_equiv[OF assms, of r]
  { assume "read_frame cfg r = Some (Inr (Some (f, r')))"
    with eq have "frame_of_bytes cfg (rd_bytes r) (rd_end r) = Some (Inr (Some (f, rd_bytes r')))"
      by (simp add: same_bytes_def)
    then show "dec_frame cfg (rd_bytes r) = Some (f, rd_bytes r')" by (rule frame_of_bytes_end) }
  { assume "dec_frame cfg (rd_bytes r) = Some (f, rest)"
    with eq have "same_bytes (read_frame cfg r) = Some (Inr (Some (f, rest)))"
      by (simp add: frame_of_bytes_end(2))
    then obtain y where y: "read_frame cfg r = Some y" and
      "map_sum id (map_option (map_prod id rd_bytes)) y = Inr (Some (f, rest))"
      unfolding same_bytes_def by (auto simp del: map_sum.simps)
    then obtain z where z: "y = Inr z" and "map_option (map_prod id rd_bytes) z = Some (f, rest)"
      by (cases y) simp_all
    then obtain r' where "z = Some (f, r')" "rd_bytes r' = rest" by auto
    with y z show "\<exists>r'. read_frame cfg r = Some (Inr (Some (f, r'))) \<and> rd_bytes r' = rest" by simp }
qed

lemma read_frames_decode:
  assumes "config_ok cfg" "length (rd_bytes r) \<le> n"
  shows "read_frames n cfg r = decode_all (dec_frame cfg) (rd_bytes r)"
  using assms(2)
proof (induction n arbitrary: r)
  case 0
  then show ?case by (simp add: frame_wire.decode_all_Nil)
next
  case (Suc n)
  show ?case
  proof (cases "dec_frame cfg (rd_bytes r)")
    case None
    then have "\<nexists>f r'. read_frame cfg r = Some (Inr (Some (f, r')))" using read_frame_dec(1)[OF assms(1)] by fastforce
    then show ?thesis using None
      by (subst decode_all.simps) (auto split: option.splits sum.splits)
  next
    case (Some x)
    obtain f rest where x: "x = (f, rest)" by fastforce
    note lt = dec_frame_shorter[OF assms(1) Some[unfolded x]]
    from read_frame_dec(2)[OF assms(1) Some[unfolded x]] obtain r' where
      "read_frame cfg r = Some (Inr (Some (f, r')))" "rd_bytes r' = rest" by blast
    with Suc(1)[of r'] Suc(2) lt Some x show ?thesis
      by (subst decode_all.simps) simp
  qed
qed

section \<open>The writer's batch\<close>

lemma conn_write_frame_config: "conn_write_frame w sid seq fl pl c = (res, w', c') \<Longrightarrow> config c' = config c"
  by (auto simp: conn_write_frame_def config_def split: prod.splits sum.splits)

text \<open>The frame on the wire of a queued one; a version 2 frame has no sequence number.\<close>

fun plain_frame :: "outbound_frame \<Rightarrow> inbound_frame" where
  "plain_frame (Plain sid fl pl) = (sid, 0, fl, pl)"
| "plain_frame (Recovery sid fl pl t) = (sid, 0, fl, pl)"
| "plain_frame CloseMarker = (0, 0, 0, [])"

lemma write_plain_out:
  assumes "write_plain_frame_no_flush w f c = (res, w', c')" "f \<noteq> CloseMarker"
  shows "config c' = config c" "res = Inr u \<Longrightarrow> wr_out w' = wr_out w @ wire_frame (config c) (plain_frame f)"
    "\<exists>p. wr_out w' = wr_out w @ p \<and> prefix p (wire_frame (config c) (plain_frame f))"
proof -
  have [simp]: "config (c\<lparr>c_queued := q\<rparr>) = config c" for q by (simp add: config_def)
  have w: "config c' = config d \<and> (res = Inr u \<longrightarrow> wr_out w' = wr_out w @ wire_frame (config d) (sid, 0, fl, pl)) \<and>
      (\<exists>p. wr_out w' = wr_out w @ p \<and> prefix p (wire_frame (config d) (sid, 0, fl, pl)))"
    if "conn_write_frame w sid 0 fl pl d = (res, w', c')" for sid fl pl d res
    using conn_write_frame_config[OF that] that write_frame_ok_out(1) write_frame_prefix
    by (fastforce simp: conn_write_frame_def simp del: wire_frame.simps split: prod.splits sum.splits)
  from assms show "config c' = config c"
    by (cases f) (auto simp: write_plain_frame_no_flush_def dest!: w)
  from assms show "res = Inr u \<Longrightarrow> wr_out w' = wr_out w @ wire_frame (config c) (plain_frame f)"
    by (cases f) (auto simp: write_plain_frame_no_flush_def simp del: wire_frame.simps dest!: w)
  from assms show "\<exists>p. wr_out w' = wr_out w @ p \<and> prefix p (wire_frame (config c) (plain_frame f))"
    by (cases f) (auto simp: write_plain_frame_no_flush_def simp del: wire_frame.simps dest!: w)
qed

lemma plain_batch_out:
  assumes "plain_batch io fs w c = (t, rest, w', c')" "CloseMarker \<notin> set fs"
  shows "(\<exists>p. wr_out w' = wr_out w @ p \<and> prefix p (concat (map (wire_frame (config c)) (map plain_frame fs)))) \<and>
    (t = Running \<longrightarrow> wr_out w' = wr_out w @ concat (map (wire_frame (config c)) (map plain_frame fs)) \<and> rest = [])"
  using assms
proof (induction fs arbitrary: w c)
  case (Cons f fs)
  obtain res w1 c1 where x: "write_plain_frame_no_flush w f c = (res, w1, c1)" by (metis prod_cases3)
  from Cons(3) have f: "f \<noteq> CloseMarker" by auto
  note o = write_plain_out[OF x f]
  show ?case
  proof (cases res)
    case (Inl e)
    with Cons(2) x f have "t = Done" "w' = w1" by auto
    with o(3) show ?thesis by (auto intro: prefix_order.trans simp del: wire_frame.simps)
  next
    case (Inr u)
    with Cons(2) x f have "plain_batch io fs w1 c1 = (t, rest, w', c')" by simp
    with Cons(1)[of w1 c1] Cons(3) o(1) o(2)[OF Inr] show ?thesis
      by (auto simp del: wire_frame.simps)
  qed
qed simp

lemma plain_batch_good:
  assumes "config_ok (config c)" "good_writer w" "\<forall>f \<in> set fs. f \<noteq> CloseMarker \<and> frame_ok (config c) (plain_frame f)"
  shows "\<exists>w' c'. plain_batch io (fs @ gs) w c = plain_batch io gs w' c' \<and> good_writer w' \<and> config c' = config c \<and>
    wr_out w' = wr_out w @ concat (map (wire_frame (config c)) (map plain_frame fs)) \<and> wr_shut w' = wr_shut w"
  using assms
proof (induction fs arbitrary: w c)
  case (Cons f fs)
  have cq: "config (c\<lparr>c_queued := q\<rparr>) = config c" for q by (simp add: config_def)
  have one: "\<exists>w1 c1. conn_write_frame w sid 0 fl pl d = (Inr (), w1, c1) \<and> good_writer w1 \<and> config c1 = config d \<and>
      wr_out w1 = wr_out w @ wire_frame (config d) (sid, 0, fl, pl) \<and> wr_shut w1 = wr_shut w"
    if "config_ok (config d)" "length pl \<le> unat (cc_max_frame (config d))" for sid fl pl d
    using write_frame_good[OF that(1) Cons(3) that(2), of sid 0 fl] Cons(3)
    by (simp add: conn_write_frame_def config_def del: wire_frame.simps)
  from Cons(4) have f: "f \<noteq> CloseMarker" "frame_ok (config c) (plain_frame f)" by simp_all
  obtain w1 c1 where x: "write_plain_frame_no_flush w f c = (Inr (), w1, c1)" "good_writer w1" "config c1 = config c"
    "wr_out w1 = wr_out w @ wire_frame (config c) (plain_frame f)" "wr_shut w1 = wr_shut w"
  proof (cases f)
    case (Plain sid fl pl)
    with f(2) one[of c pl sid fl] that show thesis by (auto simp: write_plain_frame_no_flush_def simp del: wire_frame.simps)
  next
    case (Recovery sid fl pl t)
    with f(2) one[of "c\<lparr>c_queued := (t, Inr ()) # c_queued c\<rparr>" pl sid fl] that show thesis
      by (auto simp: write_plain_frame_no_flush_def cq simp del: wire_frame.simps)
  qed (use f in simp)
  have "\<forall>f \<in> set fs. f \<noteq> CloseMarker \<and> frame_ok (config c1) (plain_frame f)" using Cons(4) x(3) by simp
  from Cons(1)[OF _ x(2) this] Cons(2) x(3) obtain w' c' where
    "plain_batch io (fs @ gs) w1 c1 = plain_batch io gs w' c'" "good_writer w'" "config c' = config c"
    "wr_out w' = wr_out w1 @ concat (map (wire_frame (config c)) (map plain_frame fs))" "wr_shut w' = wr_shut w1"
    by auto
  with x f(1) show ?case by (auto simp del: wire_frame.simps)
qed auto

section \<open>Properties\<close>

text \<open>
  C29: The read loop is the reference decoder. \<open>read_frame\<close> gives on every transport what the
  reference gives on its bytes, however they are cut into chunks and however the transport ends, and
  does not panic on the header.
\<close>

theorem read_frame_reference:
  assumes "build_config reg hc = Inr cfg"
  shows "same_bytes (read_frame cfg r) = frame_of_bytes cfg (rd_bytes r) (rd_end r) \<and> read_frame cfg r \<noteq> None"
proof -
  from assms have ok: "config_ok cfg" by (rule build_config_ok)
  have "frame_of_bytes cfg bs fin \<noteq> None" for bs fin
  proof (cases "length bs < cc_header_len cfg")
    case False
    with config_ok_header_len[OF ok] have "2 \<le> length (take (cc_header_len cfg) bs)" by simp
    from parse_header_no_panic[OF this, of "cc_version cfg"] show ?thesis
      by (auto simp: frame_of_bytes_def Let_def split: option.splits sum.splits)
  qed (simp add: frame_of_bytes_def Let_def)
  with read_frame_equiv[OF ok, of r] have "same_bytes (read_frame cfg r) \<noteq> None" by simp
  then have "read_frame cfg r \<noteq> None" by (auto simp: same_bytes_def)
  with read_frame_equiv[OF ok, of r] show ?thesis by blast
qed

lemma read_frame_reference_witness:
  "\<exists>cfg. build_config (ensure_builtin_codecs new_codec_registry)
       \<lparr>hc_version = 3, hc_codec_id = CodecPostcard, hc_max_frame = 1024\<rparr> = Inr cfg \<and>
     read_frame cfg \<lparr>rd_chunks = [[3], [0, 0, 0]], rd_end = None\<rparr> \<noteq> None \<and>
     same_bytes (read_frame cfg \<lparr>rd_chunks = [[3], [0, 0, 0]], rd_end = None\<rparr>) = Some (Inl (Io UnexpectedEof))"
proof -
  let ?cfg = "\<lparr>cc_version = 3, cc_codec_id = CodecPostcard, cc_max_frame = 1024, cc_header_len = 18\<rparr>"
  have b: "build_config (ensure_builtin_codecs new_codec_registry)
       \<lparr>hc_version = 3, hc_codec_id = CodecPostcard, hc_max_frame = 1024\<rparr> = Inr ?cfg" by code_simp
  have "frame_of_bytes ?cfg [3, 0, 0, 0] None = Some (Inl (Io UnexpectedEof))"
    by (simp add: frame_of_bytes_def)
  with read_frame_reference[OF b, of "\<lparr>rd_chunks = [[3], [0, 0, 0]], rd_end = None\<rparr>"] b show ?thesis
    by (auto simp: rd_bytes_def)
qed

text \<open>
  C28: Frames survive the transport. What the batch of a version 2 writer leaves on its transport,
  even if a write fails halfway, reads back as a prefix of the frames queued, whatever part of it
  arrives and in whatever chunks; and as exactly those frames if all was written and arrives.
\<close>

theorem queued_frames_arrive_in_order:
  assumes "plain_batch io fs w c = (t, rest, w', c')" "wr_out w = []" "config_ok (config c)"
    "\<forall>f \<in> set fs. f \<noteq> CloseMarker \<and> frame_ok (config c) (plain_frame f)"
    "prefix (rd_bytes r) (wr_out w')" "length (rd_bytes r) \<le> n"
  shows "prefix (read_frames n (config c) r) (map plain_frame fs) \<and>
    (t = Running \<and> rd_bytes r = wr_out w' \<longrightarrow> read_frames n (config c) r = map plain_frame fs)"
proof -
  let ?cfg = "config c" and ?fs = "map plain_frame fs"
  from assms(4) have ok: "list_all (frame_ok ?cfg) ?fs" and nc: "CloseMarker \<notin> set fs" by (auto simp: list_all_iff)
  from plain_batch_out[OF assms(1) nc] assms(2) have out: "prefix (wr_out w') (concat (map (wire_frame ?cfg) ?fs))"
    "t = Running \<longrightarrow> wr_out w' = concat (map (wire_frame ?cfg) ?fs)" by auto
  from read_frames_decode[OF assms(3,6)] have eq: "read_frames n ?cfg r = decode_all (dec_frame ?cfg) (rd_bytes r)" .
  from frame_wire.decode_all_prefix[OF ok prefix_order.trans[OF assms(5) out(1)]] frame_wire.decode_all_concat[OF ok] out(2)
  show ?thesis unfolding eq by auto
qed

definition ex_cfg2 :: conn_config where
  "ex_cfg2 = \<lparr>cc_version = 2, cc_codec_id = CodecPostcard, cc_max_frame = 1024, cc_header_len = 10\<rparr>"

definition ex_plain_conn :: "(bytes, bytes) connection" where
  "ex_plain_conn = (new_unstarted False False False)\<lparr>c_config := Some ex_cfg2\<rparr>"

lemma ex_cfg2_ok: "config_ok ex_cfg2" by (simp add: config_ok_def ex_cfg2_def) code_simp

lemma ex_plain_config: "config ex_plain_conn = ex_cfg2" by (simp add: config_def ex_plain_conn_def)

lemma queued_frames_arrive_in_order_witness:
  "let x = plain_batch (\<lambda>k. ''io'') [Plain 1 0 [7], Plain 2 1 []]
         \<lparr>wr_out = [], wr_room = None, wr_flush_error = None, wr_shut = False\<rparr> ex_plain_conn;
       r = \<lparr>rd_chunks = [take 3 (wr_out (fst (snd (snd x)))), drop 3 (wr_out (fst (snd (snd x))))], rd_end = None\<rparr>
   in fst x = Running \<and> read_frames 100 ex_cfg2 r = [(1, 0, 0, [7]), (2, 0, 1, [])]"
proof -
  let ?w = "\<lparr>wr_out = [], wr_room = None, wr_flush_error = None, wr_shut = False\<rparr>"
  let ?fs = "[Plain 1 0 [7], Plain 2 1 []]"
  obtain t rest w' c' where x: "plain_batch (\<lambda>k. ''io'') ?fs ?w ex_plain_conn = (t, rest, w', c')" by (metis prod_cases4)
  have ok: "\<forall>f \<in> set ?fs. f \<noteq> CloseMarker \<and> frame_ok ex_cfg2 (plain_frame f)"
    using ex_cfg2_ok by (simp add: ex_cfg2_def version_defs SUPPORTED_FRAME_FLAGS_def FRAME_FLAG_FIN_def
        FRAME_FLAG_META_def FRAME_FLAG_EXT_def)
  have "case plain_batch (\<lambda>k. ''io'') ?fs ?w ex_plain_conn of (t, rest, w', c') \<Rightarrow> t = Running \<and> length (wr_out w') \<le> 100"
    by code_simp
  with x have t: "t = Running" "length (wr_out w') \<le> 100" by simp_all
  let ?r = "\<lparr>rd_chunks = [take 3 (wr_out w'), drop 3 (wr_out w')], rd_end = None\<rparr>"
  have r: "rd_bytes ?r = wr_out w'" by (simp add: rd_bytes_def)
  have "read_frames 100 (config ex_plain_conn) ?r = map plain_frame ?fs"
    using queued_frames_arrive_in_order[OF x, of ?r 100] ok ex_cfg2_ok t r unfolding ex_plain_config by simp
  with x t show ?thesis by (simp add: Let_def ex_plain_config)
qed

text \<open>
  C35: \<open>close\<close> sends what was queued before it. On a transport that takes the writes, the writer
  of a version 2 connection writes every frame queued before the close marker, then shuts the
  transport down and reports success.
\<close>

theorem close_flushes_the_queue:
  assumes "config_ok (config c)" "good_writer w" "\<forall>f \<in> set fs. f \<noteq> CloseMarker \<and> frame_ok (config c) (plain_frame f)"
    "c_outbound c = fs @ [CloseMarker]"
  shows "\<exists>w' c'. plain_writer_frames io (Some w) c = (Done, Some w', c') \<and>
    wr_out w' = wr_out w @ concat (map (wire_frame (config c)) (map plain_frame fs)) \<and> wr_shut w' \<and>
    c_written c' = Some True \<and> c_outbound c' = [] \<and> \<not> c_outbound_open c'"
proof -
  from plain_batch_good[OF assms(1-3), of io "[CloseMarker]"] obtain w1 c1 where
    b: "plain_batch io (c_outbound c) w c = plain_batch io [CloseMarker] w1 c1" and w1: "good_writer w1"
      "wr_out w1 = wr_out w @ concat (map (wire_frame (config c)) (map plain_frame fs))"
    unfolding assms(4) by blast
  have "shutdown w1 = (Inr (), w1\<lparr>wr_shut := True\<rparr>)" using w1(1) by (simp add: shutdown_def)
  with b w1(2) assms(4) show ?thesis
    by (simp add: plain_writer_frames_def end_writer_def del: wire_frame.simps)
qed

lemma close_flushes_the_queue_witness:
  "let c = ex_plain_conn\<lparr>c_outbound := [Plain 1 0 [7], CloseMarker]\<rparr>;
       w = \<lparr>wr_out = [], wr_room = None, wr_flush_error = None, wr_shut = False\<rparr>
   in \<exists>w' c'. plain_writer_frames (\<lambda>k. ''io'') (Some w) c = (Done, Some w', c') \<and>
      wr_out w' = wire_frame ex_cfg2 (1, 0, 0, [7]) \<and> wr_shut w' \<and> c_written c' = Some True"
proof -
  let ?c = "ex_plain_conn\<lparr>c_outbound := [Plain 1 0 [7], CloseMarker]\<rparr>"
  let ?w = "\<lparr>wr_out = [], wr_room = None, wr_flush_error = None, wr_shut = False\<rparr>"
  have cfg: "config ?c = ex_cfg2" by (simp add: config_def ex_plain_conn_def)
  have ok: "\<forall>f \<in> set [Plain 1 0 [7]]. f \<noteq> CloseMarker \<and> frame_ok (config ?c) (plain_frame f)"
    using ex_cfg2_ok unfolding cfg by (simp add: ex_cfg2_def version_defs)
  have w: "good_writer ?w" by (simp add: good_writer_def)
  from close_flushes_the_queue[OF _ w ok, of "\<lambda>k. ''io''"] ex_cfg2_ok show ?thesis
    unfolding cfg by (simp add: Let_def del: wire_frame.simps) blast
qed

text \<open>
  A message that was encoded can be written: \<open>encode_message\<close> has checked its size against
  the negotiated limit, so no write of it fails as too large, on any transport and in either version.
\<close>

theorem encoded_message_never_too_large:
  assumes "encode_message encode msg c = Inr payload"
    "conn_write_frame w sid seq flags payload c = (Inl e, w', c')"
  shows "\<exists>k. e = Io k"
proof -
  from assms(1) have "length payload \<le> unat (cc_max_frame (config c))"
    by (auto simp: encode_message_def try_res_Inr_iff split: if_splits)
  then have "is_ok (build_header (cc_version (config c)) sid seq flags (length payload) (cc_max_frame (config c)))"
    by (simp add: build_header_ok_iff)
  then obtain h where h: "build_header (cc_version (config c)) sid seq flags (length payload) (cc_max_frame (config c)) = Inr h"
    by (cases "build_header (cc_version (config c)) sid seq flags (length payload) (cc_max_frame (config c))") auto
  have wa: "write_all bs w1 = (Inl e1, w2) \<Longrightarrow> \<exists>k. e1 = Io k" for bs w1 e1 w2
    by (auto simp: write_all_def split: option.splits if_splits)
  from assms(2) h show ?thesis
    by (auto simp: conn_write_frame_def write_frame_counted_def split: prod.splits sum.splits dest: wa)
qed

lemma encoded_message_never_too_large_witness:
  "let w = \<lparr>wr_out = [], wr_room = Some (4, BrokenPipe), wr_flush_error = None, wr_shut = False\<rparr>
   in \<exists>k. fst (conn_write_frame w 1 0 0 [7] ex_plain_conn) = Inl (Io k)"
proof -
  let ?w = "\<lparr>wr_out = [], wr_room = Some (4, BrokenPipe), wr_flush_error = None, wr_shut = False\<rparr>"
  have e: "encode_message (\<lambda>i m. Inr m) [7] ex_plain_conn = Inr [7]"
    by (simp add: encode_message_def ex_plain_config) (simp add: ex_cfg2_def)
  have "is_ok (fst (conn_write_frame ?w 1 0 0 [7] ex_plain_conn)) = False" by code_simp
  then obtain er w' c' where x: "conn_write_frame ?w 1 0 0 [7] ex_plain_conn = (Inl er, w', c')"
    by (cases "conn_write_frame ?w 1 0 0 [7] ex_plain_conn"; cases "fst (conn_write_frame ?w 1 0 0 [7] ex_plain_conn)") auto
  from encoded_message_never_too_large[OF e x] x show ?thesis by auto
qed

end
