(* ===== verification/Transport.thy ===== *)
theory Transport
  imports Errors
begin

text \<open>
  \<open>src/src/transport/mod.rs\<close> and \<open>src/src/transport/uds.rs\<close>: what an address names, and the path of
  a Unix socket. A path is the string of its bytes. The sockets themselves belong to the operating
  system: a dial is a parameter of \<open>dial\<close>, and so are the features the crate was built with.
\<close>

section \<open>Addresses\<close>

datatype endpoint = EndpointTcp string | EndpointUds string

definition parse_endpoint :: "string \<Rightarrow> endpoint" where
  "parse_endpoint addr =
     (case (case strip_prefix ''uds://'' addr of
              Some path \<Rightarrow> Some path | None \<Rightarrow> strip_prefix ''unix://'' addr) of
        Some path \<Rightarrow> EndpointUds path
      | None \<Rightarrow> EndpointTcp (case strip_prefix ''tcp://'' addr of Some a \<Rightarrow> a | None \<Rightarrow> addr))"

definition not_enabled :: "endpoint \<Rightarrow> am_error" where
  "not_enabled self = (case (case self of EndpointTcp addr \<Rightarrow> (''tcp'', addr) | EndpointUds path \<Rightarrow> (''uds'', path)) of
     (name, addr) \<Rightarrow> UnsupportedTransport (name @ '' transport not enabled: '' @ addr))"

definition dial :: "bool \<Rightarrow> bool \<Rightarrow> (string \<Rightarrow> am_error + 'io) \<Rightarrow> (string \<Rightarrow> am_error + 'io) \<Rightarrow> string \<Rightarrow>
    am_error + 'io" where
  "dial feature_tcp feature_uds dial_tcp dial_uds addr = (case parse_endpoint addr of
     EndpointTcp a \<Rightarrow> if feature_tcp then dial_tcp a else Inl (not_enabled (EndpointTcp a))
   | EndpointUds path \<Rightarrow> if feature_uds then dial_uds path else Inl (not_enabled (EndpointUds path)))"

section \<open>Paths of Unix sockets\<close>

text \<open>\<open>abstract_uds\<close>, for Linux and for the other systems.\<close>

definition abstract_uds :: "bool \<Rightarrow> string \<Rightarrow> am_error + string" where
  "abstract_uds linux name = (if linux then Inr (CHR 0x00 # name) else Inl (Io Unsupported))"

function to_uds_path :: "bool \<Rightarrow> string \<Rightarrow> am_error + string" where
  "to_uds_path linux path =
     (case strip_prefix ''unix://'' path of
        Some stripped \<Rightarrow> to_uds_path linux stripped
      | None \<Rightarrow> (case strip_prefix ''uds://'' path of
          Some stripped \<Rightarrow> to_uds_path linux stripped
        | None \<Rightarrow> (case strip_prefix ''@'' path of
            Some name \<Rightarrow> abstract_uds linux name
          | None \<Rightarrow> Inr path)))"
  by pat_completeness auto
termination
  by (relation "measure (\<lambda>(_, path). length path)") (auto simp: strip_prefix_Some_iff)

declare to_uds_path.simps [simp del]

text \<open>\<open>peer_name\<close> of a socket address: a path, an abstract name, or nothing.\<close>

datatype uds_addr = Pathname string | AbstractName string | Unnamed

definition peer_name :: "uds_addr \<Rightarrow> string option" where
  "peer_name addr = (case addr of
     Pathname path \<Rightarrow> Some path | AbstractName name \<Rightarrow> Some (''@'' @ name) | Unnamed \<Rightarrow> None)"

section \<open>Properties\<close>

lemma to_uds_path_plain:
  assumes "strip_prefix ''unix://'' path = None" "strip_prefix ''uds://'' path = None"
  shows "to_uds_path linux path =
    (case strip_prefix ''@'' path of Some name \<Rightarrow> abstract_uds linux name | None \<Rightarrow> Inr path)"
  using assms by (simp add: to_uds_path.simps[of linux path])

lemma to_uds_path_scheme:
  "to_uds_path linux (''uds://'' @ path) = to_uds_path linux path"
  "to_uds_path linux (''unix://'' @ path) = to_uds_path linux path"
  by (subst to_uds_path.simps, simp)+

lemma to_uds_path_schemes:
  assumes "\<forall>s \<in> set schemes. s = ''uds://'' \<or> s = ''unix://''"
  shows "to_uds_path linux (concat schemes @ name) = to_uds_path linux name"
  using assms
proof (induction schemes)
  case (Cons s schemes)
  then have "s = ''uds://'' \<or> s = ''unix://''" by simp
  then have "to_uds_path linux (s @ concat schemes @ name) = to_uds_path linux (concat schemes @ name)"
    by (elim disjE; simp only: to_uds_path_scheme)
  with Cons show ?case by simp
qed simp

text \<open>
  The name of a socket survives. A listener on a name that has no scheme of its own, below any
  number of \<open>uds://\<close> and \<open>unix://\<close>, is reported to its peers under that name, also if it is abstract
  (\<open>@name\<close>); elsewhere than on Linux an abstract name is refused. (\<open>sockname\<close> is the address that the
  system reports for a socket bound to a path: an abstract one if the path starts with a zero byte.)
\<close>

theorem uds_name_roundtrip:
  assumes "\<And>name. sockname (CHR 0x00 # name) = AbstractName name"
    and "\<And>c path. c \<noteq> CHR 0x00 \<Longrightarrow> sockname (c # path) = Pathname (c # path)"
    and "name \<noteq> []" "hd name \<noteq> CHR 0x00"
    and "strip_prefix ''unix://'' name = None" "strip_prefix ''uds://'' name = None"
    and "\<forall>s \<in> set schemes. s = ''uds://'' \<or> s = ''unix://''"
  shows "case to_uds_path linux (concat schemes @ name) of
      Inr path \<Rightarrow> peer_name (sockname path) = Some name \<and> (linux \<or> hd name \<noteq> CHR ''@'')
    | Inl e \<Rightarrow> e = Io Unsupported \<and> \<not> linux \<and> hd name = CHR ''@''"
proof -
  have "to_uds_path linux (concat schemes @ name) =
      (case strip_prefix ''@'' name of Some name \<Rightarrow> abstract_uds linux name | None \<Rightarrow> Inr name)"
    using to_uds_path_schemes[OF assms(7)] to_uds_path_plain[OF assms(5,6)] by simp
  then show ?thesis
    using assms(1-4) by (cases name) (auto simp: abstract_uds_def peer_name_def)
qed

definition ex_sockname :: "string \<Rightarrow> uds_addr" where
  "ex_sockname path = (case path of
     [] \<Rightarrow> Unnamed | c # name \<Rightarrow> if c = CHR 0x00 then AbstractName name else Pathname path)"

lemma uds_name_roundtrip_witness:
  "case to_uds_path True (concat [''uds://'', ''unix://''] @ ''@am'') of
      Inr path \<Rightarrow> peer_name (ex_sockname path) = Some ''@am'' \<and> (True \<or> hd ''@am'' \<noteq> CHR ''@'')
    | Inl e \<Rightarrow> e = Io Unsupported \<and> \<not> True \<and> hd ''@am'' = CHR ''@''"
  by (rule uds_name_roundtrip) (simp_all add: ex_sockname_def)

end
