(* ===== verification/Server.thy ===== *)
theory Server
  imports RecoveryRuntime Transport
begin

unbundle bit_operations_syntax

text \<open>
  \<open>src/src/server.rs\<close>: a serving server. Its state (\<open>serving\<close>) has the connections it accepted, each
  with the task that serves it (\<open>handle_conn\<close>), the registry of recovery connections that all share
  (\<open>recovery_conns\<close>), and the connections that shutdown will close (\<open>Lifecycle\<close>). A step is one
  task's progress to its next wait, an accept, the stop, or a change of a connection by its own tasks.
  The callbacks of the user are parameters: only whether one is set, and what it returned.
\<close>

section \<open>The configuration\<close>

definition DEFAULT_HANDSHAKE_TIMEOUT :: duration where "DEFAULT_HANDSHAKE_TIMEOUT = from_secs 120"
definition ACCEPT_RETRY_MIN_BACKOFF :: duration where "ACCEPT_RETRY_MIN_BACKOFF = from_millis 5"
definition ACCEPT_RETRY_MAX_BACKOFF :: duration where "ACCEPT_RETRY_MAX_BACKOFF = from_secs 1"

record server =
  sv_has_handlers :: bool
  sv_codecs :: "codec_id list"
  sv_max_frame :: u32
  sv_handshake_timeout :: duration
  sv_stream_queue_size :: nat
  sv_recovery :: server_recovery_options
  sv_on_connect :: bool
  sv_on_disconnect :: bool
  sv_on_new_stream :: bool
  sv_on_close_stream :: bool

definition default_server :: "bool \<Rightarrow> server" where
  "default_server has_handlers =
     \<lparr>sv_has_handlers = has_handlers, sv_codecs = [CodecPostcard, CodecMsgpackCompact, CodecMsgpackMap],
      sv_max_frame = DEFAULT_MAX_FRAME, sv_handshake_timeout = DEFAULT_HANDSHAKE_TIMEOUT,
      sv_stream_queue_size = 0, sv_recovery = default_server_recovery, sv_on_connect = False,
      sv_on_disconnect = False, sv_on_new_stream = False, sv_on_close_stream = False\<rparr>"

definition server_with_codecs :: "codec_id list \<Rightarrow> server \<Rightarrow> server" where
  "server_with_codecs codecs s = s\<lparr>sv_codecs := codecs\<rparr>"

definition server_with_max_frame :: "u32 \<Rightarrow> server \<Rightarrow> server" where
  "server_with_max_frame n s = s\<lparr>sv_max_frame := n\<rparr>"

definition server_with_handshake_timeout :: "duration \<Rightarrow> server \<Rightarrow> server" where
  "server_with_handshake_timeout d s = s\<lparr>sv_handshake_timeout := d\<rparr>"

definition server_with_stream_queue_size :: "nat \<Rightarrow> server \<Rightarrow> server" where
  "server_with_stream_queue_size n s = s\<lparr>sv_stream_queue_size := n\<rparr>"

definition server_with_recovery :: "server_recovery_options \<Rightarrow> server \<Rightarrow> server" where
  "server_with_recovery r s = s\<lparr>sv_recovery := server_normalized r\<rparr>"

section \<open>Accepting\<close>

definition is_peer_error :: "am_error \<Rightarrow> bool" where
  "is_peer_error e = (case e of
     Io k \<Rightarrow> k = ConnectionAborted \<or> k = ConnectionReset \<or> k = ConnectionRefused | _ \<Rightarrow> False)"

text \<open>What the accept loop does with a result: serve the transport, go on, or sleep first.\<close>

datatype 'x accept_action = Serve 'x | AcceptAgain | AcceptAfter duration

definition accept_result :: "am_error + 'x \<Rightarrow> duration \<Rightarrow> 'x accept_action \<times> duration" where
  "accept_result accepted backoff = (case accepted of
     Inr x \<Rightarrow> (Serve x, 0)
   | Inl e \<Rightarrow>
       if is_peer_error e then (AcceptAgain, backoff)
       else let b = min (max (backoff * 2) ACCEPT_RETRY_MIN_BACKOFF) ACCEPT_RETRY_MAX_BACKOFF
            in (AcceptAfter b, b))"

text \<open>
  The deadline of a handshake. \<open>latest\<close> is the latest instant that the platform can represent.
\<close>

definition handshake_deadline :: "nat \<Rightarrow> nat \<Rightarrow> duration \<Rightarrow> nat option" where
  "handshake_deadline latest now timeout =
     (if timeout = 0 then None else if now + timeout \<le> latest then Some (now + timeout) else None)"

text \<open>
  A poll of \<open>handshake_step\<close>. \<open>fut\<close> is the result of the step if it is ready; \<open>StepNone\<close> is the
  \<open>None\<close> of the function.
\<close>

datatype 'a step_poll = StepPending | StepNone | StepValue 'a

definition handshake_step :: "nat option \<Rightarrow> nat \<Rightarrow> bool \<Rightarrow> (am_error + 'a) option \<Rightarrow> 'a step_poll" where
  "handshake_step deadline now stopped fut =
     (if stopped then StepNone
      else (case fut of
        Some (Inr value) \<Rightarrow> StepValue value
      | Some (Inl e) \<Rightarrow> StepNone
      | None \<Rightarrow> (case deadline of
          Some d \<Rightarrow> if d \<le> now then StepNone else StepPending
        | None \<Rightarrow> StepPending)))"

definition tokens_equal :: "recovery_token \<Rightarrow> recovery_token \<Rightarrow> bool" where
  "tokens_equal a b \<longleftrightarrow> foldl (\<lambda>acc (x, y). acc OR (x XOR y)) 0 (zip a b) = 0"

definition default_attach_response :: attach_response where
  "default_attach_response = \<lparr>arp_status = 0, arp_connection_id = replicate RECOVERY_TOKEN_LEN 0,
     arp_resume_secret = replicate RECOVERY_TOKEN_LEN 0, arp_last_recv_seq = 0, arp_negotiated = default_negotiated\<rparr>"

definition reject_attach :: "writer \<Rightarrow> writer" where
  "reject_attach w = snd (write_attach_response (default_attach_response\<lparr>arp_status := ATTACH_STATUS_REJECTED\<rparr>) w)"

section \<open>The state of a serving server\<close>

text \<open>
  The task of a connection, by what it waits for: the handshake, the attach request, the response to
  a new connection or to a resume; then a started connection is tracked, and served until it is
  closed. A task that answered a refused attach keeps the writer with the response.
\<close>

datatype serve_task =
    Handshaking "nat option" reader writer
  | Attaching handshake_config "nat option" reader writer
  | RespondingNew handshake_config recovery_state reader writer
  | RespondingResume nat u64 attach_response reader writer
  | Starting
  | Serving
  | TaskEnded "writer option"

text \<open>
  \<open>sg_tracked\<close> is the map of \<open>Lifecycle\<close>, \<open>None\<close> once the server stops; \<open>sg_closers\<close> the connections
  that the stop has still to close; \<open>sg_connected\<close> and \<open>sg_disconnected\<close> the connections for which
  \<open>on_connect\<close> returned without an error, and \<open>on_disconnect\<close> was called.
\<close>

record ('r, 'j) serving =
  sg_conns :: "('r, 'j) connection list"
  sg_tasks :: "serve_task list"
  sg_registry :: "(recovery_token \<times> nat) list"
  sg_tracked :: "nat list option"
  sg_closers :: "nat list"
  sg_connected :: "nat list"
  sg_disconnected :: "nat list"
  sg_now :: nat

definition serving_init :: "('r, 'j) serving" where
  "serving_init = \<lparr>sg_conns = [], sg_tasks = [], sg_registry = [], sg_tracked = Some [], sg_closers = [],
     sg_connected = [], sg_disconnected = [], sg_now = 0\<rparr>"

abbreviation conn_at :: "('r, 'j) serving \<Rightarrow> nat \<Rightarrow> ('r, 'j) connection" where
  "conn_at g i \<equiv> sg_conns g ! i"

abbreviation stopped :: "('r, 'j) serving \<Rightarrow> bool" where
  "stopped g \<equiv> sg_tracked g = None"

definition put_conn :: "nat \<Rightarrow> ('r, 'j) connection \<Rightarrow> ('r, 'j) serving \<Rightarrow> ('r, 'j) serving" where
  "put_conn i c g = g\<lparr>sg_conns := (sg_conns g)[i := c]\<rparr>"

definition put_task :: "nat \<Rightarrow> serve_task \<Rightarrow> ('r, 'j) serving \<Rightarrow> ('r, 'j) serving" where
  "put_task i t g = g\<lparr>sg_tasks := (sg_tasks g)[i := t]\<rparr>"

text \<open>\<open>on_closed\<close> of the recovery state (\<open>src/src/recovery.rs\<close>): run when a connection is marked closed.\<close>

definition on_closed :: "nat \<Rightarrow> ('r, 'j) serving \<Rightarrow> ('r, 'j) serving" where
  "on_closed i g = (case c_recovery (conn_at g i) of
     None \<Rightarrow> g
   | Some rs \<Rightarrow>
       if rs_has_registry rs \<and> map_of (sg_registry g) (rs_connection_id rs) = Some i
       then g\<lparr>sg_registry := AList.delete (rs_connection_id rs) (sg_registry g)\<rparr> else g)"

text \<open>A change of a connection, with \<open>on_closed\<close> if it closed it.\<close>

definition update_conn :: "nat \<Rightarrow> ('r, 'j) connection \<Rightarrow> ('r, 'j) serving \<Rightarrow> ('r, 'j) serving" where
  "update_conn i c g =
     (if \<not> c_closed (conn_at g i) \<and> c_closed c then on_closed i (put_conn i c g) else put_conn i c g)"

definition close_now :: "nat \<Rightarrow> ('r, 'j) serving \<Rightarrow> ('r, 'j) serving" where
  "close_now i g = update_conn i (mark_closed (conn_at g i)) g"

definition close_conn :: "nat \<Rightarrow> ('r, 'j) serving \<Rightarrow> ('r, 'j) serving" where
  "close_conn i g = update_conn i (snd (close_begin (conn_at g i))) g"

section \<open>The task of a connection\<close>

text \<open>\<open>Attached::Refused\<close>.\<close>

definition refuse :: "nat \<Rightarrow> writer option \<Rightarrow> ('r, 'j) serving \<Rightarrow> ('r, 'j) serving" where
  "refuse i w g = put_task i (TaskEnded w) (close_now i g)"

definition accept_conn :: "server \<Rightarrow> nat \<Rightarrow> reader \<Rightarrow> writer \<Rightarrow> ('r, 'j) serving \<Rightarrow> ('r, 'j) serving" where
  "accept_conn sv latest r w g =
     (let c = set_stream_queue_size (sv_stream_queue_size sv)
            (new_unstarted (sv_has_handlers sv) (sv_on_new_stream sv) (sv_on_close_stream sv));
          deadline = handshake_deadline latest (sg_now g) (sv_handshake_timeout sv)
      in g\<lparr>sg_conns := sg_conns g @ [c], sg_tasks := sg_tasks g @ [Handshaking deadline r w]\<rparr>)"

text \<open>
  What a step needs from outside: whether the I/O it waits for is done, whether \<open>on_connect\<close> returns
  \<open>Ok\<close>, and the tokens that \<open>new_recovery_token\<close> draws.
\<close>

record serve_input =
  in_ready :: bool
  in_connect_ok :: bool
  in_token :: recovery_token
  in_secret :: recovery_token

text \<open>\<open>start\<close>: whether the connection started. Its tasks, reader included, are steps of their own.\<close>

definition server_start :: "server \<Rightarrow> codec_registry \<Rightarrow> bool \<Rightarrow> handshake_config \<Rightarrow> recovery_state option \<Rightarrow>
    reader \<Rightarrow> writer \<Rightarrow> nat \<Rightarrow> ('r, 'j) serving \<Rightarrow> bool \<times> ('r, 'j) serving" where
  "server_start sv reg connect_ok hc rs r w i g =
     (if sv_on_connect sv \<and> \<not> connect_ok then (False, g)
      else let g1 = (if sv_on_connect sv then g\<lparr>sg_connected := sg_connected g @ [i]\<rparr> else g)
           in (case start_with_config reg hc rs 0 r w (conn_at g1 i) of
                 Inl e \<Rightarrow> (False, g1)
               | Inr (started, c) \<Rightarrow> (True, update_conn i c g1)))"

definition attach_new_begin :: "server \<Rightarrow> serve_input \<Rightarrow> handshake_config \<Rightarrow> reader \<Rightarrow> writer \<Rightarrow> nat \<Rightarrow>
    ('r, 'j) serving \<Rightarrow> ('r, 'j) serving" where
  "attach_new_begin sv inp hc r w i g =
     (let recovery = new_server (sv_recovery sv) (in_token inp) (in_secret inp)
      in put_task i (RespondingNew hc recovery r w)
           (g\<lparr>sg_registry := AList.update (in_token inp) i (sg_registry g)\<rparr>))"

definition attach_new_response :: "server \<Rightarrow> recovery_state \<Rightarrow> attach_response" where
  "attach_new_response sv rs =
     \<lparr>arp_status = ATTACH_STATUS_OK, arp_connection_id = rs_connection_id rs,
      arp_resume_secret = rs_resume_secret rs, arp_last_recv_seq = 0,
      arp_negotiated = server_negotiated (sv_recovery sv)\<rparr>"

definition attach_new_end :: "server \<Rightarrow> codec_registry \<Rightarrow> bool \<Rightarrow> handshake_config \<Rightarrow> recovery_state \<Rightarrow>
    reader \<Rightarrow> writer \<Rightarrow> nat \<Rightarrow> ('r, 'j) serving \<Rightarrow> ('r, 'j) serving" where
  "attach_new_end sv reg connect_ok hc rs r w i g =
     (case (case write_attach_response (attach_new_response sv rs) w of
              (Inr _, w') \<Rightarrow> server_start sv reg connect_ok hc (Some rs) r w' i g
            | (Inl e, w') \<Rightarrow> (False, g)) of
        (True, g1) \<Rightarrow> put_task i Starting g1
      | (False, g1) \<Rightarrow>
          refuse i None (g1\<lparr>sg_registry := AList.delete (rs_connection_id rs) (sg_registry g1)\<rparr>))"

definition resume_target :: "handshake_config \<Rightarrow> attach_request \<Rightarrow> ('r, 'j) serving \<Rightarrow> (nat \<times> recovery_state) option" where
  "resume_target hc req g = (case map_of (sg_registry g) (arq_connection_id req) of
     None \<Rightarrow> None
   | Some j \<Rightarrow> (case c_recovery (conn_at g j) of
       None \<Rightarrow> None
     | Some rs \<Rightarrow>
         if \<not> c_closed (conn_at g j) \<and> cc_codec_id (config (conn_at g j)) = hc_codec_id hc \<and>
            tokens_equal (rs_resume_secret rs) (arq_resume_secret req)
         then Some (j, rs) else None))"

definition resume_response :: "recovery_state \<Rightarrow> attach_response" where
  "resume_response rs =
     \<lparr>arp_status = ATTACH_STATUS_OK, arp_connection_id = rs_connection_id rs,
      arp_resume_secret = rs_resume_secret rs, arp_last_recv_seq = last_received rs,
      arp_negotiated = negotiated rs\<rparr>"

definition attach_resume_begin :: "handshake_config \<Rightarrow> attach_request \<Rightarrow> reader \<Rightarrow> writer \<Rightarrow> nat \<Rightarrow>
    ('r, 'j) serving \<Rightarrow> ('r, 'j) serving" where
  "attach_resume_begin hc req r w i g = (case resume_target hc req g of
     None \<Rightarrow> refuse i (Some (reject_attach w)) g
   | Some (j, rs) \<Rightarrow>
       put_task i (RespondingResume j (arq_last_recv_seq req) (resume_response rs) r w) g)"

definition attach_resume_end :: "nat \<Rightarrow> u64 \<Rightarrow> attach_response \<Rightarrow> reader \<Rightarrow> writer \<Rightarrow> nat \<Rightarrow>
    ('r, 'j) serving \<Rightarrow> ('r, 'j) serving" where
  "attach_resume_end j last_recv_seq resp r w i g = (case write_attach_response resp w of
     (Inl e, w') \<Rightarrow> refuse i None g
   | (Inr _, w') \<Rightarrow> put_task i (TaskEnded None)
        (update_conn j (snd (attach_transport_parts r w' last_recv_seq (conn_at g j))) g))"

text \<open>The match of \<open>attach\<close> on the mode of the request.\<close>

definition server_attach :: "server \<Rightarrow> serve_input \<Rightarrow> handshake_config \<Rightarrow> attach_request \<Rightarrow> reader \<Rightarrow> writer \<Rightarrow>
    nat \<Rightarrow> ('r, 'j) serving \<Rightarrow> ('r, 'j) serving" where
  "server_attach sv inp hc req r w i g =
     (if arq_mode req = ATTACH_MODE_NEW then attach_new_begin sv inp hc r w i g
      else if arq_mode req = ATTACH_MODE_RESUME then attach_resume_begin hc req r w i g
      else refuse i (Some (reject_attach w)) g)"

definition track :: "nat \<Rightarrow> ('r, 'j) serving \<Rightarrow> bool \<times> ('r, 'j) serving" where
  "track i g = (case sg_tracked g of
     Some conns \<Rightarrow> (True, g\<lparr>sg_tracked := Some (i # conns)\<rparr>) | None \<Rightarrow> (False, g))"

definition untrack :: "nat \<Rightarrow> ('r, 'j) serving \<Rightarrow> ('r, 'j) serving" where
  "untrack i g = (case sg_tracked g of
     Some conns \<Rightarrow> g\<lparr>sg_tracked := Some (removeAll i conns)\<rparr> | None \<Rightarrow> g)"

text \<open>\<open>handle_conn\<close>: the progress of a task to its next wait.\<close>

definition handle_conn :: "server \<Rightarrow> codec_registry \<Rightarrow> serve_input \<Rightarrow> nat \<Rightarrow> ('r, 'j) serving \<Rightarrow> ('r, 'j) serving" where
  "handle_conn sv reg inp i g = (case sg_tasks g ! i of
     Handshaking deadline r w \<Rightarrow>
       (case handshake_server reg (sv_codecs sv) (sv_max_frame sv) (sro_enable (sv_recovery sv)) r w of
          (res, w') \<Rightarrow> (case handshake_step deadline (sg_now g) (stopped g) (if in_ready inp then Some res else None) of
              StepPending \<Rightarrow> g
            | StepNone \<Rightarrow> refuse i None g
            | StepValue (hc, r') \<Rightarrow>
                if hc_version hc \<noteq> PROTOCOL_VERSION_V3
                then (case server_start sv reg (in_connect_ok inp) hc None r' w' i g of
                    (True, g1) \<Rightarrow> put_task i Starting g1
                  | (False, g1) \<Rightarrow> refuse i None g1)
                else put_task i (Attaching hc deadline r' w') g))
   | Attaching hc deadline r w \<Rightarrow>
       (case handshake_step deadline (sg_now g) (stopped g)
               (if in_ready inp then Some (read_attach_request r) else None) of
          StepPending \<Rightarrow> g
        | StepNone \<Rightarrow> refuse i None g
        | StepValue (req, r') \<Rightarrow> server_attach sv inp hc req r' w i g)
   | RespondingNew hc rs r w \<Rightarrow>
       if in_ready inp then attach_new_end sv reg (in_connect_ok inp) hc rs r w i g else g
   | RespondingResume j n resp r w \<Rightarrow>
       if in_ready inp then attach_resume_end j n resp r w i g else g
   | Starting \<Rightarrow> (case track i g of
         (True, g1) \<Rightarrow> put_task i Serving g1
       | (False, g1) \<Rightarrow> put_task i Serving (close_conn i g1))
   | Serving \<Rightarrow>
       if \<not> c_closed (conn_at g i) then g
       else let g1 = put_task i (TaskEnded None) (untrack i g)
            in if sv_on_disconnect sv then g1\<lparr>sg_disconnected := sg_disconnected g1 @ [i]\<rparr> else g1
   | TaskEnded w \<Rightarrow> g)"

text \<open>\<open>Lifecycle::stop\<close>; the connections it returns are closed by tasks of their own.\<close>

definition stop :: "('r, 'j) serving \<Rightarrow> ('r, 'j) serving" where
  "stop g = g\<lparr>sg_tracked := None,
     sg_closers := sg_closers g @ (case sg_tracked g of Some conns \<Rightarrow> conns | None \<Rightarrow> [])\<rparr>"

section \<open>The steps\<close>

text \<open>
  What the tasks of a started connection may do to it, as far as the server depends on it: they never
  open it again, nor change its configuration or the identity of its recovery state.
\<close>

definition rec_ident :: "('r, 'j) connection \<Rightarrow> (recovery_token \<times> recovery_token \<times> bool) option" where
  "rec_ident c = map_option (\<lambda>rs. (rs_connection_id rs, rs_resume_secret rs, rs_has_registry rs)) (c_recovery c)"

definition conn_event :: "('r, 'j) connection \<Rightarrow> ('r, 'j) connection \<Rightarrow> bool" where
  "conn_event c c' \<longleftrightarrow> (c_closed c \<longrightarrow> c_closed c') \<and> (c_closing c \<longrightarrow> c_closing c') \<and>
     (c_writer_started c \<longrightarrow> c_writer_started c') \<and> c_config c' = c_config c \<and> rec_ident c' = rec_ident c"

text \<open>Tokens are 128 random bits: one drawn is not in use. A secret has the length of its array type.\<close>

definition fresh_tokens :: "serve_input \<Rightarrow> ('r, 'j) serving \<Rightarrow> bool" where
  "fresh_tokens inp g \<longleftrightarrow> in_token inp \<notin> fst ` set (sg_registry g) \<and> length (in_secret inp) = RECOVERY_TOKEN_LEN"

inductive serve_step :: "server \<Rightarrow> codec_registry \<Rightarrow> nat \<Rightarrow> ('r, 'j) serving \<Rightarrow> ('r, 'j) serving \<Rightarrow> bool"
  for sv reg latest where
  Accept: "\<not> stopped g \<Longrightarrow> serve_step sv reg latest g (accept_conn sv latest r w g)"
| Task: "i < length (sg_tasks g) \<Longrightarrow> fresh_tokens inp g \<Longrightarrow> serve_step sv reg latest g (handle_conn sv reg inp i g)"
| Stop: "serve_step sv reg latest g (stop g)"
| Close: "sg_closers g = xs @ i # ys \<Longrightarrow>
    serve_step sv reg latest g (close_conn i (g\<lparr>sg_closers := xs @ ys\<rparr>))"
| Connection: "i < length (sg_conns g) \<Longrightarrow> c_writer_started (conn_at g i) \<Longrightarrow> conn_event (conn_at g i) c \<Longrightarrow>
    serve_step sv reg latest g (update_conn i c g)"
| Tick: "sg_now g \<le> now \<Longrightarrow> serve_step sv reg latest g (g\<lparr>sg_now := now\<rparr>)"

inductive_cases serve_stepE: "serve_step sv reg latest g g'"

end
