(* ===== verification/ServerProperties.thy ===== *)
theory ServerProperties
  imports Server RecoveryFields
begin

text \<open>
  The invariant of a serving server, by cases over its steps. For each connection it says what state
  it is in by what its task waits for, whether the registry has an entry for it, and whether a stop
  will close it.
\<close>

section \<open>What the operations on a connection keep\<close>

lemma close_one_event [simp]:
  "c_recovery (notify_close r (close_and_count r c)) = c_recovery c"
  "c_config (notify_close r (close_and_count r c)) = c_config c"
  "c_writer_started (notify_close r (close_and_count r c)) = c_writer_started c"
  "c_closing (notify_close r (close_and_count r c)) = c_closing c"
  by (simp_all add: notify_close_def close_and_count_def close_channels_def)

lemma close_fold_event [simp]:
  fixes xs :: "(u32 \<times> nat) list"
  shows "c_recovery (fold (\<lambda>(sid, r) c. notify_close r (close_and_count r c)) xs c) = c_recovery c"
    "c_config (fold (\<lambda>(sid, r) c. notify_close r (close_and_count r c)) xs c) = c_config c"
    "c_writer_started (fold (\<lambda>(sid, r) c. notify_close r (close_and_count r c)) xs c) = c_writer_started c"
    "c_closing (fold (\<lambda>(sid, r) c. notify_close r (close_and_count r c)) xs c) = c_closing c"
  by (induction xs arbitrary: c) (simp_all add: split_def)

lemma close_all_event [simp]:
  "c_recovery (close_all_streams c) = c_recovery c" "c_config (close_all_streams c) = c_config c"
  "c_writer_started (close_all_streams c) = c_writer_started c" "c_closing (close_all_streams c) = c_closing c"
  by (simp_all add: close_all_streams_def)

lemma mark_closed_event [simp]:
  "c_recovery (mark_closed c) = c_recovery c" "c_config (mark_closed c) = c_config c"
  "c_writer_started (mark_closed c) = c_writer_started c" "c_closing (mark_closed c) = c_closing c"
  by (simp_all add: mark_closed_def abort_reader_def)

lemma conn_event_refl [simp]: "conn_event c c"
  by (simp add: conn_event_def)

lemma conn_event_trans: "conn_event a b \<Longrightarrow> conn_event b c \<Longrightarrow> conn_event a c"
  by (auto simp: conn_event_def)

lemma event_recovery:
  assumes "conn_event c c'"
  shows "case c_recovery c' of None \<Rightarrow> c_recovery c = None
    | Some rs' \<Rightarrow> (\<exists>rs. c_recovery c = Some rs \<and> rs_connection_id rs = rs_connection_id rs' \<and>
        rs_resume_secret rs = rs_resume_secret rs' \<and> rs_has_registry rs = rs_has_registry rs')"
  using assms by (cases "c_recovery c"; cases "c_recovery c'") (auto simp: conn_event_def rec_ident_def)

text \<open>The operations of the tasks of a connection are events: of the closing, and of the transports.\<close>

lemma conn_event_ops [simp]:
  "conn_event c (mark_closed c)" "conn_event c (snd (close_begin c))" "conn_event c (snd (close_by_peer c))"
  "conn_event c (snd (attach_transport_parts r w n c))" "conn_event c (detach_transport gen abort c)"
  "conn_event c (server_expiry_fires gen c)"
  by (auto simp: conn_event_def rec_ident_def close_begin_def close_by_peer_def Let_def signal_send_def
      push_outbound_def attach_transport_parts_def abort_reader_def detach_transport_def
      spawn_reconnect_loop_def spawn_server_expiry_def server_expiry_fires_def
      split: option.split recovery_role.split)

lemma close_begin_closing: "c_closing (snd (close_begin c)) \<or> c_closed (snd (close_begin c))"
  by (simp add: close_begin_def Let_def signal_send_def push_outbound_def)

lemma map_of_AList_delete: "map_of (AList.delete k xs) k' = (if k' = k then None else map_of xs k')"
  by (simp add: delete_conv')

lemma map_of_AList_update: "map_of (AList.update k v xs) k' = (if k' = k then Some v else map_of xs k')"
  by (simp add: update_conv')

section \<open>The invariant\<close>

definition pending :: "('r, 'j) connection \<Rightarrow> bool" where
  "pending c \<longleftrightarrow> \<not> c_writer_started c \<and> c_recovery c = None \<and> \<not> c_closed c"

text \<open>The connection that an entry of the registry names: being set up by its task, or open.\<close>

definition entry_ok :: "('r, 'j) serving \<Rightarrow> recovery_token \<Rightarrow> nat \<Rightarrow> bool" where
  "entry_ok g cid j \<longleftrightarrow>
     (\<exists>hc rs r w. sg_tasks g ! j = RespondingNew hc rs r w \<and> rs_connection_id rs = cid) \<or>
     (\<exists>rs. c_recovery (conn_at g j) = Some rs \<and> rs_connection_id rs = cid \<and> \<not> c_closed (conn_at g j))"

text \<open>A connection that a stop will close.\<close>

definition tracks :: "('r, 'j) serving \<Rightarrow> nat \<Rightarrow> bool" where
  "tracks g i \<longleftrightarrow> (case sg_tracked g of Some conns \<Rightarrow> i \<in> set conns | None \<Rightarrow> False)"

definition task_ok :: "server \<Rightarrow> ('r, 'j) serving \<Rightarrow> nat \<Rightarrow> bool" where
  "task_ok sv g i \<longleftrightarrow> (let c = conn_at g i in case sg_tasks g ! i of
     Handshaking d r w \<Rightarrow> pending c
   | Attaching hc d r w \<Rightarrow> pending c
   | RespondingNew hc rs r w \<Rightarrow> pending c \<and> map_of (sg_registry g) (rs_connection_id rs) = Some i \<and>
       rs_has_registry rs \<and> length (rs_resume_secret rs) = RECOVERY_TOKEN_LEN
   | RespondingResume j n resp r w \<Rightarrow> pending c \<and> j < length (sg_conns g) \<and> c_writer_started (conn_at g j)
   | Starting \<Rightarrow> c_writer_started c
   | Serving \<Rightarrow> c_writer_started c \<and> (\<not> stopped g \<longrightarrow> tracks g i) \<and>
       (stopped g \<longrightarrow> c_closing c \<or> c_closed c \<or> i \<in> set (sg_closers g))
   | TaskEnded w \<Rightarrow> c_recovery c = None \<and> \<not> c_writer_started c \<or>
       c_writer_started c \<and> c_closed c \<and> (sv_on_disconnect sv \<longrightarrow> i \<in> set (sg_disconnected g)))"

definition conn_ok :: "server \<Rightarrow> ('r, 'j) serving \<Rightarrow> nat \<Rightarrow> bool" where
  "conn_ok sv g i \<longleftrightarrow> (let c = conn_at g i in
     (\<forall>rs. c_recovery c = Some rs \<longrightarrow> c_writer_started c \<and> rs_has_registry rs \<and>
        length (rs_resume_secret rs) = RECOVERY_TOKEN_LEN \<and>
        (\<not> c_closed c \<longrightarrow> map_of (sg_registry g) (rs_connection_id rs) = Some i)) \<and>
     (c_writer_started c \<and> sv_on_connect sv \<longrightarrow> i \<in> set (sg_connected g)) \<and>
     (i \<in> set (sg_disconnected g) \<longrightarrow> (\<exists>w. sg_tasks g ! i = TaskEnded w) \<and> c_writer_started c \<and> c_closed c) \<and>
     (i \<in> set (sg_closers g) \<or> tracks g i \<longrightarrow> c_writer_started c) \<and>
     task_ok sv g i)"

definition serve_inv :: "server \<Rightarrow> ('r, 'j) serving \<Rightarrow> bool" where
  "serve_inv sv g \<longleftrightarrow> length (sg_tasks g) = length (sg_conns g) \<and> distinct (sg_disconnected g) \<and>
     (\<forall>k. k \<in> set (sg_closers g) \<or> k \<in> set (sg_disconnected g) \<or> tracks g k \<longrightarrow> k < length (sg_conns g)) \<and>
     (\<forall>cid j. map_of (sg_registry g) cid = Some j \<longrightarrow> j < length (sg_conns g) \<and> entry_ok g cid j) \<and>
     (\<forall>i < length (sg_conns g). conn_ok sv g i)"

lemmas inv_defs = serve_inv_def conn_ok_def task_ok_def entry_ok_def Let_def

lemma serve_inv_init: "serve_inv sv serving_init"
  by (simp add: serve_inv_def serving_init_def tracks_def)

text \<open>A step that is about connection and task \<open>i\<close> only.\<close>

lemma inv_local:
  assumes inv: "serve_inv sv g" and i: "i < length (sg_conns g)"
    and g': "sg_conns g' = (sg_conns g)[i := c']" "sg_tasks g' = (sg_tasks g)[i := t']"
    and started: "c_writer_started (conn_at g i) \<Longrightarrow> c_writer_started c'"
    and reg: "\<And>cid k. k \<noteq> i \<Longrightarrow> map_of (sg_registry g') cid = Some k \<longleftrightarrow> map_of (sg_registry g) cid = Some k"
    and entry: "\<And>cid. map_of (sg_registry g') cid = Some i \<Longrightarrow> entry_ok g' cid i"
    and disc: "distinct (sg_disconnected g')"
      "\<And>k. k \<noteq> i \<Longrightarrow> k \<in> set (sg_disconnected g') \<longleftrightarrow> k \<in> set (sg_disconnected g)"
    and closers: "\<And>k. k \<noteq> i \<Longrightarrow> k \<in> set (sg_closers g') \<longleftrightarrow> k \<in> set (sg_closers g)"
    and connected: "set (sg_connected g) \<subseteq> set (sg_connected g')"
    and tracked: "stopped g' = stopped g" "\<And>k. k \<noteq> i \<Longrightarrow> tracks g' k \<longleftrightarrow> tracks g k"
    and ok: "conn_ok sv g' i"
  shows "serve_inv sv g'"
proof -
  have n: "length (sg_conns g') = length (sg_conns g)" by (simp add: g'(1))
  have other: "conn_ok sv g' k" if k: "k < length (sg_conns g)" "k \<noteq> i" for k
  proof -
    from inv k(1) have old: "conn_ok sv g k" by (simp add: serve_inv_def)
    have same: "conn_at g' k = conn_at g k" "sg_tasks g' ! k = sg_tasks g ! k"
      using k(2) by (simp_all add: g')
    have st: "c_writer_started (conn_at g j) \<Longrightarrow> c_writer_started (conn_at g' j)" if "j < length (sg_conns g)" for j
      using that started by (cases "j = i") (simp_all add: g')
    note mem = closers[OF k(2)] disc(2)[OF k(2)] tracked(2)[OF k(2)]
    have "task_ok sv g' k"
      using old st unfolding conn_ok_def task_ok_def Let_def same mem tracked(1) reg[OF k(2)] n
      by (auto split: serve_task.splits)
    with old connected show ?thesis unfolding conn_ok_def Let_def same mem reg[OF k(2)] by auto
  qed
  have "j < length (sg_conns g') \<and> entry_ok g' cid j" if "map_of (sg_registry g') cid = Some j" for cid j
  proof (cases "j = i")
    case True
    with that entry i n show ?thesis by simp
  next
    case False
    with that reg inv have "j < length (sg_conns g)" "entry_ok g cid j" by (auto simp: serve_inv_def)
    with False n show ?thesis by (simp add: entry_ok_def g')
  qed
  moreover have "k < length (sg_conns g)"
    if "k \<in> set (sg_closers g') \<or> k \<in> set (sg_disconnected g') \<or> tracks g' k" for k
    using that i inv closers disc(2) tracked(2) unfolding serve_inv_def by (cases "k = i") auto
  moreover from other ok have "\<forall>k < length (sg_conns g). conn_ok sv g' k" by metis
  moreover have "length (sg_tasks g') = length (sg_conns g')"
    using inv by (simp add: serve_inv_def g')
  ultimately show ?thesis unfolding serve_inv_def using disc(1) n by auto
qed

section \<open>Every step keeps the invariant\<close>

lemma on_closed_fields [simp]:
  "sg_conns (on_closed i g) = sg_conns g" "sg_tasks (on_closed i g) = sg_tasks g"
  "sg_tracked (on_closed i g) = sg_tracked g" "sg_closers (on_closed i g) = sg_closers g"
  "sg_connected (on_closed i g) = sg_connected g" "sg_disconnected (on_closed i g) = sg_disconnected g"
  "sg_now (on_closed i g) = sg_now g"
  by (simp_all add: on_closed_def split: option.split)

lemma put_fields [simp]:
  "sg_conns (put_conn i c g) = (sg_conns g)[i := c]" "sg_tasks (put_conn i c g) = sg_tasks g"
  "sg_registry (put_conn i c g) = sg_registry g" "sg_tracked (put_conn i c g) = sg_tracked g"
  "sg_closers (put_conn i c g) = sg_closers g" "sg_connected (put_conn i c g) = sg_connected g"
  "sg_disconnected (put_conn i c g) = sg_disconnected g" "sg_now (put_conn i c g) = sg_now g"
  "sg_conns (put_task i t g) = sg_conns g" "sg_tasks (put_task i t g) = (sg_tasks g)[i := t]"
  "sg_registry (put_task i t g) = sg_registry g" "sg_tracked (put_task i t g) = sg_tracked g"
  "sg_closers (put_task i t g) = sg_closers g" "sg_connected (put_task i t g) = sg_connected g"
  "sg_disconnected (put_task i t g) = sg_disconnected g" "sg_now (put_task i t g) = sg_now g"
  by (simp_all add: put_conn_def put_task_def)

lemma update_conn_fields [simp]:
  "sg_conns (update_conn i c g) = (sg_conns g)[i := c]" "sg_tasks (update_conn i c g) = sg_tasks g"
  "sg_tracked (update_conn i c g) = sg_tracked g" "sg_closers (update_conn i c g) = sg_closers g"
  "sg_connected (update_conn i c g) = sg_connected g" "sg_disconnected (update_conn i c g) = sg_disconnected g"
  "sg_now (update_conn i c g) = sg_now g"
  by (simp_all add: update_conn_def)

lemma tracks_same: "sg_tracked g' = sg_tracked g \<Longrightarrow> tracks g' k \<longleftrightarrow> tracks g k"
  by (simp add: tracks_def)

lemma tracks_fields [simp]:
  "tracks (update_conn i c g) = tracks g" "tracks (put_task i t g) = tracks g" "tracks (put_conn i c g) = tracks g"
  by (simp_all add: tracks_def fun_eq_iff)

lemma inv_conn:
  assumes "serve_inv sv g" "i < length (sg_conns g)"
  shows "conn_ok sv g i" "task_ok sv g i" "i < length (sg_tasks g)"
    "length (sg_tasks g) = length (sg_conns g)" "distinct (sg_disconnected g)"
  using assms by (simp_all add: serve_inv_def conn_ok_def Let_def)

lemma inv_entry:
  "serve_inv sv g \<Longrightarrow> map_of (sg_registry g) cid = Some j \<Longrightarrow> j < length (sg_conns g) \<and> entry_ok g cid j"
  by (simp add: serve_inv_def)

text \<open>An entry for a connection that was started is its own.\<close>

lemma started_entry:
  assumes "serve_inv sv g" "map_of (sg_registry g) cid = Some i" "c_writer_started (conn_at g i)"
  shows "\<exists>rs. c_recovery (conn_at g i) = Some rs \<and> rs_connection_id rs = cid \<and> \<not> c_closed (conn_at g i)"
proof -
  from inv_entry[OF assms(1,2)] have i: "i < length (sg_conns g)" and e: "entry_ok g cid i" by auto
  from inv_conn(2)[OF assms(1) i] assms(3) e show ?thesis
    by (auto simp: entry_ok_def task_ok_def pending_def Let_def)
qed

lemma update_registry:
  assumes inv: "serve_inv sv g" and i: "i < length (sg_conns g)" and st: "c_writer_started (conn_at g i)"
    and ev: "conn_event (conn_at g i) c"
  shows "map_of (sg_registry (update_conn i c g)) cid =
    (if c_closed c \<and> map_of (sg_registry g) cid = Some i then None else map_of (sg_registry g) cid)"
proof (cases "\<not> c_closed (conn_at g i) \<and> c_closed c")
  case False
  with started_entry[OF inv _ st] ev have "map_of (sg_registry g) cid = Some i \<Longrightarrow> \<not> c_closed c"
    by (auto simp: conn_event_def)
  with False show ?thesis by (auto simp: update_conn_def)
next
  case True
  from inv_conn(1)[OF inv i] have ok: "conn_ok sv g i" .
  show ?thesis
  proof (cases "c_recovery c")
    case None
    with event_recovery[OF ev] have "c_recovery (conn_at g i) = None" by simp
    with started_entry[OF inv _ st] None True i show ?thesis by (auto simp: update_conn_def on_closed_def)
  next
    case (Some rs)
    with event_recovery[OF ev] obtain rs0 where rs0: "c_recovery (conn_at g i) = Some rs0"
      "rs_connection_id rs0 = rs_connection_id rs" "rs_has_registry rs0 = rs_has_registry rs" by auto
    with ok True have "rs_has_registry rs" "map_of (sg_registry g) (rs_connection_id rs) = Some i"
      by (auto simp: conn_ok_def Let_def)
    from this Some True i have "sg_registry (update_conn i c g) = AList.delete (rs_connection_id rs) (sg_registry g)"
      by (simp add: update_conn_def on_closed_def)
    have "map_of (sg_registry g) cid = Some i \<Longrightarrow> cid = rs_connection_id rs"
      using started_entry[OF inv _ st] rs0 by fastforce
    then have "map_of (sg_registry g) cid = Some i \<longleftrightarrow> cid = rs_connection_id rs"
      using \<open>map_of (sg_registry g) (rs_connection_id rs) = Some i\<close> by blast
    moreover note \<open>sg_registry (update_conn i c g) = _\<close>
    ultimately show ?thesis
      using True by (simp add: map_of_AList_delete del: update_conn_fields)
  qed
qed

lemma inv_update:
  assumes inv: "serve_inv sv g" and i: "i < length (sg_conns g)" and st: "c_writer_started (conn_at g i)"
    and ev: "conn_event (conn_at g i) c"
  shows "serve_inv sv (update_conn i c g)"
proof (rule inv_local[OF inv i, where c' = c and t' = "sg_tasks g ! i"])
  note reg = update_registry[OF inv i st ev]
  let ?g = "update_conn i c g"
  have c: "conn_at ?g i = c" using i by simp
  show "map_of (sg_registry ?g) cid = Some k \<longleftrightarrow> map_of (sg_registry g) cid = Some k" if "k \<noteq> i" for cid k
    using that by (simp add: reg)
  show "entry_ok ?g cid i" if "map_of (sg_registry ?g) cid = Some i" for cid
    using that started_entry[OF inv _ st, of cid] event_recovery[OF ev]
    by (auto simp: reg entry_ok_def i split: if_splits option.splits)
  have "c_writer_started c" using st ev by (simp add: conn_event_def)
  moreover have "\<exists>rs0. c_recovery (conn_at g i) = Some rs0 \<and> rs_has_registry rs = rs_has_registry rs0 \<and>
      rs_resume_secret rs = rs_resume_secret rs0 \<and> rs_connection_id rs = rs_connection_id rs0"
    if "c_recovery c = Some rs" for rs
    using that event_recovery[OF ev] by auto
  ultimately show "conn_ok sv ?g i"
    using inv_conn(1,2)[OF inv i] st ev i unfolding conn_ok_def task_ok_def Let_def c
    by (fastforce simp: reg pending_def conn_event_def split: serve_task.splits)
qed (use i st ev inv_conn(3-5)[OF inv i] in \<open>auto simp: conn_event_def\<close>)

text \<open>A connection that is not started: the registry may name it only while its task responds.\<close>

lemma pending_facts:
  assumes "serve_inv sv g" "i < length (sg_conns g)" "pending (conn_at g i)"
  shows "i \<notin> set (sg_disconnected g)" "i \<notin> set (sg_closers g)" "\<not> tracks g i"
    "map_of (sg_registry g) cid = Some i \<Longrightarrow>
       \<exists>hc rs r w. sg_tasks g ! i = RespondingNew hc rs r w \<and> rs_connection_id rs = cid"
  using inv_conn(1)[OF assms(1,2)] inv_entry[OF assms(1), of cid i] assms(3)
  by (auto simp: conn_ok_def Let_def pending_def entry_ok_def)

lemma update_registry_None:
  "i < length (sg_conns g) \<Longrightarrow> c_recovery c = None \<or> \<not> c_closed c \<Longrightarrow> sg_registry (update_conn i c g) = sg_registry g"
  by (auto simp: update_conn_def on_closed_def)

lemma inv_refuse:
  assumes inv: "serve_inv sv g" and i: "i < length (sg_conns g)" and pend: "pending (conn_at g i)"
    and same: "sg_conns g1 = sg_conns g" "sg_tasks g1 = sg_tasks g" "sg_tracked g1 = sg_tracked g"
      "sg_closers g1 = sg_closers g" "sg_disconnected g1 = sg_disconnected g"
      "set (sg_connected g) \<subseteq> set (sg_connected g1)"
    and reg: "\<And>cid k. map_of (sg_registry g1) cid = Some k \<longleftrightarrow> k \<noteq> i \<and> map_of (sg_registry g) cid = Some k"
  shows "serve_inv sv (refuse i w g1)"
proof -
  have r: "sg_registry (update_conn i (mark_closed (conn_at g i)) g1) = sg_registry g1"
    using pend i same(1) by (intro update_registry_None) (simp_all add: pending_def)
  note pf = pending_facts[OF inv i pend]
  show ?thesis
  proof (rule inv_local[OF inv i, where c' = "mark_closed (conn_at g i)" and t' = "TaskEnded w"])
    show "conn_ok sv (refuse i w g1) i"
      using pend pf i inv_conn(3)[OF inv i] same
      by (simp add: conn_ok_def task_ok_def refuse_def close_now_def Let_def pending_def tracks_def r)
    show "tracks (refuse i w g1) k = tracks g k" for k
      using same by (simp add: refuse_def close_now_def tracks_def)
  qed (use pend pf same reg inv_conn(5)[OF inv i] in \<open>auto simp: r refuse_def close_now_def\<close>)
qed

lemma refuse_same:
  assumes "serve_inv sv g" "i < length (sg_conns g)" "pending (conn_at g i)"
    "\<And>hc rs r w. sg_tasks g ! i \<noteq> RespondingNew hc rs r w"
  shows "serve_inv sv (refuse i w g)"
  by (rule inv_refuse[OF assms(1-3)]) (use pending_facts(4)[OF assms(1-3)] assms(4) in auto)

text \<open>A pending connection whose task goes on to wait for something else.\<close>

lemma inv_wait:
  assumes inv: "serve_inv sv g" and i: "i < length (sg_conns g)" and pend: "pending (conn_at g i)"
    and old: "\<And>hc rs r w. sg_tasks g ! i \<noteq> RespondingNew hc rs r w"
    and new: "(\<exists>hc d r w. t = Attaching hc d r w) \<or> (\<exists>w. t = TaskEnded w) \<or>
      (\<exists>j n resp r w. t = RespondingResume j n resp r w \<and> j < length (sg_conns g) \<and> c_writer_started (conn_at g j))"
  shows "serve_inv sv (put_task i t g)"
proof (rule inv_local[OF inv i, where c' = "conn_at g i" and t' = t])
  note pf = pending_facts[OF inv i pend]
  show "conn_ok sv (put_task i t g) i"
    using new pend pf inv_conn(3)[OF inv i] by (auto simp: conn_ok_def task_ok_def Let_def pending_def)
qed (use pending_facts(4)[OF inv i pend] old inv_conn(5)[OF inv i] in auto)

lemma inv_respond_new:
  assumes inv: "serve_inv sv g" and i: "i < length (sg_conns g)" and pend: "pending (conn_at g i)"
    and old: "\<And>hc rs r w. sg_tasks g ! i \<noteq> RespondingNew hc rs r w"
    and fresh: "fresh_tokens inp g"
  shows "serve_inv sv (attach_new_begin sv inp hc r w i g)"
proof (rule inv_local[OF inv i, where c' = "conn_at g i"
      and t' = "RespondingNew hc (new_server (sv_recovery sv) (in_token inp) (in_secret inp)) r w"])
  note pf = pending_facts[OF inv i pend]
  let ?g = "attach_new_begin sv inp hc r w i g"
  have reg: "map_of (sg_registry ?g) cid = (if cid = in_token inp then Some i else map_of (sg_registry g) cid)" for cid
    by (simp add: attach_new_begin_def Let_def map_of_AList_update)
  have new: "map_of (sg_registry g) (in_token inp) = None"
    using fresh by (simp add: fresh_tokens_def map_of_eq_None_iff)
  have rs: "rs_connection_id (new_server (sv_recovery sv) a b) = a" "rs_has_registry (new_server (sv_recovery sv) a b)"
    "rs_resume_secret (new_server (sv_recovery sv) a b) = b" for a b
    by (simp_all add: new_server_def Let_def)
  show "map_of (sg_registry ?g) cid = Some k \<longleftrightarrow> map_of (sg_registry g) cid = Some k" if "k \<noteq> i" for cid k
    using that new by (auto simp: reg)
  have t: "sg_tasks ?g ! i = RespondingNew hc (new_server (sv_recovery sv) (in_token inp) (in_secret inp)) r w"
    using inv_conn(3)[OF inv i] by (simp add: attach_new_begin_def Let_def)
  show "entry_ok ?g cid i" if "map_of (sg_registry ?g) cid = Some i" for cid
    using that pf(4)[of cid] old by (auto simp: reg entry_ok_def t rs split: if_splits)
  show "conn_ok sv ?g i"
    using pend pf fresh unfolding conn_ok_def task_ok_def Let_def t
    by (simp add: attach_new_begin_def Let_def map_of_AList_update pending_def rs fresh_tokens_def tracks_def)
qed (use inv_conn(5)[OF inv i] in \<open>simp_all add: attach_new_begin_def Let_def tracks_def\<close>)

text \<open>What \<open>start\<close> does to a pending connection.\<close>

lemma server_start_cases:
  assumes "server_start sv reg ok hc rs r w i g = (b, g1)" "pending (conn_at g i)" "i < length (sg_conns g)"
  obtains (started) c where "b" "c_writer_started c" "c_recovery c = rs" "\<not> c_closed c"
      "sg_conns g1 = (sg_conns g)[i := c]" "sg_registry g1 = sg_registry g" "sg_tasks g1 = sg_tasks g"
      "sg_tracked g1 = sg_tracked g" "sg_closers g1 = sg_closers g" "sg_disconnected g1 = sg_disconnected g"
      "set (sg_connected g) \<subseteq> set (sg_connected g1)" "sv_on_connect sv \<Longrightarrow> i \<in> set (sg_connected g1)"
  | (failed) "\<not> b" "sg_conns g1 = sg_conns g" "sg_registry g1 = sg_registry g" "sg_tasks g1 = sg_tasks g"
      "sg_tracked g1 = sg_tracked g" "sg_closers g1 = sg_closers g" "sg_disconnected g1 = sg_disconnected g"
      "set (sg_connected g) \<subseteq> set (sg_connected g1)"
proof (cases "sv_on_connect sv \<and> \<not> ok")
  case True
  with assms(1) failed show thesis by (auto simp: server_start_def)
next
  case False
  define g0 where "g0 = (if sv_on_connect sv then g\<lparr>sg_connected := sg_connected g @ [i]\<rparr> else g)"
  have g0: "sg_conns g0 = sg_conns g" "sg_registry g0 = sg_registry g" "sg_tasks g0 = sg_tasks g"
    "sg_tracked g0 = sg_tracked g" "sg_closers g0 = sg_closers g" "sg_disconnected g0 = sg_disconnected g"
    "set (sg_connected g) \<subseteq> set (sg_connected g0)" "sv_on_connect sv \<Longrightarrow> i \<in> set (sg_connected g0)"
    by (auto simp: g0_def)
  have eq: "server_start sv reg ok hc rs r w i g = (case start_with_config reg hc rs 0 r w (conn_at g i) of
      Inl e \<Rightarrow> (False, g0) | Inr (started, c) \<Rightarrow> (True, update_conn i c g0))"
    unfolding server_start_def Let_def g0_def[symmetric] using False g0(1) by auto
  show thesis
  proof (cases "start_with_config reg hc rs 0 r w (conn_at g i)")
    case (Inl e)
    with eq assms(1) failed g0 show thesis by simp
  next
    case (Inr x)
    obtain s c where x: "x = (s, c)" by fastforce
    from Inr x assms(2) have c: "c_writer_started c" "c_recovery c = rs" "\<not> c_closed c"
      by (auto simp: start_with_config_def try_res_Inr_iff Let_def attach_transport_parts_def pending_def
          signal_send_def abort_reader_def split: if_splits)
    from eq assms(1) Inr x have "b" "g1 = update_conn i c g0" by auto
    moreover from this c(3) assms(3) g0 have "sg_registry g1 = sg_registry g"
      by (simp add: update_registry_None)
    ultimately show thesis using started[of c] c g0 by simp
  qed
qed

lemma inv_starting:
  assumes inv: "serve_inv sv g" and i: "i < length (sg_conns g)" and pend: "pending (conn_at g i)"
    and start: "server_start sv reg ok hc rs r w i g = (True, g1)"
    and rs: "(rs = None \<and> (\<forall>hc rs r w. sg_tasks g ! i \<noteq> RespondingNew hc rs r w)) \<or>
      (\<exists>s hc' r' w'. rs = Some s \<and> sg_tasks g ! i = RespondingNew hc' s r' w')"
  shows "serve_inv sv (put_task i Starting g1)"
  using start pend i
proof (cases rule: server_start_cases)
  case (started c)
  note pf = pending_facts[OF inv i pend]
  show ?thesis
  proof (rule inv_local[OF inv i, where c' = c and t' = Starting])
    show "entry_ok (put_task i Starting g1) cid i"
      if "map_of (sg_registry (put_task i Starting g1)) cid = Some i" for cid
      using that pf(4)[of cid] rs started i by (auto simp: entry_ok_def)
    show "conn_ok sv (put_task i Starting g1) i"
      using rs pf started i inv_conn(2,3)[OF inv i] by (auto simp: conn_ok_def task_ok_def Let_def tracks_def)
  qed (use started inv_conn(5)[OF inv i] in \<open>simp_all add: tracks_def\<close>)
qed simp

lemma inv_attach_new_end:
  assumes inv: "serve_inv sv g" and i: "i < length (sg_conns g)" and pend: "pending (conn_at g i)"
    and t: "sg_tasks g ! i = RespondingNew hc rs r w"
  shows "serve_inv sv (attach_new_end sv reg ok hc rs r w i g)"
proof -
  obtain res w' where wr: "write_attach_response (attach_new_response sv rs) w = (res, w')" by fastforce
  define x where "x = (case res of Inr _ \<Rightarrow> server_start sv reg ok hc (Some rs) r w' i g | Inl e \<Rightarrow> (False, g))"
  obtain b g1 where bg: "x = (b, g1)" by fastforce
  have eq: "attach_new_end sv reg ok hc rs r w i g = (if b then put_task i Starting g1
      else refuse i None (g1\<lparr>sg_registry := AList.delete (rs_connection_id rs) (sg_registry g1)\<rparr>))"
    using wr bg by (cases res) (auto simp: attach_new_end_def x_def split: if_splits)
  show ?thesis
  proof (cases b)
    case True
    with bg have "server_start sv reg ok hc (Some rs) r w' i g = (True, g1)"
      by (cases res) (auto simp: x_def)
    from inv_starting[OF inv i pend this] t True show ?thesis by (simp add: eq)
  next
    case False
    have start_failed: "sg_conns g1 = sg_conns g \<and> sg_registry g1 = sg_registry g \<and> sg_tasks g1 = sg_tasks g \<and>
      sg_tracked g1 = sg_tracked g \<and> sg_closers g1 = sg_closers g \<and> sg_disconnected g1 = sg_disconnected g \<and>
      set (sg_connected g) \<subseteq> set (sg_connected g1)"
    proof (cases res)
      case (Inr u)
      with bg have "server_start sv reg ok hc (Some rs) r w' i g = (b, g1)" by (simp add: x_def)
      from this pend i False show ?thesis by (cases rule: server_start_cases) auto
    qed (use bg in \<open>auto simp: x_def\<close>)
    then have same: "sg_conns g1 = sg_conns g" "sg_registry g1 = sg_registry g" "sg_tasks g1 = sg_tasks g"
      "sg_tracked g1 = sg_tracked g" "sg_closers g1 = sg_closers g" "sg_disconnected g1 = sg_disconnected g"
      "set (sg_connected g) \<subseteq> set (sg_connected g1)"
      by simp_all
    have e: "map_of (sg_registry g) (rs_connection_id rs) = Some i"
      using inv_conn(2)[OF inv i] t by (simp add: task_ok_def Let_def)
    have mine: "cid = rs_connection_id rs" if "map_of (sg_registry g) cid = Some i" for cid
      using pending_facts(4)[OF inv i pend that] t by auto
    have "map_of (AList.delete (rs_connection_id rs) (sg_registry g)) cid = Some k \<longleftrightarrow>
        k \<noteq> i \<and> map_of (sg_registry g) cid = Some k" for cid k
      using e mine[of cid] unfolding map_of_AList_delete by (cases "cid = rs_connection_id rs") auto
    then show ?thesis using False same unfolding eq
      by (simp, intro inv_refuse[OF inv i pend]) simp_all
  qed
qed

lemma inv_attach_resume_end:
  assumes inv: "serve_inv sv g" and i: "i < length (sg_conns g)" and t: "sg_tasks g ! i = RespondingResume j n resp r w"
  shows "serve_inv sv (attach_resume_end j n resp r w i g)"
proof -
  from inv_conn(2)[OF inv i] t have pend: "pending (conn_at g i)" and j: "j < length (sg_conns g)" "c_writer_started (conn_at g j)"
    by (simp_all add: task_ok_def Let_def)
  have ij: "i \<noteq> j" using pend j(2) by (auto simp: pending_def)
  obtain res w' where wr: "write_attach_response resp w = (res, w')" by fastforce
  show ?thesis
  proof (cases res)
    case (Inl e)
    with wr refuse_same[OF inv i pend] t show ?thesis by (simp add: attach_resume_end_def)
  next
    case (Inr u)
    let ?g = "update_conn j (snd (attach_transport_parts r w' n (conn_at g j))) g"
    have g: "serve_inv sv ?g" by (rule inv_update[OF inv j]) simp
    have "serve_inv sv (put_task i (TaskEnded None) ?g)"
      by (rule inv_wait[OF g]) (use i ij pend t in simp_all)
    with Inr wr show ?thesis by (simp add: attach_resume_end_def)
  qed
qed

lemma inv_track:
  assumes inv: "serve_inv sv g" and i: "i < length (sg_conns g)" and t: "sg_tasks g ! i = Starting"
  shows "track i g = (True, g1) \<Longrightarrow> serve_inv sv (put_task i Serving g1)"
    "track i g = (False, g1) \<Longrightarrow> serve_inv sv (put_task i Serving (close_conn i g1))"
proof -
  from inv_conn(2)[OF inv i] t have st: "c_writer_started (conn_at g i)" by (simp add: task_ok_def Let_def)
  note old = inv_conn(1)[OF inv i]
  have own: "entry_ok (put_task i Serving g) cid i"
    if "serve_inv sv g" "map_of (sg_registry g) cid = Some i" "c_writer_started (conn_at g i)" for cid g
    using started_entry[OF that] by (simp add: entry_ok_def)
  show "serve_inv sv (put_task i Serving g1)" if tr: "track i g = (True, g1)"
  proof -
    from tr obtain T where T: "sg_tracked g = Some T" "g1 = g\<lparr>sg_tracked := Some (i # T)\<rparr>"
      by (auto simp: track_def split: option.splits)
    show ?thesis
    proof (rule inv_local[OF inv i, where c' = "conn_at g i" and t' = Serving])
      show "conn_ok sv (put_task i Serving g1) i"
        using old st T t i inv_conn(3)[OF inv i] by (auto simp: conn_ok_def task_ok_def Let_def tracks_def)
      show "entry_ok (put_task i Serving g1) cid i"
        if "map_of (sg_registry (put_task i Serving g1)) cid = Some i" for cid
        using started_entry[OF inv _ st, of cid] that T(2) by (simp add: entry_ok_def)
    qed (use T inv_conn(5)[OF inv i] in \<open>simp_all add: tracks_def\<close>)
  qed
  show "serve_inv sv (put_task i Serving (close_conn i g1))" if tr: "track i g = (False, g1)"
  proof -
    from tr have stop: "stopped g" "g1 = g" by (auto simp: track_def split: option.splits)
    let ?g = "close_conn i g"
    have g: "serve_inv sv ?g" unfolding close_conn_def by (rule inv_update[OF inv i st]) simp
    have st': "c_writer_started (conn_at ?g i)" and len: "length (sg_conns ?g) = length (sg_conns g)"
      using st i conn_event_ops(2)[of "conn_at g i"] by (simp_all add: close_conn_def conn_event_def)
    have same: "sg_tasks ?g = sg_tasks g" "stopped ?g" "\<not> tracks ?g i"
      using stop by (simp_all add: close_conn_def tracks_def)
    have il: "i < length (sg_conns ?g)" using i len by simp
    have closing: "c_closing (conn_at ?g i) \<or> c_closed (conn_at ?g i)"
      using i close_begin_closing by (simp add: close_conn_def)
    have "serve_inv sv (put_task i Serving ?g)"
    proof (rule inv_local[OF g, where c' = "conn_at ?g i" and t' = Serving])
      show "conn_ok sv (put_task i Serving ?g) i"
        using inv_conn(1,3)[OF g il] st' closing same t by (auto simp: conn_ok_def task_ok_def Let_def)
      show "entry_ok (put_task i Serving ?g) cid i"
        if "map_of (sg_registry (put_task i Serving ?g)) cid = Some i" for cid
        using own[OF g, of cid] that st' by simp
    qed (use i len inv_conn(5)[OF g] in simp_all)
    with stop show ?thesis by simp
  qed
qed

lemma inv_disconnect:
  assumes inv: "serve_inv sv g" and i: "i < length (sg_conns g)" and t: "sg_tasks g ! i = Serving"
  shows "serve_inv sv (handle_conn sv reg inp i g)"
proof (cases "c_closed (conn_at g i)")
  case False
  with t inv show ?thesis by (simp add: handle_conn_def)
next
  case True
  from inv_conn(2)[OF inv i] t have st: "c_writer_started (conn_at g i)" by (simp add: task_ok_def Let_def)
  have new: "i \<notin> set (sg_disconnected g)" using inv_conn(1)[OF inv i] t by (auto simp: conn_ok_def Let_def)
  let ?g = "handle_conn sv reg inp i g"
  have f: "sg_conns ?g = (sg_conns g)[i := conn_at g i]" "sg_tasks ?g = (sg_tasks g)[i := TaskEnded None]"
    "sg_registry ?g = sg_registry g" "sg_closers ?g = sg_closers g" "sg_connected ?g = sg_connected g"
    "stopped ?g = stopped g" "\<And>k. tracks ?g k \<longleftrightarrow> tracks g k \<and> k \<noteq> i"
    "sg_disconnected ?g = (if sv_on_disconnect sv then sg_disconnected g @ [i] else sg_disconnected g)"
    using t True by (simp_all add: handle_conn_def untrack_def Let_def tracks_def split: option.split)
  show ?thesis
  proof (rule inv_local[OF inv i f(1,2)])
    show "entry_ok ?g cid i" if "map_of (sg_registry ?g) cid = Some i" for cid
      using started_entry[OF inv _ st, of cid] that f True by simp
    show "conn_ok sv ?g i"
      using inv_conn(1,3)[OF inv i] st True i
      by (auto simp: conn_ok_def task_ok_def Let_def f)
  qed (use f new inv_conn(5)[OF inv i] in auto)
qed

lemma inv_handle:
  assumes inv: "serve_inv sv g" and it: "i < length (sg_tasks g)" and fresh: "fresh_tokens inp g"
  shows "serve_inv sv (handle_conn sv reg inp i g)"
proof -
  have i: "i < length (sg_conns g)" using inv it by (simp add: serve_inv_def)
  note ok = inv_conn(2)[OF inv i]
  show ?thesis
  proof (cases "sg_tasks g ! i")
    case t: (Handshaking d r w)
    with ok have pend: "pending (conn_at g i)" by (simp add: task_ok_def Let_def)
    note ref = refuse_same[OF inv i pend] and wait = inv_wait[OF inv i pend]
    obtain res w' where hs: "handshake_server reg (sv_codecs sv) (sv_max_frame sv) (sro_enable (sv_recovery sv)) r w = (res, w')"
      by fastforce
    define p where "p = handshake_step d (sg_now g) (stopped g) (if in_ready inp then Some res else None)"
    show ?thesis
    proof (cases p)
      case (StepValue v)
      obtain hc r' where v: "v = (hc, r')" by fastforce
      obtain b g1 where s: "server_start sv reg (in_connect_ok inp) hc None r' w' i g = (b, g1)" by fastforce
      have "serve_inv sv (put_task i Starting g1)" if b
        using inv_starting[OF inv i pend] s that t by auto
      moreover have "serve_inv sv (refuse i None g1)" if "\<not> b"
        using s pend i
      proof (cases rule: server_start_cases)
        case failed
        with t pending_facts(4)[OF inv i pend] show ?thesis by (intro inv_refuse[OF inv i pend]) auto
      qed (use that in simp)
      moreover have "serve_inv sv (put_task i (Attaching hc d r' w') g)" using wait t by simp
      ultimately show ?thesis using t hs s StepValue v by (cases b) (simp_all add: handle_conn_def p_def[symmetric])
    qed (use t hs ref inv in \<open>simp_all add: handle_conn_def p_def[symmetric]\<close>)
  next
    case t: (Attaching hc d r w)
    with ok have pend: "pending (conn_at g i)" by (simp add: task_ok_def Let_def)
    note ref = refuse_same[OF inv i pend] and wait = inv_wait[OF inv i pend]
    define p where "p = handshake_step d (sg_now g) (stopped g) (if in_ready inp then Some (read_attach_request r) else None)"
    have new: "serve_inv sv (attach_new_begin sv inp hc r' w i g)" for r'
      using inv_respond_new[OF inv i pend _ fresh] t by simp
    have resume: "serve_inv sv (attach_resume_begin hc req r' w i g)" for req r'
    proof (cases "resume_target hc req g")
      case None
      with ref t show ?thesis by (simp add: attach_resume_begin_def)
    next
      case (Some x)
      obtain j rs where x: "x = (j, rs)" by fastforce
      with Some have "map_of (sg_registry g) (arq_connection_id req) = Some j" "c_recovery (conn_at g j) = Some rs"
        by (auto simp: resume_target_def split: option.splits if_splits)
      with inv_entry[OF inv] inv_conn(1)[OF inv, of j] have "j < length (sg_conns g)" "c_writer_started (conn_at g j)"
        by (auto simp: conn_ok_def Let_def)
      with Some x wait t show ?thesis by (simp add: attach_resume_begin_def)
    qed
    show ?thesis
    proof (cases p)
      case (StepValue v)
      obtain req r' where v: "v = (req, r')" by fastforce
      from new resume ref t have "serve_inv sv (server_attach sv inp hc req r' w i g)"
        by (simp add: server_attach_def)
      with t StepValue v show ?thesis by (simp add: handle_conn_def p_def[symmetric])
    qed (use t ref inv in \<open>simp_all add: handle_conn_def p_def[symmetric]\<close>)
  next
    case t: (RespondingNew hc rs r w)
    with ok have "pending (conn_at g i)" by (simp add: task_ok_def Let_def)
    from inv_attach_new_end[OF inv i this t] t inv show ?thesis by (simp add: handle_conn_def)
  next
    case t: (RespondingResume j n resp r w)
    with inv_attach_resume_end[OF inv i t] inv show ?thesis by (simp add: handle_conn_def)
  next
    case t: Starting
    obtain b g1 where "track i g = (b, g1)" by fastforce
    with inv_track[OF inv i t] t show ?thesis by (cases b) (simp_all add: handle_conn_def)
  next
    case Serving
    from inv_disconnect[OF inv i this] show ?thesis .
  qed (use inv in \<open>simp add: handle_conn_def\<close>)
qed

lemma inv_accept:
  assumes inv: "serve_inv sv g"
  shows "serve_inv sv (accept_conn sv latest r w g)"
proof -
  let ?g = "accept_conn sv latest r w g" and ?n = "length (sg_conns g)"
  obtain c d where g: "sg_conns ?g = sg_conns g @ [c]" "sg_tasks ?g = sg_tasks g @ [Handshaking d r w]"
    and c: "pending c" "\<not> c_writer_started c" "c_recovery c = None"
    by (simp add: accept_conn_def Let_def pending_def set_stream_queue_size_def new_unstarted_def)
  have same: "sg_registry ?g = sg_registry g" "sg_tracked ?g = sg_tracked g" "sg_closers ?g = sg_closers g"
    "sg_connected ?g = sg_connected g" "sg_disconnected ?g = sg_disconnected g" "tracks ?g k = tracks g k" for k
    by (simp_all add: accept_conn_def Let_def tracks_def)
  have len: "length (sg_tasks g) = ?n" using inv by (simp add: serve_inv_def)
  have old: "conn_at ?g k = conn_at g k" "sg_tasks ?g ! k = sg_tasks g ! k" if "k < ?n" for k
    using that len by (simp_all add: g nth_append)
  have "conn_ok sv ?g k" if k: "k < ?n" for k
  proof -
    have "task_ok sv ?g k"
      using inv_conn(2)[OF inv k] old(1) unfolding task_ok_def Let_def old[OF k] same
      by (auto simp: g split: serve_task.splits)
    then show ?thesis using inv_conn(1)[OF inv k] unfolding conn_ok_def Let_def old[OF k] same by simp
  qed
  moreover have "conn_ok sv ?g ?n"
  proof -
    have "sg_tasks ?g ! ?n = Handshaking d r w" "conn_at ?g ?n = c" using len by (simp_all add: g nth_append)
    then show ?thesis using c inv unfolding conn_ok_def task_ok_def Let_def same
      by (auto simp: serve_inv_def)
  qed
  moreover have "j < length (sg_conns ?g) \<and> entry_ok ?g cid j" if "map_of (sg_registry g) cid = Some j" for cid j
    using inv_entry[OF inv that] old[of j] by (auto simp: entry_ok_def g)
  ultimately show ?thesis using inv by (auto simp: serve_inv_def g less_Suc_eq same len)
qed

lemma inv_close:
  assumes inv: "serve_inv sv g" and cl: "sg_closers g = xs @ i # ys"
  shows "serve_inv sv (close_conn i (g\<lparr>sg_closers := xs @ ys\<rparr>))"
proof -
  from inv cl have i: "i < length (sg_conns g)" by (auto simp: serve_inv_def)
  from inv_conn(1)[OF inv i] cl have st: "c_writer_started (conn_at g i)" by (simp add: conn_ok_def Let_def)
  let ?g = "close_conn i g"
  have eq: "close_conn i (g\<lparr>sg_closers := xs @ ys\<rparr>) = ?g\<lparr>sg_closers := xs @ ys\<rparr>"
    by (simp add: close_conn_def update_conn_def on_closed_def put_conn_def split: option.split)
  have g: "serve_inv sv ?g" unfolding close_conn_def by (rule inv_update[OF inv i st]) simp
  have same: "sg_tasks ?g = sg_tasks g" "sg_closers ?g = xs @ i # ys" "sg_tracked ?g = sg_tracked g"
    "c_writer_started (conn_at ?g i)"
    using st i cl conn_event_ops(2)[of "conn_at g i"] by (simp_all add: close_conn_def conn_event_def)
  have il: "i < length (sg_conns ?g)" using i by (simp add: close_conn_def)
  have closing: "c_closing (conn_at ?g i) \<or> c_closed (conn_at ?g i)"
    using i close_begin_closing by (simp add: close_conn_def)
  show ?thesis unfolding eq
  proof (rule inv_local[OF g il, where c' = "conn_at ?g i" and t' = "sg_tasks g ! i"])
    show "conn_ok sv (?g\<lparr>sg_closers := xs @ ys\<rparr>) i"
      using inv_conn(1,2)[OF g il] closing same
      by (auto simp: conn_ok_def task_ok_def Let_def tracks_def split: serve_task.splits)
    show "entry_ok (?g\<lparr>sg_closers := xs @ ys\<rparr>) cid i"
      if "map_of (sg_registry (?g\<lparr>sg_closers := xs @ ys\<rparr>)) cid = Some i" for cid
      using inv_entry[OF g, of cid i] that by (simp add: entry_ok_def)
  qed (use same inv_conn(4,5)[OF g il] in \<open>auto simp: tracks_def\<close>)
qed

lemma inv_stop:
  assumes inv: "serve_inv sv g"
  shows "serve_inv sv (stop g)"
proof -
  have cl: "k \<in> set (sg_closers (stop g)) \<longleftrightarrow> k \<in> set (sg_closers g) \<or> tracks g k" for k
    by (auto simp: stop_def tracks_def split: option.splits)
  have tr: "\<not> tracks (stop g) k" for k by (simp add: stop_def tracks_def)
  have same: "sg_conns (stop g) = sg_conns g" "sg_tasks (stop g) = sg_tasks g" "sg_registry (stop g) = sg_registry g"
    "sg_connected (stop g) = sg_connected g" "sg_disconnected (stop g) = sg_disconnected g" "stopped (stop g)"
    by (simp_all add: stop_def)
  have "conn_ok sv (stop g) k" if k: "k < length (sg_conns g)" for k
  proof -
    have "task_ok sv (stop g) k"
      using inv_conn(2)[OF inv k] unfolding task_ok_def Let_def same cl by (auto split: serve_task.splits)
    then show ?thesis using inv_conn(1)[OF inv k] unfolding conn_ok_def Let_def same cl by (auto simp: tr)
  qed
  with inv show ?thesis by (simp add: serve_inv_def same cl tr entry_ok_def)
qed

lemma serve_step_inv:
  assumes "serve_step sv reg latest g g'" "serve_inv sv g"
  shows "serve_inv sv g'"
  using assms(1)
proof (cases rule: serve_step.cases)
  case (Tick now)
  with assms(2) show ?thesis
    by (simp add: serve_inv_def conn_ok_def task_ok_def entry_ok_def tracks_def Let_def cong: serve_task.case_cong)
qed (use assms(2) in \<open>simp_all add: inv_accept inv_handle inv_stop inv_close inv_update\<close>)

lemma serve_run_inv: "(serve_step sv reg latest)\<^sup>*\<^sup>* serving_init g \<Longrightarrow> serve_inv sv g"
  by (induction rule: rtranclp_induct) (auto intro: serve_inv_init serve_step_inv)

end
