(* ===== verification/ServerGuarantees.thy ===== *)
theory ServerGuarantees
  imports ServerProperties "HOL-Library.Code_Target_Nat"
begin

text \<open>
  What a serving server guarantees, from its invariant: a resume reaches the one connection it names,
  a stop closes every connection, and \<open>on_disconnect\<close> runs exactly once for every connection that was
  started. Last, the waits of the accept loop.
\<close>

section \<open>A run\<close>

text \<open>A schedule of steps, to reach concrete states.\<close>

datatype serve_action = MAccept reader writer | MTask serve_input nat | MStop | MCloseFirst | MConnClosed nat

fun serve_move :: "server \<Rightarrow> codec_registry \<Rightarrow> serve_action \<Rightarrow> ('r, 'j) serving \<Rightarrow> ('r, 'j) serving option" where
  "serve_move sv reg (MAccept r w) g = (if stopped g then None else Some (accept_conn sv 0 r w g))"
| "serve_move sv reg (MTask inp i) g =
     (if i < length (sg_tasks g) \<and> in_token inp \<notin> set (map fst (sg_registry g)) \<and> length (in_secret inp) = RECOVERY_TOKEN_LEN
      then Some (handle_conn sv reg inp i g) else None)"
| "serve_move sv reg MStop g = Some (stop g)"
| "serve_move sv reg MCloseFirst g = (case sg_closers g of
     [] \<Rightarrow> None | i # ys \<Rightarrow> Some (close_conn i (g\<lparr>sg_closers := ys\<rparr>)))"
| "serve_move sv reg (MConnClosed i) g =
     (if i < length (sg_conns g) \<and> c_writer_started (conn_at g i) then Some (close_now i g) else None)"

fun serve_moves :: "server \<Rightarrow> codec_registry \<Rightarrow> serve_action list \<Rightarrow> ('r, 'j) serving \<Rightarrow> ('r, 'j) serving option" where
  "serve_moves sv reg [] g = Some g"
| "serve_moves sv reg (m # ms) g = (case serve_move sv reg m g of None \<Rightarrow> None | Some g' \<Rightarrow> serve_moves sv reg ms g')"

lemma serve_move_step: "serve_move sv reg m g = Some g' \<Longrightarrow> serve_step sv reg 0 g g'"
proof (induction sv reg m g rule: serve_move.induct)
  case (2 sv reg inp i g)
  then have "fresh_tokens inp g" "i < length (sg_tasks g)" "g' = handle_conn sv reg inp i g"
    by (auto simp: fresh_tokens_def split: if_splits)
  then show ?case by (simp add: serve_step.Task)
next
  case (4 sv reg g)
  then obtain i ys where "sg_closers g = [] @ i # ys" "g' = close_conn i (g\<lparr>sg_closers := [] @ ys\<rparr>)"
    by (auto split: list.splits)
  then show ?case using serve_step.Close by metis
qed (auto simp: close_now_def intro: serve_step.intros split: if_splits)

lemma serve_moves_run: "serve_moves sv reg ms g = Some g' \<Longrightarrow> (serve_step sv reg 0)\<^sup>*\<^sup>* g g'"
proof (induction ms arbitrary: g)
  case (Cons m ms)
  then obtain g1 where "serve_move sv reg m g = Some g1" "serve_moves sv reg ms g1 = Some g'"
    by (auto split: option.splits)
  with Cons.IH serve_move_step show ?case by (metis converse_rtranclp_into_rtranclp)
qed simp

text \<open>A client that asks for a new recovery connection, and one that asks for none.\<close>

definition ex_server :: server where
  "ex_server = server_with_recovery (default_server_recovery\<lparr>sro_enable := True\<rparr>)
     ((default_server True)\<lparr>sv_on_connect := True, sv_on_disconnect := True\<rparr>)"

definition ex_codecs :: codec_registry where "ex_codecs = ensure_builtin_codecs new_codec_registry"

definition ex_writer :: writer where
  "ex_writer = \<lparr>wr_out = [], wr_room = None, wr_flush_error = None, wr_shut = False\<rparr>"

definition ex_reader :: "bytes \<Rightarrow> reader" where "ex_reader bs = \<lparr>rd_chunks = [bs], rd_end = None\<rparr>"

definition ex_request :: "u8 \<Rightarrow> bytes" where "ex_request v = handshake_request [CodecPostcard] 1024 v @ [CodecPostcard]"

definition ex_attach_new :: bytes where
  "ex_attach_new = attach_request_bytes \<lparr>arq_mode = ATTACH_MODE_NEW, arq_connection_id = replicate 16 0,
     arq_resume_secret = replicate 16 0, arq_last_recv_seq = 0\<rparr>"

definition ex_input :: serve_input where
  "ex_input = \<lparr>in_ready = True, in_connect_ok = True, in_token = replicate 16 7, in_secret = replicate 16 9\<rparr>"

definition ex_input2 :: serve_input where "ex_input2 = ex_input\<lparr>in_token := replicate 16 8\<rparr>"

definition ex_serving :: "(unit, unit) serving option" where
  "ex_serving = serve_moves ex_server ex_codecs
     [MAccept (ex_reader (ex_request PROTOCOL_VERSION_V3 @ ex_attach_new)) ex_writer, MTask ex_input 0, MTask ex_input 0,
      MTask ex_input2 0, MTask ex_input2 0] serving_init"

lemma ex_serving_run:
  "ex_serving \<noteq> None \<and> length (sg_conns (the ex_serving)) = 1 \<and> sg_tasks (the ex_serving) ! 0 = Serving"
  by code_simp

lemma serving_conn:
  assumes "serve_inv sv g" "i < length (sg_conns g)" "c_writer_started (conn_at g i)"
  shows "sg_tasks g ! i = Starting \<or> sg_tasks g ! i = Serving \<or> (\<exists>w. sg_tasks g ! i = TaskEnded w)"
  using inv_conn(2)[OF assms(1,2)] assms(3) by (auto simp: task_ok_def pending_def Let_def split: serve_task.splits)

lemma or_fold_zero: "foldl (\<lambda>acc (x, y). acc OR (x XOR y)) (acc :: u8) xs = 0 \<longleftrightarrow> acc = 0 \<and> (\<forall>(x, y) \<in> set xs. x = y)"
proof (induction xs arbitrary: acc)
  case (Cons p xs)
  obtain x y where p: "p = (x, y)" by fastforce
  have "acc OR (x XOR y) = 0 \<longleftrightarrow> acc = 0 \<and> x = y"
    by (metis or_eq_0_iff bit.xor_self xor_self_eq bit.xor_left_self xor.right_neutral)
  with Cons p show ?case by simp
qed simp

lemma tokens_equal_iff: "length a = length b \<Longrightarrow> tokens_equal a b \<longleftrightarrow> a = b"
  by (auto simp: tokens_equal_def or_fold_zero list_eq_iff_zip_eq)

section \<open>Properties\<close>

text \<open>
  C11: A resume reaches the one connection it names. In every state of a serving server, a resume
  request with a codec finds a connection exactly if that connection is open, was attached under the
  requested ID with the requested secret, and has that codec: no open recovery connection is lost from
  the registry, and none is reached without its secret.
\<close>

theorem resume_finds_its_connection:
  assumes "(serve_step sv reg latest)\<^sup>*\<^sup>* serving_init g" "length (arq_resume_secret req) = RECOVERY_TOKEN_LEN"
  shows "resume_target hc req g = Some (j, rs) \<longleftrightarrow>
    j < length (sg_conns g) \<and> \<not> c_closed (conn_at g j) \<and> c_recovery (conn_at g j) = Some rs \<and>
    cc_codec_id (config (conn_at g j)) = hc_codec_id hc \<and>
    rs_connection_id rs = arq_connection_id req \<and> rs_resume_secret rs = arq_resume_secret req"
proof -
  note inv = serve_run_inv[OF assms(1)]
  have secret: "tokens_equal (rs_resume_secret rs) (arq_resume_secret req) \<longleftrightarrow> rs_resume_secret rs = arq_resume_secret req"
    if "j < length (sg_conns g)" "c_recovery (conn_at g j) = Some rs"
    using inv_conn(1)[OF inv that(1)] that(2) assms(2) by (intro tokens_equal_iff) (simp add: conn_ok_def Let_def)
  show ?thesis
  proof
    assume "resume_target hc req g = Some (j, rs)"
    then have *: "map_of (sg_registry g) (arq_connection_id req) = Some j" "c_recovery (conn_at g j) = Some rs"
      "\<not> c_closed (conn_at g j)" "cc_codec_id (config (conn_at g j)) = hc_codec_id hc"
      "tokens_equal (rs_resume_secret rs) (arq_resume_secret req)"
      by (auto simp: resume_target_def split: option.splits if_splits)
    from inv_entry[OF inv *(1)] have j: "j < length (sg_conns g)" by simp
    from inv_conn(1)[OF inv j] *(2) have "c_writer_started (conn_at g j)" by (simp add: conn_ok_def Let_def)
    from started_entry[OF inv *(1) this] * j secret show "j < length (sg_conns g) \<and> \<not> c_closed (conn_at g j) \<and>
      c_recovery (conn_at g j) = Some rs \<and> cc_codec_id (config (conn_at g j)) = hc_codec_id hc \<and>
      rs_connection_id rs = arq_connection_id req \<and> rs_resume_secret rs = arq_resume_secret req" by auto
  next
    assume *: "j < length (sg_conns g) \<and> \<not> c_closed (conn_at g j) \<and> c_recovery (conn_at g j) = Some rs \<and>
      cc_codec_id (config (conn_at g j)) = hc_codec_id hc \<and>
      rs_connection_id rs = arq_connection_id req \<and> rs_resume_secret rs = arq_resume_secret req"
    with inv_conn(1)[OF inv, of j] have "map_of (sg_registry g) (rs_connection_id rs) = Some j"
      by (simp add: conn_ok_def Let_def)
    with * secret show "resume_target hc req g = Some (j, rs)" by (simp add: resume_target_def)
  qed
qed

definition ex_resume :: attach_request where
  "ex_resume = \<lparr>arq_mode = ATTACH_MODE_RESUME, arq_connection_id = replicate 16 7,
     arq_resume_secret = replicate 16 9, arq_last_recv_seq = 0\<rparr>"

definition ex_hc :: handshake_config where
  "ex_hc = \<lparr>hc_version = PROTOCOL_VERSION_V3, hc_codec_id = CodecPostcard, hc_max_frame = 1024\<rparr>"

lemma ex_serving_Some: "ex_serving = Some (the ex_serving)"
  using ex_serving_run by (metis option.collapse)

lemma ex_serving_reached: "(serve_step ex_server ex_codecs 0)\<^sup>*\<^sup>* serving_init (the ex_serving)"
  using ex_serving_Some unfolding ex_serving_def by (rule serve_moves_run)

lemma ex_resume_target: "map_option fst (resume_target ex_hc ex_resume (the ex_serving)) = Some 0"
  by code_simp

lemma resume_finds_its_connection_witness:
  "\<exists>rs. resume_target ex_hc ex_resume (the ex_serving) = Some (0, rs) \<and> rs_resume_secret rs = replicate 16 9 \<and>
     \<not> c_closed (conn_at (the ex_serving) 0)"
proof -
  obtain rs where "resume_target ex_hc ex_resume (the ex_serving) = Some (0, rs)"
    using ex_resume_target by auto
  with resume_finds_its_connection[OF ex_serving_reached, of ex_resume ex_hc 0 rs] show ?thesis
    by (simp add: ex_resume_def RECOVERY_TOKEN_LEN_def)
qed

text \<open>
  C13: A stop closes every connection. Once a server stops, every connection that was started has been
  told to close, or is about to be: by the task that the stop started for it, or, where it was started
  just then, by its own task at its next step. A task still in its handshake refuses its connection.
\<close>

theorem stop_closes_every_connection:
  assumes "(serve_step sv reg latest)\<^sup>*\<^sup>* serving_init g" "stopped g" "i < length (sg_conns g)"
  shows "(c_writer_started (conn_at g i) \<longrightarrow>
      c_closing (conn_at g i) \<or> c_closed (conn_at g i) \<or> i \<in> set (sg_closers g) \<or> sg_tasks g ! i = Starting) \<and>
    (sg_tasks g ! i = Starting \<longrightarrow> (let g' = handle_conn sv reg inp i g in
      c_closing (conn_at g' i) \<or> c_closed (conn_at g' i))) \<and>
    ((\<exists>d r w. sg_tasks g ! i = Handshaking d r w) \<or> (\<exists>hc d r w. sg_tasks g ! i = Attaching hc d r w) \<longrightarrow>
      (let g' = handle_conn sv reg inp i g in sg_tasks g' ! i = TaskEnded None \<and> c_closed (conn_at g' i)))"
proof -
  note inv = serve_run_inv[OF assms(1)] and i = assms(3)
  have "c_closing (conn_at g i) \<or> c_closed (conn_at g i) \<or> i \<in> set (sg_closers g) \<or> sg_tasks g ! i = Starting"
    if "c_writer_started (conn_at g i)"
    using serving_conn[OF inv i that] inv_conn(2)[OF inv i] that assms(2) by (auto simp: task_ok_def Let_def)
  moreover have "c_closing (conn_at (handle_conn sv reg inp i g) i) \<or> c_closed (conn_at (handle_conn sv reg inp i g) i)"
    if "sg_tasks g ! i = Starting"
    using that i assms(2) close_begin_closing[of "conn_at g i"] by (simp add: handle_conn_def track_def close_conn_def)
  moreover have "refuse i None g = handle_conn sv reg inp i g"
    if "(\<exists>d r w. sg_tasks g ! i = Handshaking d r w) \<or> (\<exists>hc d r w. sg_tasks g ! i = Attaching hc d r w)"
    using that assms(2) by (auto simp: handle_conn_def handshake_step_def split: prod.split)
  moreover have "sg_tasks (refuse i None g) ! i = TaskEnded None \<and> c_closed (conn_at (refuse i None g) i)"
    using i inv_conn(3)[OF inv i] by (simp add: refuse_def close_now_def)
  ultimately show ?thesis unfolding Let_def by metis
qed

definition ex_stopped :: "(unit, unit) serving option" where
  "ex_stopped = serve_moves ex_server ex_codecs [MAccept (ex_reader []) ex_writer, MStop] (the ex_serving)"

lemma ex_stopped_run:
  "ex_stopped \<noteq> None \<and> stopped (the ex_stopped) \<and> length (sg_conns (the ex_stopped)) = 2 \<and>
     c_writer_started (conn_at (the ex_stopped) 0) \<and> \<not> c_closed (conn_at (the ex_stopped) 0) \<and>
     (case sg_tasks (the ex_stopped) ! 1 of Handshaking d r w \<Rightarrow> True | _ \<Rightarrow> False)"
  by code_simp

lemma ex_stopped_reached: "(serve_step ex_server ex_codecs 0)\<^sup>*\<^sup>* serving_init (the ex_stopped)"
proof -
  have "ex_stopped = Some (the ex_stopped)" using ex_stopped_run by (metis option.collapse)
  then have "(serve_step ex_server ex_codecs 0)\<^sup>*\<^sup>* (the ex_serving) (the ex_stopped)"
    unfolding ex_stopped_def by (rule serve_moves_run)
  with ex_serving_reached show ?thesis by (rule rtranclp_trans)
qed

lemma stop_closes_every_connection_witness:
  "(c_closing (conn_at (the ex_stopped) 0) \<or> c_closed (conn_at (the ex_stopped) 0) \<or>
     0 \<in> set (sg_closers (the ex_stopped)) \<or> sg_tasks (the ex_stopped) ! 0 = Starting) \<and>
   c_closed (conn_at (handle_conn ex_server ex_codecs ex_input 1 (the ex_stopped)) 1)"
proof -
  have g: "stopped (the ex_stopped)" "length (sg_conns (the ex_stopped)) = 2" "c_writer_started (conn_at (the ex_stopped) 0)"
    "\<exists>d r w. sg_tasks (the ex_stopped) ! 1 = Handshaking d r w"
    using ex_stopped_run by (simp_all split: serve_task.splits)
  note t = stop_closes_every_connection[OF ex_stopped_reached g(1), where inp = ex_input]
  have "c_closing (conn_at (the ex_stopped) 0) \<or> c_closed (conn_at (the ex_stopped) 0) \<or>
     0 \<in> set (sg_closers (the ex_stopped)) \<or> sg_tasks (the ex_stopped) ! 0 = Starting"
    using t[of 0] g(2,3) by auto
  moreover have "c_closed (conn_at (handle_conn ex_server ex_codecs ex_input 1 (the ex_stopped)) 1)"
    using t[of 1] g(2,4) by (auto simp: Let_def)
  ultimately show ?thesis by blast
qed

text \<open>
  C12: \<open>on_disconnect\<close> runs exactly once for every connection that was started, after it was closed, and
  never for one that was refused or that resumed another: the connections for which it has run are
  exactly the started ones whose task has ended. Each had its \<open>on_connect\<close> accept it.
\<close>

theorem disconnect_exactly_once:
  assumes "(serve_step sv reg latest)\<^sup>*\<^sup>* serving_init g" "sv_on_disconnect sv"
  shows "distinct (sg_disconnected g) \<and>
    (\<forall>i. i \<in> set (sg_disconnected g) \<longleftrightarrow> i < length (sg_conns g) \<and> c_writer_started (conn_at g i) \<and>
       (\<exists>w. sg_tasks g ! i = TaskEnded w)) \<and>
    (\<forall>i \<in> set (sg_disconnected g). c_closed (conn_at g i) \<and> (sv_on_connect sv \<longrightarrow> i \<in> set (sg_connected g)))"
proof -
  note inv = serve_run_inv[OF assms(1)]
  have lt: "i < length (sg_conns g)" if "i \<in> set (sg_disconnected g)" for i
    using inv that by (simp add: serve_inv_def)
  have d: "distinct (sg_disconnected g)" using inv by (simp add: serve_inv_def)
  have run: "i \<in> set (sg_disconnected g)"
    if "i < length (sg_conns g)" "c_writer_started (conn_at g i)" "sg_tasks g ! i = TaskEnded w" for i w
    using inv_conn(2)[OF inv that(1)] that(2,3) assms(2) by (simp add: task_ok_def Let_def)
  have ended: "c_writer_started (conn_at g i) \<and> (\<exists>w. sg_tasks g ! i = TaskEnded w) \<and> c_closed (conn_at g i) \<and>
      (sv_on_connect sv \<longrightarrow> i \<in> set (sg_connected g))" if "i \<in> set (sg_disconnected g)" for i
    using inv_conn(1)[OF inv lt[OF that]] that by (simp add: conn_ok_def Let_def)
  from d lt run ended show ?thesis by blast
qed

definition ex_disconnected :: "(unit, unit) serving option" where
  "ex_disconnected = serve_moves ex_server ex_codecs
     [MAccept (ex_reader (ex_request PROTOCOL_VERSION_V3 @ [1])) ex_writer, MTask ex_input2 1, MTask ex_input2 1,
      MConnClosed 0, MTask ex_input2 0] (the ex_serving)"

lemma ex_disconnected_run:
  "ex_disconnected \<noteq> None \<and> length (sg_conns (the ex_disconnected)) = 2 \<and>
     sg_disconnected (the ex_disconnected) = [0] \<and> c_closed (conn_at (the ex_disconnected) 1)"
  by code_simp

lemma disconnect_exactly_once_witness:
  "distinct (sg_disconnected (the ex_disconnected)) \<and> sg_disconnected (the ex_disconnected) = [0] \<and>
     c_closed (conn_at (the ex_disconnected) 0) \<and> sg_connected (the ex_disconnected) \<noteq> []"
proof -
  have "ex_disconnected = Some (the ex_disconnected)" using ex_disconnected_run by (metis option.collapse)
  then have "(serve_step ex_server ex_codecs 0)\<^sup>*\<^sup>* (the ex_serving) (the ex_disconnected)"
    unfolding ex_disconnected_def by (rule serve_moves_run)
  with ex_serving_reached have "(serve_step ex_server ex_codecs 0)\<^sup>*\<^sup>* serving_init (the ex_disconnected)"
    by (rule rtranclp_trans)
  moreover have sv: "sv_on_disconnect ex_server" "sv_on_connect ex_server"
    by (simp_all add: ex_server_def server_with_recovery_def)
  ultimately have t: "distinct (sg_disconnected (the ex_disconnected))"
    "\<forall>i \<in> set (sg_disconnected (the ex_disconnected)). c_closed (conn_at (the ex_disconnected) i) \<and>
       (sv_on_connect ex_server \<longrightarrow> i \<in> set (sg_connected (the ex_disconnected)))"
    using disconnect_exactly_once[of ex_server ex_codecs 0 "the ex_disconnected"] by blast+
  have d: "sg_disconnected (the ex_disconnected) = [0]" using ex_disconnected_run by blast
  with t(2) sv have "c_closed (conn_at (the ex_disconnected) 0)" "0 \<in> set (sg_connected (the ex_disconnected))"
    by simp_all
  with d t(1) show ?thesis by (metis empty_iff list.set(1))
qed

section \<open>The accept loop\<close>

text \<open>The results of \<open>accept\<close>, one after the other.\<close>

fun accept_run :: "duration \<Rightarrow> (am_error + 'x) list \<Rightarrow> 'x accept_action list \<times> duration" where
  "accept_run backoff [] = ([], backoff)"
| "accept_run backoff (res # rs) = (case accept_result res backoff of
     (action, b) \<Rightarrow> (case accept_run b rs of (actions, b') \<Rightarrow> (action # actions, b')))"

lemma accept_run_Cons [simp]:
  "snd (accept_run b (res # rs)) = snd (accept_run (snd (accept_result res b)) rs)"
  "fst (accept_run b (res # rs)) = fst (accept_result res b) # fst (accept_run (snd (accept_result res b)) rs)"
  by (simp_all add: case_prod_beta)

declare accept_run.simps(2) [simp del]

definition accept_fails :: "am_error + 'x \<Rightarrow> bool" where
  "accept_fails res = (case res of Inl e \<Rightarrow> \<not> is_peer_error e | Inr x \<Rightarrow> False)"

definition accept_backoff :: "nat \<Rightarrow> duration" where
  "accept_backoff n = (if n = 0 then 0 else min (ACCEPT_RETRY_MIN_BACKOFF * 2 ^ (n - 1)) ACCEPT_RETRY_MAX_BACKOFF)"

lemma accept_backoff_next:
  "min (max (accept_backoff n * 2) ACCEPT_RETRY_MIN_BACKOFF) ACCEPT_RETRY_MAX_BACKOFF = accept_backoff (Suc n)"
proof (cases n)
  case (Suc m)
  define x where "x = (2 :: nat) ^ m"
  have "0 < x" by (simp add: x_def)
  moreover have "accept_backoff (Suc m) = min (ACCEPT_RETRY_MIN_BACKOFF * x) ACCEPT_RETRY_MAX_BACKOFF"
    "accept_backoff (Suc (Suc m)) = min (ACCEPT_RETRY_MIN_BACKOFF * (2 * x)) ACCEPT_RETRY_MAX_BACKOFF"
    by (simp_all add: accept_backoff_def x_def)
  ultimately show ?thesis unfolding Suc
    by (auto simp: ACCEPT_RETRY_MIN_BACKOFF_def ACCEPT_RETRY_MAX_BACKOFF_def duration_defs min_def max_def)
qed (simp add: accept_backoff_def ACCEPT_RETRY_MIN_BACKOFF_def ACCEPT_RETRY_MAX_BACKOFF_def duration_defs)

lemma accept_run_failures:
  "\<forall>res \<in> set rs. \<not> is_ok res \<Longrightarrow>
     snd (accept_run (accept_backoff m) rs) = accept_backoff (m + length (filter accept_fails rs))"
proof (induction rs arbitrary: m)
  case (Cons res rs)
  then obtain e where e: "res = Inl e" by (cases res) auto
  show ?case
  proof (cases "is_peer_error e")
    case True
    with Cons e show ?thesis by (simp add: accept_result_def accept_fails_def)
  next
    case False
    with e have "snd (accept_result res (accept_backoff m)) = accept_backoff (Suc m)"
      by (simp add: accept_result_def Let_def accept_backoff_next)
    with Cons False e show ?thesis by (simp add: accept_fails_def)
  qed
qed simp

lemma accept_run_append: "snd (accept_run b (xs @ ys)) = snd (accept_run (snd (accept_run b xs)) ys)"
  by (induction xs arbitrary: b) simp_all

lemma accept_run_bounds:
  "AcceptAfter d \<in> set (fst (accept_run b rs)) \<Longrightarrow> ACCEPT_RETRY_MIN_BACKOFF \<le> d \<and> d \<le> ACCEPT_RETRY_MAX_BACKOFF"
proof (induction rs arbitrary: b)
  case (Cons res rs)
  then have "AcceptAfter d = fst (accept_result res b) \<or>
      (\<exists>b'. AcceptAfter d \<in> set (fst (accept_run b' rs)))" by auto
  with Cons.IH show ?case
    by (auto simp: accept_result_def Let_def ACCEPT_RETRY_MIN_BACKOFF_def ACCEPT_RETRY_MAX_BACKOFF_def duration_defs
        split: sum.splits if_splits)
qed simp

lemma accept_run_length [simp]: "length (fst (accept_run b rs)) = length rs"
  by (induction rs arbitrary: b) simp_all

lemma accept_run_last:
  "rs \<noteq> [] \<Longrightarrow> accept_fails (last rs) \<Longrightarrow> last (fst (accept_run b rs)) = AcceptAfter (snd (accept_run b rs))"
proof (induction rs arbitrary: b)
  case (Cons res rs)
  show ?case
  proof (cases "rs = []")
    case True
    with Cons.prems show ?thesis by (auto simp: accept_fails_def accept_result_def Let_def split: sum.splits)
  next
    case False
    then have "fst (accept_run b' rs) \<noteq> []" for b' by (metis accept_run_length length_0_conv)
    with Cons False show ?thesis by simp
  qed
qed simp

text \<open>
  C36: The accept loop backs off and recovers. Each wait is between 5 ms and 1 s; it doubles with
  every failure in a row, and errors that concern one peer only neither wait nor count; a transport
  accepted starts it over.
\<close>

theorem accept_waits:
  assumes "\<forall>res \<in> set errs. \<not> is_ok res" "accept_run b (rs @ Inr x # errs) = (actions, b')"
  shows "b' = accept_backoff (length (filter accept_fails errs)) \<and>
    (errs \<noteq> [] \<and> accept_fails (last errs) \<longrightarrow> last actions = AcceptAfter b') \<and>
    (\<forall>d. AcceptAfter d \<in> set actions \<longrightarrow> from_millis 5 \<le> d \<and> d \<le> from_secs 1)"
proof -
  from assms(2) have run: "actions = fst (accept_run b (rs @ Inr x # errs))" "b' = snd (accept_run b (rs @ Inr x # errs))"
    by simp_all
  have "accept_backoff 0 = 0" by (simp add: accept_backoff_def)
  with accept_run_failures[OF assms(1), of 0] have "b' = accept_backoff (length (filter accept_fails errs))"
    by (simp add: run(2) accept_run_append accept_result_def)
  moreover have "last actions = AcceptAfter b'" if "errs \<noteq> []" "accept_fails (last errs)"
    unfolding run using that accept_run_last[of "rs @ Inr x # errs"] by simp
  moreover have "from_millis 5 \<le> d \<and> d \<le> from_secs 1" if "AcceptAfter d \<in> set actions" for d
    using accept_run_bounds that unfolding run(1) ACCEPT_RETRY_MIN_BACKOFF_def ACCEPT_RETRY_MAX_BACKOFF_def by blast
  ultimately show ?thesis by blast
qed

definition ex_accepts :: "(am_error + unit) list" where
  "ex_accepts = [Inl (Io (OtherIo ''EMFILE'')), Inl (Io ConnectionReset), Inl (Io (OtherIo ''EMFILE''))]"

lemma accept_waits_witness:
  "accept_run 0 ([] @ Inr () # ex_accepts) =
     ([Serve (), AcceptAfter (from_millis 5), AcceptAgain, AcceptAfter (from_millis 10)], from_millis 10) \<and>
   accept_backoff (length (filter accept_fails ex_accepts)) = from_millis 10"
proof -
  have run: "accept_run 0 ([] @ Inr () # ex_accepts) =
     ([Serve (), AcceptAfter (from_millis 5), AcceptAgain, AcceptAfter (from_millis 10)], from_millis 10)"
    by code_simp
  have "\<forall>res \<in> set ex_accepts. \<not> is_ok res" by (simp add: ex_accepts_def)
  from accept_waits[OF this run] run show ?thesis by simp
qed

end
