(* ===== verification/Client.thy ===== *)
theory Client
  imports RecoveryRuntime
begin

text \<open>
  \<open>src/src/client.rs\<close>: connecting. The network is a parameter: for each dial, when the transport is
  there or the dial has failed, and how long the peer takes for the handshake and the attach. Time is
  in nanoseconds; an operation that may never end gives an option, with \<open>None\<close> for never.
\<close>

section \<open>The configuration\<close>

record client =
  cl_connect_timeout :: "duration option"
  cl_recv_timeout :: "duration option"
  cl_max_frame :: u32
  cl_stream_queue_size :: nat
  cl_codecs :: "codec_id list"
  cl_has_handlers :: bool
  cl_recovery :: client_recovery_options

definition CONNECT_RETRY_MIN_BACKOFF :: duration where "CONNECT_RETRY_MIN_BACKOFF = from_millis 100"
definition CONNECT_RETRY_MAX_BACKOFF :: duration where "CONNECT_RETRY_MAX_BACKOFF = from_secs 2"

definition default_client :: "bool \<Rightarrow> client" where
  "default_client has_handlers =
     \<lparr>cl_connect_timeout = None, cl_recv_timeout = None, cl_max_frame = DEFAULT_MAX_FRAME,
      cl_stream_queue_size = 0, cl_codecs = [CodecPostcard, CodecMsgpackCompact, CodecMsgpackMap],
      cl_has_handlers = has_handlers, cl_recovery = default_client_recovery\<rparr>"

definition client_with_connect_timeout :: "duration \<Rightarrow> client \<Rightarrow> client" where
  "client_with_connect_timeout d c = c\<lparr>cl_connect_timeout := (if d \<noteq> 0 then Some d else None)\<rparr>"

definition client_with_recv_timeout :: "duration \<Rightarrow> client \<Rightarrow> client" where
  "client_with_recv_timeout d c = c\<lparr>cl_recv_timeout := (if d \<noteq> 0 then Some d else None)\<rparr>"

definition client_with_codecs :: "codec_id list \<Rightarrow> client \<Rightarrow> client" where
  "client_with_codecs codecs c = c\<lparr>cl_codecs := codecs\<rparr>"

definition client_with_max_frame :: "u32 \<Rightarrow> client \<Rightarrow> client" where
  "client_with_max_frame n c = c\<lparr>cl_max_frame := n\<rparr>"

definition client_with_stream_queue_size :: "nat \<Rightarrow> client \<Rightarrow> client" where
  "client_with_stream_queue_size n c = c\<lparr>cl_stream_queue_size := n\<rparr>"

definition client_with_recovery :: "client_recovery_options \<Rightarrow> client \<Rightarrow> client" where
  "client_with_recovery r c = c\<lparr>cl_recovery := client_normalized r\<rparr>"

section \<open>One attempt\<close>

datatype connect_error = DialError am_error | OtherError am_error

definition is_dial_error :: "am_error \<Rightarrow> bool" where
  "is_dial_error e = (case e of Io k \<Rightarrow> \<not> (k = InvalidInput \<or> k = Unsupported) | _ \<Rightarrow> False)"

text \<open>
  A future: the time it takes, and its result. One that takes no time is ready when it is first polled.
\<close>

type_synonym 'a future = "(nat \<times> (am_error + 'a)) option"

text \<open>
  \<open>before\<close>, started at a time: when it ends, and with what. \<open>timeout_at\<close> polls the future before it
  looks at the deadline, so a future that is ready at once wins also after the deadline.
\<close>

definition before :: "nat option \<Rightarrow> nat \<Rightarrow> 'a future \<Rightarrow> (nat \<times> (am_error + 'a)) option" where
  "before deadline now fut = (case deadline of
     Some dl \<Rightarrow> (case fut of
         Some (d, res) \<Rightarrow> if d = 0 \<or> now + d \<le> dl then Some (now + d, res)
           else Some (max now dl, Inl (ConnectTimeout None))
       | None \<Rightarrow> Some (max now dl, Inl (ConnectTimeout None)))
   | None \<Rightarrow> (case fut of Some (d, res) \<Rightarrow> Some (now + d, res) | None \<Rightarrow> None))"

text \<open>What the network does with one dial.\<close>

record dial_env =
  de_dial :: "(reader \<times> writer) future"
  de_handshake :: "nat option"
  de_attach :: "nat option"

type_synonym ('r, 'j) started = "(u64 \<times> reader) option \<times> ('r, 'j) connection"

definition new_attach_request :: attach_request where
  "new_attach_request = \<lparr>arq_mode = ATTACH_MODE_NEW, arq_connection_id = replicate RECOVERY_TOKEN_LEN 0,
     arq_resume_secret = replicate RECOVERY_TOKEN_LEN 0, arq_last_recv_seq = 0\<rparr>"

text \<open>The exchange of the attach: the request is written, the response read.\<close>

definition client_attach :: "reader \<Rightarrow> writer \<Rightarrow> (am_error + (attach_response \<times> reader)) \<times> writer" where
  "client_attach r w = (case write_attach_request new_attach_request w of
     (Inl e, w') \<Rightarrow> (Inl e, w') | (Inr _, w') \<Rightarrow> (read_attach_response r, w'))"

definition pending_client :: "client \<Rightarrow> ('r, 'j) connection" where
  "pending_client cl =
     (let c = new_unstarted (cl_has_handlers cl) False False
      in set_stream_queue_size (cl_stream_queue_size cl)
           (case cl_recv_timeout cl of Some timeout \<Rightarrow> set_default_recv_timeout timeout c | None \<Rightarrow> c))"

definition start_or_error :: "codec_registry \<Rightarrow> handshake_config \<Rightarrow> recovery_state option \<Rightarrow> u64 \<Rightarrow> reader \<Rightarrow>
    writer \<Rightarrow> ('r, 'j) connection \<Rightarrow> connect_error + ('r, 'j) started" where
  "start_or_error reg hc rs n r w c = (case start_with_config reg hc rs n r w c of
     Inl e \<Rightarrow> Inl (OtherError e) | Inr x \<Rightarrow> Inr x)"

definition connect_version :: "client \<Rightarrow> codec_registry \<Rightarrow> u8 \<Rightarrow> nat option \<Rightarrow> nat \<Rightarrow> dial_env \<Rightarrow>
    (nat \<times> (connect_error + ('r, 'j) started)) option" where
  "connect_version cl reg version deadline now env = (case before deadline now (de_dial env) of
     None \<Rightarrow> None
   | Some (t, Inl e) \<Rightarrow> Some (t, Inl (if is_dial_error e then DialError e else OtherError e))
   | Some (t, Inr (r, w)) \<Rightarrow>
     (case handshake_client reg (cl_codecs cl) (cl_max_frame cl) version r w of (handshake, w1) \<Rightarrow>
       (case before deadline t (map_option (\<lambda>d. (d, handshake)) (de_handshake env)) of
          None \<Rightarrow> None
        | Some (t1, Inl e) \<Rightarrow> Some (t1, Inl (OtherError e))
        | Some (t1, Inr (hc, r1)) \<Rightarrow>
            if hc_version hc \<noteq> PROTOCOL_VERSION_V3
            then Some (t1, start_or_error reg hc None 0 r1 w1 (pending_client cl))
            else (case client_attach r1 w1 of (attached, w2) \<Rightarrow>
              (case before deadline t1 (map_option (\<lambda>d. (d, attached)) (de_attach env)) of
                 None \<Rightarrow> None
               | Some (t2, Inl e) \<Rightarrow> Some (t2, Inl (OtherError e))
               | Some (t2, Inr (resp, r2)) \<Rightarrow>
                   if arp_status resp \<noteq> ATTACH_STATUS_OK
                   then Some (t2, Inl (OtherError (ResumeRejected ''initial attach rejected'')))
                   else Some (t2, start_or_error reg hc
                     (Some (new_client (client_normalized (cl_recovery cl)) (arp_negotiated resp)
                        (arp_connection_id resp) (arp_resume_secret resp) (cl_connect_timeout cl)))
                     (arp_last_recv_seq resp) r2 w2 (pending_client cl)))))))"

text \<open>
  \<open>connect_attempt\<close>: the loop over the versions. The dials are numbered from \<open>k\<close>; the result has the
  number of the next one.
\<close>

fun connect_versions :: "client \<Rightarrow> codec_registry \<Rightarrow> nat option \<Rightarrow> (nat \<Rightarrow> dial_env) \<Rightarrow> u8 list \<Rightarrow>
    connect_error option \<Rightarrow> nat \<Rightarrow> nat \<Rightarrow> (nat \<times> nat \<times> (connect_error + ('r, 'j) started)) option" where
  "connect_versions cl reg deadline env [] last_err now k =
     Some (now, k, Inl (case last_err of Some e \<Rightarrow> e | None \<Rightarrow> OtherError Closed))"
| "connect_versions cl reg deadline env (version # versions) last_err now k =
     (case connect_version cl reg version deadline now (env k) of
        None \<Rightarrow> None
      | Some (t, Inr x) \<Rightarrow> Some (t, k + 1, Inr x)
      | Some (t, Inl e) \<Rightarrow>
          if version = PROTOCOL_VERSION_V3 \<and> e = OtherError (UnsupportedFrameVersion PROTOCOL_VERSION_V2)
          then connect_versions cl reg deadline env versions (Some e) t (k + 1)
          else Some (t, k + 1, Inl e))"

definition connect_attempt :: "client \<Rightarrow> codec_registry \<Rightarrow> bool \<Rightarrow> nat option \<Rightarrow> (nat \<Rightarrow> dial_env) \<Rightarrow> nat \<Rightarrow>
    nat \<Rightarrow> (nat \<times> nat \<times> (connect_error + ('r, 'j) started)) option" where
  "connect_attempt cl reg use_recovery deadline env now k =
     connect_versions cl reg deadline env
       (if use_recovery then [PROTOCOL_VERSION_V3, PROTOCOL_VERSION_V2] else [PROTOCOL_VERSION_V2]) None now k"

section \<open>Retrying\<close>

text \<open>The loop of \<open>connect_with\<close>; \<open>None\<close> if it never returns.\<close>

partial_function (option) connect_loop :: "client \<Rightarrow> codec_registry \<Rightarrow> bool \<Rightarrow> nat option \<Rightarrow> (nat \<Rightarrow> dial_env) \<Rightarrow>
    nat \<Rightarrow> nat \<Rightarrow> duration \<Rightarrow> am_error option \<Rightarrow> (nat \<times> (am_error + ('r, 'j) started)) option" where
  "connect_loop cl reg use_recovery deadline env now k backoff last_dial_err =
     (case connect_attempt cl reg use_recovery deadline env now k of
        None \<Rightarrow> None
      | Some (t, k', res) \<Rightarrow> (case res of
          Inr x \<Rightarrow> Some (t, Inr x)
        | Inl (DialError e) \<Rightarrow> (case deadline of
            Some dl \<Rightarrow> connect_loop cl reg use_recovery deadline env (t + min backoff (dl - t)) k'
              (min (backoff * 2) CONNECT_RETRY_MAX_BACKOFF) (Some e)
          | None \<Rightarrow> Some (t, Inl e))
        | Inl (OtherError e) \<Rightarrow>
            Some (t, Inl (if e = ConnectTimeout None \<and> last_dial_err \<noteq> None then ConnectTimeout last_dial_err else e))))"

text \<open>
  The deadline: \<open>Instant + Duration\<close> panics (the outer \<open>None\<close>) beyond the latest instant of the platform.
\<close>

definition connect_deadline :: "nat \<Rightarrow> nat \<Rightarrow> client \<Rightarrow> nat option option" where
  "connect_deadline latest now cl = (case cl_connect_timeout cl of
     None \<Rightarrow> Some None | Some d \<Rightarrow> if now + d \<le> latest then Some (Some (now + d)) else None)"

datatype 'a outcome = Panics | Returns nat "am_error + 'a"

definition connect_with :: "client \<Rightarrow> codec_registry \<Rightarrow> nat \<Rightarrow> (nat \<Rightarrow> dial_env) \<Rightarrow> bool \<Rightarrow> nat \<Rightarrow>
    ('r, 'j) started outcome option" where
  "connect_with cl reg latest env use_recovery now = (case connect_deadline latest now cl of
     None \<Rightarrow> Some Panics
   | Some deadline \<Rightarrow> map_option (\<lambda>(t, res). Returns t res)
       (connect_loop cl reg use_recovery deadline env now 0 CONNECT_RETRY_MIN_BACKOFF None))"

definition connect :: "client \<Rightarrow> codec_registry \<Rightarrow> nat \<Rightarrow> (nat \<Rightarrow> dial_env) \<Rightarrow> nat \<Rightarrow> ('r, 'j) started outcome option" where
  "connect cl reg latest env now = connect_with cl reg latest env (cro_enable (cl_recovery cl)) now"

end
