(* ===== verification/ClientProperties.thy ===== *)
theory ClientProperties
  imports Client RecoverySystem "HOL-Library.Code_Target_Nat"
begin

text \<open>
  Connecting: when it returns, and when it does not.
\<close>

section \<open>Time\<close>

lemma before_now: "before deadline now fut = Some (t, res) \<Longrightarrow> now \<le> t"
  by (auto simp: before_def split: option.splits prod.splits if_splits)

lemma before_deadline:
  "before (Some dl) now fut \<noteq> None"
  "before (Some dl) now fut = Some (t, res) \<Longrightarrow> t \<le> max now dl"
  "before (Some dl) now fut = Some (t, res) \<Longrightarrow> (\<And>d r. fut = Some (d, r) \<Longrightarrow> 0 < d) \<Longrightarrow>
     dl < t \<or> now < t \<or> res = Inl (ConnectTimeout None)"
  by (auto simp: before_def split: option.splits prod.splits if_splits)

text \<open>The ways an attempt with one version ends.\<close>

lemma connect_version_cases:
  assumes "connect_version cl reg v deadline now env = Some (t, res)"
  obtains (dial) e where "before deadline now (de_dial env) = Some (t, Inl e)"
      "res = Inl (if is_dial_error e then DialError e else OtherError e)"
  | (handshake) t0 r w hs w1 e where "before deadline now (de_dial env) = Some (t0, Inr (r, w))"
      "handshake_client reg (cl_codecs cl) (cl_max_frame cl) v r w = (hs, w1)"
      "before deadline t0 (map_option (\<lambda>d. (d, hs)) (de_handshake env)) = Some (t, Inl e)" "res = Inl (OtherError e)"
  | (plain) t0 r w hs w1 hc r1 where "before deadline now (de_dial env) = Some (t0, Inr (r, w))"
      "handshake_client reg (cl_codecs cl) (cl_max_frame cl) v r w = (hs, w1)"
      "before deadline t0 (map_option (\<lambda>d. (d, hs)) (de_handshake env)) = Some (t, Inr (hc, r1))"
      "hc_version hc \<noteq> PROTOCOL_VERSION_V3" "res = start_or_error reg hc None 0 r1 w1 (pending_client cl)"
  | (attach) t0 t1 r w hs w1 hc r1 at w2 e where "before deadline now (de_dial env) = Some (t0, Inr (r, w))"
      "handshake_client reg (cl_codecs cl) (cl_max_frame cl) v r w = (hs, w1)"
      "before deadline t0 (map_option (\<lambda>d. (d, hs)) (de_handshake env)) = Some (t1, Inr (hc, r1))"
      "hc_version hc = PROTOCOL_VERSION_V3" "client_attach r1 w1 = (at, w2)"
      "before deadline t1 (map_option (\<lambda>d. (d, at)) (de_attach env)) = Some (t, Inl e)" "res = Inl (OtherError e)"
  | (recovery) t0 t1 r w hs w1 hc r1 at w2 resp r2 where "before deadline now (de_dial env) = Some (t0, Inr (r, w))"
      "handshake_client reg (cl_codecs cl) (cl_max_frame cl) v r w = (hs, w1)"
      "before deadline t0 (map_option (\<lambda>d. (d, hs)) (de_handshake env)) = Some (t1, Inr (hc, r1))"
      "hc_version hc = PROTOCOL_VERSION_V3" "client_attach r1 w1 = (at, w2)"
      "before deadline t1 (map_option (\<lambda>d. (d, at)) (de_attach env)) = Some (t, Inr (resp, r2))"
      "res = (if arp_status resp \<noteq> ATTACH_STATUS_OK then Inl (OtherError (ResumeRejected ''initial attach rejected''))
        else start_or_error reg hc (Some (new_client (client_normalized (cl_recovery cl)) (arp_negotiated resp)
          (arp_connection_id resp) (arp_resume_secret resp) (cl_connect_timeout cl)))
          (arp_last_recv_seq resp) r2 w2 (pending_client cl))"
proof -
  from assms obtain t0 d where 0: "before deadline now (de_dial env) = Some (t0, d)"
    by (auto simp: connect_version_def split: option.splits)
  show thesis
  proof (cases d)
    case (Inl e)
    with 0 assms dial show thesis by (simp add: connect_version_def)
  next
    case (Inr rw)
    obtain r w where rw: "rw = (r, w)" by fastforce
    obtain hs w1 where hs: "handshake_client reg (cl_codecs cl) (cl_max_frame cl) v r w = (hs, w1)" by fastforce
    from 0 Inr rw hs assms obtain t1 h where
      1: "before deadline t0 (map_option (\<lambda>d. (d, hs)) (de_handshake env)) = Some (t1, h)"
      by (auto simp: connect_version_def split: option.splits)
    show thesis
    proof (cases h)
      case (Inl e)
      with 0 1 Inr rw hs assms handshake show thesis by (simp add: connect_version_def)
    next
      case h: (Inr x)
      obtain hc r1 where x: "x = (hc, r1)" by fastforce
      obtain at w2 where at: "client_attach r1 w1 = (at, w2)" by fastforce
      note now = 0 1 Inr rw hs h x
      show thesis
      proof (cases "hc_version hc \<noteq> PROTOCOL_VERSION_V3")
        case True
        with now assms plain show thesis by (simp add: connect_version_def)
      next
        case False
        with now at assms obtain a where
          2: "before deadline t1 (map_option (\<lambda>d. (d, at)) (de_attach env)) = Some (t, a)"
          by (auto simp: connect_version_def split: option.splits sum.splits prod.splits if_splits)
        show thesis
        proof (cases a)
          case (Inl e)
          with now False at 2 assms attach show thesis by (simp add: connect_version_def)
        next
          case a: (Inr y)
          obtain resp r2 where "y = (resp, r2)" by fastforce
          with now False at 2 a assms recovery show thesis by (simp add: connect_version_def split: if_splits)
        qed
      qed
    qed
  qed
qed

lemma connect_version_time:
  assumes "connect_version cl reg v deadline now env = Some (t, res)"
  shows "now \<le> t"
  using assms by (cases rule: connect_version_cases) (auto dest!: before_now)

lemma connect_version_deadline:
  assumes "connect_version cl reg v (Some dl) now env = Some (t, res)"
  shows "t \<le> max now dl"
  using assms by (cases rule: connect_version_cases) (auto dest!: before_deadline(2))

lemma connect_version_returns: "connect_version cl reg v (Some dl) now env \<noteq> None"
proof -
  have *: "before (Some dl) t fut = None \<longleftrightarrow> False" for t and fut :: "'x future"
    using before_deadline(1) by blast
  show ?thesis by (auto simp: connect_version_def * split: option.split sum.split prod.split)
qed

text \<open>A dial that fails takes its time, if it is not ready at once.\<close>

lemma connect_version_dial:
  assumes "connect_version cl reg v (Some dl) now env = Some (t, Inl (DialError e))"
    and "\<And>d r. de_dial env = Some (d, r) \<Longrightarrow> 0 < d"
  shows "now < t \<and> t \<le> dl"
  using assms(1)
proof (cases rule: connect_version_cases)
  case (dial e')
  then have "is_dial_error e'" by (simp split: if_splits)
  with dial(1) assms(2) show ?thesis
    by (auto simp: before_def is_dial_error_def split: option.splits prod.splits if_splits)
qed (auto simp: start_or_error_def split: sum.splits if_splits)

lemma connect_versions_time:
  fixes res :: "connect_error + ('r, 'j) started"
  assumes "connect_versions cl reg (Some dl) env vs last_err now k = Some (t, k', res)" "dials \<Longrightarrow> \<forall>k d r. de_dial (env k) = Some (d, r) \<longrightarrow> 0 < d"
  shows "now \<le> t \<and> t \<le> max now dl \<and> (dials \<and> res = Inl (DialError e) \<and> last_err \<noteq> Some (DialError e) \<longrightarrow> now < t \<and> t \<le> dl)"
  using assms(1)
proof (induction vs arbitrary: last_err now k)
  case (Cons v vs)
  obtain t1 and r1 :: "connect_error + ('r, 'j) started"
    where v: "connect_version cl reg v (Some dl) now (env k) = Some (t1, r1)"
    using connect_version_returns[of cl reg v dl now "env k"] by fastforce
  note time = connect_version_time[OF v] connect_version_deadline[OF v]
  have dial: "now < t1 \<and> t1 \<le> dl" if dials "r1 = Inl (DialError e)" for e
    using connect_version_dial[of cl reg v dl now "env k" t1 e] v that assms(2) by blast
  show ?case
  proof (cases "\<exists>e. r1 = Inl e \<and> v = PROTOCOL_VERSION_V3 \<and> e = OtherError (UnsupportedFrameVersion PROTOCOL_VERSION_V2)")
    case True
    with v Cons.prems have "connect_versions cl reg (Some dl) env vs
        (Some (OtherError (UnsupportedFrameVersion PROTOCOL_VERSION_V2))) t1 (k + 1) = Some (t, k', res)" by auto
    from Cons.IH[OF this] time show ?thesis by (auto simp: max_def split: if_splits)
  next
    case False
    with v Cons.prems have "t = t1 \<and> res = r1" by (auto split: sum.splits if_splits)
    with time dial show ?thesis by auto
  qed
qed (auto split: option.splits)

lemma connect_versions_returns:
  "(connect_versions cl reg (Some dl) env vs last_err now k :: (nat \<times> nat \<times> (connect_error + ('r, 'j) started)) option) \<noteq> None"
proof (induction vs arbitrary: last_err now k)
  case (Cons v vs)
  have "(connect_version cl reg v (Some dl) now (env k) :: (nat \<times> (connect_error + ('r, 'j) started)) option) \<noteq> None"
    by (rule connect_version_returns)
  with Cons show ?case by (auto split: sum.split)
qed simp

section \<open>Properties\<close>

lemma connect_loop_returns:
  assumes "\<forall>k d r. de_dial (env k) = Some (d, r) \<longrightarrow> 0 < d"
  shows "\<exists>t (res :: am_error + ('r, 'j) started).
    connect_loop cl reg use_recovery (Some dl) env now k backoff last_err = Some (t, res) \<and> t \<le> max now dl"
proof (induction "dl - now" arbitrary: now k backoff last_err rule: less_induct)
  case less
  obtain t k' and res :: "connect_error + ('r, 'j) started"
    where a: "connect_attempt cl reg use_recovery (Some dl) env now k = Some (t, k', res)"
    using connect_versions_returns unfolding connect_attempt_def by (metis not_None_eq prod_cases3)
  have time: "now \<le> t" "t \<le> max now dl" "res = Inl (DialError e) \<Longrightarrow> now < t \<and> t \<le> dl" for e
    using connect_versions_time[of cl reg dl env _ None now k t k' res True e] a assms
    by (simp_all add: connect_attempt_def)
  show ?case
  proof (cases "\<exists>e. res = Inl (DialError e)")
    case True
    then obtain e where e: "res = Inl (DialError e)" by blast
    with time(3) have t: "now < t" "t \<le> dl" by auto
    let ?now = "t + min backoff (dl - t)"
    from t have "dl - ?now < dl - now" "?now \<le> dl" by (auto simp: min_def)
    from less[OF this(1), of k' "min (backoff * 2) CONNECT_RETRY_MAX_BACKOFF" "Some e"] this(2) a e t
    show ?thesis
      by (subst connect_loop.simps) (auto simp: max_def)
  next
    case False
    then show ?thesis using a time(2)
      by (subst connect_loop.simps) (auto split: sum.split connect_error.split)
  qed
qed

text \<open>
  C27: With a connect timeout, connecting returns by then: if no dial is ready at once, the retry loop ends,
  whatever the network does (a dial, a handshake or an attach may never end), and not later than the
  timeout.
\<close>

theorem connect_returns_by_the_deadline:
  assumes "cl_connect_timeout cl = Some d" "now + d \<le> latest"
    and "\<forall>k d r. de_dial (env k) = Some (d, r) \<longrightarrow> 0 < d"
  shows "\<exists>t res. connect_with cl reg latest env use_recovery now = Some (Returns t res) \<and> t \<le> now + d"
  using connect_loop_returns[OF assms(3), of cl reg use_recovery "now + d" now 0 CONNECT_RETRY_MIN_BACKOFF None] assms(1,2)
  by (auto simp: connect_with_def connect_deadline_def)

definition ex_env :: "(reader \<times> writer) future \<Rightarrow> nat \<Rightarrow> dial_env" where
  "ex_env dial k = \<lparr>de_dial = dial, de_handshake = None, de_attach = None\<rparr>"

definition ex_client_5s :: client where
  "ex_client_5s = client_with_connect_timeout (from_secs 5) (default_client True)"

lemma connect_returns_by_the_deadline_witness:
  "\<exists>t res. connect_with ex_client_5s new_codec_registry (from_secs 60) (ex_env (Some (1000, Inl (Io ConnectionRefused)))) True 0 =
     Some (Returns t res) \<and> t \<le> 0 + from_secs 5"
  by (rule connect_returns_by_the_deadline[where d = "from_secs 5"])
    (simp_all add: ex_client_5s_def client_with_connect_timeout_def duration_defs ex_env_def)

lemma connect_loop_never:
  assumes "\<And>now k. \<exists>e. (connect_attempt cl reg use_recovery (Some dl) env now k ::
      (nat \<times> nat \<times> (connect_error + ('r, 'j) started)) option) = Some (now, k + 1, Inl (DialError e))"
  shows "connect_loop cl reg use_recovery (Some dl) env now k b le \<noteq> Some (y :: nat \<times> (am_error + ('r, 'j) started))"
proof
  let ?P = "\<lambda>c rg ur d en (now :: nat) (k :: nat) (b :: duration) (le :: am_error option) (y :: nat \<times> (am_error + ('r, 'j) started)).
    \<not> (c = cl \<and> rg = reg \<and> ur = use_recovery \<and> d = Some dl \<and> en = env)"
  assume "connect_loop cl reg use_recovery (Some dl) env now k b le = Some y"
  then have "?P cl reg use_recovery (Some dl) env now k b le y"
  proof (rule connect_loop.raw_induct[of ?P, rotated])
    fix loop :: "client \<Rightarrow> codec_registry \<Rightarrow> bool \<Rightarrow> nat option \<Rightarrow> (nat \<Rightarrow> dial_env) \<Rightarrow> nat \<Rightarrow> nat \<Rightarrow> duration \<Rightarrow>
      am_error option \<Rightarrow> (nat \<times> (am_error + ('r, 'j) started)) option"
    fix c rg ur d en now k b le y
    assume IH: "\<And>c rg ur d en now k b le y. loop c rg ur d en now k b le = Some y \<Longrightarrow> ?P c rg ur d en now k b le y"
      and run: "(case connect_attempt c rg ur d en now k of None \<Rightarrow> None
        | Some (t, k', res) \<Rightarrow> (case res of
            Inr x \<Rightarrow> Some (t, Inr x)
          | Inl (DialError e) \<Rightarrow> (case d of
              Some dl \<Rightarrow> loop c rg ur d en (t + min b (dl - t)) k' (min (b * 2) CONNECT_RETRY_MAX_BACKOFF) (Some e)
            | None \<Rightarrow> Some (t, Inl e))
          | Inl (OtherError e) \<Rightarrow>
              Some (t, Inl (if e = ConnectTimeout None \<and> le \<noteq> None then ConnectTimeout le else e)))) = Some y"
    show "?P c rg ur d en now k b le y"
    proof
      assume *: "c = cl \<and> rg = reg \<and> ur = use_recovery \<and> d = Some dl \<and> en = env"
      obtain e where "(connect_attempt cl reg use_recovery (Some dl) env now k ::
          (nat \<times> nat \<times> (connect_error + ('r, 'j) started)) option) = Some (now, k + 1, Inl (DialError e))"
        using assms by blast
      with run * have "loop cl reg use_recovery (Some dl) env (now + min b (dl - now)) (k + 1)
          (min (b * 2) CONNECT_RETRY_MAX_BACKOFF) (Some e) = Some y" by simp
      from IH[OF this] show False by simp
    qed
  qed
  then show False by simp
qed

text \<open>
  C33: Dials that fail at once are retried for ever. A dial that fails when it is first polled (a Unix
  socket that does not exist, an address that the system refuses at once) wins against a deadline that
  has passed, and the loop looks at the deadline nowhere else: with a connect timeout, \<open>connect\<close> then
  never returns, though the doc says that it returns \<open>ConnectTimeout\<close> when the timeout is reached.
\<close>

theorem failing_dials_never_time_out:
  assumes "cl_connect_timeout cl = Some d" "now + d \<le> latest"
    and "\<forall>k. \<exists>e. de_dial (env k) = Some (0, Inl e) \<and> is_dial_error e"
  shows "(connect_with cl reg latest env use_recovery now :: ('r, 'j) started outcome option) = None"
proof -
  have version: "\<exists>e. (connect_version cl reg v deadline now (env k) :: (nat \<times> (connect_error + ('r, 'j) started)) option) =
      Some (now, Inl (DialError e))" for v deadline now k
    using spec[OF assms(3), of k] by (auto simp: connect_version_def before_def split: option.split)
  have attempt: "\<exists>e. (connect_attempt cl reg use_recovery deadline env now k ::
      (nat \<times> nat \<times> (connect_error + ('r, 'j) started)) option) = Some (now, k + 1, Inl (DialError e))"
    for deadline now k
    using version[of PROTOCOL_VERSION_V3 deadline now k] version[of PROTOCOL_VERSION_V2 deadline now k]
    by (auto simp: connect_attempt_def)
  have "(connect_loop cl reg use_recovery (Some dl) env now k b le ::
      (nat \<times> (am_error + ('r, 'j) started)) option) = None" for dl now k b le
    using connect_loop_never[of cl reg use_recovery dl env] attempt by (metis not_None_eq)
  with assms(1,2) show ?thesis by (simp add: connect_with_def connect_deadline_def)
qed

lemma failing_dials_never_time_out_witness:
  "(connect_with ex_client_5s new_codec_registry (from_secs 60)
      (ex_env (Some (0, Inl (Io (OtherIo ''ENOENT''))))) True 0 :: (unit, unit) started outcome option) = None"
  by (rule failing_dials_never_time_out[where d = "from_secs 5"])
    (simp_all add: ex_client_5s_def client_with_connect_timeout_def duration_defs ex_env_def is_dial_error_def)

end
