(* ===== verification/StreamQueues.thy ===== *)
theory StreamQueues
  imports StreamTable
begin

text \<open>
  The queues of one stream, and what leaves them alone: everything that other streams, the writer, and
  the closing of streams and connections do. The proofs about what arrives on a stream rest on this.
\<close>

definition queues :: "('r, 'j) stream \<Rightarrow>
    'r list \<times> bytes list \<times> bool \<times> 'j list \<times> 'r option \<times> nat \<times> bool \<times> nat \<times> bool" where
  "queues s = (st_inbox s, st_incoming s, st_incoming_open s, st_handler_q s, st_peeked s, st_stale_replies s,
     st_recv_active s, st_capacity s, st_has_handler_tx s)"

definition same_queues :: "nat \<Rightarrow> ('r, 'j) connection \<Rightarrow> ('r, 'j) connection \<Rightarrow> bool" where
  "same_queues r c c' \<longleftrightarrow> c_config c' = c_config c \<and> (r < length (c_heap c) \<longrightarrow>
     r < length (c_heap c') \<and> queues (stream_at c' r) = queues (stream_at c r) \<and>
     (st_closed (stream_at c r) \<longrightarrow> st_closed (stream_at c' r)))"

named_theorems queue_intros

lemma same_queues_refl [simp, queue_intros]: "same_queues r c c"
  by (simp add: same_queues_def)

lemma same_queues_trans: "same_queues r a b \<Longrightarrow> same_queues r b c \<Longrightarrow> same_queues r a c"
  by (auto simp: same_queues_def)

lemma same_queuesI:
  "c_config c' = c_config c \<Longrightarrow> c_heap c' = c_heap c \<Longrightarrow> same_queues r c c'"
  by (simp add: same_queues_def)

lemma same_queues_update [queue_intros]:
  assumes "\<And>s. queues (f s) = queues s" "\<And>s. st_closed s \<Longrightarrow> st_closed (f s)"
  shows "same_queues r c (update_stream q f c)"
  using assms by (cases "q < length (c_heap c)") (auto simp: same_queues_def update_stream_def nth_list_update)

text \<open>Whatever is done to another stream.\<close>

lemma same_queues_elsewhere: "q \<noteq> r \<Longrightarrow> same_queues r c (update_stream q f c)"
  by (simp add: same_queues_def update_stream_def)

section \<open>Counters, sending\<close>

lemma sq_count [queue_intros]: "same_queues r c (count k q c)"
  unfolding count_def
  by (rule same_queues_trans[OF same_queuesI same_queues_update]) (simp_all add: queues_def)

lemma sq_notes [queue_intros]:
  "same_queues r c (note_conn_failure code reason c)" "same_queues r c (note_stream_failure code reason q c)"
  by (auto simp: note_conn_failure_def note_stream_failure_def queues_def intro: same_queuesI same_queues_update)

lemma sq_note_failure [queue_intros]: "same_queues r c (note_failure code reason q c)"
  unfolding note_failure_def by (rule same_queues_trans[OF sq_notes(1) sq_notes(2)])

lemma sq_note_decode_error [queue_intros]: "same_queues r c (note_decode_error env e q c)"
  unfolding note_decode_error_def by (rule same_queues_trans[OF sq_count sq_note_failure])

lemma sq_enqueue_frame [queue_intros]: "same_queues r c (snd (enqueue_frame f c))"
  by (intro same_queuesI) (simp_all add: enqueue_frame_def signal_send_def push_outbound_def Let_def split: option.split)

lemma sq_send_done [queue_intros]:
  "same_queues r c (send_done env q res c)" "same_queues r c (send_fin_done env q res c)"
  by (simp_all add: send_done_def send_fin_done_def queue_intros split: sum.split)

lemma sq_send_fin [queue_intros]: "same_queues r c (snd (send_fin env q c))"
  using sq_enqueue_frame[of r c "Plain (st_id (stream_at c q)) FRAME_FLAG_FIN []"]
  by (auto simp: send_fin_def split: prod.split enqueue_state.split intro: same_queues_trans[OF _ sq_send_done(2)])

lemma sq_send_boxed [queue_intros]: "same_queues r c (snd (send_boxed env msg q c))"
proof (cases "encode_message (se_encode env) msg c")
  case (Inr p)
  obtain x c1 where x: "enqueue_frame (Plain (st_id (stream_at c q)) 0 p) c = (x, c1)" by fastforce
  with sq_enqueue_frame[of r c "Plain (st_id (stream_at c q)) 0 p"] have "same_queues r c c1" by simp
  with Inr x show ?thesis
    by (auto simp: send_boxed_def split: enqueue_state.split intro: same_queues_trans[OF _ sq_send_done(1)])
qed (simp add: send_boxed_def sq_note_failure)

section \<open>Closing\<close>

lemma sq_notify_close [queue_intros]: "same_queues r c (notify_close q c)"
  by (simp add: notify_close_def same_queuesI)

lemma sq_close_and_count [queue_intros]: "same_queues r c (close_and_count q c)"
  by (cases "q < length (c_heap c)")
    (auto simp: same_queues_def close_and_count_def close_channels_def queues_def nth_list_update)

lemma sq_remove_stream [queue_intros]:
  "same_queues r c (snd (remove_stream sid c))" "same_queues r c (snd (remove_peer_stream sid c))"
proof -
  have *: "same_queues r c (snd (remove_stream sid (c\<lparr>c_closed_peer := P\<rparr>)))" for P
    by (auto simp: remove_stream_def Let_def split: option.split
        intro: same_queues_trans[OF same_queuesI sq_close_and_count] same_queuesI)
  from *[of "c_closed_peer c"] show "same_queues r c (snd (remove_stream sid c))" by simp
  with * show "same_queues r c (snd (remove_peer_stream sid c))" by (simp add: remove_peer_stream_def)
qed

lemma sq_remove_notify [queue_intros]:
  "same_queues r c (case remove_stream sid c of (Some q, c1) \<Rightarrow> notify_close q c1 | (None, c1) \<Rightarrow> c1)"
  "same_queues r c (case remove_peer_stream sid c of (Some q, c1) \<Rightarrow> notify_close q c1 | (None, c1) \<Rightarrow> c1)"
  using sq_remove_stream[of r c sid]
  by (auto split: prod.split option.split intro: same_queues_trans[OF _ sq_notify_close])

lemma sq_close_fold: "same_queues r c (fold (\<lambda>(sid, q) c. notify_close q (close_and_count q c)) xs c)"
proof (induction xs arbitrary: c)
  case (Cons x xs)
  have "same_queues r c (notify_close (snd x) (close_and_count (snd x) c))"
    by (rule same_queues_trans[OF sq_close_and_count sq_notify_close])
  with Cons show ?case by (auto simp: case_prod_beta intro: same_queues_trans)
qed simp

lemma sq_mark_closed [queue_intros]: "same_queues r c (mark_closed c)"
  unfolding mark_closed_def close_all_streams_def abort_reader_def
  by (cases "c_closed c") (auto intro!: same_queues_trans[OF _ sq_close_fold] same_queuesI)

lemma sq_close [queue_intros]:
  "same_queues r c (snd (close_begin c))" "same_queues r c (snd (close_by_peer c))"
proof -
  have "same_queues r c (mark_closed (c\<lparr>c_closing := True\<rparr>))"
    by (rule same_queues_trans[OF same_queuesI sq_mark_closed]) simp_all
  then show "same_queues r c (snd (close_begin c))" "same_queues r c (snd (close_by_peer c))"
    by (auto simp: close_begin_def close_by_peer_def Let_def signal_send_def push_outbound_def sq_mark_closed
        intro: same_queuesI)
qed

lemma sq_stream_close [queue_intros]:
  "same_queues r c (snd (stream_close q c))" "same_queues r c (close_task_end q c)"
  by (simp_all add: stream_close_def close_task_end_def Let_def sq_remove_notify same_queues_update start_fin_def queues_def)

section \<open>Protocol errors\<close>

lemma sq_protocol_error_end [queue_intros]: "same_queues r c (snd (protocol_error_end q c))"
  by (simp add: protocol_error_end_def sq_remove_stream)

lemma sq_protocol_error_sent [queue_intros]: "same_queues r c (snd (protocol_error_sent env res q c))"
proof -
  define c1 where "c1 = (case res of
      Inl e \<Rightarrow> count ReplySendFailure q (note_failure FAILURE_STREAM_PROTOCOL_REPLY_SEND
                 (''protocol error reply send failed: '' @ display env e) q c) | Inr _ \<Rightarrow> c)"
  have 1: "same_queues r c c1"
    by (auto simp: c1_def intro: same_queues_trans[OF sq_note_failure sq_count] split: sum.split)
  have upd: "same_queues r c1 (update_stream q start_fin c1)"
    by (rule same_queues_update) (simp_all add: start_fin_def queues_def)
  obtain x c2 where x: "send_fin env q (update_stream q start_fin c1) = (x, c2)" by fastforce
  with sq_send_fin[of r "update_stream q start_fin c1" env q] have "same_queues r c1 c2"
    using same_queues_trans[OF upd] by simp
  with 1 have 2: "same_queues r c c2" by (rule same_queues_trans)
  show ?thesis
    using 1 2 x same_queues_trans[OF 1 sq_protocol_error_end] same_queues_trans[OF 2 sq_protocol_error_end]
      same_queues_trans[OF 1 sq_remove_stream(2)]
    by (simp add: protocol_error_sent_def c1_def[symmetric] Let_def split: enqueue_state.split)
qed

lemma sq_protocol_error [queue_intros]: "same_queues r c (snd (protocol_error env code msg q c))"
proof -
  define reason where "reason = (if msg = [] then code else code @ '': '' @ msg)"
  define c3 where "c3 = count ProtocolErrors q (note_stream_failure FAILURE_STREAM_PROTOCOL reason q
     (note_conn_failure FAILURE_STREAM_PROTOCOL (''stream protocol error: '' @ reason) c))"
  have 3: "same_queues r c c3" unfolding c3_def
    by (rule same_queues_trans[OF same_queues_trans[OF sq_notes(1) sq_notes(2)] sq_count])
  obtain x c4 where x: "send_boxed env (se_error_reply env code msg) q c3 = (x, c4)" by fastforce
  with sq_send_boxed[of r c3 env "se_error_reply env code msg" q] have "same_queues r c3 c4" by simp
  with 3 have 4: "same_queues r c c4" by (rule same_queues_trans)
  have "protocol_error env code msg q c = (case x of
      Enqueued res \<Rightarrow> protocol_error_sent env res q c4 | _ \<Rightarrow> (ReplyWaits x, c4))"
    unfolding protocol_error_def Let_def reason_def[symmetric] c3_def[symmetric] x prod.case
    by (simp split: enqueue_state.split)
  with 4 show ?thesis
    by (auto split: enqueue_state.split intro: same_queues_trans[OF 4 sq_protocol_error_sent])
qed

lemma sq_protocol_error_for [queue_intros]: "same_queues r c (snd (protocol_error_for env e q c))"
  by (simp add: protocol_error_for_def sq_protocol_error split: am_error.split)

lemma sq_send_recv_reply [queue_intros]: "same_queues r c (snd (snd (send_recv_reply env decode raw q c)))"
  using same_queues_trans[OF sq_note_decode_error sq_protocol_error]
    same_queues_trans[OF sq_note_decode_error sq_protocol_error_for]
  by (auto simp: send_recv_reply_def decode_reply_def intro: sq_count split: sum.split)

section \<open>Opening streams, and frames for other streams\<close>

lemma sq_alloc [queue_intros]: "same_queues r c (snd (alloc_stream s c))"
  by (simp add: same_queues_def alloc_stream_def nth_append)

lemma sq_make_stream [queue_intros]: "same_queues r c (snd (make_stream sid c))"
  by (auto simp: make_stream_def Let_def same_queues_def alloc_stream_def nth_append)

lemma sq_get_stream_ctx [queue_intros]: "same_queues r c (snd (get_stream_ctx sid c))"
proof (cases "lookup_stream_ctx sid c")
  case None
  obtain x c1 where m: "make_stream sid c = (x, c1)" by fastforce
  with sq_make_stream[of r c sid] have 1: "same_queues r c c1" by simp
  have 2: "same_queues r c (c1\<lparr>c_new_calls := y\<rparr>)" for y
    by (rule same_queues_trans[OF 1]) (simp add: same_queuesI)
  from None m 1 2 same_queues_trans[OF 1 sq_alloc] show ?thesis
    by (auto simp: get_stream_ctx_def split: option.split)
qed (simp add: get_stream_ctx_def)

lemma sq_new_stream [queue_intros]:
  "same_queues r c (snd (new_stream c))" "same_queues r c (snd (default_stream c))"
proof -
  let ?c = "c\<lparr>c_next_stream_id := c_next_stream_id c + 1\<rparr>"
  have 0: "same_queues r c ?c" by (simp add: same_queuesI)
  obtain x c1 where m: "make_stream (ucast (c_next_stream_id c)) ?c = (x, c1)" by fastforce
  with sq_make_stream[of r ?c "ucast (c_next_stream_id c)"] have 1: "same_queues r c c1"
    by (auto intro: same_queues_trans[OF 0])
  have "same_queues r c (snd (alloc_stream s (note_conn_failure code t ?c)))" for s code t
    by (rule same_queues_trans[OF same_queues_trans[OF 0 sq_notes(1)] sq_alloc])
  with m 1 same_queues_trans[OF 1 sq_alloc] show "same_queues r c (snd (new_stream c))"
    by (auto simp: new_stream_def Let_def split: option.split)
qed (simp add: default_stream_def sq_get_stream_ctx)

lemma sq_accept_route [queue_intros]: "same_queues r c (snd (accept_route sid fl pl c))"
proof -
  have in_str: "same_queues r c (snd (inbound_stream sid c))"
    using sq_get_stream_ctx[of r c sid] by (auto simp: inbound_stream_def split: option.split prod.split)
  obtain x c1 where i: "inbound_stream sid c = (x, c1)" by fastforce
  with in_str have 1: "same_queues r c c1" by simp
  have "same_queues r c (c1\<lparr>c_closed_peer := P\<rparr>)" for P
    by (rule same_queues_trans[OF 1]) (simp add: same_queuesI)
  with i 1 show ?thesis by (auto simp: accept_route_def Let_def split: option.split intro: same_queuesI)
qed

lemma sq_accept_elsewhere [queue_intros]: "q \<noteq> r \<Longrightarrow> same_queues r c (snd (accept_step (Sending q ps, c)))"
  by (cases ps) (auto simp: same_queues_elsewhere)

section \<open>A closed connection has closed its streams\<close>

text \<open>A stream of the table is closed with the connection; one that is not in it is closed already.\<close>

definition closed_with :: "nat \<Rightarrow> ('r, 'j) connection \<Rightarrow> bool" where
  "closed_with r c \<longleftrightarrow> r < length (c_heap c) \<and> (c_closed c \<or> r \<notin> snd ` set (c_streams c) \<longrightarrow> st_closed (stream_at c r))"

lemma closed_with_closed: "closed_with r c \<Longrightarrow> c_closed c \<Longrightarrow> st_closed (stream_at c r)"
  by (simp add: closed_with_def)

lemma close_fold_closes:
  assumes "r \<in> snd ` set xs" "r < length (c_heap c)"
  shows "st_closed (stream_at (fold (\<lambda>(sid, q) c. notify_close q (close_and_count q c)) xs c) r)"
  using assms
proof (induction xs arbitrary: c)
  case (Cons x xs)
  let ?c = "notify_close (snd x) (close_and_count (snd x) c)"
  have len: "length (c_heap ?c) = length (c_heap c)"
    by (simp add: notify_close_def close_and_count_def close_channels_def)
  show ?case
  proof (cases "snd x = r")
    case True
    then have "st_closed (stream_at ?c r)" using Cons.prems(2)
      by (simp add: notify_close_def close_and_count_def close_channels_def)
    with sq_close_fold[of r ?c xs] Cons.prems(2) len show ?thesis by (cases x) (simp add: same_queues_def)
  next
    case False
    with Cons.prems have "r \<in> snd ` set xs" by auto
    from Cons.IH[OF this, of ?c] Cons.prems(2) len show ?thesis by (cases x) simp
  qed
qed simp

lemma mark_closed_closes: "closed_with r c \<Longrightarrow> st_closed (stream_at (mark_closed c) r)"
proof -
  assume cw: "closed_with r c"
  show ?thesis
  proof (cases "c_closed c \<or> r \<notin> snd ` set (c_streams c)")
    case True
    with cw sq_mark_closed[of r c] show ?thesis by (auto simp: closed_with_def same_queues_def)
  next
    case False
    with cw show ?thesis unfolding mark_closed_def close_all_streams_def abort_reader_def
      by (auto simp: closed_with_def intro!: close_fold_closes)
  qed
qed

end
