(* ===== verification/StreamOrder.thy ===== *)
theory StreamOrder
  imports StreamQueues "HOL-Library.Sublist"
begin

text \<open>
  What comes out of a stream: the frames that the reader puts on the incoming channel of a stream, the
  decode task, the inbox and the queue of the handler task, and \<open>recv\<close> and \<open>peek_wire\<close> of the user.
\<close>

section \<open>The contract\<close>

text \<open>What the payload of a data frame means, by the codec: a message to receive, or a job.\<close>

definition message_of :: "('r, 'j, 'm) stream_env \<Rightarrow> codec_id \<Rightarrow> bytes \<Rightarrow> 'r list" where
  "message_of env cid p = (if p = [] then [] else case se_decode_envelope env cid p of
     Inl e \<Rightarrow> [] | Inr raw \<Rightarrow> if se_has_handler env (se_wire env raw) then [] else [raw])"

definition job_of :: "('r, 'j, 'm) stream_env \<Rightarrow> codec_id \<Rightarrow> bytes \<Rightarrow> 'j list" where
  "job_of env cid p = (if p = [] then [] else case se_decode_envelope env cid p of
     Inl e \<Rightarrow> []
   | Inr raw \<Rightarrow> if se_has_handler env (se_wire env raw)
       then (case se_decode_job env raw of Inl e \<Rightarrow> [] | Inr job \<Rightarrow> [job]) else [])"

definition messages_of :: "('r, 'j, 'm) stream_env \<Rightarrow> codec_id \<Rightarrow> bytes list \<Rightarrow> 'r list" where
  "messages_of env cid ps = concat (map (message_of env cid) ps)"

definition jobs_of :: "('r, 'j, 'm) stream_env \<Rightarrow> codec_id \<Rightarrow> bytes list \<Rightarrow> 'j list" where
  "jobs_of env cid ps = concat (map (job_of env cid) ps)"

section \<open>The stream as a system\<close>

text \<open>
  The connection, the decode task of the stream, and three history variables: the payloads put on the
  incoming channel, the messages that \<open>recv\<close> returned, and the jobs that the handler task took.
\<close>

record ('r, 'j) lane =
  ln_conn :: "('r, 'j) connection"
  ln_task :: "('r, 'j) decode_task"
  ln_accepted :: "bytes list"
  ln_received :: "'r list"
  ln_jobs :: "'j list"

abbreviation lane_stream :: "nat \<Rightarrow> ('r, 'j) lane \<Rightarrow> ('r, 'j) stream" where
  "lane_stream r l \<equiv> stream_at (ln_conn l) r"

definition lane_init :: "('r, 'j) connection \<Rightarrow> ('r, 'j) lane" where
  "lane_init c = \<lparr>ln_conn = c, ln_task = DecodeNext, ln_accepted = [], ln_received = [], ln_jobs = []\<rparr>"

text \<open>A stream as \<open>make_stream\<close> makes it.\<close>

definition fresh_stream :: "nat \<Rightarrow> ('r, 'j) connection \<Rightarrow> bool" where
  "fresh_stream r c \<longleftrightarrow> r < length (c_heap c) \<and> st_inbox (stream_at c r) = [] \<and> st_incoming (stream_at c r) = [] \<and>
     st_handler_q (stream_at c r) = [] \<and> st_peeked (stream_at c r) = None \<and> st_stale_replies (stream_at c r) = 0"

text \<open>
  One step: the reader puts a payload on the channel (a full channel keeps it waiting), the decode task
  goes on, a user receives or peeks, the handler task takes a job, or anything else happens that leaves
  the queues of the stream alone (\<open>StreamQueues\<close>): on other streams, in the writer, or a close.
\<close>

inductive lane_step :: "('r, 'j, 'm) stream_env \<Rightarrow> nat \<Rightarrow> ('r, 'j) lane \<Rightarrow> ('r, 'j) lane \<Rightarrow> bool" for env r where
  Push: "accept_step (Sending r (p # ps), ln_conn l) = (Sending r ps, c') \<Longrightarrow> st_incoming_open (lane_stream r l) \<Longrightarrow>
     lane_step env r l (l\<lparr>ln_conn := c', ln_accepted := ln_accepted l @ [p]\<rparr>)"
| Decode: "ln_task l = DecodeNext \<Longrightarrow> decode_frame env r (ln_conn l) = (t', c') \<Longrightarrow>
     lane_step env r l (l\<lparr>ln_conn := c', ln_task := t'\<rparr>)"
| Resume: "decode_resume (ln_task l) r (ln_conn l) = (t', c') \<Longrightarrow>
     lane_step env r l (l\<lparr>ln_conn := c', ln_task := t'\<rparr>)"
| ErrorGoesOn: "ln_task l = ErrorWaits st ends \<Longrightarrow> same_queues r (ln_conn l) c' \<Longrightarrow>
     lane_step env r l (l\<lparr>ln_conn := c', ln_task := ErrorWaits st' ends\<rparr>)"
| Closed: "ln_task l = DecodeNext \<Longrightarrow> decode_closed r (ln_conn l) = (t', c') \<Longrightarrow>
     lane_step env r l (l\<lparr>ln_conn := c', ln_task := t'\<rparr>)"
| Guard: "lane_step env r l (l\<lparr>ln_conn := snd (recv_guard r (ln_conn l))\<rparr>)"
| Unguard: "lane_step env r l (l\<lparr>ln_conn := release_guard r (ln_conn l)\<rparr>)"
| Recv: "recv_raw_try r (ln_conn l) = (res, c') \<Longrightarrow>
     lane_step env r l (l\<lparr>ln_conn := c', ln_received := ln_received l @ (case res of Some (Inr m) \<Rightarrow> [m] | _ \<Rightarrow> [])\<rparr>)"
| Peek: "lane_step env r l (l\<lparr>ln_conn := snd (peek_wire_try env r (ln_conn l))\<rparr>)"
| HandlerTake: "handler_take r (ln_conn l) = (job, c') \<Longrightarrow>
     lane_step env r l (l\<lparr>ln_conn := c', ln_jobs := ln_jobs l @ (case job of Some j \<Rightarrow> [j] | None \<Rightarrow> [])\<rparr>)"
| Elsewhere: "same_queues r (ln_conn l) c' \<Longrightarrow> lane_step env r l (l\<lparr>ln_conn := c'\<rparr>)"

abbreviation lane_run where "lane_run env r \<equiv> (lane_step env r)\<^sup>*\<^sup>*"

inductive_cases lane_stepE: "lane_step env r l l'"

section \<open>The invariant\<close>

text \<open>What the user has or can get, the message or the job in the hands of the decode task.\<close>

definition visible :: "('r, 'j) stream \<Rightarrow> 'r list" where
  "visible s = (case st_peeked s of Some m \<Rightarrow> [m] | None \<Rightarrow> []) @ st_inbox s"

fun held_message :: "('r, 'j) decode_task \<Rightarrow> 'r list" where
  "held_message (InboxWaits raw) = [raw]"
| "held_message _ = []"

fun held_job :: "('r, 'j) decode_task \<Rightarrow> 'j list" where
  "held_job (HandlerWaits job) = [job]"
| "held_job _ = []"

text \<open>
  \<open>flows closed xs t ys\<close>: \<open>xs\<close> have come out, \<open>t\<close> is in the hands of the task, of what was taken in,
  \<open>ys\<close>. A closed stream may lose what the task holds.
\<close>

definition flows :: "bool \<Rightarrow> 'a list \<Rightarrow> 'a list \<Rightarrow> 'a list \<Rightarrow> bool" where
  "flows closed xs t ys \<longleftrightarrow> xs @ t = ys \<or> closed \<and> prefix xs ys"

definition lane_ok :: "('r, 'j, 'm) stream_env \<Rightarrow> codec_id \<Rightarrow> nat \<Rightarrow> bytes list \<Rightarrow> ('r, 'j) lane \<Rightarrow> bool" where
  "lane_ok env cid r done l \<longleftrightarrow> (let s = lane_stream r l in
     r < length (c_heap (ln_conn l)) \<and> cc_codec_id (config (ln_conn l)) = cid \<and> st_stale_replies s = 0 \<and>
     (st_has_handler_tx s \<or> (\<forall>wire. \<not> se_has_handler env wire) \<and> held_job (ln_task l) = []) \<and>
     (if ln_task l = DecodeEnded then prefix done (ln_accepted l) else ln_accepted l = done @ st_incoming s) \<and>
     flows (st_closed s) (ln_received l @ visible s) (held_message (ln_task l)) (messages_of env cid done) \<and>
     flows (st_closed s) (ln_jobs l @ st_handler_q s) (held_job (ln_task l)) (jobs_of env cid done))"

lemma lane_update_order: "l\<lparr>ln_task := t, ln_conn := c\<rparr> = l\<lparr>ln_conn := c, ln_task := t\<rparr>"
  by simp

lemma flows_mono: "flows closed xs t ys \<Longrightarrow> (closed \<Longrightarrow> closed') \<Longrightarrow> flows closed' xs t ys"
  by (auto simp: flows_def)

lemma flows_take: "flows closed xs [] ys \<Longrightarrow> flows closed xs t (ys @ t)"
  by (auto simp: flows_def)

lemma flows_put: "flows closed xs [x] ys \<Longrightarrow> \<not> closed \<Longrightarrow> flows closed (xs @ [x]) [] ys"
  by (simp add: flows_def)

lemma flows_drop: "flows True xs t ys \<Longrightarrow> flows True xs [] ys"
  by (auto simp: flows_def)

lemma stream_at_update [simp]: "r < length (c_heap c) \<Longrightarrow> stream_at (update_stream r f c) r = f (stream_at c r)"
  by (simp add: update_stream_def)

lemma update_stream_fields [simp]:
  "length (c_heap (update_stream r f c)) = length (c_heap c)" "c_config (update_stream r f c) = c_config c"
  "config (update_stream r f c) = config c"
  by (simp_all add: update_stream_def config_def)

lemma count_fields [simp]:
  "length (c_heap (count k r c)) = length (c_heap c)" "config (count k r c) = config c"
  by (simp_all add: count_def update_stream_def config_def)

lemma count_stream: "r < length (c_heap c) \<Longrightarrow> \<exists>d. stream_at (count k r c) r = (stream_at c r)\<lparr>st_debug := d\<rparr>"
  by (auto simp: count_def update_stream_def)

lemma take_fresh_0: "take_fresh 0 q = (case q of [] \<Rightarrow> (0, None, []) | m # ms \<Rightarrow> (0, Some m, ms))"
  by (cases q) simp_all

lemma elsewhere_ok:
  assumes "lane_ok env cid r done l" "same_queues r (ln_conn l) c'"
  shows "lane_ok env cid r done (l\<lparr>ln_conn := c'\<rparr>)"
  using assms
  by (auto simp: lane_ok_def same_queues_def queues_def visible_def config_def Let_def intro: flows_mono)

lemma end_ok:
  assumes "lane_ok env cid r done l" "held_message (ln_task l) = []" "held_job (ln_task l) = []"
  shows "lane_ok env cid r done (l\<lparr>ln_conn := snd (end_decode r (ln_conn l)), ln_task := DecodeEnded\<rparr>)"
  using assms by (auto simp: lane_ok_def end_decode_def visible_def Let_def split: if_splits)

lemma inbox_q_cases:
  assumes "inbox_q raw r c = (res, c')" "r < length (c_heap c)"
  obtains (closed) "st_closed (stream_at c r)" "res \<noteq> None" "c' = c"
  | (full) "res = None" "c' = c"
  | (pushed) d where "\<not> st_closed (stream_at c r)" "res \<noteq> None" "length (c_heap c') = length (c_heap c)"
      "config c' = config c" "stream_at c' r = (stream_at c r)\<lparr>st_inbox := st_inbox (stream_at c r) @ [raw], st_debug := d\<rparr>"
proof -
  let ?c = "update_stream r (\<lambda>s. s\<lparr>st_inbox := st_inbox s @ [raw]\<rparr>) c"
  obtain d where "stream_at (count DataReceived r ?c) r = (stream_at ?c r)\<lparr>st_debug := d\<rparr>"
    using count_stream[of r ?c] assms(2) by auto
  then have upd: "stream_at (count DataReceived r ?c) r =
      (stream_at c r)\<lparr>st_inbox := st_inbox (stream_at c r) @ [raw], st_debug := d\<rparr>"
    using assms(2) by simp
  consider "st_closed (stream_at c r)" | "\<not> st_closed (stream_at c r)" "res = None" "c' = c"
    | "\<not> st_closed (stream_at c r)" "res = Some (Inr ())" "c' = count DataReceived r ?c"
    using assms(1) by (auto simp: inbox_q_def split: if_splits)
  then show thesis
  proof cases
    case 1
    with assms(1) have "res \<noteq> None" "c' = c" by (auto simp: inbox_q_def)
    with 1 show thesis by (rule closed)
  next
    case 2
    then show thesis by (intro full)
  next
    case 3
    with upd show thesis by (intro pushed) simp_all
  qed
qed

lemma handler_q_cases:
  assumes "handler_q job r c = (res, c')" "r < length (c_heap c)" "st_has_handler_tx (stream_at c r)"
  obtains (closed) "st_closed (stream_at c r)" "res \<noteq> None" "c' = c"
  | (full) "res = None" "c' = c"
  | (pushed) d where "\<not> st_closed (stream_at c r)" "res \<noteq> None" "length (c_heap c') = length (c_heap c)"
      "config c' = config c" "stream_at c' r = (stream_at c r)\<lparr>st_handler_q := st_handler_q (stream_at c r) @ [job], st_debug := d\<rparr>"
proof -
  let ?c = "update_stream r (\<lambda>s. s\<lparr>st_handler_q := st_handler_q s @ [job]\<rparr>) c"
  obtain d where "stream_at (count DataReceived r ?c) r = (stream_at ?c r)\<lparr>st_debug := d\<rparr>"
    using count_stream[of r ?c] assms(2) by auto
  then have upd: "stream_at (count DataReceived r ?c) r =
      (stream_at c r)\<lparr>st_handler_q := st_handler_q (stream_at c r) @ [job], st_debug := d\<rparr>"
    using assms(2) by simp
  consider "st_closed (stream_at c r)" | "\<not> st_closed (stream_at c r)" "res = None" "c' = c"
    | "\<not> st_closed (stream_at c r)" "res = Some (Inr ())" "c' = count DataReceived r ?c"
    using assms(1) assms(3) by (auto simp: handler_q_def split: if_splits)
  then show thesis
  proof cases
    case 1
    with assms(1) assms(3) have "res \<noteq> None" "c' = c" by (auto simp: handler_q_def)
    with 1 show thesis by (rule closed)
  next
    case 2
    then show thesis by (intro full)
  next
    case 3
    with upd show thesis by (intro pushed) simp_all
  qed
qed

lemma resume_ok:
  assumes ok: "lane_ok env cid r done l" and res: "decode_resume (ln_task l) r (ln_conn l) = (t', c')"
  shows "lane_ok env cid r done (l\<lparr>ln_conn := c', ln_task := t'\<rparr>)"
proof (cases "ln_task l")
  case (InboxWaits raw)
  obtain o1 c1 where q: "inbox_q raw r (ln_conn l) = (o1, c1)" by fastforce
  have len: "r < length (c_heap (ln_conn l))" using ok by (simp add: lane_ok_def Let_def)
  have eq: "(t', c') = (if o1 = None then (InboxWaits raw, c1) else (DecodeNext, c1))"
    using res q by (auto simp: InboxWaits decode_resume_def split: option.splits)
  from q len show ?thesis
  proof (cases rule: inbox_q_cases)
    case closed
    with ok eq show ?thesis
      by (auto simp: lane_ok_def InboxWaits Let_def intro: flows_drop)
  next
    case full
    with eq InboxWaits have "l\<lparr>ln_conn := c', ln_task := t'\<rparr> = l" by simp
    with ok show ?thesis by simp
  next
    case (pushed d)
    with ok eq show ?thesis
      by (auto simp: lane_ok_def InboxWaits Let_def visible_def simp flip: append_assoc
          intro: flows_put)
  qed
next
  case (HandlerWaits job)
  obtain o1 c1 where q: "handler_q job r (ln_conn l) = (o1, c1)" by fastforce
  have len: "r < length (c_heap (ln_conn l))" "st_has_handler_tx (stream_at (ln_conn l) r)"
    using ok by (auto simp: lane_ok_def Let_def HandlerWaits)
  have eq: "(t', c') = (if o1 = None then (HandlerWaits job, c1) else (DecodeNext, c1))"
    using res q by (auto simp: HandlerWaits decode_resume_def split: option.splits)
  from q len show ?thesis
  proof (cases rule: handler_q_cases)
    case closed
    with ok eq show ?thesis
      by (auto simp: lane_ok_def HandlerWaits Let_def intro: flows_drop)
  next
    case full
    with eq HandlerWaits have "l\<lparr>ln_conn := c', ln_task := t'\<rparr> = l" by simp
    with ok show ?thesis by simp
  next
    case (pushed d)
    with ok eq show ?thesis
      by (auto simp: lane_ok_def HandlerWaits Let_def visible_def simp flip: append_assoc
          intro: flows_put)
  qed
next
  case (ErrorWaits st ends)
  show ?thesis
  proof (cases "st = Released \<and> ends")
    case True
    with end_ok[OF ok] res ErrorWaits show ?thesis by (simp add: decode_resume_def end_decode_def)
  next
    case False
    with res ErrorWaits have "c' = ln_conn l" "t' = DecodeNext \<or> t' = ln_task l"
      by (auto simp: decode_resume_def split: protocol_error_state.splits if_splits)
    with ok ErrorWaits show ?thesis by (auto simp: lane_ok_def Let_def)
  qed
qed (use ok res in \<open>auto simp: decode_resume_def lane_ok_def Let_def\<close>)

text \<open>The decode task takes a frame.\<close>

lemma codec_same: "same_queues r c c' \<Longrightarrow> cc_codec_id (config c') = cc_codec_id (config c)"
  by (simp add: same_queues_def config_def)

lemma take_frame_ok:
  assumes "lane_ok env cid r done l" "ln_task l = DecodeNext" "st_incoming (lane_stream r l) = p # rest"
    and t: "held_message t = message_of env cid p" "held_job t = job_of env cid p" "t \<noteq> DecodeEnded"
    and c1: "c1 = update_stream r (\<lambda>s. s\<lparr>st_incoming := rest\<rparr>) (ln_conn l)"
  shows "lane_ok env cid r (done @ [p]) (l\<lparr>ln_conn := c1, ln_task := t\<rparr>)"
proof -
  have "job_of env cid p = [] \<or> st_has_handler_tx (lane_stream r l)"
    using assms(1) by (auto simp: lane_ok_def Let_def job_of_def split: sum.split)
  with assms show ?thesis
    by (auto simp: lane_ok_def Let_def visible_def messages_of_def jobs_of_def intro: flows_take)
qed

lemma decode_ok:
  assumes ok: "lane_ok env cid r done l" and idle: "ln_task l = DecodeNext"
    and dec: "decode_frame env r (ln_conn l) = (t', c')"
  shows "\<exists>done'. lane_ok env cid r done' (l\<lparr>ln_conn := c', ln_task := t'\<rparr>)"
proof (cases "st_incoming (lane_stream r l)")
  case Nil
  with dec idle have "l\<lparr>ln_conn := c', ln_task := t'\<rparr> = l" by (simp add: decode_frame_def)
  with ok show ?thesis by metis
next
  case (Cons p rest)
  define c1 where "c1 = update_stream r (\<lambda>s. s\<lparr>st_incoming := rest\<rparr>) (ln_conn l)"
  have cid: "cc_codec_id (config c1) = cid" using ok by (simp add: lane_ok_def Let_def c1_def)
  note take = take_frame_ok[OF ok idle Cons _ _ _ c1_def]
  note eq = dec[unfolded decode_frame_def Cons list.case Let_def c1_def[symmetric] cid]
  show ?thesis
  proof (cases "p = []")
    case True
    let ?c2 = "case remove_stream (st_id (stream_at c1 r)) c1 of
       (Some q, c2) \<Rightarrow> notify_close q c2 | (None, c2) \<Rightarrow> c2"
    have "lane_ok env cid r (done @ [p]) (l\<lparr>ln_conn := c1, ln_task := DecodeNext\<rparr>)"
      by (rule take) (simp_all add: message_of_def job_of_def True)
    from end_ok[OF elsewhere_ok[OF this]] sq_remove_notify(1)[of r c1 "st_id (stream_at c1 r)"]
    have "lane_ok env cid r (done @ [p]) (l\<lparr>ln_conn := snd (end_decode r ?c2), ln_task := DecodeEnded\<rparr>)" by simp
    with eq True show ?thesis by (auto simp: end_decode_def)
  next
    case p: False
    have err: "\<exists>done'. lane_ok env cid r done' (l\<lparr>ln_conn := c', ln_task := t'\<rparr>)"
      if res: "(case protocol_error env ''codec_error'' (display env e) r (note_decode_error env e r c1) of
          (st, c2) \<Rightarrow> decode_resume (ErrorWaits st ends) r c2) = (t', c')"
        and none: "message_of env cid p = []" "job_of env cid p = []" for e ends
    proof -
      obtain st c2 where pe: "protocol_error env ''codec_error'' (display env e) r (note_decode_error env e r c1) = (st, c2)"
        by fastforce
      have same: "same_queues r c1 c2"
        using sq_protocol_error[of r "note_decode_error env e r c1" env "''codec_error''" "display env e" r] pe
        by (simp add: same_queues_trans[OF sq_note_decode_error])
      have "lane_ok env cid r (done @ [p]) (l\<lparr>ln_conn := c1, ln_task := ErrorWaits st ends\<rparr>)"
        by (rule take) (simp_all add: none)
      from elsewhere_ok[OF this] same
      have "lane_ok env cid r (done @ [p]) (l\<lparr>ln_conn := c2, ln_task := ErrorWaits st ends\<rparr>)"
        by (simp add: lane_update_order)
      from resume_ok[OF this] res pe show ?thesis by auto
    qed
    show ?thesis
    proof (cases "se_decode_envelope env cid p")
      case (Inl e)
      with eq p err[where e = e and ends = True] show ?thesis by (simp add: message_of_def job_of_def)
    next
      case (Inr raw)
      show ?thesis
      proof (cases "se_has_handler env (se_wire env raw)")
        case False
        have "lane_ok env cid r (done @ [p]) (l\<lparr>ln_conn := c1, ln_task := InboxWaits raw\<rparr>)"
          by (rule take) (simp_all add: message_of_def job_of_def p Inr False)
        from resume_ok[OF this] eq p Inr False show ?thesis by (auto simp: dispatch_raw_def)
      next
        case True
        show ?thesis
        proof (cases "se_decode_job env raw")
          case e: (Inl e)
          with eq p Inr True err[where e = e and ends = False] show ?thesis by (simp add: message_of_def job_of_def dispatch_raw_def)
        next
          case job: (Inr job)
          have "lane_ok env cid r (done @ [p]) (l\<lparr>ln_conn := c1, ln_task := HandlerWaits job\<rparr>)"
            by (rule take) (simp_all add: message_of_def job_of_def p Inr True job)
          from resume_ok[OF this] eq p Inr True job show ?thesis by (auto simp: dispatch_raw_def)
        qed
      qed
    qed
  qed
qed

text \<open>The user receives, and the handler task takes a job.\<close>

lemma read_raw_fresh:
  assumes "st_stale_replies (stream_at c r) = 0" "read_raw r c = (res, c')"
  shows "case st_inbox (stream_at c r) of
      [] \<Rightarrow> res \<in> {None, Some (Inl Closed)} \<and> c' = update_stream r (\<lambda>s. s\<lparr>st_inbox := [], st_stale_replies := 0\<rparr>) c
    | m # ms \<Rightarrow> res = Some (Inr m) \<and> c' = update_stream r (\<lambda>s. s\<lparr>st_inbox := ms, st_stale_replies := 0\<rparr>) c"
  using assms by (auto simp: read_raw_def take_fresh_0 Let_def split: list.splits)

lemma recv_ok:
  assumes "lane_ok env cid r done l" "recv_raw_try r (ln_conn l) = (res, c')"
  shows "lane_ok env cid r done
    (l\<lparr>ln_conn := c', ln_received := ln_received l @ (case res of Some (Inr m) \<Rightarrow> [m] | _ \<Rightarrow> [])\<rparr>)"
proof -
  obtain o1 c1 where r: "read_raw r (ln_conn l) = (o1, c1)" by fastforce
  have "st_stale_replies (lane_stream r l) = 0" using assms(1) by (simp add: lane_ok_def Let_def)
  from read_raw_fresh[OF this r] assms r show ?thesis
    by (auto simp: lane_ok_def Let_def recv_raw_try_def take_raw_def release_guard_def visible_def
        split: option.splits list.splits)
qed

lemma peek_ok:
  assumes "lane_ok env cid r done l"
  shows "lane_ok env cid r done (l\<lparr>ln_conn := snd (peek_wire_try env r (ln_conn l))\<rparr>)"
proof -
  obtain o1 c1 where r: "read_raw r (ln_conn l) = (o1, c1)" by fastforce
  have "st_stale_replies (lane_stream r l) = 0" using assms(1) by (simp add: lane_ok_def Let_def)
  from read_raw_fresh[OF this r] assms r show ?thesis
    by (auto simp: lane_ok_def Let_def peek_wire_try_def release_guard_def visible_def
        split: option.splits list.splits)
qed

lemma handler_take_ok:
  assumes "lane_ok env cid r done l" "handler_take r (ln_conn l) = (job, c')"
  shows "lane_ok env cid r done
    (l\<lparr>ln_conn := c', ln_jobs := ln_jobs l @ (case job of Some j \<Rightarrow> [j] | None \<Rightarrow> [])\<rparr>)"
proof (cases "st_handler_q (lane_stream r l)")
  case Nil
  with assms show ?thesis by (auto simp: handler_take_def)
next
  case (Cons j rest)
  let ?c = "update_stream r (\<lambda>s. s\<lparr>st_handler_q := rest\<rparr>) (ln_conn l)"
  have len: "r < length (c_heap ?c)" using assms(1) by (simp add: lane_ok_def Let_def)
  obtain d where "stream_at (count HandlerCalls r ?c) r = (stream_at ?c r)\<lparr>st_debug := d\<rparr>"
    using count_stream[OF len] by blast
  with len assms Cons show ?thesis by (auto simp: handler_take_def lane_ok_def Let_def visible_def)
qed

lemma guard_ok:
  assumes "lane_ok env cid r done l"
  shows "lane_ok env cid r done (l\<lparr>ln_conn := snd (recv_guard r (ln_conn l))\<rparr>)"
    "lane_ok env cid r done (l\<lparr>ln_conn := release_guard r (ln_conn l)\<rparr>)"
  using assms by (auto simp: lane_ok_def Let_def recv_guard_def release_guard_def visible_def)

lemma push_ok:
  assumes "lane_ok env cid r done l" "accept_step (Sending r (p # ps), ln_conn l) = (Sending r ps, c')"
    and "st_incoming_open (lane_stream r l)"
  shows "lane_ok env cid r done (l\<lparr>ln_conn := c', ln_accepted := ln_accepted l @ [p]\<rparr>)"
  using assms by (auto simp: lane_ok_def Let_def push_incoming_def visible_def split: if_splits)

lemma lane_step_ok:
  assumes "lane_step env r l l'" "\<exists>done. lane_ok env cid r done l"
  shows "\<exists>done. lane_ok env cid r done l'"
proof -
  from assms(2) obtain dn where ok: "lane_ok env cid r dn l" by blast
  from assms(1) show ?thesis
  proof cases
    case (Decode t' c')
    with decode_ok[OF ok] show ?thesis by simp
  next
    case (Resume t' c')
    with resume_ok[OF ok] show ?thesis by blast
  next
    case (ErrorGoesOn st ends c' st')
    have "lane_ok env cid r dn (l\<lparr>ln_conn := c', ln_task := ErrorWaits st' ends\<rparr>)"
      using elsewhere_ok[OF ok ErrorGoesOn(3)] ErrorGoesOn(2) by (auto simp: lane_ok_def Let_def)
    with ErrorGoesOn show ?thesis by blast
  next
    case (Closed t' c')
    with ok end_ok[OF ok] show ?thesis
      by (cases "st_closed (lane_stream r l)") (auto simp: decode_closed_def end_decode_def lane_ok_def)
  qed (use push_ok[OF ok] guard_ok[OF ok] recv_ok[OF ok] peek_ok[OF ok] handler_take_ok[OF ok] elsewhere_ok[OF ok] in blast)+
qed

section \<open>Properties\<close>

lemma lane_init_ok:
  assumes "fresh_stream r c" "st_has_handler_tx (stream_at c r) \<or> (\<forall>wire. \<not> se_has_handler env wire)"
  shows "lane_ok env (cc_codec_id (config c)) r [] (lane_init c)"
  using assms by (auto simp: fresh_stream_def lane_ok_def lane_init_def visible_def flows_def messages_of_def jobs_of_def)

lemma lane_run_ok:
  assumes "lane_run env r l l'" "\<exists>done. lane_ok env cid r done l"
  shows "\<exists>done. lane_ok env cid r done l'"
  using assms by (induction rule: rtranclp_induct) (auto dest: lane_step_ok)

lemma prefix_messages: "prefix xs ys \<Longrightarrow> prefix (messages_of env cid xs) (messages_of env cid ys)"
  by (auto simp: prefix_def messages_of_def)

lemma prefix_jobs: "prefix xs ys \<Longrightarrow> prefix (jobs_of env cid xs) (jobs_of env cid ys)"
  by (auto simp: prefix_def jobs_of_def)

lemma flows_prefix: "flows closed xs t ys \<Longrightarrow> prefix xs ys"
  by (auto simp: flows_def)

text \<open>
  What \<open>recv\<close> returned, followed by what it can still return at once, is a
  prefix of the messages in the frames that the reader gave to the stream, in their order, and the
  handler task takes the jobs among them in their order: no message is lost in between, doubled, or
  overtaken by a later one, however the tasks run and whatever else happens to the connection. On an
  open stream whose decode task has nothing left to do it is all of them.
\<close>

lemma stream_keeps_order:
  assumes fresh: "fresh_stream r c" "st_has_handler_tx (stream_at c r) \<or> (\<forall>wire. \<not> se_has_handler env wire)"
    and run: "lane_run env r (lane_init c) l"
  defines "s \<equiv> lane_stream r l" and "cid \<equiv> cc_codec_id (config c)"
  shows "prefix (ln_received l @ visible s) (messages_of env cid (ln_accepted l)) \<and>
    prefix (ln_jobs l @ st_handler_q s) (jobs_of env cid (ln_accepted l)) \<and>
    (\<not> st_closed s \<and> ln_task l = DecodeNext \<and> st_incoming s = [] \<longrightarrow>
      ln_received l @ visible s = messages_of env cid (ln_accepted l) \<and>
      ln_jobs l @ st_handler_q s = jobs_of env cid (ln_accepted l))"
proof -
  obtain d where ok: "lane_ok env cid r d l"
    using lane_run_ok[OF run] lane_init_ok[OF fresh] unfolding cid_def by blast
  then have d: "prefix d (ln_accepted l)" by (auto simp: lane_ok_def Let_def split: if_splits)
  from ok have f: "flows (st_closed s) (ln_received l @ visible s) (held_message (ln_task l)) (messages_of env cid d)"
    "flows (st_closed s) (ln_jobs l @ st_handler_q s) (held_job (ln_task l)) (jobs_of env cid d)"
    by (simp_all add: lane_ok_def s_def Let_def)
  have "prefix (ln_received l @ visible s) (messages_of env cid (ln_accepted l))"
    "prefix (ln_jobs l @ st_handler_q s) (jobs_of env cid (ln_accepted l))"
    using flows_prefix[OF f(1)] flows_prefix[OF f(2)] prefix_messages[OF d] prefix_jobs[OF d]
    by (blast intro: prefix_order.trans)+
  moreover have "d = ln_accepted l" if "ln_task l = DecodeNext" "st_incoming s = []"
    using ok that by (simp add: lane_ok_def s_def Let_def)
  ultimately show ?thesis using f by (auto simp: flows_def)
qed

end
