(* ===== verification/StreamRouting.thy ===== *)
theory StreamRouting
  imports StreamOrder
begin

text \<open>
  From the frames of a connection to the user of one stream: the reader routes each frame by its stream
  ID, other streams come and go, and the stream hands out its messages (\<open>StreamOrder\<close>).
\<close>

section \<open>The contract\<close>

text \<open>The payloads that a frame carries for a stream; an empty one is the FIN.\<close>

definition frame_payloads :: "u32 \<Rightarrow> u32 \<times> u8 \<times> bytes \<Rightarrow> bytes list" where
  "frame_payloads sid = (\<lambda>(i, flags, p).
     if i = sid then (if p \<noteq> [] then [p] else []) @ (if is_fin i flags then [[]] else []) else [])"

definition stream_payloads :: "u32 \<Rightarrow> (u32 \<times> u8 \<times> bytes) list \<Rightarrow> bytes list" where
  "stream_payloads sid fs = concat (map (frame_payloads sid) fs)"

section \<open>The reader and the stream\<close>

text \<open>\<open>rt_taken\<close> are the frames that the reader has taken so far.\<close>

record ('r, 'j) routed =
  rt_lane :: "('r, 'j) lane"
  rt_reader :: accept_state
  rt_taken :: "(u32 \<times> u8 \<times> bytes) list"

abbreviation rt_conn :: "('r, 'j) routed \<Rightarrow> ('r, 'j) connection" where
  "rt_conn x \<equiv> ln_conn (rt_lane x)"

fun owed :: "nat \<Rightarrow> accept_state \<Rightarrow> bytes list" where
  "owed r (Sending q ps) = (if q = r then ps else [])"
| "owed r (Accepted res) = []"

text \<open>What one \<open>accept_step\<close> of a reader that sends to stream \<open>q\<close> puts on the channel of stream \<open>r\<close>.\<close>

definition pushed :: "nat \<Rightarrow> nat \<Rightarrow> bytes list \<Rightarrow> ('r, 'j) connection \<Rightarrow> bytes list" where
  "pushed r q ps c = (if q = r \<and> ps \<noteq> [] \<and> st_incoming_open (stream_at c r) \<and>
      length (st_incoming (stream_at c r)) < st_capacity (stream_at c r) then [hd ps] else [])"

text \<open>
  The reader takes a frame, or goes on with the last one; or a step of the stream, where whatever
  happens to the connection is steps of \<open>conn_step\<close>.
\<close>

inductive route_step :: "('r, 'j, 'm) stream_env \<Rightarrow> nat \<Rightarrow> ('r, 'j) routed \<Rightarrow> ('r, 'j) routed \<Rightarrow> bool" for env r where
  Take: "rt_reader x = Accepted (Inr ()) \<Longrightarrow> accept_route i flags p (rt_conn x) = (st, c') \<Longrightarrow>
     route_step env r x (x\<lparr>rt_lane := (rt_lane x)\<lparr>ln_conn := c'\<rparr>, rt_reader := st,
       rt_taken := rt_taken x @ [(i, flags, p)]\<rparr>)"
| GoOn: "rt_reader x = Sending q ps \<Longrightarrow> accept_step (Sending q ps, rt_conn x) = (st, c') \<Longrightarrow>
     route_step env r x (x\<lparr>rt_lane := (rt_lane x)\<lparr>ln_conn := c',
       ln_accepted := ln_accepted (rt_lane x) @ pushed r q ps (rt_conn x)\<rparr>, rt_reader := st\<rparr>)"
| Stream: "lane_step env r (rt_lane x) l' \<Longrightarrow> ln_accepted l' = ln_accepted (rt_lane x) \<Longrightarrow>
     conn_run env (rt_conn x) (ln_conn l') \<Longrightarrow> route_step env r x (x\<lparr>rt_lane := l'\<rparr>)"

abbreviation route_run where "route_run env r \<equiv> (route_step env r)\<^sup>*\<^sup>*"

section \<open>The ways to a stream\<close>

text \<open>The IDs under which the table has a stream, and \<open>None\<close> for the default stream.\<close>

definition ways :: "nat \<Rightarrow> ('r, 'j) connection \<Rightarrow> u32 option set" where
  "ways r c = {Some i | i. (i, r) \<in> set (c_streams c)} \<union> (if c_default_stream c = Some r then {None} else {})"

definition routes :: "u32 \<Rightarrow> nat \<Rightarrow> ('r, 'j) connection \<Rightarrow> bool" where
  "routes sid r c \<longleftrightarrow> lookup_stream_ctx sid c = Some r \<and> map_of (c_streams c) sid = Some r"

definition keeps_way :: "u32 \<Rightarrow> nat \<Rightarrow> ('r, 'j) connection \<Rightarrow> ('r, 'j) connection \<Rightarrow> bool" where
  "keeps_way sid r c c' \<longleftrightarrow> (r < length (c_heap c) \<longrightarrow> r < length (c_heap c') \<and>
     (st_closed (stream_at c r) \<longrightarrow> st_closed (stream_at c' r)) \<and> ways r c' \<subseteq> ways r c \<and>
     (routes sid r c \<longrightarrow> routes sid r c' \<or> st_closed (stream_at c' r)))"

lemma keeps_refl [simp]: "keeps_way sid r c c"
  by (simp add: keeps_way_def)

lemma keeps_trans: "keeps_way sid r a b \<Longrightarrow> keeps_way sid r b c \<Longrightarrow> keeps_way sid r a c"
  unfolding keeps_way_def by blast

lemma keeps_same_streams:
  assumes "same_queues r c c'" "c_streams c' = c_streams c" "c_default_stream c' = c_default_stream c"
  shows "keeps_way sid r c c'"
  using assms by (auto simp: keeps_way_def same_queues_def ways_def routes_def lookup_stream_ctx_def)

lemma set_AList_update: "set (AList.update k v xs) \<subseteq> insert (k, v) (set xs)"
  by (induction xs) auto

lemma keeps_make: "keeps_way sid r c (snd (make_stream i c))"
proof (cases "c_closed c \<or> map_of (c_streams c) i \<noteq> None")
  case False
  let ?c = "snd (make_stream i c)"
  have same: "same_queues r c ?c" by (rule sq_make_stream)
  have table: "c_streams ?c = AList.update i (length (c_heap c)) (c_streams c)"
    "c_default_stream ?c = (if i = DEFAULT_STREAM_ID then Some (length (c_heap c)) else c_default_stream c)"
    using False by (simp_all add: make_stream_def alloc_stream_def Let_def)
  have "ways r ?c \<subseteq> ways r c" if "r < length (c_heap c)"
    using that set_AList_update[of i "length (c_heap c)" "c_streams c"] by (auto simp: ways_def table split: if_splits)
  moreover have "routes sid r ?c" if "routes sid r c"
    using that False by (auto simp: routes_def lookup_stream_ctx_def table update_conv' split: if_splits)
  ultimately show ?thesis using same by (simp add: keeps_way_def same_queues_def)
qed (auto simp: make_stream_def Let_def)

lemma keeps_alloc: "keeps_way sid r c (snd (alloc_stream s c))"
  by (rule keeps_same_streams[OF sq_alloc]) (simp_all add: alloc_stream_def)

lemma keeps_get: "keeps_way sid r c (snd (get_stream_ctx i c))"
proof (cases "lookup_stream_ctx i c")
  case None
  obtain q c1 where m: "make_stream i c = (q, c1)" by fastforce
  with keeps_make[of sid r c i] have 1: "keeps_way sid r c c1" by simp
  have "keeps_way sid r c1 (c1\<lparr>c_new_calls := y\<rparr>)" for y
    by (rule keeps_same_streams) (simp_all add: same_queuesI)
  with None m 1 keeps_trans[OF 1] keeps_trans[OF 1 keeps_alloc] show ?thesis by (auto simp: get_stream_ctx_def split: option.split)
qed (simp add: get_stream_ctx_def)

lemma keeps_peer: "keeps_way sid r c (c\<lparr>c_closed_peer := P\<rparr>)"
  by (rule keeps_same_streams) (simp_all add: same_queuesI)

lemma keeps_route: "keeps_way sid r c (snd (accept_route i fl p c))"
proof -
  obtain q c1 where in_str: "inbound_stream i c = (q, c1)" by fastforce
  then have "keeps_way sid r c c1"
    using keeps_get[of sid r c i] by (auto simp: inbound_stream_def split: option.splits prod.splits if_splits)
  with in_str keeps_trans[OF this keeps_peer] keeps_peer[of sid r c] show ?thesis
    by (auto simp: accept_route_def Let_def split: option.split)
qed

lemma keeps_new: "keeps_way sid r c (snd (new_stream c))"
proof -
  let ?c = "c\<lparr>c_next_stream_id := c_next_stream_id c + 1\<rparr>"
  have 0: "keeps_way sid r c ?c" by (rule keeps_same_streams) (simp_all add: same_queuesI)
  have failed: "keeps_way sid r ?c (note_conn_failure code t ?c)" for code t
    by (rule keeps_same_streams[OF sq_notes(1)]) (simp_all add: note_conn_failure_def)
  obtain q c1 where m: "make_stream (ucast (c_next_stream_id c)) ?c = (q, c1)" by fastforce
  with keeps_make[of sid r ?c "ucast (c_next_stream_id c)"] have 1: "keeps_way sid r c c1"
    by (auto intro: keeps_trans[OF 0])
  with m keeps_trans[OF 1 keeps_alloc] keeps_trans[OF keeps_trans[OF 0 failed] keeps_alloc] show ?thesis
    by (auto simp: new_stream_def Let_def split: option.split)
qed

lemma close_and_count_closes: "q < length (c_heap c) \<Longrightarrow> st_closed (stream_at (close_and_count q c) q)"
  by (simp add: close_and_count_def close_channels_def)

lemma keeps_remove: "keeps_way sid r c (snd (remove_stream i c))"
proof (cases "map_of (c_streams c) i")
  case (Some q)
  let ?c = "snd (remove_stream i c)"
  have same: "same_queues r c ?c" by (rule sq_remove_stream)
  have table: "c_streams ?c = AList.delete i (c_streams c)" "c_default_stream ?c = c_default_stream c"
    using Some by (simp_all add: remove_stream_def Let_def)
  have "ways r ?c \<subseteq> ways r c" by (auto simp: ways_def table AList.delete_eq)
  moreover have "routes sid r ?c \<or> st_closed (stream_at ?c r)" if "routes sid r c" "r < length (c_heap c)"
  proof (cases "i = sid")
    case True
    with that Some have "q = r" by (simp add: routes_def)
    with that(2) Some show ?thesis by (simp add: remove_stream_def Let_def close_and_count_closes)
  next
    case False
    with that(1) show ?thesis by (auto simp: routes_def lookup_stream_ctx_def table delete_conv' split: if_splits)
  qed
  ultimately show ?thesis using same by (simp add: keeps_way_def same_queues_def)
qed (simp add: remove_stream_def)

lemma keeps_mark_closed: "table_ok c \<Longrightarrow> keeps_way sid r c (mark_closed c)"
proof (cases "c_closed c")
  case False
  have table: "c_streams (mark_closed c) = []" "c_default_stream (mark_closed c) = None"
  proof -
    have "c_streams (fold (\<lambda>(sid, r) c. notify_close r (close_and_count r c)) xs c) = c_streams c \<and>
        c_default_stream (fold (\<lambda>(sid, r) c. notify_close r (close_and_count r c)) xs c) = c_default_stream c"
      for xs :: "(u32 \<times> nat) list" and c :: "('r, 'j) connection"
      by (induction xs arbitrary: c) (auto simp: notify_close_def)
    then show "c_streams (mark_closed c) = []" "c_default_stream (mark_closed c) = None"
      using False by (simp_all add: mark_closed_def close_all_streams_def)
  qed
  have "st_closed (stream_at (mark_closed c) r)" if "routes sid r c" "r < length (c_heap c)"
  proof (rule mark_closed_closes)
    from that(1) have "(sid, r) \<in> set (c_streams c)" by (auto simp: routes_def dest: map_of_SomeD)
    with that(2) False show "closed_with r c" by (force simp: closed_with_def)
  qed
  with sq_mark_closed[of r c] show ?thesis by (auto simp: keeps_way_def same_queues_def ways_def table)
qed (simp add: mark_closed_def)

lemma keeps_step: "table_step c c' \<Longrightarrow> table_ok c \<Longrightarrow> keeps_way sid r c c'"
proof (induction rule: table_step.induct)
  case (other c c')
  then show ?case by (auto simp: keeps_way_def same_table_def ways_def routes_def lookup_stream_ctx_def)
next
  case (released c i)
  show ?case by (auto simp: remove_peer_stream_def intro: keeps_remove keeps_trans[OF keeps_peer keeps_remove])
qed (simp_all add: keeps_new default_stream_def keeps_get keeps_route keeps_remove keeps_mark_closed)

lemma keeps_run: "table_step\<^sup>*\<^sup>* c c' \<Longrightarrow> table_ok c \<Longrightarrow> keeps_way sid r c c'"
proof (induction rule: rtranclp_induct)
  case (step c1 c2)
  with table_run_ok keeps_step show ?case by (blast intro: keeps_trans)
qed simp

section \<open>Where a frame goes\<close>

lemma make_stream_fresh: "make_stream i c = (Some q, c') \<Longrightarrow> q = length (c_heap c)"
  by (cases rule: make_stream_cases[of i c]) auto

lemma get_stream_new:
  assumes "lookup_stream_ctx i c = None" "get_stream_ctx i c = (q, c')"
  shows "length (c_heap c) \<le> q"
proof (cases rule: make_stream_cases[of i c])
  case made
  with assms show ?thesis by (auto simp: get_stream_ctx_def split: if_splits)
next
  case refused
  with assms show ?thesis by (auto simp: get_stream_ctx_def alloc_stream_def)
qed

lemma route_owed:
  assumes "accept_route i fl p c = (st, c')" "r < length (c_heap c)"
  shows "owed r st = (if lookup_stream_ctx i c = Some r then frame_payloads i (i, fl, p) else [])"
proof (cases "is_fin i fl \<and> p = []")
  case True
  have "lookup_stream_ctx i (c\<lparr>c_closed_peer := P\<rparr>) = lookup_stream_ctx i c" for P
    by (auto simp: lookup_stream_ctx_def)
  with True assms show ?thesis by (auto simp: accept_route_def frame_payloads_def Let_def split: option.splits)
next
  case False
  show ?thesis
  proof (cases "lookup_stream_ctx i c")
    case (Some q)
    with False assms show ?thesis by (auto simp: accept_route_def frame_payloads_def inbound_stream_def Let_def)
  next
    case None
    obtain q c1 where g: "get_stream_ctx i c = (q, c1)" by fastforce
    from get_stream_new[OF None this] assms(2) have "q \<noteq> r" by simp
    with False None g assms show ?thesis by (auto simp: accept_route_def inbound_stream_def Let_def split: if_splits)
  qed
qed

lemma looked_up_way: "lookup_stream_ctx i c = Some r \<Longrightarrow> Some i \<in> ways r c \<or> i = 0 \<and> None \<in> ways r c"
  by (auto simp: lookup_stream_ctx_def ways_def DEFAULT_STREAM_ID_def dest: map_of_SomeD split: if_splits)

lemma closed_way:
  assumes "table_ok c" "st_closed (stream_at c r)" "lookup_stream_ctx sid c \<noteq> Some r"
    and only: "ways r c \<subseteq> {Some sid} \<union> (if sid = 0 then {None} else {})"
  shows "ways r c = {}"
proof -
  have "(i, r) \<notin> set (c_streams c)" for i using assms(1,2) by (auto simp: table_defs)
  moreover have "c_default_stream c \<noteq> Some r"
  proof
    assume d: "c_default_stream c = Some r"
    with only have "sid = 0" by (auto simp: ways_def split: if_splits)
    with d assms(3) show False by (simp add: lookup_stream_ctx_def DEFAULT_STREAM_ID_def)
  qed
  ultimately show ?thesis by (auto simp: ways_def)
qed

section \<open>The channel is open while the decode task runs\<close>

definition channel_ok :: "nat \<Rightarrow> ('r, 'j) lane \<Rightarrow> bool" where
  "channel_ok r l \<longleftrightarrow> r < length (c_heap (ln_conn l)) \<and> (st_incoming_open (lane_stream r l) \<longleftrightarrow> ln_task l \<noteq> DecodeEnded)"

lemma channel_same:
  "same_queues r (ln_conn l) c' \<Longrightarrow> channel_ok r l \<Longrightarrow> channel_ok r (l\<lparr>ln_conn := c'\<rparr>)"
  by (auto simp: channel_ok_def same_queues_def queues_def)

lemma channel_task:
  "channel_ok r l \<Longrightarrow> ln_task l \<noteq> DecodeEnded \<Longrightarrow> t \<noteq> DecodeEnded \<Longrightarrow> channel_ok r (l\<lparr>ln_task := t\<rparr>)"
  by (simp add: channel_ok_def)

lemma channel_end: "channel_ok r l \<Longrightarrow> end_decode r (ln_conn l) = (t', c') \<Longrightarrow> channel_ok r (l\<lparr>ln_conn := c', ln_task := t'\<rparr>)"
  by (auto simp: channel_ok_def end_decode_def)

lemma channel_resume:
  assumes ok: "channel_ok r l" and res: "decode_resume (ln_task l) r (ln_conn l) = (t', c')"
  shows "channel_ok r (l\<lparr>ln_conn := c', ln_task := t'\<rparr>)"
proof (cases "ln_task l")
  case (InboxWaits raw)
  obtain o1 c1 where q: "inbox_q raw r (ln_conn l) = (o1, c1)" by fastforce
  have "c1 = c'" "t' = InboxWaits raw \<or> t' = DecodeNext"
    using res q InboxWaits by (auto simp: decode_resume_def split: option.splits)
  moreover have "r < length (c_heap (ln_conn l))" using ok by (simp add: channel_ok_def)
  from q this have "r < length (c_heap c1) \<and> st_incoming_open (stream_at c1 r) = st_incoming_open (lane_stream r l)"
    by (cases rule: inbox_q_cases) (use ok in \<open>auto simp: channel_ok_def\<close>)
  ultimately show ?thesis using ok InboxWaits by (auto simp: channel_ok_def)
next
  case (HandlerWaits job)
  show ?thesis
  proof (cases "st_has_handler_tx (lane_stream r l)")
    case True
    obtain o1 c1 where q: "handler_q job r (ln_conn l) = (o1, c1)" by fastforce
    have "c1 = c'" "t' = HandlerWaits job \<or> t' = DecodeNext"
      using res q HandlerWaits by (auto simp: decode_resume_def split: option.splits)
    moreover have "r < length (c_heap (ln_conn l))" using ok by (simp add: channel_ok_def)
    from q this True have "r < length (c_heap c1) \<and> st_incoming_open (stream_at c1 r) = st_incoming_open (lane_stream r l)"
      by (cases rule: handler_q_cases) (use ok in \<open>auto simp: channel_ok_def\<close>)
    ultimately show ?thesis using ok HandlerWaits by (auto simp: channel_ok_def)
  next
    case False
    with res HandlerWaits ok show ?thesis by (auto simp: decode_resume_def handler_q_def channel_ok_def)
  qed
next
  case (ErrorWaits st ends)
  show ?thesis
  proof (cases "st = Released \<and> ends")
    case True
    with res ErrorWaits channel_end[OF ok] show ?thesis by (simp add: decode_resume_def)
  next
    case False
    with res ErrorWaits have "c' = ln_conn l" "t' = DecodeNext \<or> t' = ln_task l"
      by (auto simp: decode_resume_def split: protocol_error_state.splits if_splits)
    with ok ErrorWaits show ?thesis by (auto simp: channel_ok_def)
  qed
qed (use ok res in \<open>auto simp: decode_resume_def channel_ok_def\<close>)

text \<open>\<open>decode_frame\<close> leaves the queues alone but for the frame it takes, up to a \<open>decode_resume\<close> or its end.\<close>

lemma channel_decode:
  assumes ok: "channel_ok r l" and idle: "ln_task l = DecodeNext" and dec: "decode_frame env r (ln_conn l) = (t', c')"
  shows "channel_ok r (l\<lparr>ln_conn := c', ln_task := t'\<rparr>)"
proof (cases "st_incoming (lane_stream r l)")
  case Nil
  with dec idle have "l\<lparr>ln_conn := c', ln_task := t'\<rparr> = l" by (simp add: decode_frame_def)
  with ok show ?thesis by simp
next
  case (Cons p rest)
  define c1 where "c1 = update_stream r (\<lambda>s. s\<lparr>st_incoming := rest\<rparr>) (ln_conn l)"
  have 1: "channel_ok r (l\<lparr>ln_conn := c1\<rparr>)" using ok by (simp add: channel_ok_def c1_def)
  note eq = dec[unfolded decode_frame_def Cons list.case Let_def c1_def[symmetric]]
  have goes: "channel_ok r (l\<lparr>ln_conn := c', ln_task := t'\<rparr>)"
    if "same_queues r c1 c2" "t \<noteq> DecodeEnded" "decode_resume t r c2 = (t', c')" for t c2
  proof -
    have "channel_ok r (l\<lparr>ln_conn := c2\<rparr>)" using channel_same[of r "l\<lparr>ln_conn := c1\<rparr>" c2] 1 that(1) by simp
    from channel_task[OF this _ that(2)] idle have "channel_ok r (l\<lparr>ln_conn := c2, ln_task := t\<rparr>)"
      by (simp add: lane_update_order)
    from channel_resume[OF this] that(3) show ?thesis by (simp add: lane_update_order)
  qed
  have err: "same_queues r c1 c2" if "protocol_error env code msg r (note_decode_error env e r c1) = (st, c2)" for code msg e st c2
    using same_queues_trans[OF sq_note_decode_error[of r c1 env e r] sq_protocol_error[of r _ env code msg r]] that by simp
  show ?thesis
  proof (cases "p = []")
    case True
    let ?c2 = "case remove_stream (st_id (stream_at c1 r)) c1 of (Some q, c2) \<Rightarrow> notify_close q c2 | (None, c2) \<Rightarrow> c2"
    have "same_queues r c1 ?c2" by (rule sq_remove_notify(1))
    then have "channel_ok r (l\<lparr>ln_conn := ?c2\<rparr>)" using channel_same[of r "l\<lparr>ln_conn := c1\<rparr>" ?c2] 1 by simp
    from channel_end[OF this] eq True show ?thesis by simp
  next
    case False
    with eq show ?thesis
      by (auto simp: dispatch_raw_def split: sum.splits if_splits prod.splits
          intro: goes[OF same_queues_refl] goes[OF err])
  qed
qed

lemma channel_step:
  assumes "lane_step env r l l'" "channel_ok r l"
  shows "channel_ok r l' \<and> (ln_task l = DecodeEnded \<longrightarrow> ln_task l' = DecodeEnded)"
  using assms(1)
proof cases
  case (Push p ps c')
  then have "c' = update_stream r (push_incoming p) (ln_conn l)" by (auto split: if_splits)
  with Push(1) assms(2) show ?thesis by (simp add: channel_ok_def push_incoming_def)
next
  case (Decode t' c')
  with channel_decode[OF assms(2)] show ?thesis by simp
next
  case (Resume t' c')
  with channel_resume[OF assms(2)] show ?thesis by (auto simp: decode_resume_def)
next
  case (ErrorGoesOn st ends c' st')
  with channel_task[OF channel_same[OF ErrorGoesOn(3) assms(2)], of "ErrorWaits st' ends"] show ?thesis
    by (simp add: lane_update_order)
next
  case (Closed t' c')
  with assms(2) channel_end[OF assms(2)] show ?thesis
    by (cases "st_closed (lane_stream r l)") (auto simp: decode_closed_def end_decode_def channel_ok_def)
next
  case Guard
  with assms(2) show ?thesis by (auto simp: recv_guard_def channel_ok_def)
next
  case Unguard
  with assms(2) show ?thesis by (auto simp: release_guard_def channel_ok_def)
next
  case (Recv res c')
  with assms(2) show ?thesis
    by (auto simp: recv_raw_try_def take_raw_def read_raw_def release_guard_def channel_ok_def Let_def
        split: option.splits prod.splits)
next
  case Peek
  obtain o1 c1 where "read_raw r (ln_conn l) = (o1, c1)" by fastforce
  with Peek assms(2) show ?thesis
    by (auto simp: peek_wire_try_def read_raw_def release_guard_def channel_ok_def Let_def
        split: option.splits prod.splits sum.splits)
next
  case (HandlerTake job c')
  show ?thesis
  proof (cases "st_handler_q (lane_stream r l)")
    case (Cons j rest)
    let ?c = "update_stream r (\<lambda>s. s\<lparr>st_handler_q := rest\<rparr>) (ln_conn l)"
    have "r < length (c_heap ?c)" using assms(2) by (simp add: channel_ok_def)
    then obtain d where "stream_at (count HandlerCalls r ?c) r = (stream_at ?c r)\<lparr>st_debug := d\<rparr>"
      using count_stream by blast
    with Cons HandlerTake assms(2) show ?thesis by (auto simp: handler_take_def channel_ok_def)
  qed (use HandlerTake assms(2) in \<open>auto simp: handler_take_def\<close>)
next
  case (Elsewhere c')
  with channel_same[OF _ assms(2)] show ?thesis by simp
qed

section \<open>The invariant\<close>

definition only_way :: "u32 \<Rightarrow> nat \<Rightarrow> ('r, 'j) connection \<Rightarrow> bool" where
  "only_way sid r c \<longleftrightarrow> ways r c \<subseteq> {Some sid} \<union> (if sid = 0 then {None} else {})"

definition conn_way :: "u32 \<Rightarrow> nat \<Rightarrow> ('r, 'j) connection \<Rightarrow> bool" where
  "conn_way sid r c \<longleftrightarrow> table_ok c \<and> r < length (c_heap c) \<and> only_way sid r c \<and> (st_closed (stream_at c r) \<or> routes sid r c)"

text \<open>
  The payloads put on the channel and those that the reader still has to put there are those of the
  frames taken; or some were lost after the others, as the channel is closed or nothing leads to the
  stream any more.
\<close>

definition owed_ok :: "u32 \<Rightarrow> nat \<Rightarrow> ('r, 'j) routed \<Rightarrow> bool" where
  "owed_ok sid r x \<longleftrightarrow> (let l = rt_lane x; all = stream_payloads sid (rt_taken x) in
     ln_accepted l @ owed r (rt_reader x) = all \<or>
     prefix (ln_accepted l) all \<and> (ln_task l = DecodeEnded \<or>
       st_closed (lane_stream r l) \<and> ways r (ln_conn l) = {} \<and> owed r (rt_reader x) = []))"

definition routed_ok :: "('r, 'j, 'm) stream_env \<Rightarrow> u32 \<Rightarrow> nat \<Rightarrow> ('r, 'j) connection \<Rightarrow> ('r, 'j) routed \<Rightarrow> bool" where
  "routed_ok env sid r c0 x \<longleftrightarrow> lane_run env r (lane_init c0) (rt_lane x) \<and> channel_ok r (rt_lane x) \<and>
     conn_way sid r (rt_conn x) \<and> owed_ok sid r x"

lemma conn_way_run: "conn_way sid r c \<Longrightarrow> table_step\<^sup>*\<^sup>* c c' \<Longrightarrow> conn_way sid r c' \<and> keeps_way sid r c c'"
proof -
  assume c: "conn_way sid r c" and run: "table_step\<^sup>*\<^sup>* c c'"
  then have ok: "table_ok c" by (simp add: conn_way_def)
  from keeps_run[OF run ok, of sid r] table_run_ok[OF run ok] c show ?thesis
    by (auto simp: conn_way_def keeps_way_def only_way_def)
qed

lemma stream_payloads_snoc: "stream_payloads sid (fs @ [f]) = stream_payloads sid fs @ frame_payloads sid f"
  by (simp add: stream_payloads_def)

lemma lane_run_step: "lane_run env r l0 l \<Longrightarrow> lane_step env r l l' \<Longrightarrow> lane_run env r l0 l'"
  by (rule rtranclp.rtrancl_into_rtrancl)

text \<open>The reader takes a frame.\<close>

lemma take_ok:
  assumes ok: "routed_ok env sid r c0 x" and idle: "rt_reader x = Accepted (Inr ())"
    and route: "accept_route i flags p (rt_conn x) = (st, c')"
  shows "routed_ok env sid r c0 (x\<lparr>rt_lane := (rt_lane x)\<lparr>ln_conn := c'\<rparr>, rt_reader := st,
     rt_taken := rt_taken x @ [(i, flags, p)]\<rparr>)"
proof -
  let ?l = "rt_lane x" and ?c = "rt_conn x"
  have parts: "lane_run env r (lane_init c0) ?l" "channel_ok r ?l" "conn_way sid r ?c" "owed_ok sid r x"
    using ok by (simp_all add: routed_ok_def)
  have "table_step ?c c'" using table_step.routed[of ?c i flags p] route by simp
  from conn_way_run[OF parts(3) r_into_rtranclp[of table_step, OF this]]
  have way': "conn_way sid r c'" and keeps: "keeps_way sid r ?c c'" by simp_all
  have "same_queues r ?c c'" using sq_accept_route[of r ?c i flags p] route by simp
  then have step: "lane_step env r ?l (?l\<lparr>ln_conn := c'\<rparr>)" by (rule lane_step.Elsewhere)
  have len: "r < length (c_heap ?c)" and tok: "table_ok ?c" and only: "only_way sid r ?c"
    and cr: "st_closed (stream_at ?c r) \<or> routes sid r ?c" using parts(3) by (simp_all add: conn_way_def)
  note owes = route_owed[OF route len]
  have other: "owed r st = [] \<and> frame_payloads sid (i, flags, p) = []" if "i \<noteq> sid"
  proof -
    have "lookup_stream_ctx i ?c \<noteq> Some r"
      using looked_up_way[of i ?c r] only that by (auto simp: only_way_def split: if_splits)
    with owes that show ?thesis by (simp add: frame_payloads_def)
  qed
  have closed': "st_closed (stream_at c' r) \<and> ways r c' = {}" if "st_closed (stream_at ?c r)" "ways r ?c = {}"
    using that keeps len by (simp add: keeps_way_def)
  have flow: "ln_accepted ?l = stream_payloads sid (rt_taken x) \<or> prefix (ln_accepted ?l) (stream_payloads sid (rt_taken x)) \<and>
      (ln_task ?l = DecodeEnded \<or> st_closed (stream_at ?c r) \<and> ways r ?c = {})"
    using parts(4) idle by (simp add: owed_ok_def Let_def)
  have "owed_ok sid r (x\<lparr>rt_lane := ?l\<lparr>ln_conn := c'\<rparr>, rt_reader := st, rt_taken := rt_taken x @ [(i, flags, p)]\<rparr>)"
  proof (cases "lookup_stream_ctx i ?c = Some r \<and> i = sid")
    case True
    then have "ways r ?c \<noteq> {}" using looked_up_way[of i ?c r] by auto
    with flow True owes show ?thesis by (auto simp: owed_ok_def Let_def stream_payloads_snoc)
  next
    case False
    with other owes have none: "owed r st = []" by (cases "i = sid") auto
    show ?thesis
    proof (cases "i = sid")
      case True
      with False have no: "lookup_stream_ctx sid ?c \<noteq> Some r" by simp
      with cr have "st_closed (stream_at ?c r)" by (simp add: routes_def)
      with closed_way[OF tok this no] only closed' flow none show ?thesis
        by (auto simp: owed_ok_def Let_def stream_payloads_snoc only_way_def)
    next
      case ne: False
      with other flow closed' none show ?thesis by (auto simp: owed_ok_def Let_def stream_payloads_snoc)
    qed
  qed
  with parts way' channel_step[OF step parts(2)] lane_run_step[OF parts(1) step] show ?thesis
    by (simp add: routed_ok_def)
qed

text \<open>It goes on with the payloads it has.\<close>

lemma go_on_ok:
  assumes ok: "routed_ok env sid r c0 x" and sending: "rt_reader x = Sending q ps"
    and acc: "accept_step (Sending q ps, rt_conn x) = (st, c')"
  shows "routed_ok env sid r c0 (x\<lparr>rt_lane := (rt_lane x)\<lparr>ln_conn := c',
     ln_accepted := ln_accepted (rt_lane x) @ pushed r q ps (rt_conn x)\<rparr>, rt_reader := st\<rparr>)"
proof -
  let ?l = "rt_lane x" and ?c = "rt_conn x"
  let ?l' = "?l\<lparr>ln_conn := c', ln_accepted := ln_accepted ?l @ pushed r q ps ?c\<rparr>"
  have parts: "lane_run env r (lane_init c0) ?l" "channel_ok r ?l" "conn_way sid r ?c" "owed_ok sid r x"
    using ok by (simp_all add: routed_ok_def)
  have "table_step ?c c'" using accept_step_same[of "(Sending q ps, ?c)"] acc by (auto intro: table_step.other)
  from conn_way_run[OF parts(3) r_into_rtranclp[of table_step, OF this]]
  have way': "conn_way sid r c'" and keeps: "keeps_way sid r ?c c'" by simp_all
  have same: "lane_step env r ?l ?l'" if "pushed r q ps ?c = []" "same_queues r ?c c'"
  proof -
    have "?l' = ?l\<lparr>ln_conn := c'\<rparr>" using that(1) by simp
    with lane_step.Elsewhere[OF that(2)] show ?thesis by simp
  qed
  have step: "lane_step env r ?l ?l'"
  proof (cases "q = r")
    case True
    show ?thesis
    proof (cases "pushed r q ps ?c")
      case Nil
      with acc True have "c' = ?c" by (cases ps) (auto simp: pushed_def split: if_splits)
      with Nil same show ?thesis by simp
    next
      case (Cons p rest)
      with True obtain ps' where ps: "ps = p # ps'" "st_incoming_open (stream_at ?c r)" "rest = []"
        by (cases ps) (auto simp: pushed_def split: if_splits)
      with acc Cons True have "accept_step (Sending r (p # ps'), ?c) = (Sending r ps', c')"
        by (auto simp: pushed_def split: if_splits)
      from lane_step.Push[OF this ps(2), of env] Cons ps(3) show ?thesis by simp
    qed
  next
    case False
    with sq_accept_elsewhere[OF False, of ?c ps] acc same show ?thesis by (simp add: pushed_def)
  qed
  have "st_incoming_open (stream_at ?c r) \<longleftrightarrow> ln_task ?l \<noteq> DecodeEnded" using parts(2) by (simp add: channel_ok_def)
  moreover have "st_closed (stream_at c' r) \<and> ways r c' = {}" if "st_closed (stream_at ?c r)" "ways r ?c = {}"
    using that keeps parts(3) by (simp add: keeps_way_def conn_way_def)
  moreover have flow: "ln_accepted ?l @ owed r (Sending q ps) = stream_payloads sid (rt_taken x) \<or>
      prefix (ln_accepted ?l) (stream_payloads sid (rt_taken x)) \<and> (ln_task ?l = DecodeEnded \<or>
        st_closed (stream_at ?c r) \<and> ways r ?c = {} \<and> owed r (Sending q ps) = [])"
    using parts(4) sending by (simp add: owed_ok_def Let_def)
  moreover have "prefix (ln_accepted ?l) (stream_payloads sid (rt_taken x))" using flow prefixI by metis
  moreover have "(st_incoming_open (stream_at ?c r) \<or> owed r (Sending q ps) = []) \<longrightarrow>
      pushed r q ps ?c @ owed r st = owed r (Sending q ps)"
    and "\<not> st_incoming_open (stream_at ?c r) \<or> owed r (Sending q ps) = [] \<longrightarrow> pushed r q ps ?c = []"
    using acc by (cases ps; auto simp: pushed_def split: if_splits)+
  ultimately have "owed_ok sid r (x\<lparr>rt_lane := ?l', rt_reader := st\<rparr>)"
    unfolding owed_ok_def Let_def
    by (cases "st_incoming_open (stream_at ?c r)"; cases "owed r (Sending q ps) = []") auto
  with way' channel_step[OF step parts(2)] lane_run_step[OF parts(1) step] show ?thesis
    by (simp add: routed_ok_def)
qed

lemma route_step_ok:
  assumes "route_step env r x x'" "routed_ok env sid r c0 x"
  shows "routed_ok env sid r c0 x'"
  using assms(1)
proof cases
  case (Stream l')
  have parts: "lane_run env r (lane_init c0) (rt_lane x)" "channel_ok r (rt_lane x)" "conn_way sid r (rt_conn x)" "owed_ok sid r x"
    using assms(2) by (simp_all add: routed_ok_def)
  from conn_way_run[OF parts(3) conn_run_table[OF Stream(4)]]
  have way': "conn_way sid r (ln_conn l')" and keeps: "keeps_way sid r (rt_conn x) (ln_conn l')" by simp_all
  note chan = channel_step[OF Stream(2) parts(2)]
  have "st_closed (lane_stream r l') \<and> ways r (ln_conn l') = {}" if "st_closed (stream_at (rt_conn x) r)" "ways r (rt_conn x) = {}"
    using that keeps parts(3) by (simp add: keeps_way_def conn_way_def)
  with parts(4) Stream(3) chan have "owed_ok sid r (x\<lparr>rt_lane := l'\<rparr>)" by (auto simp: owed_ok_def Let_def)
  with Stream way' chan lane_run_step[OF parts(1) Stream(2)] show ?thesis by (simp add: routed_ok_def)
qed (use take_ok[OF assms(2)] go_on_ok[OF assms(2)] in blast)+

lemma route_run_ok: "route_run env r x x' \<Longrightarrow> routed_ok env sid r c0 x \<Longrightarrow> routed_ok env sid r c0 x'"
  by (induction rule: rtranclp_induct) (auto dest: route_step_ok)

section \<open>Properties\<close>

text \<open>
  C16: A stream is a queue. The messages that \<open>recv\<close> returned on a stream, followed by what it can still
  return at once, are a prefix of those in the frames of its ID, in the order in which the reader took
  them, and so are the jobs that its handler task takes: nothing is lost in between, doubled, overtaken,
  or handed to another stream, however the tasks run, and whatever frames for other streams or
  anything else happen. On an open stream, with nothing left to do for the reader and the decode
  task, it is all of them. (The run begins with the stream in the table and nothing in it, be it
  opened here, or by the first frame of the peer, which the reader then still holds.)
\<close>

theorem each_stream_gets_its_messages:
  assumes stream: "fresh_stream r c" "st_incoming_open (stream_at c r)" "table_ok c" "routes sid r c"
      "st_has_handler_tx (stream_at c r) \<or> (\<forall>wire. \<not> se_has_handler env wire)"
    and reader: "owed r st = stream_payloads sid fs"
    and run: "route_run env r \<lparr>rt_lane = lane_init c, rt_reader = st, rt_taken = fs\<rparr> x"
  defines "s \<equiv> stream_at (rt_conn x) r" and "l \<equiv> rt_lane x" and "cid \<equiv> cc_codec_id (config c)"
    and "ps \<equiv> stream_payloads sid (rt_taken x)"
  shows "prefix (ln_received l @ visible s) (messages_of env cid ps) \<and>
    prefix (ln_jobs l @ st_handler_q s) (jobs_of env cid ps) \<and>
    (\<not> st_closed s \<and> owed r (rt_reader x) = [] \<and> ln_task l = DecodeNext \<and> st_incoming s = [] \<longrightarrow>
      ln_received l @ visible s = messages_of env cid ps \<and> ln_jobs l @ st_handler_q s = jobs_of env cid ps)"
proof -
  have id: "st_id (stream_at c r) = i" if "(i, r) \<in> set (c_streams c)" for i
    using stream(3) that by (auto simp: table_defs)
  have "st_id (stream_at c r) = sid" using stream(4) id by (auto simp: routes_def dest: map_of_SomeD)
  with id stream(3) have "only_way sid r c" by (auto simp: only_way_def ways_def table_defs)
  with stream reader have "routed_ok env sid r c \<lparr>rt_lane = lane_init c, rt_reader = st, rt_taken = fs\<rparr>"
    by (simp add: routed_ok_def conn_way_def owed_ok_def channel_ok_def lane_init_def fresh_stream_def)
  from route_run_ok[OF run this] have lane: "lane_run env r (lane_init c) l" and owed: "owed_ok sid r x"
    by (simp_all add: routed_ok_def l_def)
  have acc: "ln_accepted l @ owed r (rt_reader x) = ps \<or> prefix (ln_accepted l) ps \<and>
      (ln_task l = DecodeEnded \<or> st_closed s)"
    using owed by (auto simp: owed_ok_def Let_def l_def s_def ps_def)
  then have "prefix (ln_accepted l) ps" using prefixI by metis
  note more = prefix_messages[OF this, of env cid] prefix_jobs[OF this, of env cid]
  have lane_prefix: "prefix (ln_received l @ visible s) (messages_of env cid (ln_accepted l))"
      "prefix (ln_jobs l @ st_handler_q s) (jobs_of env cid (ln_accepted l))"
    and lane_all: "\<not> st_closed s \<and> ln_task l = DecodeNext \<and> st_incoming s = [] \<longrightarrow>
      ln_received l @ visible s = messages_of env cid (ln_accepted l) \<and> ln_jobs l @ st_handler_q s = jobs_of env cid (ln_accepted l)"
    using stream_keeps_order[OF stream(1,5) lane] unfolding l_def s_def cid_def by blast+
  have "ln_accepted l = ps" if "\<not> st_closed s" "owed r (rt_reader x) = []" "ln_task l = DecodeNext"
    using acc that by auto
  with lane_all prefix_order.trans[OF lane_prefix(1) more(1)] prefix_order.trans[OF lane_prefix(2) more(2)]
  show ?thesis by metis
qed

text \<open>Two frames, of which one is for the stream; it is decoded and received.\<close>

definition route_take :: "u32 \<Rightarrow> bytes \<Rightarrow> ('r, 'j) routed \<Rightarrow> ('r, 'j) routed" where
  "route_take i p x = (case accept_route i 0 p (rt_conn x) of (st, c') \<Rightarrow>
     x\<lparr>rt_lane := (rt_lane x)\<lparr>ln_conn := c'\<rparr>, rt_reader := st, rt_taken := rt_taken x @ [(i, 0, p)]\<rparr>)"

definition route_go :: "nat \<Rightarrow> ('r, 'j) routed \<Rightarrow> ('r, 'j) routed" where
  "route_go r x = (case rt_reader x of
     Accepted res \<Rightarrow> x
   | Sending q ps \<Rightarrow> (case accept_step (Sending q ps, rt_conn x) of (st, c') \<Rightarrow>
       x\<lparr>rt_lane := (rt_lane x)\<lparr>ln_conn := c', ln_accepted := ln_accepted (rt_lane x) @ pushed r q ps (rt_conn x)\<rparr>,
         rt_reader := st\<rparr>))"

definition ex_start :: "(bytes, bytes) routed" where
  "ex_start = \<lparr>rt_lane = lane_init (snd (new_stream ex_conn)), rt_reader = Accepted (Inr ()), rt_taken = []\<rparr>"

definition ex_sent :: "(bytes, bytes) routed" where "ex_sent = route_go 0 (route_go 0 (route_take 1 [7] ex_start))"

definition ex_both :: "(bytes, bytes) routed" where "ex_both = route_go 0 (route_go 0 (route_take 4 [9] ex_sent))"

definition ex_decoded :: "(bytes, bytes) lane" where
  "ex_decoded = (rt_lane ex_both)\<lparr>ln_conn := snd (decode_frame ex_env 0 (rt_conn ex_both)),
     ln_task := fst (decode_frame ex_env 0 (rt_conn ex_both))\<rparr>"

lemma ex_routed_facts:
  "fresh_stream 0 (snd (new_stream ex_conn)) \<and> st_incoming_open (stream_at (snd (new_stream ex_conn)) 0) \<and>
   (case rt_reader ex_sent of Accepted res \<Rightarrow> (case res of Inr _ \<Rightarrow> True | _ \<Rightarrow> False) | _ \<Rightarrow> False) \<and>
   (case ln_task (rt_lane ex_both) of DecodeNext \<Rightarrow> True | _ \<Rightarrow> False) \<and>
   (case fst (recv_raw_try 0 (ln_conn ex_decoded)) of Some (Inr m) \<Rightarrow> m = [7] | _ \<Rightarrow> False) \<and>
   length (c_heap (rt_conn ex_both)) = 2 \<and> ln_received (rt_lane ex_both) = [] \<and>
   visible (stream_at (snd (recv_raw_try 0 (ln_conn ex_decoded))) 0) = [] \<and>
   rt_taken ex_both = [(1, 0, [7]), (4, 0, [9])]"
  by code_simp

lemma ex_routed_table:
  "table_ok (snd (new_stream ex_conn)) \<and> routes 1 0 (snd (new_stream ex_conn)) \<and>
   cc_codec_id (config (snd (new_stream ex_conn))) = CodecPostcard"
proof -
  have "table_ok ex_conn" by (simp add: ex_conn_def table_defs new_unstarted_def new_conn_counters_def)
  then have "table_ok (snd (new_stream ex_conn))" by (rule new_stream_ok)
  moreover have "lookup_stream_ctx 1 (snd (new_stream ex_conn)) = Some 0 \<and> map_of (c_streams (snd (new_stream ex_conn))) 1 = Some 0 \<and>
     cc_codec_id (config (snd (new_stream ex_conn))) = CodecPostcard"
    by code_simp
  ultimately show ?thesis by (simp add: routes_def)
qed

lemma each_stream_gets_its_messages_witness:
  "\<exists>x. route_run ex_env 0 ex_start x \<and> ln_received (rt_lane x) = [[7]] \<and> rt_taken x = [(1, 0, [7]), (4, 0, [9])] \<and>
     prefix (ln_received (rt_lane x)) (messages_of ex_env CodecPostcard (stream_payloads 1 (rt_taken x)))"
proof -
  note facts = ex_routed_facts
  have take: "route_run ex_env 0 x (route_take i p x)" if "rt_reader x = Accepted (Inr ())"
    for i p and x :: "(bytes, bytes) routed"
    by (cases "accept_route i 0 p (rt_conn x)")
      (simp add: route_take_def r_into_rtranclp[of "route_step ex_env 0", OF route_step.Take[OF that]])
  have go: "route_run ex_env 0 x (route_go 0 x)" for x :: "(bytes, bytes) routed"
    using route_step.GoOn[of x _ _ _ _ ex_env 0] by (auto simp: route_go_def split: prod.split accept_state.split)
  have idle: "rt_reader ex_start = Accepted (Inr ())" "rt_reader ex_sent = Accepted (Inr ())"
    using facts by (simp add: ex_start_def, auto split: accept_state.splits sum.splits)
  have frame: "route_run ex_env 0 x (route_go 0 (route_go 0 (route_take i p x)))" if "rt_reader x = Accepted (Inr ())"
    for i p and x :: "(bytes, bytes) routed"
    by (rule rtranclp_trans[OF take[OF that] rtranclp_trans[OF go go]])
  have both: "route_run ex_env 0 ex_start ex_both"
    using rtranclp_trans[OF frame[OF idle(1), of 1 "[7]", folded ex_sent_def] frame[OF idle(2), of 4 "[9]", folded ex_both_def]] .
  have "lane_step ex_env 0 (rt_lane ex_both) ex_decoded" unfolding ex_decoded_def
    using facts by (intro lane_step.Decode) (auto split: decode_task.splits)
  moreover have "conn_run ex_env (rt_conn ex_both) (ln_conn ex_decoded)"
    by (auto simp: ex_decoded_def intro: conn_step.DecodeFrame)
  ultimately have dec: "route_step ex_env 0 ex_both (ex_both\<lparr>rt_lane := ex_decoded\<rparr>)"
    by (intro route_step.Stream) (simp_all add: ex_decoded_def)
  obtain c' where recv: "recv_raw_try 0 (ln_conn ex_decoded) = (Some (Inr [7]), c')"
    using facts by (cases "recv_raw_try 0 (ln_conn ex_decoded)") (auto split: option.splits sum.splits)
  let ?l = "ex_decoded\<lparr>ln_conn := c', ln_received := [[7]]\<rparr>"
  let ?x = "ex_both\<lparr>rt_lane := ?l\<rparr>"
  have "lane_step ex_env 0 ex_decoded ?l"
    using lane_step.Recv[OF recv, of ex_env] facts by (simp add: ex_decoded_def)
  moreover have "conn_run ex_env (ln_conn ex_decoded) c'"
    using conn_step.RecvTry[where env = ex_env and r = 0 and c = "ln_conn ex_decoded"] recv by auto
  ultimately have "route_step ex_env 0 (ex_both\<lparr>rt_lane := ex_decoded\<rparr>) ?x"
    using route_step.Stream[of ex_env 0 "ex_both\<lparr>rt_lane := ex_decoded\<rparr>" ?l] by simp
  with both dec have run: "route_run ex_env 0 ex_start ?x" by (meson rtranclp.rtrancl_into_rtrancl)
  have "st_has_handler_tx (stream_at (snd (new_stream ex_conn)) 0) \<or> (\<forall>wire. \<not> se_has_handler ex_env wire)"
    by (simp add: ex_env_def)
  note gets = each_stream_gets_its_messages[where env = ex_env and r = 0 and c = "snd (new_stream ex_conn)" and sid = 1
      and st = "Accepted (Inr ())" and fs = "[]" and x = ?x, OF _ _ _ _ this _ run[unfolded ex_start_def]]
  have "prefix ([[7]] @ visible (stream_at c' 0)) (messages_of ex_env CodecPostcard (stream_payloads 1 (rt_taken ?x)))"
    using gets facts ex_routed_table by (simp add: stream_payloads_def)
  moreover have "visible (stream_at c' 0) = []" using facts recv by simp
  ultimately have "prefix [[7]] (messages_of ex_env CodecPostcard (stream_payloads 1 (rt_taken ?x)))" by simp
  with run facts show ?thesis by (intro exI[of _ ?x]) simp
qed

end
