(* ===== verification/RequestReply.thy ===== *)
theory RequestReply
  imports StreamOrder
begin

text \<open>
  \<open>send_recv\<close> on one stream: which reply a request gets. The peer answers the requests of a stream in
  their order, one reply each; a request that gave up at its deadline leaves its reply to be dropped.
\<close>

section \<open>The stream as a system\<close>

text \<open>
  What the one call of \<open>send_recv\<close> that holds the guard waits for: room in the outbound queue, the
  outcome of its frame (a recovery connection), its reply, or (with a message in hand) for the end of
  the decoding and of a protocol error.
\<close>

datatype 'r request_phase = NoRequest | RoomWanted outbound_frame | Queued | Awaiting | Got 'r

text \<open>
  Requests and replies are numbered in their order, a reply by the function \<open>number\<close>: \<open>rq_asked\<close> requests
  were queued, \<open>rq_answered\<close> replies came in. \<open>rq_log\<close> has what every call returned that got a message:
  the number of its request, and the message.
\<close>

record ('r, 'j) exchange =
  rq_conn :: "('r, 'j) connection"
  rq_phase :: "'r request_phase"
  rq_asked :: nat
  rq_answered :: nat
  rq_log :: "(nat \<times> 'r) list"

abbreviation rq_stream :: "nat \<Rightarrow> ('r, 'j) exchange \<Rightarrow> ('r, 'j) stream" where
  "rq_stream r e \<equiv> stream_at (rq_conn e) r"

definition exchange_init :: "('r, 'j) connection \<Rightarrow> ('r, 'j) exchange" where
  "exchange_init c = \<lparr>rq_conn = c, rq_phase = NoRequest, rq_asked = 0, rq_answered = 0, rq_log = []\<rparr>"

text \<open>
  A call begins (any number of tasks may try at once), its frame finds room, its frame is resolved (an
  error for a frame that was not sent, so that it has no answer), it looks for its reply, or its
  deadline passes; the end releases the guard. The decode task puts the next reply into the inbox. Anything
  else leaves the queues of the stream alone, and closes the stream if it closes the connection.
\<close>

definition after_begin :: "enqueue_state \<Rightarrow> outbound_frame \<Rightarrow> ('r, 'j) connection \<Rightarrow> ('r, 'j) exchange \<Rightarrow> ('r, 'j) exchange" where
  "after_begin st f c e = (case st of
     Enqueued (Inr _) \<Rightarrow> e\<lparr>rq_conn := c, rq_phase := Awaiting, rq_asked := Suc (rq_asked e)\<rparr>
   | Enqueued (Inl _) \<Rightarrow> e\<lparr>rq_conn := c\<rparr>
   | QueueFull \<Rightarrow> e\<lparr>rq_conn := c, rq_phase := RoomWanted f\<rparr>
   | WaitTicket t \<Rightarrow> e\<lparr>rq_conn := c, rq_phase := Queued, rq_asked := Suc (rq_asked e)\<rparr>)"

inductive exchange_step :: "('r, 'j, 'm) stream_env \<Rightarrow> ('r \<Rightarrow> nat) \<Rightarrow> nat \<Rightarrow>
    ('r, 'j) exchange \<Rightarrow> ('r, 'j) exchange \<Rightarrow> bool" for env number r where
  Begin: "send_recv_begin env msg r (rq_conn e) = (st, c') \<Longrightarrow>
     exchange_step env number r e (after_begin st f c' e)"
| Room: "rq_phase e = RoomWanted f \<Longrightarrow> enqueue_frame f (rq_conn e) = (st, c') \<Longrightarrow>
     \<not> (\<exists>err. st = Enqueued (Inl err)) \<Longrightarrow>
     exchange_step env number r e (after_begin st f
       (case st of Enqueued res \<Rightarrow> send_done env r res c' | _ \<Rightarrow> c') e)"
| NoRoom: "rq_phase e = RoomWanted f \<Longrightarrow> enqueue_frame f (rq_conn e) = (Enqueued (Inl err), c') \<Longrightarrow>
     exchange_step env number r e
       (e\<lparr>rq_conn := release_guard r (send_done env r (Inl err) c'), rq_phase := NoRequest\<rparr>)"
| Sent: "rq_phase e = Queued \<Longrightarrow>
     exchange_step env number r e (e\<lparr>rq_conn := send_done env r (Inr ()) (rq_conn e), rq_phase := Awaiting\<rparr>)"
| NotSent: "rq_phase e = Queued \<Longrightarrow> rq_answered e < rq_asked e \<Longrightarrow>
     exchange_step env number r e (e\<lparr>rq_conn := release_guard r (send_done env r (Inl err) (rq_conn e)),
       rq_phase := NoRequest, rq_asked := rq_asked e - 1\<rparr>)"
| Reply: "rq_answered e < rq_asked e \<Longrightarrow> number raw = rq_answered e \<Longrightarrow>
     inbox_q raw r (rq_conn e) = (Some (Inr ()), c') \<Longrightarrow>
     exchange_step env number r e (e\<lparr>rq_conn := c', rq_answered := Suc (rq_answered e)\<rparr>)"
| Try: "rq_phase e = Awaiting \<Longrightarrow> send_recv_try r (rq_conn e) = (res, c') \<Longrightarrow>
     exchange_step env number r e (case res of
         None \<Rightarrow> e\<lparr>rq_conn := c'\<rparr>
       | Some (Inl err) \<Rightarrow> e\<lparr>rq_conn := c', rq_phase := NoRequest\<rparr>
       | Some (Inr m) \<Rightarrow> e\<lparr>rq_conn := c', rq_phase := Got m, rq_log := rq_log e @ [(rq_asked e - 1, m)]\<rparr>)"
| Timeout: "rq_phase e = Awaiting \<Longrightarrow> send_recv_timeout r (rq_conn e) = (Some res, c') \<Longrightarrow>
     exchange_step env number r e (e\<lparr>rq_conn := c', rq_phase := NoRequest\<rparr>)"
| Return: "rq_phase e = Got m \<Longrightarrow> same_queues r (rq_conn e) c' \<Longrightarrow> (c_closed c' \<Longrightarrow> st_closed (stream_at c' r)) \<Longrightarrow>
     exchange_step env number r e (e\<lparr>rq_conn := release_guard r c', rq_phase := NoRequest\<rparr>)"
| Elsewhere: "same_queues r (rq_conn e) c' \<Longrightarrow> (c_closed c' \<Longrightarrow> st_closed (stream_at c' r)) \<Longrightarrow>
     exchange_step env number r e (e\<lparr>rq_conn := c'\<rparr>)"

abbreviation exchange_run where "exchange_run env number r \<equiv> (exchange_step env number r)\<^sup>*\<^sup>*"

section \<open>The invariant\<close>

text \<open>The requests whose reply is still to come out of the inbox for a call, or to be dropped.\<close>

fun in_flight :: "'r request_phase \<Rightarrow> nat" where
  "in_flight Queued = 1"
| "in_flight Awaiting = 1"
| "in_flight _ = 0"

definition counts_ok :: "('r \<Rightarrow> nat) \<Rightarrow> 'r list \<Rightarrow> nat \<Rightarrow> bool \<Rightarrow> nat \<Rightarrow> nat \<Rightarrow> nat \<Rightarrow> (nat \<times> 'r) list \<Rightarrow> bool" where
  "counts_ok number inbox stale closed k asked answered log \<longleftrightarrow> (let taken = answered - length inbox in
     length inbox \<le> answered \<and> answered \<le> asked \<and> map number inbox = [taken ..< answered] \<and>
     (asked = taken + stale + k \<or> closed \<and> inbox = [] \<and> k \<le> asked) \<and>
     (\<forall>(n, m) \<in> set log. number m = n \<and> n < asked - k) \<and> sorted_wrt (<) (map fst log))"

definition exchange_inv :: "('r \<Rightarrow> nat) \<Rightarrow> nat \<Rightarrow> ('r, 'j) connection \<Rightarrow> bool \<Rightarrow> nat \<Rightarrow> nat \<Rightarrow> nat \<Rightarrow>
    (nat \<times> 'r) list \<Rightarrow> bool" where
  "exchange_inv number r c active k asked answered log \<longleftrightarrow> (let s = stream_at c r in
     r < length (c_heap c) \<and> st_peeked s = None \<and> (c_closed c \<longrightarrow> st_closed s) \<and> st_recv_active s = active \<and>
     counts_ok number (st_inbox s) (st_stale_replies s) (st_closed s) k asked answered log)"

definition exchange_ok :: "('r \<Rightarrow> nat) \<Rightarrow> nat \<Rightarrow> ('r, 'j) exchange \<Rightarrow> bool" where
  "exchange_ok number r e \<longleftrightarrow> exchange_inv number r (rq_conn e) (rq_phase e \<noteq> NoRequest) (in_flight (rq_phase e))
     (rq_asked e) (rq_answered e) (rq_log e)"

lemma take_fresh_Some:
  assumes "take_fresh k q = (k', Some m, rest)"
  shows "k < length q \<and> q ! k = m \<and> rest = drop (Suc k) q \<and> k' = 0"
  using assms
proof (induction k q rule: take_fresh.induct)
  case (2 stale m' ms)
  then show ?case by (cases stale) auto
qed simp

lemma take_fresh_None: "take_fresh k q = (k', None, rest) \<Longrightarrow> rest = [] \<and> k' + length q = k"
  by (induction k q rule: take_fresh.induct) (auto split: if_splits)

text \<open>The counting alone.\<close>

lemma counts_close: "counts_ok number inbox stale closed k asked answered log \<Longrightarrow> (closed \<Longrightarrow> closed') \<Longrightarrow>
   counts_ok number inbox stale closed' k asked answered log"
  by (auto simp: counts_ok_def Let_def)

lemma counts_ask: "counts_ok number inbox stale closed 0 asked answered log \<Longrightarrow>
   counts_ok number inbox stale closed 1 (Suc asked) answered log"
  by (auto simp: counts_ok_def Let_def)

lemma counts_unask: "counts_ok number inbox stale closed 1 asked answered log \<Longrightarrow> answered < asked \<Longrightarrow>
   counts_ok number inbox stale closed 0 (asked - 1) answered log"
  by (auto simp: counts_ok_def Let_def)

lemma counts_stale: "counts_ok number inbox stale closed 1 asked answered log \<Longrightarrow>
   counts_ok number inbox (Suc stale) closed 0 asked answered log"
  by (auto simp: counts_ok_def Let_def)

lemma counts_reply:
  "counts_ok number inbox stale False k asked answered log \<Longrightarrow> answered < asked \<Longrightarrow> number raw = answered \<Longrightarrow>
   counts_ok number (inbox @ [raw]) stale False k asked (Suc answered) log"
  by (auto simp: counts_ok_def Let_def)

lemma counts_empty:
  assumes "counts_ok number inbox stale closed 1 asked answered log" "take_fresh stale inbox = (stale', None, rest)"
  shows "counts_ok number rest stale' closed 1 asked answered log" "rest = []"
proof -
  from take_fresh_None[OF assms(2)] have r: "rest = []" "stale' + length inbox = stale" by simp_all
  from assms(1) r show "counts_ok number rest stale' closed 1 asked answered log" by (auto simp: counts_ok_def Let_def)
  from r show "rest = []" by simp
qed

lemma counts_gone: "counts_ok number [] stale closed 1 asked answered log \<Longrightarrow> closed \<Longrightarrow>
   counts_ok number [] stale closed 0 asked answered log"
  by (auto simp: counts_ok_def Let_def)

text \<open>The loop of \<open>read_raw\<close>: it drops the stale replies and returns the reply of the request asked last.\<close>

lemma counts_got:
  assumes ok: "counts_ok number inbox stale closed 1 asked answered log" and t: "take_fresh stale inbox = (stale', Some m, rest)"
  shows "counts_ok number rest stale' closed 0 asked answered (log @ [(asked - 1, m)])"
proof -
  from take_fresh_Some[OF t] have r: "stale < length inbox" "inbox ! stale = m" "rest = drop (Suc stale) inbox" "stale' = 0"
    by simp_all
  let ?t = "answered - length inbox"
  from ok have nums: "map number inbox = [?t ..< answered]" and le: "length inbox \<le> answered"
    by (simp_all add: counts_ok_def Let_def)
  have eq: "asked = ?t + stale + 1" using ok r(1) by (auto simp: counts_ok_def Let_def)
  have "number m = ?t + stale"
    using arg_cong[OF nums, of "\<lambda>xs. xs ! stale"] r(1,2) le by simp
  then have m: "number m = asked - 1" using eq by simp
  have len: "length rest = length inbox - Suc stale" using r(3) by simp
  have rest: "map number rest = [asked ..< answered]"
    using arg_cong[OF nums, of "drop (Suc stale)"] r(3) eq by (simp add: drop_map)
  have taken: "answered - length rest = asked" "length rest \<le> answered" using len r(1) le eq by simp_all
  have old: "\<forall>(n, m) \<in> set log. number m = n \<and> n < asked - 1" "sorted_wrt (<) (map fst log)" "answered \<le> asked"
    using ok by (simp_all add: counts_ok_def Let_def)
  have "\<forall>(n, m) \<in> set (log @ [(asked - 1, m)]). number m = n \<and> n < asked"
    using old(1) m eq by auto
  moreover have "sorted_wrt (<) (map fst (log @ [(asked - 1, m)]))"
    using old(1,2) by (auto simp: sorted_wrt_append)
  ultimately show ?thesis using rest taken old(3) r(4) by (simp add: counts_ok_def Let_def)
qed

text \<open>The same of the stream.\<close>

lemma inv_same:
  assumes "exchange_inv number r c active k asked answered log" "same_queues r c c'"
    and "c_closed c' \<Longrightarrow> st_closed (stream_at c' r)"
  shows "exchange_inv number r c' active k asked answered log"
proof -
  have "r < length (c_heap c)" using assms(1) by (simp add: exchange_inv_def Let_def)
  with assms(2) have "r < length (c_heap c')" "st_inbox (stream_at c' r) = st_inbox (stream_at c r)"
    "st_peeked (stream_at c' r) = st_peeked (stream_at c r)" "st_recv_active (stream_at c' r) = st_recv_active (stream_at c r)"
    "st_stale_replies (stream_at c' r) = st_stale_replies (stream_at c r)"
    "st_closed (stream_at c r) \<Longrightarrow> st_closed (stream_at c' r)"
    by (simp_all add: same_queues_def queues_def)
  with assms(1,3) show ?thesis by (auto simp: exchange_inv_def Let_def intro: counts_close)
qed

lemma inv_guard:
  assumes "exchange_inv number r c active k asked answered log"
  shows "exchange_inv number r (update_stream r (\<lambda>s. s\<lparr>st_recv_active := b\<rparr>) c) b k asked answered log"
  using assms by (simp add: exchange_inv_def Let_def) (simp add: update_stream_def)

lemma inv_release:
  "exchange_inv number r c active k asked answered log \<Longrightarrow> exchange_inv number r (release_guard r c) False k asked answered log"
  unfolding release_guard_def by (rule inv_guard)

lemma inv_ask:
  "exchange_inv number r c active 0 asked answered log \<Longrightarrow> exchange_inv number r c active 1 (Suc asked) answered log"
  unfolding exchange_inv_def Let_def by (blast intro: counts_ask)

lemma inv_unask:
  "exchange_inv number r c active 1 asked answered log \<Longrightarrow> answered < asked \<Longrightarrow>
   exchange_inv number r c active 0 (asked - 1) answered log"
  unfolding exchange_inv_def Let_def by (blast intro: counts_unask)

lemma inv_timeout:
  assumes "exchange_inv number r c active 1 asked answered log"
  shows "exchange_inv number r (update_stream r (\<lambda>s. s\<lparr>st_stale_replies := st_stale_replies s + 1\<rparr>) c) active 0 asked answered log"
proof -
  have "c_closed (update_stream r f c) = c_closed c" for f by (simp add: update_stream_def)
  moreover have "r < length (c_heap c)" using assms by (simp add: exchange_inv_def Let_def)
  ultimately show ?thesis using assms counts_stale[of number "st_inbox (stream_at c r)"]
    by (simp add: exchange_inv_def Let_def)
qed

lemma inv_reply:
  assumes inv: "exchange_inv number r c active k asked answered log" and "answered < asked" "number raw = answered"
    and q: "inbox_q raw r c = (Some (Inr ()), c')"
  shows "exchange_inv number r c' active k asked (Suc answered) log"
proof -
  have len: "r < length (c_heap c)" using inv by (simp add: exchange_inv_def Let_def)
  have closed: "c_closed c' = c_closed c" using q
    by (auto simp: inbox_q_def count_def update_stream_def split: if_splits)
  from q len show ?thesis
  proof (cases rule: inbox_q_cases)
    case closed
    with q show ?thesis by (simp add: inbox_q_def)
  next
    case (pushed d)
    from inv pushed(1) have "counts_ok number (st_inbox (stream_at c r)) (st_stale_replies (stream_at c r)) False k asked answered log"
      by (simp add: exchange_inv_def Let_def)
    from counts_reply[OF this assms(2,3)] inv pushed closed show ?thesis by (simp add: exchange_inv_def Let_def)
  qed simp
qed

lemma inv_read:
  assumes inv: "exchange_inv number r c active 1 asked answered log" and read: "take_raw r c = (res, c')"
  shows "case res of
      None \<Rightarrow> exchange_inv number r c' active 1 asked answered log
    | Some (Inl err) \<Rightarrow> exchange_inv number r c' active 0 asked answered log
    | Some (Inr m) \<Rightarrow> exchange_inv number r c' active 0 asked answered (log @ [(asked - 1, m)])"
proof -
  let ?s = "stream_at c r"
  obtain k' msg rest where t: "take_fresh (st_stale_replies ?s) (st_inbox ?s) = (k', msg, rest)" by (metis prod_cases3)
  define c1 where "c1 = update_stream r (\<lambda>s. s\<lparr>st_inbox := rest, st_stale_replies := k'\<rparr>) c"
  have s: "r < length (c_heap c)" "st_peeked ?s = None" "c_closed c \<longrightarrow> st_closed ?s" "st_recv_active ?s = active"
    and counts: "counts_ok number (st_inbox ?s) (st_stale_replies ?s) (st_closed ?s) 1 asked answered log"
    using inv by (simp_all add: exchange_inv_def Let_def)
  from read t s(2,3) have res: "c' = c1" "res = (case msg of Some m \<Rightarrow> Some (Inr m)
      | None \<Rightarrow> if st_closed ?s then Some (Inl Closed) else None)"
    using t by (cases "c_closed c"; cases msg; simp add: take_raw_def read_raw_def c1_def Let_def)+
  have s1: "stream_at c1 r = ?s\<lparr>st_inbox := rest, st_stale_replies := k'\<rparr>" "c_closed c1 = c_closed c"
    "length (c_heap c1) = length (c_heap c)"
    using s(1) by (simp_all add: c1_def) (simp add: update_stream_def)
  show ?thesis
  proof (cases msg)
    case None
    from counts_empty[OF counts t[unfolded None]] counts_gone
    show ?thesis using res s s1 None by (auto simp: exchange_inv_def Let_def)
  next
    case (Some m)
    from counts_got[OF counts t[unfolded Some]] show ?thesis using res s s1 Some
      by (simp add: exchange_inv_def Let_def)
  qed
qed

section \<open>Every step\<close>

text \<open>The operations of the step leave the queues alone, but for the guard, and the connection open.\<close>

lemma conn_flags [simp]:
  "c_closed (count k q c) = c_closed c" "c_closed (note_failure code reason q c) = c_closed c"
  "c_closed (snd (enqueue_frame f c)) = c_closed c" "c_closed (send_done env q res c) = c_closed c"
  "c_closed (update_stream q g c) = c_closed c"
proof -
  show c: "c_closed (count k q c) = c_closed c" and n: "c_closed (note_failure code reason q c) = c_closed c"
    for k and c :: "('a, 'b) connection" and code reason
    by (simp_all add: count_def note_failure_def note_stream_failure_def note_conn_failure_def update_stream_def)
  show "c_closed (snd (enqueue_frame f c)) = c_closed c"
    by (simp add: enqueue_frame_def signal_send_def push_outbound_def Let_def split: option.split)
  show "c_closed (send_done env q res c) = c_closed c" by (simp add: send_done_def c n split: sum.split)
qed (simp add: update_stream_def)

lemma send_boxed_closed [simp]: "c_closed (snd (send_boxed env msg q c)) = c_closed c"
proof (cases "encode_message (se_encode env) msg c")
  case (Inr p)
  obtain x c1 where x: "enqueue_frame (Plain (st_id (stream_at c q)) 0 p) c = (x, c1)" by fastforce
  with conn_flags(3)[of "Plain (st_id (stream_at c q)) 0 p" c] have "c_closed c1 = c_closed c" by simp
  with Inr x show ?thesis by (auto simp: send_boxed_def split: enqueue_state.split)
qed (simp add: send_boxed_def)

lemma inv_quiet:
  assumes "exchange_inv number r c active k asked answered log" "same_queues r c c'" "c_closed c' = c_closed c"
  shows "exchange_inv number r c' active k asked answered log"
proof (rule inv_same[OF assms(1,2)])
  assume "c_closed c'"
  with assms show "st_closed (stream_at c' r)" by (auto simp: exchange_inv_def same_queues_def Let_def)
qed

lemma after_begin_ok:
  assumes "exchange_inv number r c True 0 (rq_asked e) (rq_answered e) (rq_log e)" "\<nexists>err. st = Enqueued (Inl err)"
  shows "exchange_ok number r (after_begin st f c e)"
  using assms inv_ask[OF assms(1)]
  by (cases st) (auto simp: after_begin_def exchange_ok_def split: sum.splits)

lemma begin_ok:
  assumes ok: "exchange_ok number r e" and b: "send_recv_begin env msg r (rq_conn e) = (st, c')"
  shows "exchange_ok number r (after_begin st f c' e)"
proof -
  let ?c = "rq_conn e"
  have inv: "exchange_inv number r ?c (rq_phase e \<noteq> NoRequest) (in_flight (rq_phase e)) (rq_asked e) (rq_answered e) (rq_log e)"
    using ok by (simp add: exchange_ok_def)
  show ?thesis
  proof (cases "st_recv_active (stream_at ?c r)")
    case True
    with b have "st = Enqueued (Inl ConcurrentRecv)" "c' = ?c" by (auto simp: send_recv_begin_def recv_guard_def)
    with ok show ?thesis by (simp add: after_begin_def)
  next
    case False
    with inv have phase: "rq_phase e = NoRequest" by (simp add: exchange_inv_def Let_def)
    let ?c1 = "update_stream r (\<lambda>s. s\<lparr>st_recv_active := True\<rparr>) ?c"
    obtain x c2 where x: "send_boxed env msg r ?c1 = (x, c2)" by fastforce
    from b False x have st: "st = x" "c' = (case x of Enqueued (Inl e) \<Rightarrow> release_guard r c2 | _ \<Rightarrow> c2)"
      by (auto simp: send_recv_begin_def recv_guard_def split: enqueue_state.splits sum.splits)
    have 1: "exchange_inv number r ?c1 True 0 (rq_asked e) (rq_answered e) (rq_log e)"
      using inv_guard[OF inv] phase by simp
    have 2: "exchange_inv number r c2 True 0 (rq_asked e) (rq_answered e) (rq_log e)"
      using inv_quiet[OF 1, of c2] sq_send_boxed[of r ?c1 env msg r] send_boxed_closed[of env msg r ?c1] x by simp
    show ?thesis
    proof (cases "\<exists>err. x = Enqueued (Inl err)")
      case True
      with st inv_release[OF 2] phase show ?thesis by (auto simp: after_begin_def exchange_ok_def)
    next
      case False
      then have "c' = c2" using st by (auto split: enqueue_state.splits sum.splits)
      with after_begin_ok[OF 2 False] st show ?thesis by simp
    qed
  qed
qed

lemma exchange_step_ok: "exchange_step env number r e e' \<Longrightarrow> exchange_ok number r e \<Longrightarrow> exchange_ok number r e'"
proof (induction rule: exchange_step.induct)
  case (Begin msg e st c' f)
  then show ?case by (intro begin_ok)
next
  case (Room e f st c')
  let ?c = "case st of Enqueued res \<Rightarrow> send_done env r res c' | _ \<Rightarrow> c'"
  have c': "same_queues r (rq_conn e) c'" "c_closed c' = c_closed (rq_conn e)"
    using sq_enqueue_frame[of r "rq_conn e" f] conn_flags(3)[of f "rq_conn e"] Room(2) by simp_all
  have sent: "same_queues r (rq_conn e) (send_done env r res c')" for res
    by (rule same_queues_trans[OF c'(1) sq_send_done(1)])
  have same: "same_queues r (rq_conn e) ?c" using c'(1) sent by (simp split: enqueue_state.split)
  have closed: "c_closed ?c = c_closed (rq_conn e)" using c'(2) by (simp split: enqueue_state.split)
  have "exchange_inv number r (rq_conn e) True 0 (rq_asked e) (rq_answered e) (rq_log e)"
    using Room(1,4) by (simp add: exchange_ok_def)
  from after_begin_ok[OF inv_quiet[OF this same closed] Room(3)] show ?case .
next
  case (NoRoom e f err c')
  have "same_queues r (rq_conn e) c'" "c_closed c' = c_closed (rq_conn e)"
    using sq_enqueue_frame[of r "rq_conn e" f] conn_flags(3)[of f "rq_conn e"] NoRoom(2) by simp_all
  then have same: "same_queues r (rq_conn e) (send_done env r (Inl err) c')"
    "c_closed (send_done env r (Inl err) c') = c_closed (rq_conn e)"
    by (simp_all add: same_queues_trans[OF _ sq_send_done(1)])
  have "exchange_inv number r (rq_conn e) True 0 (rq_asked e) (rq_answered e) (rq_log e)"
    using NoRoom(1,3) by (simp add: exchange_ok_def)
  from inv_release[OF inv_quiet[OF this same]] show ?case by (simp add: exchange_ok_def)
next
  case (Sent e)
  then have "exchange_inv number r (rq_conn e) True 1 (rq_asked e) (rq_answered e) (rq_log e)"
    by (simp add: exchange_ok_def)
  from inv_quiet[OF this sq_send_done(1) conn_flags(4)] show ?case by (simp add: exchange_ok_def)
next
  case (NotSent e err)
  then have "exchange_inv number r (rq_conn e) True 1 (rq_asked e) (rq_answered e) (rq_log e)"
    by (simp add: exchange_ok_def)
  note inv_quiet[OF this sq_send_done(1) conn_flags(4), of env r "Inl err"]
  from inv_release[OF inv_unask[OF this NotSent(2)]] show ?case by (simp add: exchange_ok_def)
next
  case (Reply e raw c')
  have "exchange_inv number r (rq_conn e) (rq_phase e \<noteq> NoRequest) (in_flight (rq_phase e)) (rq_asked e) (rq_answered e) (rq_log e)"
    using Reply(4) by (simp add: exchange_ok_def)
  from inv_reply[OF this Reply(1,2,3)] show ?case by (simp add: exchange_ok_def)
next
  case (Try e res c')
  then have inv: "exchange_inv number r (rq_conn e) True 1 (rq_asked e) (rq_answered e) (rq_log e)"
    by (simp add: exchange_ok_def)
  obtain o1 c1 where t: "take_raw r (rq_conn e) = (o1, c1)" by fastforce
  from inv_read[OF inv t] Try(1,2) t show ?case
    by (auto simp: send_recv_try_def exchange_ok_def intro: inv_release split: option.splits sum.splits)
next
  case (Timeout e res c')
  obtain o1 c1 where t: "read_raw_timeout r (rq_conn e) = (o1, c1)" by fastforce
  have c1: "same_queues r (rq_conn e) c1" "c_closed c1 = c_closed (rq_conn e)"
    using t same_queues_trans[OF sq_notes(2) sq_notes(1)]
    by (auto simp: read_raw_timeout_def note_conn_failure_def note_stream_failure_def update_stream_def split: if_splits)
  have "exchange_inv number r (rq_conn e) True 1 (rq_asked e) (rq_answered e) (rq_log e)"
    using Timeout(1,3) by (simp add: exchange_ok_def)
  note inv_quiet[OF this c1]
  from inv_release[OF inv_timeout[OF this]] Timeout(2) t show ?case
    by (auto simp: send_recv_timeout_def exchange_ok_def split: option.splits)
next
  case (Return e m c')
  then have "exchange_inv number r (rq_conn e) True 0 (rq_asked e) (rq_answered e) (rq_log e)"
    by (simp add: exchange_ok_def)
  from inv_release[OF inv_same[OF this Return(2,3)]] show ?case by (simp add: exchange_ok_def)
next
  case (Elsewhere e c')
  from inv_same[OF _ Elsewhere(1,2)] Elsewhere(3) show ?case by (simp add: exchange_ok_def)
qed

lemma exchange_run_ok: "exchange_run env number r e e' \<Longrightarrow> exchange_ok number r e \<Longrightarrow> exchange_ok number r e'"
  by (induction rule: rtranclp_induct) (auto intro: exchange_step_ok)

section \<open>Properties\<close>

text \<open>
  C17: A request gets its own reply. On a stream that is used for \<open>send_recv\<close> by any number of tasks,
  with a peer that answers the requests in order, every message that a call returns is the reply to
  its request, and no reply is returned twice: calls that gave up at their deadline, were refused
  because another was in progress, or could not send do not shift the replies of the others.
\<close>

theorem replies_match_requests:
  assumes "fresh_stream r c" "\<not> c_closed c" "\<not> st_recv_active (stream_at c r)"
    and run: "exchange_run env number r (exchange_init c) e"
  shows "(\<forall>(n, m) \<in> set (rq_log e). number m = n) \<and> sorted_wrt (<) (map fst (rq_log e))"
proof -
  have "exchange_ok number r (exchange_init c)"
    using assms(1-3) by (simp add: exchange_ok_def exchange_init_def exchange_inv_def counts_ok_def fresh_stream_def Let_def)
  from exchange_run_ok[OF run this] show ?thesis by (auto simp: exchange_ok_def exchange_inv_def counts_ok_def Let_def)
qed

text \<open>
  Two requests, of which the first gives up: its reply comes late, then the reply of the second. A reply
  carries its number.
\<close>

definition ex_number :: "bytes \<Rightarrow> nat" where "ex_number m = unat (hd m)"

definition ex_first :: "(bytes, bytes) exchange" where
  "ex_first = (case send_recv_begin ex_env [5] 0 (snd (new_stream ex_conn)) of (st, c) \<Rightarrow>
     after_begin st (Plain 1 0 [5]) c (exchange_init (snd (new_stream ex_conn))))"

definition ex_timeout_conn :: "(bytes, bytes) connection" where
  "ex_timeout_conn = update_stream 0 (\<lambda>s. s\<lparr>st_recv_timeout := 1\<rparr>) (rq_conn ex_first)"

definition ex_late :: "(bytes, bytes) exchange" where
  "ex_late = ex_first\<lparr>rq_conn := snd (send_recv_timeout 0 ex_timeout_conn), rq_phase := NoRequest\<rparr>"

definition ex_second :: "(bytes, bytes) exchange" where
  "ex_second = (case send_recv_begin ex_env [5] 0 (rq_conn ex_late) of (st, c) \<Rightarrow> after_begin st (Plain 1 0 [5]) c ex_late)"

definition ex_reply :: "bytes \<Rightarrow> (bytes, bytes) exchange \<Rightarrow> (bytes, bytes) exchange" where
  "ex_reply m e = e\<lparr>rq_conn := snd (inbox_q m 0 (rq_conn e)), rq_answered := Suc (rq_answered e)\<rparr>"

definition ex_replied :: "(bytes, bytes) exchange" where "ex_replied = ex_reply [1] (ex_reply [0] ex_second)"

lemma ex_exchange_facts:
  "fresh_stream 0 (snd (new_stream ex_conn)) \<and> \<not> c_closed (snd (new_stream ex_conn)) \<and>
   \<not> st_recv_active (stream_at (snd (new_stream ex_conn)) 0) \<and>
   (case rq_phase ex_first of Awaiting \<Rightarrow> True | _ \<Rightarrow> False) \<and> \<not> c_closed ex_timeout_conn \<and>
   (case fst (send_recv_timeout 0 ex_timeout_conn) of Some res \<Rightarrow> True | None \<Rightarrow> False) \<and>
   rq_answered ex_second = 0 \<and> rq_asked ex_second = 2 \<and>
   (case fst (inbox_q [0] 0 (rq_conn ex_second)) of Some (Inr _) \<Rightarrow> True | _ \<Rightarrow> False) \<and>
   (case fst (inbox_q [1] 0 (rq_conn (ex_reply [0] ex_second))) of Some (Inr _) \<Rightarrow> True | _ \<Rightarrow> False) \<and>
   (case rq_phase ex_replied of Awaiting \<Rightarrow> True | _ \<Rightarrow> False) \<and>
   (case fst (send_recv_try 0 (rq_conn ex_replied)) of Some (Inr m) \<Rightarrow> m = [1] | _ \<Rightarrow> False) \<and>
   rq_asked ex_replied = 2 \<and> rq_log ex_replied = []"
  by code_simp

lemma ex_exchange_run: "exchange_run ex_env ex_number 0 (exchange_init (snd (new_stream ex_conn))) ex_replied"
proof -
  note facts = ex_exchange_facts
  let ?e0 = "exchange_init (snd (new_stream ex_conn)) :: (bytes, bytes) exchange"
  have started: "exchange_step ex_env ex_number 0 e (case send_recv_begin ex_env [5] 0 (rq_conn e) of (st, c) \<Rightarrow>
      after_begin st (Plain 1 0 [5]) c e)" for e
    using exchange_step.Begin[of ex_env "[5]" 0 e] by (cases "send_recv_begin ex_env [5] 0 (rq_conn e)") simp
  have 1: "exchange_step ex_env ex_number 0 ?e0 ex_first"
    using started[of ?e0] by (simp add: ex_first_def exchange_init_def)
  have "same_queues 0 (rq_conn ex_first) ex_timeout_conn" unfolding ex_timeout_conn_def
    by (rule same_queues_update) (simp_all add: queues_def)
  then have 2: "exchange_step ex_env ex_number 0 ex_first (ex_first\<lparr>rq_conn := ex_timeout_conn\<rparr>)"
    using facts by (intro exchange_step.Elsewhere) simp_all
  obtain res c where "send_recv_timeout 0 ex_timeout_conn = (Some res, c)"
    using facts by (cases "send_recv_timeout 0 ex_timeout_conn") (auto split: option.splits)
  then have 3: "exchange_step ex_env ex_number 0 (ex_first\<lparr>rq_conn := ex_timeout_conn\<rparr>) ex_late"
    using exchange_step.Timeout[of "ex_first\<lparr>rq_conn := ex_timeout_conn\<rparr>" 0 res c ex_env ex_number] facts
    by (auto simp: ex_late_def split: request_phase.splits)
  have 4: "exchange_step ex_env ex_number 0 ex_late ex_second"
    using started[of ex_late] by (simp add: ex_second_def)
  have reply: "exchange_step ex_env ex_number 0 e (ex_reply m e)"
    if "case fst (inbox_q m 0 (rq_conn e)) of Some (Inr _) \<Rightarrow> True | _ \<Rightarrow> False"
      "rq_answered e < rq_asked e" "ex_number m = rq_answered e" for m e
    using exchange_step.Reply[of e ex_number m 0 "snd (inbox_q m 0 (rq_conn e))" ex_env] that
    by (cases "inbox_q m 0 (rq_conn e)") (auto simp: ex_reply_def split: option.splits sum.splits)
  have 5: "exchange_step ex_env ex_number 0 ex_second (ex_reply [0] ex_second)"
    using facts by (intro reply) (simp_all add: ex_number_def)
  have 6: "exchange_step ex_env ex_number 0 (ex_reply [0] ex_second) ex_replied"
    using facts unfolding ex_replied_def by (intro reply) (simp_all add: ex_number_def ex_reply_def)
  note step = converse_rtranclp_into_rtranclp[of "exchange_step ex_env ex_number 0"]
  show ?thesis by (rule step[OF 1 step[OF 2 step[OF 3 step[OF 4 step[OF 5 r_into_rtranclp[of "exchange_step ex_env ex_number 0", OF 6]]]]]])
qed

lemma replies_match_requests_witness:
  "\<exists>e. exchange_run ex_env ex_number 0 (exchange_init (snd (new_stream ex_conn))) e \<and> rq_log e = [(1, [1])] \<and>
     ex_number (snd (hd (rq_log e))) = 1"
proof -
  note facts = ex_exchange_facts
  obtain c where got: "send_recv_try 0 (rq_conn ex_replied) = (Some (Inr [1]), c)"
    using facts by (cases "send_recv_try 0 (rq_conn ex_replied)") (auto split: option.splits sum.splits)
  let ?e = "ex_replied\<lparr>rq_conn := c, rq_phase := Got [1], rq_log := [(1, [1])]\<rparr>"
  have "exchange_step ex_env ex_number 0 ex_replied ?e"
    using exchange_step.Try[OF _ got, of ex_env ex_number] facts by (auto split: request_phase.splits)
  with ex_exchange_run have run: "exchange_run ex_env ex_number 0 (exchange_init (snd (new_stream ex_conn))) ?e"
    by (rule rtranclp.rtrancl_into_rtrancl)
  have "(\<forall>(n, m) \<in> set (rq_log ?e). ex_number m = n)"
    using replies_match_requests[OF _ _ _ run] facts by blast
  then have "ex_number (snd (hd (rq_log ?e))) = 1" by simp
  with run show ?thesis by (intro exI[of _ ?e]) simp
qed

lemma send_recv_try_fst:
  "st_peeked (stream_at c r) = None \<Longrightarrow> fst (send_recv_try r c) =
    (case take_fresh (st_stale_replies (stream_at c r)) (st_inbox (stream_at c r)) of
       (k, Some m, rest) \<Rightarrow> Some (Inr m)
     | (k, None, rest) \<Rightarrow> if st_closed (stream_at c r) \<or> c_closed c then Some (Inl Closed) else None)"
  by (auto simp: send_recv_try_def take_raw_def read_raw_def Let_def split: prod.split option.split)

text \<open>
  C38: A dropped request shifts the replies. If the future of a \<open>send_recv\<close> that waits for its reply is
  dropped (by a \<open>select!\<close> or a timeout around it), the guard is released but nothing remembers the
  reply still to come: the next call returns the reply to the dropped request. After the receive
  timeout of the stream itself, the same reply is discarded.
\<close>

theorem dropped_request_shifts_replies:
  assumes waits: "r < length (c_heap c)" "fst (send_recv_try r c) = None" "st_stale_replies (stream_at c r) = 0"
    and dropped: "send_recv_begin env msg r (release_guard r c) = (Enqueued (Inr ()), c2)"
      "inbox_q old r c2 = (Some (Inr ()), c3)"
    and timeout: "send_recv_timeout r c = (Some (Inl RecvTimeout), d1)"
      "send_recv_begin env msg r d1 = (Enqueued (Inr ()), d2)" "inbox_q old r d2 = (Some (Inr ()), d3)"
  shows "fst (send_recv_try r c3) = Some (Inr old) \<and> fst (send_recv_try r d3) = None"
proof -
  have idle: "st_peeked (stream_at c r) = None" "st_inbox (stream_at c r) = []" "\<not> c_closed c"
    using waits by (auto simp: send_recv_try_def take_raw_def read_raw_def Let_def take_fresh_0
        split: option.splits list.splits if_splits prod.splits sum.splits)
  have begun: "r < length (c_heap y) \<and> st_inbox (stream_at y r) = st_inbox (stream_at x r) \<and>
      st_peeked (stream_at y r) = st_peeked (stream_at x r) \<and> st_stale_replies (stream_at y r) = st_stale_replies (stream_at x r) \<and>
      c_closed y = c_closed x"
    if b: "send_recv_begin env msg r x = (Enqueued (Inr ()), y)" and len: "r < length (c_heap x)" for x y
  proof -
    let ?x = "update_stream r (\<lambda>s. s\<lparr>st_recv_active := True\<rparr>) x"
    have y: "send_boxed env msg r ?x = (Enqueued (Inr ()), y)"
      using b by (auto simp: send_recv_begin_def recv_guard_def split: if_splits prod.splits enqueue_state.splits sum.splits)
    have "same_queues r ?x y" "c_closed y = c_closed ?x"
      using sq_send_boxed[of r ?x env msg r] send_boxed_closed[of env msg r ?x] y by simp_all
    with len show ?thesis by (auto simp: same_queues_def queues_def)
  qed
  have replied: "st_inbox (stream_at z r) = st_inbox (stream_at y r) @ [old] \<and> st_peeked (stream_at z r) = st_peeked (stream_at y r) \<and>
      st_stale_replies (stream_at z r) = st_stale_replies (stream_at y r) \<and> \<not> st_closed (stream_at z r) \<and> c_closed z = c_closed y"
    if q: "inbox_q old r y = (Some (Inr ()), z)" and len: "r < length (c_heap y)" for y z
  proof -
    have "c_closed z = c_closed y" "\<not> st_closed (stream_at y r)" using q by (auto simp: inbox_q_def split: if_splits)
    then show ?thesis by (rule_tac inbox_q_cases[OF q len]) auto
  qed
  have rel: "stream_at (release_guard r c) r = (stream_at c r)\<lparr>st_recv_active := False\<rparr>" "r < length (c_heap (release_guard r c))"
    using waits(1) by (simp_all add: release_guard_def)
  from begun[OF dropped(1) rel(2)] replied[OF dropped(2)] rel idle waits(3)
  have "fst (send_recv_try r c3) = Some (Inr old)" by (simp add: send_recv_try_fst)
  obtain d0 where d0: "read_raw_timeout r c = (Some (Inl RecvTimeout), d0)"
      "d1 = release_guard r (update_stream r (\<lambda>s. s\<lparr>st_stale_replies := st_stale_replies s + 1\<rparr>) d0)"
    using timeout(1) by (auto simp: send_recv_timeout_def split: prod.splits option.splits)
  have "same_queues r c d0" "c_closed d0 = c_closed c"
    using d0(1) same_queues_trans[OF sq_notes(2) sq_notes(1)]
    by (auto simp: read_raw_timeout_def note_conn_failure_def note_stream_failure_def update_stream_def split: if_splits)
  with waits d0(2) idle have d1: "r < length (c_heap d1)" "st_inbox (stream_at d1 r) = []" "st_peeked (stream_at d1 r) = None"
    "st_stale_replies (stream_at d1 r) = 1" "\<not> c_closed d1"
    by (auto simp: same_queues_def queues_def release_guard_def)
  from begun[OF timeout(2) d1(1)] replied[OF timeout(3)] d1(2-5)
  have "fst (send_recv_try r d3) = None" by (simp add: send_recv_try_fst)
  with \<open>fst (send_recv_try r c3) = Some (Inr old)\<close> show ?thesis by simp
qed

text \<open>A first request waits; its reply \<open>[0]\<close> comes after it was dropped, or after its timeout, and a second was sent.\<close>

definition ex_dropped :: "(bytes, bytes) connection" where
  "ex_dropped = snd (send_recv_begin ex_env [5] 0 (release_guard 0 ex_timeout_conn))"

definition ex_timed_out :: "(bytes, bytes) connection" where
  "ex_timed_out = snd (send_recv_begin ex_env [5] 0 (snd (send_recv_timeout 0 ex_timeout_conn)))"

lemma ex_waiting_facts:
  "0 < length (c_heap ex_timeout_conn) \<and> (case fst (send_recv_try 0 ex_timeout_conn) of None \<Rightarrow> True | Some res \<Rightarrow> False) \<and>
   st_stale_replies (stream_at ex_timeout_conn 0) = 0 \<and>
   (case fst (send_recv_begin ex_env [5] 0 (release_guard 0 ex_timeout_conn)) of Enqueued (Inr _) \<Rightarrow> True | _ \<Rightarrow> False) \<and>
   (case fst (inbox_q [0] 0 ex_dropped) of Some (Inr _) \<Rightarrow> True | _ \<Rightarrow> False)"
  by code_simp

lemma ex_timed_out_facts:
  "(case fst (send_recv_timeout 0 ex_timeout_conn) of Some (Inl e) \<Rightarrow> (case e of RecvTimeout \<Rightarrow> True | _ \<Rightarrow> False) | _ \<Rightarrow> False) \<and>
   (case fst (send_recv_begin ex_env [5] 0 (snd (send_recv_timeout 0 ex_timeout_conn))) of Enqueued (Inr _) \<Rightarrow> True | _ \<Rightarrow> False) \<and>
   (case fst (inbox_q [0] 0 ex_timed_out) of Some (Inr _) \<Rightarrow> True | _ \<Rightarrow> False)"
  by code_simp

lemma dropped_request_shifts_replies_witness:
  "fst (send_recv_try 0 (snd (inbox_q [0] 0 ex_dropped))) = Some (Inr [0]) \<and>
   fst (send_recv_try 0 (snd (inbox_q [0] 0 ex_timed_out))) = None"
proof (rule dropped_request_shifts_replies)
  note facts = ex_waiting_facts ex_timed_out_facts
  have unit: "x = (Enqueued (Inr ()), snd x)" if "case fst x of Enqueued (Inr _) \<Rightarrow> True | _ \<Rightarrow> False"
    for x :: "enqueue_state \<times> (bytes, bytes) connection"
    using that by (cases x) (auto split: enqueue_state.splits sum.splits)
  have some: "x = (Some (Inr ()), snd x)" if "case fst x of Some (Inr _) \<Rightarrow> True | _ \<Rightarrow> False"
    for x :: "(am_error + unit) option \<times> (bytes, bytes) connection"
    using that by (cases x) (auto split: option.splits sum.splits)
  show "0 < length (c_heap ex_timeout_conn)" "st_stale_replies (stream_at ex_timeout_conn 0) = 0"
    "fst (send_recv_try 0 ex_timeout_conn) = None"
    using facts(1) by (auto split: option.splits)
  show "send_recv_begin ex_env [5] 0 (release_guard 0 ex_timeout_conn) = (Enqueued (Inr ()), ex_dropped)"
    unfolding ex_dropped_def using facts(1) by (intro unit) blast
  show "inbox_q [0] 0 ex_dropped = (Some (Inr ()), snd (inbox_q [0] 0 ex_dropped))"
    using facts(1) by (intro some) blast
  show "send_recv_timeout 0 ex_timeout_conn = (Some (Inl RecvTimeout), snd (send_recv_timeout 0 ex_timeout_conn))"
    using facts(2) by (cases "send_recv_timeout 0 ex_timeout_conn") (auto split: option.splits sum.splits am_error.splits)
  show "send_recv_begin ex_env [5] 0 (snd (send_recv_timeout 0 ex_timeout_conn)) = (Enqueued (Inr ()), ex_timed_out)"
    unfolding ex_timed_out_def using facts(2) by (intro unit) blast
  show "inbox_q [0] 0 ex_timed_out = (Some (Inr ()), snd (inbox_q [0] 0 ex_timed_out))"
    using facts(2) by (intro some) blast
qed

end
