(* ===== verification/Context.thy ===== *)
theory Context
  imports ServerProperties
begin

text \<open>
  \<open>src/src/context.rs\<close> and the handles of \<open>src/src/connection.rs\<close> and \<open>src/src/stream.rs\<close>: the value a
  user keeps with a stream, the one background task a handler may have per stream, and the \<open>Owner\<close>
  that all handles to a connection share and whose end closes it.
\<close>

section \<open>Typed contexts\<close>

text \<open>
  \<open>ContextInner\<close>. The value is an \<open>Arc<dyn Any>\<close>: a number for its type, as \<open>TypeId\<close> gives one, and
  the value itself. \<open>downcast\<close> compares the types.
\<close>

record 'v context_inner =
  cx_data :: "(nat \<times> 'v) option"

definition new_context :: "'v context_inner" where "new_context = \<lparr>cx_data = None\<rparr>"

definition set_context :: "nat \<Rightarrow> 'v \<Rightarrow> 'v context_inner \<Rightarrow> 'v context_inner" where
  "set_context ty v cx = cx\<lparr>cx_data := Some (ty, v)\<rparr>"

definition get_context :: "nat \<Rightarrow> 'v context_inner \<Rightarrow> 'v option" where
  "get_context ty cx = (case cx_data cx of
     Some (ty', v) \<Rightarrow> if ty' = ty then Some v else None | None \<Rightarrow> None)"

lemma get_new_context [simp]: "get_context ty new_context = None"
  by (simp add: get_context_def new_context_def)

lemma get_set_context [simp]: "get_context ty (set_context ty' v cx) = (if ty' = ty then Some v else None)"
  by (simp add: get_context_def set_context_def)

lemma set_context_replaces: "set_context ty v (set_context ty' v' cx) = set_context ty v cx"
  by (simp add: set_context_def)

section \<open>Handles and their owner\<close>

text \<open>
  A handle given to the user, by the stream it works on (for a connection, its default stream) and
  whether it holds the \<open>Owner\<close>. \<open>hs_owner\<close> is what the weak reference of the connection sees: \<open>None\<close> if
  no owner was ever made (a connection of a server), else the number of strong references.
  \<open>hs_held\<close> are the handles that the user's code has, \<open>hs_tasks\<close> the running tasks of \<open>new_task\<close>, each
  with the stream context that started it and the handle it was given, \<open>hs_active\<close> the contexts
  with \<open>handler_task_active\<close>, and \<open>hs_spawned\<close> counts the closes that \<open>Owner\<close> has spawned and that
  have not run yet.
\<close>

datatype handle = ConnectionHandle nat (owned: bool) | StreamHandle nat (owned: bool)

record ('v, 'r, 'j) handles =
  hs_conn :: "('r, 'j) connection"
  hs_contexts :: "nat \<Rightarrow> 'v context_inner"
  hs_owner :: "nat option"
  hs_held :: "handle list"
  hs_tasks :: "(nat \<times> handle) list"
  hs_active :: "nat set"
  hs_spawned :: nat

definition new_handles :: "('r, 'j) connection \<Rightarrow> ('v, 'r, 'j) handles" where
  "new_handles c = \<lparr>hs_conn = c, hs_contexts = (\<lambda>_. new_context), hs_owner = None, hs_held = [], hs_tasks = [],
     hs_active = {}, hs_spawned = 0\<rparr>"

text \<open>\<open>Connection::new_owned\<close>, the end of \<open>Client::connect\<close>.\<close>

definition new_owned :: "('v, 'r, 'j) handles \<Rightarrow> ('v, 'r, 'j) handles" where
  "new_owned h = (case default_stream (hs_conn h) of (r, c) \<Rightarrow>
     h\<lparr>hs_conn := c, hs_owner := Some 1, hs_held := hs_held h @ [ConnectionHandle r True]\<rparr>)"

text \<open>\<open>Weak::upgrade\<close>: a new strong reference while there is one.\<close>

definition upgrade :: "('v, 'r, 'j) handles \<Rightarrow> bool \<times> ('v, 'r, 'j) handles" where
  "upgrade h = (case hs_owner h of
     Some (Suc n) \<Rightarrow> (True, h\<lparr>hs_owner := Some (Suc (Suc n))\<rparr>) | _ \<Rightarrow> (False, h))"

definition stream_handle :: "nat \<Rightarrow> ('v, 'r, 'j) handles \<Rightarrow> handle \<times> ('v, 'r, 'j) handles" where
  "stream_handle r h = (case upgrade h of (own, h1) \<Rightarrow> (StreamHandle r own, h1))"

definition new_stream_handle :: "('v, 'r, 'j) handles \<Rightarrow> ('v, 'r, 'j) handles" where
  "new_stream_handle h = (case new_stream (hs_conn h) of (r, c) \<Rightarrow>
     case stream_handle r (h\<lparr>hs_conn := c\<rparr>) of (s, h1) \<Rightarrow> h1\<lparr>hs_held := hs_held h1 @ [s]\<rparr>)"

definition clone_handle :: "handle \<Rightarrow> ('v, 'r, 'j) handles \<Rightarrow> ('v, 'r, 'j) handles" where
  "clone_handle s h = h\<lparr>hs_held := hs_held h @ [s],
     hs_owner := (if owned s then map_option Suc (hs_owner h) else hs_owner h)\<rparr>"

text \<open>
  \<open>Drop for Owner\<close>, \<open>runtime\<close> telling whether a tokio runtime is at hand: the close runs in a task of its
  own, or the connection is closed at once.
\<close>

definition owner_drop :: "bool \<Rightarrow> ('v, 'r, 'j) handles \<Rightarrow> ('v, 'r, 'j) handles" where
  "owner_drop runtime h = (if runtime then h\<lparr>hs_spawned := Suc (hs_spawned h)\<rparr>
     else h\<lparr>hs_conn := mark_closed (hs_conn h)\<rparr>)"

definition drop_handle :: "bool \<Rightarrow> handle \<Rightarrow> ('v, 'r, 'j) handles \<Rightarrow> ('v, 'r, 'j) handles" where
  "drop_handle runtime s h = (if \<not> owned s then h else case hs_owner h of
     Some (Suc n) \<Rightarrow> (let h1 = h\<lparr>hs_owner := Some n\<rparr> in if n = 0 then owner_drop runtime h1 else h1)
   | _ \<Rightarrow> h)"

section \<open>Background tasks of handlers\<close>

text \<open>\<open>StreamContextInner::new_task\<close>; a second task is refused, and the handle made for it dropped.\<close>

definition new_task :: "bool \<Rightarrow> nat \<Rightarrow> ('v, 'r, 'j) handles \<Rightarrow> (am_error + unit) \<times> ('v, 'r, 'j) handles" where
  "new_task runtime a h = (case stream_handle a h of (s, h1) \<Rightarrow>
     if a \<in> hs_active h1 then (Inl HandlerTaskBusy, drop_handle runtime s h1)
     else (Inr (), h1\<lparr>hs_active := insert a (hs_active h1), hs_tasks := hs_tasks h1 @ [(a, s)]\<rparr>))"

text \<open>
  The end of a task, or its abort: the future of the user goes with the stream handle it was given,
  then the guard (\<open>Drop for HandlerTaskGuard\<close>).
\<close>

definition task_guard_drop :: "nat \<Rightarrow> ('v, 'r, 'j) handles \<Rightarrow> ('v, 'r, 'j) handles" where
  "task_guard_drop a h = h\<lparr>hs_active := hs_active h - {a}\<rparr>"

definition end_task :: "bool \<Rightarrow> nat \<Rightarrow> ('v, 'r, 'j) handles \<Rightarrow> ('v, 'r, 'j) handles" where
  "end_task runtime j h = (case hs_tasks h ! j of (a, s) \<Rightarrow>
     task_guard_drop a (drop_handle runtime s (h\<lparr>hs_tasks := take j (hs_tasks h) @ drop (Suc j) (hs_tasks h)\<rparr>)))"

definition release :: "bool \<Rightarrow> nat \<Rightarrow> ('v, 'r, 'j) handles \<Rightarrow> ('v, 'r, 'j) handles" where
  "release runtime k h = drop_handle runtime (hs_held h ! k)
     (h\<lparr>hs_held := take k (hs_held h) @ drop (Suc k) (hs_held h)\<rparr>)"

text \<open>
  What the handles of a connection do: the operations above, and the start of the spawned close
  (\<open>close\<close> up to its first wait). Besides, the connection's own tasks, its peer and the user's calls
  change the connection.
\<close>

inductive handle_op :: "bool \<Rightarrow> ('v, 'r, 'j) handles \<Rightarrow> ('v, 'r, 'j) handles \<Rightarrow> bool" for runtime where
  NewStream: "handle_op runtime h (new_stream_handle h)"
| Clone: "s \<in> set (hs_held h) \<Longrightarrow> handle_op runtime h (clone_handle s h)"
| Release: "k < length (hs_held h) \<Longrightarrow> handle_op runtime h (release runtime k h)"
| NewTask: "handle_op runtime h (snd (new_task runtime a h))"
| EndTask: "j < length (hs_tasks h) \<Longrightarrow> handle_op runtime h (end_task runtime j h)"
| SetContext: "handle_op runtime h (h\<lparr>hs_contexts := (hs_contexts h)(a := set_context ty v (hs_contexts h a))\<rparr>)"
| SpawnedClose: "hs_spawned h = Suc n \<Longrightarrow>
    handle_op runtime h (h\<lparr>hs_conn := snd (close_begin (hs_conn h)), hs_spawned := n\<rparr>)"

inductive handle_step :: "bool \<Rightarrow> ('v, 'r, 'j) handles \<Rightarrow> ('v, 'r, 'j) handles \<Rightarrow> bool" for runtime where
  Op: "handle_op runtime h h' \<Longrightarrow> handle_step runtime h h'"
| ConnEvent: "conn_event (hs_conn h) c \<Longrightarrow> handle_step runtime h (h\<lparr>hs_conn := c\<rparr>)"

abbreviation handle_run where "handle_run runtime \<equiv> (handle_step runtime)\<^sup>*\<^sup>*"

inductive_cases handle_stepE: "handle_step runtime h h'"

section \<open>Invariants\<close>

definition owners :: "('v, 'r, 'j) handles \<Rightarrow> nat" where
  "owners h = length (filter owned (hs_held h)) + length (filter (\<lambda>t. owned (snd t)) (hs_tasks h))"

text \<open>The strong references are those of the handles, and the close was started with the last of them.\<close>

definition owner_ok :: "('v, 'r, 'j) handles \<Rightarrow> bool" where
  "owner_ok h \<longleftrightarrow> hs_owner h = Some (owners h) \<and>
     (if owners h = 0 then hs_spawned h = 1 \<or> hs_spawned h = 0 \<and> (c_closing (hs_conn h) \<or> c_closed (hs_conn h))
      else hs_spawned h = 0)"

definition tasks_ok :: "('v, 'r, 'j) handles \<Rightarrow> bool" where
  "tasks_ok h \<longleftrightarrow> distinct (map fst (hs_tasks h)) \<and> hs_active h = fst ` set (hs_tasks h)"

lemma drop_handle_fields [simp]:
  "hs_held (drop_handle rt s h) = hs_held h" "hs_tasks (drop_handle rt s h) = hs_tasks h"
  "hs_active (drop_handle rt s h) = hs_active h" "owners (drop_handle rt s h) = owners h"
  by (simp_all add: drop_handle_def owner_drop_def owners_def Let_def split: option.split nat.split)

lemma owner_ok_active [simp]: "owner_ok (h\<lparr>hs_active := A\<rparr>) = owner_ok h"
  by (simp add: owner_ok_def owners_def)

lemma tasks_ok_conn [simp]: "tasks_ok (h\<lparr>hs_conn := c\<rparr>) = tasks_ok h"
  by (simp add: tasks_ok_def)

lemma stream_handle_fields:
  assumes "stream_handle a h = (s, h1)"
  shows "hs_held h1 = hs_held h \<and> hs_tasks h1 = hs_tasks h \<and> hs_active h1 = hs_active h \<and>
    hs_conn h1 = hs_conn h \<and> hs_spawned h1 = hs_spawned h \<and>
    (hs_owner h = Some n \<longrightarrow> owned s = (0 < n) \<and> hs_owner h1 = Some (if 0 < n then Suc n else 0))"
  using assms by (auto simp: stream_handle_def upgrade_def split: option.splits nat.splits)

lemma filter_remove_nth:
  assumes "k < length xs"
  shows "length (filter P xs) = length (filter P (take k xs @ drop (Suc k) xs)) + (if P (xs ! k) then 1 else 0)"
  by (subst id_take_nth_drop[OF assms]) simp

text \<open>One owner less: what a drop leaves if the handle is no longer counted.\<close>

lemma drop_handle_ok:
  assumes "hs_owner h = Some (owners h + (if owned s then 1 else 0))"
    and "owned s \<or> 0 < owners h \<Longrightarrow> hs_spawned h = 0" "\<not> owned s \<Longrightarrow> owners h = 0 \<Longrightarrow> owner_ok h"
  shows "owner_ok (drop_handle rt s h)"
proof (cases "owned s")
  case True
  with assms show ?thesis
    by (cases "owners h") (auto simp: owner_ok_def drop_handle_def owner_drop_def Let_def owners_def mark_closed_closed)
qed (use assms in \<open>auto simp: owner_ok_def drop_handle_def\<close>)

lemma owner_ok_event:
  assumes "owner_ok h" "conn_event (hs_conn h) c"
  shows "owner_ok (h\<lparr>hs_conn := c\<rparr>)"
  using assms by (auto simp: owner_ok_def owners_def conn_event_def split: if_splits)

lemma owner_ok_release:
  assumes ok: "owner_ok h" and k: "k < length (hs_held h)"
  shows "owner_ok (release rt k h)"
proof -
  have "owners h = owners (h\<lparr>hs_held := take k (hs_held h) @ drop (Suc k) (hs_held h)\<rparr>) + (if owned (hs_held h ! k) then 1 else 0)"
    using filter_remove_nth[OF k, of owned] by (simp add: owners_def)
  with ok show ?thesis unfolding release_def
    by (intro drop_handle_ok) (auto simp: owner_ok_def owners_def split: if_splits)
qed

lemma owner_ok_end_task:
  assumes ok: "owner_ok h" and j: "j < length (hs_tasks h)"
  shows "owner_ok (end_task rt j h)"
proof -
  obtain a s where t: "hs_tasks h ! j = (a, s)" by fastforce
  let ?h = "h\<lparr>hs_tasks := take j (hs_tasks h) @ drop (Suc j) (hs_tasks h)\<rparr>"
  have "owners h = owners ?h + (if owned s then 1 else 0)"
    using filter_remove_nth[OF j, of "\<lambda>t. owned (snd t)"] t by (simp add: owners_def)
  with ok have "owner_ok (drop_handle rt s ?h)"
    by (intro drop_handle_ok) (auto simp: owner_ok_def owners_def split: if_splits)
  with t show ?thesis by (simp add: end_task_def task_guard_drop_def)
qed

lemma owner_ok_new_task:
  assumes ok: "owner_ok h"
  shows "owner_ok (snd (new_task rt a h))"
proof -
  obtain s h1 where s: "stream_handle a h = (s, h1)" by fastforce
  have n: "hs_owner h = Some (owners h)" using ok by (simp add: owner_ok_def)
  have f: "hs_held h1 = hs_held h" "hs_tasks h1 = hs_tasks h" "hs_conn h1 = hs_conn h" "hs_spawned h1 = hs_spawned h"
    "owned s = (0 < owners h)" "hs_owner h1 = Some (if 0 < owners h then Suc (owners h) else 0)"
    using stream_handle_fields[OF s, of "owners h"] n by simp_all
  have o: "owners h1 = owners h" by (simp add: owners_def f)
  show ?thesis
  proof (cases "a \<in> hs_active h1")
    case True
    have "owner_ok (drop_handle rt s h1)" using ok f o by (intro drop_handle_ok) (auto simp: owner_ok_def)
    with True s show ?thesis by (simp add: new_task_def)
  next
    case False
    with s ok f o show ?thesis by (auto simp: new_task_def owner_ok_def owners_def)
  qed
qed

lemma new_stream_flags:
  "new_stream c = (r, c') \<Longrightarrow> c_closing c' = c_closing c \<and> c_closed c' = c_closed c"
  by (auto simp: new_stream_def Let_def alloc_stream_def make_stream_def note_conn_failure_def
      split: if_splits option.splits prod.splits)

lemma owner_ok_op: "handle_op rt h h' \<Longrightarrow> owner_ok h \<Longrightarrow> owner_ok h'"
proof (induction rule: handle_op.induct)
  case (NewStream h)
  obtain r c where r: "new_stream (hs_conn h) = (r, c)" by fastforce
  obtain s h1 where s: "stream_handle r (h\<lparr>hs_conn := c\<rparr>) = (s, h1)" by fastforce
  note flags = new_stream_flags[OF r]
  from stream_handle_fields[OF s, of "owners h"] NewStream r s flags show ?case
    by (auto simp: new_stream_handle_def owner_ok_def owners_def)
next
  case (Clone s h)
  then have "0 < owners h" if "owned s" using that by (auto simp: owners_def filter_empty_conv length_0_conv)
  with Clone show ?case by (auto simp: clone_handle_def owner_ok_def owners_def)
next
  case (SpawnedClose h n)
  then show ?case using close_begin_closing[of "hs_conn h"] by (auto simp: owner_ok_def owners_def split: if_splits)
next
  case (SetContext h a ty v)
  then show ?case by (auto simp: owner_ok_def owners_def split: if_splits)
qed (simp_all add: owner_ok_release owner_ok_end_task owner_ok_new_task)

lemma tasks_ok_op: "handle_op rt h h' \<Longrightarrow> tasks_ok h \<Longrightarrow> tasks_ok h'"
proof (induction rule: handle_op.induct)
  case (NewStream h)
  obtain r c where r: "new_stream (hs_conn h) = (r, c)" by fastforce
  obtain s h1 where s: "stream_handle r (h\<lparr>hs_conn := c\<rparr>) = (s, h1)" by fastforce
  from stream_handle_fields[OF s] r s NewStream show ?case by (simp add: new_stream_handle_def tasks_ok_def)
next
  case (NewTask h a)
  obtain s h1 where s: "stream_handle a h = (s, h1)" by fastforce
  with stream_handle_fields[OF s] NewTask show ?case by (auto simp: new_task_def tasks_ok_def)
next
  case (EndTask j h)
  obtain a s where t: "hs_tasks h ! j = (a, s)" by fastforce
  let ?rest = "take j (hs_tasks h) @ drop (Suc j) (hs_tasks h)"
  have split: "hs_tasks h = take j (hs_tasks h) @ (a, s) # drop (Suc j) (hs_tasks h)"
    using id_take_nth_drop[OF EndTask(1)] t by simp
  from EndTask(2) have "distinct (map fst (take j (hs_tasks h) @ (a, s) # drop (Suc j) (hs_tasks h)))"
    "hs_active h = fst ` set (take j (hs_tasks h) @ (a, s) # drop (Suc j) (hs_tasks h))"
    unfolding tasks_ok_def split[symmetric] by simp_all
  then have "distinct (map fst ?rest)" "hs_active h - {a} = fst ` set ?rest" by auto
  with t show ?case by (simp add: end_task_def task_guard_drop_def tasks_ok_def)
qed (auto simp: tasks_ok_def clone_handle_def release_def)

lemma handle_step_ok:
  "handle_step rt h h' \<Longrightarrow> owner_ok h \<and> tasks_ok h \<Longrightarrow> owner_ok h' \<and> tasks_ok h'"
  by (erule handle_stepE) (auto intro: owner_ok_op owner_ok_event tasks_ok_op)

lemma new_owned_ok: "owner_ok (new_owned (new_handles c)) \<and> tasks_ok (new_owned (new_handles c))"
  by (simp add: new_owned_def new_handles_def owner_ok_def tasks_ok_def owners_def split: prod.split)

lemma handle_run_ok: "handle_run rt (new_owned (new_handles c)) h \<Longrightarrow> owner_ok h \<and> tasks_ok h"
  by (induction rule: rtranclp_induct) (auto simp: new_owned_ok dest: handle_step_ok)

text \<open>A drop that leaves an owner does not touch the connection.\<close>

lemma drop_handle_conn:
  "hs_owner h = Some (owners h + (if owned s then 1 else 0)) \<Longrightarrow> 0 < owners h \<Longrightarrow> hs_conn (drop_handle rt s h) = hs_conn h"
  by (auto simp: drop_handle_def Let_def split: option.split nat.split)

lemma release_conn:
  assumes "owner_ok h" "k < length (hs_held h)" "0 < owners (release rt k h)"
  shows "hs_conn (release rt k h) = hs_conn h"
proof -
  let ?h = "h\<lparr>hs_held := take k (hs_held h) @ drop (Suc k) (hs_held h)\<rparr>"
  have "owners h = owners ?h + (if owned (hs_held h ! k) then 1 else 0)"
    using filter_remove_nth[OF assms(2), of owned] by (simp add: owners_def)
  with assms(1,3) show ?thesis
    using drop_handle_conn[of ?h "hs_held h ! k" rt] by (simp add: release_def owner_ok_def)
qed

lemma end_task_conn:
  assumes "owner_ok h" "j < length (hs_tasks h)" "0 < owners (end_task rt j h)"
  shows "hs_conn (end_task rt j h) = hs_conn h"
proof -
  obtain a s where t: "hs_tasks h ! j = (a, s)" by fastforce
  let ?h = "h\<lparr>hs_tasks := take j (hs_tasks h) @ drop (Suc j) (hs_tasks h)\<rparr>"
  have "owners h = owners ?h + (if owned s then 1 else 0)"
    using filter_remove_nth[OF assms(2), of "\<lambda>t. owned (snd t)"] t by (simp add: owners_def)
  moreover have "0 < owners ?h" using assms(3) t by (simp add: end_task_def task_guard_drop_def owners_def)
  ultimately show ?thesis
    using drop_handle_conn[of ?h s rt] assms(1) t by (simp add: end_task_def task_guard_drop_def owner_ok_def)
qed

lemma new_task_conn:
  assumes "owner_ok h" "0 < owners h"
  shows "hs_conn (snd (new_task rt a h)) = hs_conn h"
proof -
  obtain s h1 where s: "stream_handle a h = (s, h1)" by fastforce
  with stream_handle_fields[OF s, of "owners h"] assms drop_handle_conn[of h1 s rt] show ?thesis
    by (auto simp: new_task_def owner_ok_def owners_def)
qed

lemma op_keeps_open:
  assumes "handle_op rt h h'" "owner_ok h" "0 < owners h" "0 < owners h'"
  shows "c_closing (hs_conn h') = c_closing (hs_conn h) \<and> c_closed (hs_conn h') = c_closed (hs_conn h)"
  using assms
proof (induction rule: handle_op.induct)
  case (NewStream h)
  obtain r c where r: "new_stream (hs_conn h) = (r, c)" by fastforce
  obtain s h1 where s: "stream_handle r (h\<lparr>hs_conn := c\<rparr>) = (s, h1)" by fastforce
  from stream_handle_fields[OF s] new_stream_flags[OF r] r s show ?case by (simp add: new_stream_handle_def)
qed (auto simp: release_conn end_task_conn new_task_conn clone_handle_def owner_ok_def)

text \<open>At most one task per stream context, and a new one exactly when there is none.\<close>

lemma one_handler_task:
  assumes "handle_run rt (new_owned (new_handles c)) h"
  shows "distinct (map fst (hs_tasks h)) \<and>
    fst (new_task rt a h) = (if a \<in> fst ` set (hs_tasks h) then Inl HandlerTaskBusy else Inr ())"
proof -
  obtain s h1 where s: "stream_handle a h = (s, h1)" by fastforce
  with handle_run_ok[OF assms] stream_handle_fields[OF s] show ?thesis by (simp add: new_task_def tasks_ok_def)
qed

text \<open>
  C37: The handles of a user keep a connection open, and the last of them closes it. However handles to
  the connection and its streams are made, cloned and dropped, and background tasks started and
  ended, the owner lives exactly as long as a handle or a task has it: nothing that is done to
  handles closes the connection as long as one is left, and once none is, exactly one close has been
  started.
\<close>

theorem open_while_held:
  assumes "handle_run rt (new_owned (new_handles c)) h"
  shows "hs_owner h = Some (owners h) \<and>
    (if owners h = 0 then hs_spawned h = 1 \<or> hs_spawned h = 0 \<and> (c_closing (hs_conn h) \<or> c_closed (hs_conn h))
     else hs_spawned h = 0 \<and> (\<forall>h'. handle_op rt h h' \<and> 0 < owners h' \<longrightarrow>
       c_closing (hs_conn h') = c_closing (hs_conn h) \<and> c_closed (hs_conn h') = c_closed (hs_conn h)))"
proof -
  have ok: "owner_ok h" using handle_run_ok[OF assms] by simp
  show ?thesis
  proof (cases "owners h = 0")
    case False
    then have "\<forall>h'. handle_op rt h h' \<and> 0 < owners h' \<longrightarrow>
      c_closing (hs_conn h') = c_closing (hs_conn h) \<and> c_closed (hs_conn h') = c_closed (hs_conn h)"
      using op_keeps_open[OF _ ok] by blast
    with False ok show ?thesis by (simp add: owner_ok_def)
  qed (use ok in \<open>simp add: owner_ok_def\<close>)
qed

text \<open>A stream is opened, and the connection's handle dropped; then the stream's.\<close>

definition ex_handles :: "(unit, unit, unit) handles" where
  "ex_handles = release True 0 (new_stream_handle (new_owned (new_handles (new_unstarted False False False))))"

lemma ex_handles_run:
  "length (hs_held ex_handles) = 1 \<and> owners ex_handles = 1 \<and> owners (release True 0 ex_handles) = 0 \<and>
   \<not> c_closing (hs_conn (release True 0 ex_handles)) \<and> \<not> c_closed (hs_conn (release True 0 ex_handles)) \<and>
   0 < length (hs_held (new_stream_handle (new_owned (new_handles (new_unstarted False False False)) :: (unit, unit, unit) handles)))"
  by code_simp

lemma open_while_held_witness:
  "hs_spawned ex_handles = 0 \<and> hs_spawned (release True 0 ex_handles) = 1"
proof -
  let ?h0 = "new_owned (new_handles (new_unstarted False False False)) :: (unit, unit, unit) handles"
  have "handle_step True ?h0 (new_stream_handle ?h0)" by (intro handle_step.Op handle_op.NewStream)
  moreover have "handle_step True (new_stream_handle ?h0) ex_handles"
    unfolding ex_handles_def using ex_handles_run by (intro handle_step.Op handle_op.Release) simp
  ultimately have one: "handle_run True ?h0 ex_handles" by (rule converse_rtranclp_into_rtranclp[OF _ r_into_rtranclp])
  have "handle_step True ex_handles (release True 0 ex_handles)"
    using ex_handles_run by (intro handle_step.Op handle_op.Release) simp
  with one have two: "handle_run True ?h0 (release True 0 ex_handles)" by (rule rtranclp.rtrancl_into_rtrancl)
  from open_while_held[OF one] open_while_held[OF two] ex_handles_run show ?thesis by simp
qed

end
