(* ===== verification/Sockets.thy ===== *)
theory Sockets
  imports Context Client
begin

text \<open>
  \<open>src/src/transport/tcp.rs\<close>, \<open>uds.rs\<close> and \<open>quic.rs\<close>: what the code does around the sockets. The calls
  of the operating system (through tokio) and of quinn are parameters, with the \<open>ErrorKind\<close> or, for
  quinn, the text of their errors as an outcome. What they do is not assumed, except where a lemma
  says so.
\<close>

section \<open>TCP\<close>

text \<open>The operator \<open>?\<close> on the result of an I/O call: the conversion to \<open>Error::Io\<close>.\<close>

definition io_result :: "io_kind + 'a \<Rightarrow> am_error + 'a" where
  "io_result res = (case res of Inl k \<Rightarrow> Inl (Io k) | Inr x \<Rightarrow> Inr x)"

text \<open>\<open>TcpStream::connect\<close>, \<open>TcpListener::bind\<close>, and \<open>set_nodelay\<close> with the socket after it.\<close>

record ('s, 'l) tcp_os =
  to_connect :: "string \<Rightarrow> io_kind + 's"
  to_bind :: "string \<Rightarrow> io_kind + 'l"
  to_set_nodelay :: "bool \<Rightarrow> 's \<Rightarrow> (io_kind + unit) \<times> 's"

definition tcp_dial :: "('s, 'l) tcp_os \<Rightarrow> string \<Rightarrow> am_error + 's" where
  "tcp_dial os addr = try_res (io_result (to_connect os addr)) (\<lambda>stream.
     case to_set_nodelay os True stream of (res, stream') \<Rightarrow>
       try_res (io_result res) (\<lambda>_. Inr stream'))"

definition tcp_listen :: "('s, 'l) tcp_os \<Rightarrow> string \<Rightarrow> am_error + 'l" where
  "tcp_listen os addr = io_result (to_bind os addr)"

text \<open>\<open>accepted\<close> is what \<open>accept\<close> of the listener returned: the socket and the text of the peer's address.\<close>

definition tcp_accept_stream :: "('s, 'l) tcp_os \<Rightarrow> io_kind + ('s \<times> string) \<Rightarrow> am_error + ('s \<times> string option)" where
  "tcp_accept_stream os accepted = try_res (io_result accepted) (\<lambda>(stream, peer_addr).
     Inr (snd (to_set_nodelay os True stream), Some peer_addr))"

section \<open>Unix sockets\<close>

record ('s, 'l) uds_os =
  uo_connect :: "string \<Rightarrow> io_kind + 's"
  uo_bind :: "string \<Rightarrow> io_kind + 'l"

definition uds_dial :: "bool \<Rightarrow> ('s, 'l) uds_os \<Rightarrow> string \<Rightarrow> am_error + 's" where
  "uds_dial linux os path = try_res (to_uds_path linux path) (\<lambda>p. io_result (uo_connect os p))"

definition uds_listen :: "bool \<Rightarrow> ('s, 'l) uds_os \<Rightarrow> string \<Rightarrow> am_error + 'l" where
  "uds_listen linux os path = try_res (to_uds_path linux path) (\<lambda>p. io_result (uo_bind os p))"

definition uds_accept_stream :: "io_kind + ('s \<times> uds_addr) \<Rightarrow> am_error + ('s \<times> string option)" where
  "uds_accept_stream accepted = try_res (io_result accepted) (\<lambda>(stream, peer). Inr (stream, peer_name peer))"

section \<open>The two ends of an address\<close>

text \<open>
  The features of the crate, the platform, and the operating system. \<open>sk_tcp_parts\<close> and \<open>sk_uds_parts\<close>
  split a socket into its halves and put the buffers around them (\<open>into_split\<close> and \<open>parts\<close>): the reader
  and the writer of \<open>ByteIO\<close>.
\<close>

record ('t, 'tl, 'u, 'ul) sockets =
  sk_feature_tcp :: bool
  sk_feature_uds :: bool
  sk_linux :: bool
  sk_tcp :: "('t, 'tl) tcp_os"
  sk_uds :: "('u, 'ul) uds_os"
  sk_tcp_parts :: "'t \<Rightarrow> reader \<times> writer"
  sk_uds_parts :: "'u \<Rightarrow> reader \<times> writer"

text \<open>\<open>transport::dial\<close>.\<close>

definition dial_socket :: "('t, 'tl, 'u, 'ul) sockets \<Rightarrow> string \<Rightarrow> am_error + (reader \<times> writer)" where
  "dial_socket sk = dial (sk_feature_tcp sk) (sk_feature_uds sk)
     (\<lambda>addr. try_res (tcp_dial (sk_tcp sk) addr) (\<lambda>s. Inr (sk_tcp_parts sk s)))
     (\<lambda>path. try_res (uds_dial (sk_linux sk) (sk_uds sk) path) (\<lambda>s. Inr (sk_uds_parts sk s)))"

text \<open>The listener that \<open>serve_tcp\<close> and \<open>serve_uds\<close> of \<open>src/src/server.rs\<close> bind, and what their closures accept.\<close>

datatype ('tl, 'ul) listener = TcpListener 'tl | UdsListener 'ul

definition serve_listen :: "('t, 'tl, 'u, 'ul) sockets \<Rightarrow> string \<Rightarrow> am_error + ('tl, 'ul) listener" where
  "serve_listen sk addr = (case parse_endpoint addr of
     EndpointTcp a \<Rightarrow>
       if sk_feature_tcp sk then try_res (tcp_listen (sk_tcp sk) a) (\<lambda>l. Inr (TcpListener l))
       else Inl (not_enabled (EndpointTcp a))
   | EndpointUds path \<Rightarrow>
       if sk_feature_uds sk then try_res (uds_listen (sk_linux sk) (sk_uds sk) path) (\<lambda>l. Inr (UdsListener l))
       else Inl (not_enabled (EndpointUds path)))"

type_synonym accepted = "am_error + (reader \<times> writer) \<times> string option"

definition serve_tcp_accept :: "('t, 'tl, 'u, 'ul) sockets \<Rightarrow> io_kind + ('t \<times> string) \<Rightarrow> accepted" where
  "serve_tcp_accept sk accepted = try_res (tcp_accept_stream (sk_tcp sk) accepted)
     (\<lambda>(stream, peer_addr). Inr (sk_tcp_parts sk stream, peer_addr))"

definition serve_uds_accept :: "('t, 'tl, 'u, 'ul) sockets \<Rightarrow> io_kind + ('u \<times> uds_addr) \<Rightarrow> accepted" where
  "serve_uds_accept sk accepted = try_res (uds_accept_stream accepted)
     (\<lambda>(stream, peer_addr). Inr (sk_uds_parts sk stream, peer_addr))"

text \<open>
  A client that dials the address on which a server listens reaches its listener, with any scheme in
  front: if the system connects to what it has bound, a dial fails only where the listening failed
  (and the other way round), with the same error if that is for the address.
\<close>

definition bound :: "('t, 'tl, 'u, 'ul) sockets \<Rightarrow> bool" where
  "bound sk \<longleftrightarrow> (\<forall>a l. to_bind (sk_tcp sk) a = Inr l \<longrightarrow>
       (\<exists>s s'. to_connect (sk_tcp sk) a = Inr s \<and> to_set_nodelay (sk_tcp sk) True s = (Inr (), s'))) \<and>
     (\<forall>p l. uo_bind (sk_uds sk) p = Inr l \<longrightarrow> (\<exists>s. uo_connect (sk_uds sk) p = Inr s))"

lemma io_result_simps [simp]: "io_result (Inl k) = Inl (Io k)" "io_result (Inr x) = Inr x"
  by (simp_all add: io_result_def)

lemma io_result_Inr [simp]: "io_result res = Inr x \<longleftrightarrow> res = Inr x"
  by (cases res) simp_all

lemma io_result_Inl [simp]: "io_result res = Inl e \<longleftrightarrow> (\<exists>k. res = Inl k \<and> e = Io k)"
  by (cases res) auto

lemmas socket_defs = serve_listen_def dial_socket_def dial_def tcp_listen_def tcp_dial_def uds_listen_def uds_dial_def

lemma dial_reaches_listener:
  assumes sk: "bound sk" and l: "serve_listen sk addr = Inr l"
  shows "\<exists>parts. dial_socket sk addr = Inr parts"
proof (cases "parse_endpoint addr")
  case (EndpointTcp a)
  with l obtain t where "to_bind (sk_tcp sk) a = Inr t" "sk_feature_tcp sk"
    by (auto simp: socket_defs try_res_Inr_iff split: if_splits)
  with sk EndpointTcp show ?thesis by (fastforce simp: socket_defs bound_def)
next
  case (EndpointUds path)
  with l obtain p u where "to_uds_path (sk_linux sk) path = Inr p" "uo_bind (sk_uds sk) p = Inr u" "sk_feature_uds sk"
    by (auto simp: socket_defs try_res_Inr_iff split: if_splits)
  with sk EndpointUds show ?thesis by (fastforce simp: socket_defs bound_def)
qed

lemma disabled_at_both_ends:
  assumes "serve_listen sk addr = Inl (UnsupportedTransport text)"
  shows "dial_socket sk addr = Inl (UnsupportedTransport text)"
proof -
  have "to_uds_path linux path \<noteq> Inl (UnsupportedTransport text)" for linux path
    by (induction linux path rule: to_uds_path.induct)
      (subst to_uds_path.simps, auto simp: abstract_uds_def split: option.split)
  with assms show ?thesis
    by (auto simp: socket_defs try_res_Inl_iff not_enabled_def split: endpoint.splits if_splits)
qed

section \<open>QUIC\<close>

text \<open>\<open>to_io_err\<close>: the text of an error becomes an I/O error of the kind \<open>Other\<close>.\<close>

definition to_io_err :: "string + 'a \<Rightarrow> am_error + 'a" where
  "to_io_err res = (case res of Inl text \<Rightarrow> Inl (Io (OtherIo text)) | Inr x \<Rightarrow> Inr x)"

text \<open>
  What quinn and the standard library answer: the parsed address, the connection begun and
  established, and the two halves of the first bidirectional stream.
\<close>

record ('a, 'p, 'q) quic_net =
  qn_parse :: "string \<Rightarrow> string + 'a"
  qn_connect :: "'a \<Rightarrow> string \<Rightarrow> string + 'p"
  qn_established :: "'p \<Rightarrow> string + 'q"
  qn_open_bi :: "'q \<Rightarrow> string + (reader \<times> writer)"

text \<open>
  The end of \<open>connect\<close> and \<open>accept\<close>: a connection that was never attached by recovery is started with
  what the handshake gave, and the handle returned owns it.
\<close>

definition quic_start :: "codec_registry \<Rightarrow> bool \<Rightarrow> am_error + (handshake_config \<times> reader) \<Rightarrow> writer \<Rightarrow>
    am_error + (u64 \<times> reader) option \<times> ('v, 'r, 'j) handles" where
  "quic_start reg has_handlers handshake w = try_res handshake (\<lambda>(hc, r).
     try_res (start_with_config reg hc None 0 r w (new_unstarted has_handlers False False))
       (\<lambda>(started, c). Inr (started, new_owned (new_handles c))))"

definition quic_connect :: "('a, 'p, 'q) quic_net \<Rightarrow> codec_registry \<Rightarrow> bool \<Rightarrow> codec_id list \<Rightarrow> u32 \<Rightarrow> string \<Rightarrow>
    string \<Rightarrow> am_error + (u64 \<times> reader) option \<times> ('v, 'r, 'j) handles" where
  "quic_connect net reg has_handlers codecs max_frame addr server_name =
     try_res (to_io_err (qn_parse net addr)) (\<lambda>a.
     try_res (to_io_err (qn_connect net a server_name)) (\<lambda>connecting.
     try_res (to_io_err (qn_established net connecting)) (\<lambda>conn.
     try_res (to_io_err (qn_open_bi net conn)) (\<lambda>(recv, send).
       case handshake_client reg codecs max_frame PROTOCOL_VERSION_V2 recv send of
         (handshake, w) \<Rightarrow> quic_start reg has_handlers handshake w))))"

text \<open>\<open>incoming\<close> is what \<open>Endpoint::accept\<close> gave (nothing once the endpoint is closed), and so on.\<close>

definition quic_accept :: "'i option \<Rightarrow> ('i \<Rightarrow> string + 'q) \<Rightarrow> ('q \<Rightarrow> string + (reader \<times> writer)) \<Rightarrow> codec_registry \<Rightarrow>
    bool \<Rightarrow> codec_id list \<Rightarrow> u32 \<Rightarrow> am_error + (u64 \<times> reader) option \<times> ('v, 'r, 'j) handles" where
  "quic_accept accepted established accept_bi reg has_handlers codecs max_frame =
     try_res (case accepted of None \<Rightarrow> Inl (Io UnexpectedEof) | Some incoming \<Rightarrow> Inr incoming) (\<lambda>incoming.
     try_res (to_io_err (established incoming)) (\<lambda>conn.
     try_res (to_io_err (accept_bi conn)) (\<lambda>(recv, send).
       case handshake_server reg codecs max_frame False recv send of
         (handshake, w) \<Rightarrow> quic_start reg has_handlers handshake w)))"

lemma to_io_err_Inr [simp]: "to_io_err res = Inr x \<longleftrightarrow> res = Inr x"
  by (simp add: to_io_err_def split: sum.split)

lemma default_stream_keeps:
  fixes c :: "('r, 'j) connection"
  shows "c_config (snd (default_stream c)) = c_config c \<and> c_recovery (snd (default_stream c)) = c_recovery c \<and>
    c_writer_started (snd (default_stream c)) = c_writer_started c \<and> c_closed (snd (default_stream c)) = c_closed c"
  by (simp add: default_stream_def get_stream_ctx_def make_stream_def alloc_stream_def Let_def
      split: option.split prod.split)

text \<open>
  A connection over QUIC is as the handshake agreed, has no recovery, is open and started, and is
  owned by the one handle returned.
\<close>

lemma quic_start_ok:
  fixes hs :: "('v, 'r, 'j) handles"
  assumes "quic_start reg h (Inr (hc, r)) w = Inr (started, hs)"
  shows "build_config reg hc = Inr (config (hs_conn hs)) \<and> c_recovery (hs_conn hs) = None \<and>
    c_writer_started (hs_conn hs) \<and> \<not> c_closed (hs_conn hs) \<and> started \<noteq> None \<and> owner_ok hs \<and> owners hs = 1"
proof -
  from assms obtain c where s: "start_with_config reg hc None 0 r w (new_unstarted h False False) = Inr (started, c)"
    and hs: "hs = new_owned (new_handles c)"
    by (auto simp: quic_start_def try_res_Inr_iff)
  from s have c: "c_config c \<noteq> None" "build_config reg hc = Inr (config c)" "c_recovery c = None" "c_writer_started c"
    "\<not> c_closed c" "started \<noteq> None"
    by (auto simp: start_with_config_def try_res_Inr_iff attach_transport_parts_def new_unstarted_def Let_def
        abort_reader_def signal_send_def config_def)
  have conn: "hs_conn hs = snd (default_stream c)" "owners hs = 1"
    by (simp_all add: hs new_owned_def new_handles_def owners_def split: prod.split)
  from c default_stream_keeps[of c] have "config (hs_conn hs) = config c" by (simp add: conn(1) config_def)
  moreover have "owner_ok hs" unfolding hs using new_owned_ok by blast
  ultimately show ?thesis using c default_stream_keeps[of c] conn by simp
qed

lemma quic_start_arg:
  assumes "(case res of (x, w) \<Rightarrow> quic_start reg h x w) = Inr (started, hs)"
  obtains hc r w where "res = (Inr (hc, r), w)" "quic_start reg h (Inr (hc, r)) w = Inr (started, hs)"
  using assms by (cases res; cases "fst res") (auto simp: quic_start_def)

text \<open>Both ends of a QUIC stream are of version 2, whatever the other one sends.\<close>

lemma quic_version:
  assumes "quic_connect net reg h codecs mx addr name = Inr (started, hs)"
  shows "cc_version (config (hs_conn hs)) = PROTOCOL_VERSION_V2 \<and> cc_codec_id (config (hs_conn hs)) \<in> set codecs"
proof -
  from assms obtain recv send where
    "(case handshake_client reg codecs mx PROTOCOL_VERSION_V2 recv send of (x, w) \<Rightarrow> quic_start reg h x w) = Inr (started, hs)"
    by (auto simp: quic_connect_def try_res_Inr_iff simp del: split_paired_Ex)
  then obtain hc r w where
    hs: "handshake_client reg codecs mx PROTOCOL_VERSION_V2 recv send = (Inr (hc, r), w)"
      "quic_start reg h (Inr (hc, r)) w = Inr (started, hs)"
    by (rule quic_start_arg)
  have "handshake_client_reply reg codecs PROTOCOL_VERSION_V2 recv = Inr (hc, r)"
    using hs(1) by (auto simp: handshake_client_def split: sum.splits if_splits prod.splits)
  note reply = handshake_client_reply_Inr[OF this]
  from quic_start_ok[OF hs(2)] reply show ?thesis by (auto dest: build_config_fields)
qed

lemma quic_accept_version:
  assumes "quic_accept a est bi reg h codecs mx = Inr (started, hs)"
  shows "cc_version (config (hs_conn hs)) = PROTOCOL_VERSION_V2 \<and> cc_codec_id (config (hs_conn hs)) \<in> set codecs \<and>
    cc_max_frame (config (hs_conn hs)) \<le> mx"
proof -
  from assms obtain recv send where
    "(case handshake_server reg codecs mx False recv send of (x, w) \<Rightarrow> quic_start reg h x w) = Inr (started, hs)"
    by (auto simp: quic_accept_def try_res_Inr_iff simp del: split_paired_Ex)
  then obtain hc r w where
    hs: "handshake_server reg codecs mx False recv send = (Inr (hc, r), w)"
      "quic_start reg h (Inr (hc, r)) w = Inr (started, hs)"
    by (rule quic_start_arg)
  from handshake_server_Inr[OF hs(1)] quic_start_ok[OF hs(2)] show ?thesis
    by (auto simp: is_supported_protocol_version_def dest: build_config_fields)
qed

end
