(* ===== verification/ServeLoop.thy ===== *)
theory ServeLoop
  imports Sockets ServerGuarantees
begin

text \<open>
  \<open>serve\<close>, \<open>serve_with_shutdown\<close> and \<open>serve_with_accept\<close> of \<open>src/src/server.rs\<close>: from the address to the
  return. The loop runs with the tasks that it has spawned (\<open>Server\<close>), in any order.
\<close>

section \<open>The loop\<close>

text \<open>
  What the loop waits for: a connection or the signal (with the \<open>backoff\<close> of the last failures), the end
  of a sleep, the end of all tasks of its \<open>JoinSet\<close>; or it has returned \<open>Ok\<close>.
\<close>

datatype serve_phase = Accepting duration | BackingOff duration nat | Draining | ServeReturned

fun task_ended :: "serve_task \<Rightarrow> bool" where
  "task_ended (TaskEnded w) = True"
| "task_ended _ = False"

text \<open>
  A turn: whether the signal is there, what \<open>accept\<close> gave if it is ready, and whether the tasks that
  close connections (those already begun) have ended. Both \<open>select!\<close> look at the signal first.
\<close>

definition serve_turn :: "server \<Rightarrow> nat \<Rightarrow> bool \<Rightarrow> accepted option \<Rightarrow> bool \<Rightarrow> serve_phase \<times> ('r, 'j) serving \<Rightarrow>
    serve_phase \<times> ('r, 'j) serving" where
  "serve_turn sv latest signal accepted closers_ended = (\<lambda>(phase, g). case phase of
     Accepting backoff \<Rightarrow>
       if signal then (Draining, stop g)
       else (case accepted of
           None \<Rightarrow> (Accepting backoff, g)
         | Some res \<Rightarrow> (case accept_result res backoff of
             (Serve ((r, w), peer_addr), b) \<Rightarrow> (Accepting b, accept_conn sv latest r w g)
           | (AcceptAgain, b) \<Rightarrow> (Accepting b, g)
           | (AcceptAfter d, b) \<Rightarrow> (BackingOff b (sg_now g + d), g)))
   | BackingOff backoff until \<Rightarrow>
       if signal then (Draining, stop g)
       else if until \<le> sg_now g then (Accepting backoff, g) else (BackingOff backoff until, g)
   | Draining \<Rightarrow>
       if list_all task_ended (sg_tasks g) \<and> sg_closers g = [] \<and> closers_ended then (ServeReturned, g) else (Draining, g)
   | ServeReturned \<Rightarrow> (ServeReturned, g))"

text \<open>Before the loop: the address is parsed and the listener bound, or the error returned.\<close>

definition serve_with_shutdown :: "('t, 'tl, 'u, 'ul) sockets \<Rightarrow> string \<Rightarrow>
    am_error + ('tl, 'ul) listener \<times> serve_phase \<times> ('r, 'j) serving" where
  "serve_with_shutdown sk addr = try_res (serve_listen sk addr) (\<lambda>l. Inr (l, Accepting 0, serving_init))"

text \<open>
  The loop with its tasks. \<open>sig\<close> tells whether there may be a signal: \<open>serve\<close> waits for one that never
  comes. A task is any step of the server but those of the loop itself.
\<close>

inductive loop_step :: "server \<Rightarrow> codec_registry \<Rightarrow> nat \<Rightarrow> bool \<Rightarrow> serve_phase \<times> ('r, 'j) serving \<Rightarrow>
    serve_phase \<times> ('r, 'j) serving \<Rightarrow> bool" for sv reg latest sig where
  Turn: "(signal \<Longrightarrow> sig) \<Longrightarrow> loop_step sv reg latest sig s (serve_turn sv latest signal accepted closers_ended s)"
| Task: "serve_step sv reg latest g g' \<Longrightarrow> stopped g' = stopped g \<Longrightarrow> length (sg_conns g') = length (sg_conns g) \<Longrightarrow>
    loop_step sv reg latest sig (phase, g) (phase, g')"

abbreviation loop_run where "loop_run sv reg latest sig \<equiv> (loop_step sv reg latest sig)\<^sup>*\<^sup>*"

section \<open>The loop follows the steps of the server\<close>

definition phase_ok :: "bool \<Rightarrow> serve_phase \<Rightarrow> ('r, 'j) serving \<Rightarrow> bool" where
  "phase_ok sig phase g \<longleftrightarrow> (case phase of
     Accepting b \<Rightarrow> \<not> stopped g
   | BackingOff b until \<Rightarrow> \<not> stopped g
   | Draining \<Rightarrow> stopped g \<and> sig
   | ServeReturned \<Rightarrow> stopped g \<and> sig \<and> list_all task_ended (sg_tasks g) \<and> sg_closers g = [])"

lemma turn_steps:
  assumes "phase_ok sig phase g" "serve_turn sv latest signal accepted closers_ended (phase, g) = (phase', g')"
  shows "(serve_step sv reg latest)\<^sup>*\<^sup>* g g'"
proof -
  consider "g' = g" | "g' = stop g" | r w where "\<not> stopped g" "g' = accept_conn sv latest r w g"
    using assms by (fastforce simp: serve_turn_def phase_ok_def split: serve_phase.splits option.splits if_splits
        prod.splits accept_action.splits)
  then show ?thesis
    by cases (auto intro: serve_step.Stop serve_step.Accept)
qed

text \<open>A task that has ended stays so, and after that no connection of the stop is left to be closed.\<close>

lemma ended_stays:
  assumes "serve_step sv reg latest g g'" "list_all task_ended (sg_tasks g)" "sg_closers g = []" "stopped g"
    "length (sg_conns g') = length (sg_conns g)"
  shows "list_all task_ended (sg_tasks g') \<and> sg_closers g' = []"
  using assms(1)
proof (cases rule: serve_step.cases)
  case (Task i inp)
  with assms(2) obtain w where "sg_tasks g ! i = TaskEnded w"
    by (auto simp: list_all_length elim!: task_ended.elims(2))
  with Task assms(2,3) show ?thesis by (simp add: handle_conn_def)
qed (use assms in \<open>auto simp: stop_def\<close>)

lemma turn_ok:
  assumes "phase_ok sig phase g" "signal \<Longrightarrow> sig" "serve_turn sv latest signal accepted closers_ended (phase, g) = (phase', g')"
  shows "phase_ok sig phase' g'"
  using assms
  by (auto simp: serve_turn_def phase_ok_def stop_def accept_conn_def Let_def split: serve_phase.splits option.splits if_splits
      prod.splits accept_action.splits)

lemma loop_step_ok:
  assumes "loop_step sv reg latest sig s s'" "phase_ok sig (fst s) (snd s)"
  shows "phase_ok sig (fst s') (snd s') \<and> (serve_step sv reg latest)\<^sup>*\<^sup>* (snd s) (snd s')"
  using assms
proof (cases rule: loop_step.cases)
  case (Turn signal accepted closers_ended)
  obtain phase' g' where "serve_turn sv latest signal accepted closers_ended (fst s, snd s) = (phase', g')" by fastforce
  with Turn turn_ok turn_steps assms(2) show ?thesis by (metis fst_conv snd_conv prod.collapse)
next
  case (Task g g' phase)
  with assms(2) ended_stays[OF Task(3)] show ?thesis
    by (auto simp: phase_ok_def split: serve_phase.splits)
qed

lemma loop_run_ok:
  assumes "loop_run sv reg latest sig (Accepting 0, serving_init) s"
  shows "phase_ok sig (fst s) (snd s) \<and> (serve_step sv reg latest)\<^sup>*\<^sup>* serving_init (snd s)"
  using assms
proof induction
  case base
  show ?case by (simp add: phase_ok_def serving_init_def)
next
  case (step s s')
  with loop_step_ok show ?case by (meson rtranclp_trans)
qed

text \<open>
  C14: When \<open>serve_with_shutdown\<close> returns, its signal was there, and nothing is left: every connection it
  accepted was refused, resumed another one, or is closed, with its \<open>on_disconnect\<close> run; no task is left
  that would close one; and no connection can be resumed. So \<open>serve\<close>, without a signal, never returns
  once it listens.
\<close>

theorem serve_returns_when_all_closed:
  assumes "loop_run sv reg latest sig (Accepting 0, serving_init) (ServeReturned, g)"
  shows "sig \<and> stopped g \<and> sg_closers g = [] \<and> (\<forall>cid. map_of (sg_registry g) cid = None) \<and>
    (\<forall>i < length (sg_conns g). (\<exists>w. sg_tasks g ! i = TaskEnded w) \<and>
       (c_writer_started (conn_at g i) \<longrightarrow> c_closed (conn_at g i) \<and>
          (sv_on_disconnect sv \<longrightarrow> i \<in> set (sg_disconnected g))))"
proof -
  from loop_run_ok[OF assms] have phase: "phase_ok sig ServeReturned g" and inv: "serve_inv sv g"
    using serve_run_inv by auto
  have ended: "\<exists>w. sg_tasks g ! i = TaskEnded w" if "i < length (sg_conns g)" for i
    using phase that inv_conn(3)[OF inv that] by (auto simp: phase_ok_def list_all_length elim!: task_ended.elims(2))
  have closed: "c_writer_started (conn_at g i) \<longrightarrow> c_closed (conn_at g i) \<and> (sv_on_disconnect sv \<longrightarrow> i \<in> set (sg_disconnected g))"
    if "i < length (sg_conns g)" for i
    using ended[OF that] inv_conn(2)[OF inv that] by (auto simp: task_ok_def Let_def)
  have "map_of (sg_registry g) cid = None" for cid
  proof (rule ccontr)
    assume "map_of (sg_registry g) cid \<noteq> None"
    then obtain j where j: "map_of (sg_registry g) cid = Some j" by auto
    from inv_entry[OF inv j] have lt: "j < length (sg_conns g)" and e: "entry_ok g cid j" by simp_all
    with ended[OF lt] obtain rs where "c_recovery (conn_at g j) = Some rs" "\<not> c_closed (conn_at g j)"
      by (auto simp: entry_ok_def)
    with inv_conn(1)[OF inv lt] closed[OF lt] show False by (auto simp: conn_ok_def Let_def)
  qed
  with phase ended closed show ?thesis by (simp add: phase_ok_def)
qed

text \<open>A schedule that accepts a connection with recovery, is told to stop, closes it and returns.\<close>

datatype loop_action = LTurn bool "accepted option" bool | LMove serve_action

fun loop_move :: "server \<Rightarrow> codec_registry \<Rightarrow> loop_action \<Rightarrow> serve_phase \<times> ('r, 'j) serving \<Rightarrow>
    (serve_phase \<times> ('r, 'j) serving) option" where
  "loop_move sv reg (LTurn signal accepted e) s = Some (serve_turn sv 0 signal accepted e s)"
| "loop_move sv reg (LMove m) (phase, g) = (case serve_move sv reg m g of
     None \<Rightarrow> None
   | Some g' \<Rightarrow> if stopped g' = stopped g \<and> length (sg_conns g') = length (sg_conns g) then Some (phase, g') else None)"

fun loop_moves :: "server \<Rightarrow> codec_registry \<Rightarrow> loop_action list \<Rightarrow> serve_phase \<times> ('r, 'j) serving \<Rightarrow>
    (serve_phase \<times> ('r, 'j) serving) option" where
  "loop_moves sv reg [] s = Some s"
| "loop_moves sv reg (m # ms) s = (case loop_move sv reg m s of None \<Rightarrow> None | Some s' \<Rightarrow> loop_moves sv reg ms s')"

lemma loop_move_step: "loop_move sv reg m s = Some s' \<Longrightarrow> loop_step sv reg 0 True s s'"
  by (cases "(sv, reg, m, s)" rule: loop_move.cases)
    (auto intro: loop_step.intros serve_move_step split: option.splits if_splits)

lemma loop_moves_run: "loop_moves sv reg ms s = Some s' \<Longrightarrow> loop_run sv reg 0 True s s'"
proof (induction ms arbitrary: s)
  case (Cons m ms)
  then obtain s1 where "loop_move sv reg m s = Some s1" "loop_moves sv reg ms s1 = Some s'"
    by (auto split: option.splits)
  with Cons.IH loop_move_step show ?case by (metis converse_rtranclp_into_rtranclp)
qed simp

definition ex_returned :: "(serve_phase \<times> (unit, unit) serving) option" where
  "ex_returned = loop_moves ex_server ex_codecs
     [LTurn False (Some (Inr ((ex_reader (ex_request PROTOCOL_VERSION_V3 @ ex_attach_new), ex_writer), None))) False,
      LMove (MTask ex_input 0), LMove (MTask ex_input 0), LMove (MTask ex_input2 0), LMove (MTask ex_input2 0),
      LTurn True None False, LMove MCloseFirst, LMove (MConnClosed 0), LMove (MTask ex_input2 0), LTurn True None True]
     (Accepting 0, serving_init)"

lemma ex_returned_facts:
  "ex_returned \<noteq> None \<and> (case fst (the ex_returned) of ServeReturned \<Rightarrow> True | _ \<Rightarrow> False) \<and>
     length (sg_conns (snd (the ex_returned))) = 1 \<and> c_writer_started (conn_at (snd (the ex_returned)) 0)"
  by code_simp

lemma serve_returns_when_all_closed_witness:
  "length (sg_conns (snd (the ex_returned))) = 1 \<and> c_closed (conn_at (snd (the ex_returned)) 0) \<and>
     0 \<in> set (sg_disconnected (snd (the ex_returned)))"
proof -
  note facts = ex_returned_facts
  obtain p g where e: "ex_returned = Some (p, g)" using facts by (cases ex_returned) auto
  have "case fst (the ex_returned) of ServeReturned \<Rightarrow> True | _ \<Rightarrow> False" using facts by blast
  then have "case p of ServeReturned \<Rightarrow> True | _ \<Rightarrow> False" by (simp only: e option.sel fst_conv)
  then have "p = ServeReturned" by (cases p) simp_all
  then have "ex_returned = Some (ServeReturned, snd (the ex_returned))" unfolding e by simp
  then have "loop_run ex_server ex_codecs 0 True (Accepting 0, serving_init) (ServeReturned, snd (the ex_returned))"
    unfolding ex_returned_def[symmetric] using loop_moves_run ex_returned_def by metis
  from serve_returns_when_all_closed[OF this] facts show ?thesis
    by (auto simp: ex_server_def server_with_recovery_def)
qed

end
