(* ===== verification/OnceConn.thy ===== *)
theory OnceConn
  imports ClientProperties Context
begin

text \<open>
  \<open>connect_once\<close> and \<open>OnceConn\<close> of \<open>src/src/client.rs\<close>: one request and its reply on a connection of its
  own. The connection is the one of \<open>Client\<close>, the request \<open>send_recv\<close> of \<open>Stream\<close>.
\<close>

section \<open>The call\<close>

record once_conn =
  oc_client :: client
  oc_addr :: string

definition connect_once :: "client \<Rightarrow> string \<Rightarrow> once_conn" where
  "connect_once cl addr = \<lparr>oc_client = cl, oc_addr = addr\<rparr>"

text \<open>
  \<open>OnceConn::send_recv\<close>: it connects (\<open>env\<close> tells what the network does with the dials to an address),
  begins the request on the default stream, and, with whatever \<open>send_recv\<close> gave, closes the connection
  at once. An error of the connecting is returned; a \<open>None\<close> is a connecting that never ends.
\<close>

definition once_connect :: "codec_registry \<Rightarrow> nat \<Rightarrow> (string \<Rightarrow> nat \<Rightarrow> dial_env) \<Rightarrow> nat \<Rightarrow> once_conn \<Rightarrow>
    ('r, 'j) started outcome option" where
  "once_connect reg latest env now oc = connect_with (oc_client oc) reg latest (env (oc_addr oc)) False now"

definition once_begin :: "('r, 'j, 'm) stream_env \<Rightarrow> 'm \<Rightarrow> ('r, 'j) connection \<Rightarrow> nat \<times> enqueue_state \<times> ('r, 'j) connection" where
  "once_begin env msg c = (case default_stream c of (r, c1) \<Rightarrow> (r, send_recv_begin env msg r c1))"

definition once_end :: "am_error + 't \<Rightarrow> ('r, 'j) connection \<Rightarrow> (am_error + 't) \<times> ('r, 'j) connection" where
  "once_end result c = (result, mark_closed c)"

section \<open>What it keeps to\<close>

text \<open>Its connection never has recovery, whatever the settings of the client and the server.\<close>

lemma start_or_error_plain:
  assumes "start_or_error reg hc None n r w (pending_client cl) = Inr (s, c)"
  shows "c_recovery c = None \<and> build_config reg hc = Inr (config c)"
  using assms
  by (auto simp: start_or_error_def start_with_config_def try_res_Inr_iff attach_transport_parts_def pending_client_def
      set_stream_queue_size_def set_default_recv_timeout_def new_unstarted_def Let_def abort_reader_def
      signal_send_def config_def split: sum.splits option.splits if_splits)

lemma connect_version_plain:
  assumes "connect_version cl reg PROTOCOL_VERSION_V2 deadline now env = Some (t, Inr (s, c))"
  shows "c_recovery c = None \<and> cc_version (config c) = PROTOCOL_VERSION_V2"
proof -
  have v: "hc_version hc = PROTOCOL_VERSION_V2"
    if "handshake_client reg ccs mx PROTOCOL_VERSION_V2 r w = (hs, w1)"
      "before deadline t0 (map_option (\<lambda>d. (d, hs)) fut) = Some (t1, Inr (hc, r1))" for ccs mx r w hs w1 t0 fut t1 hc r1
  proof -
    have "hs = Inr (hc, r1)" using that(2) by (auto simp: before_def split: option.splits if_splits)
    with that(1) have "handshake_client_reply reg ccs PROTOCOL_VERSION_V2 r = Inr (hc, r1)"
      by (auto simp: handshake_client_def split: sum.splits if_splits prod.splits)
    then show ?thesis by (rule handshake_client_reply_Inr)
  qed
  from assms show ?thesis
  proof (cases rule: connect_version_cases)
    case (plain t0 r w hs w1 hc r1)
    from v[OF plain(2,3)] start_or_error_plain[OF plain(5)[symmetric]] show ?thesis
      by (auto dest: build_config_fields)
  next
    case (recovery t0 t1 r w hs w1 hc r1 at w2 resp r2)
    from v[OF recovery(2,3)] recovery(4) show ?thesis by (simp add: PROTOCOL_VERSION_V2_def PROTOCOL_VERSION_V3_def)
  qed (simp_all split: if_splits)
qed

lemma connect_attempt_plain:
  assumes "connect_attempt cl reg False deadline env now k = Some (t, k', Inr (s, c))"
  shows "c_recovery c = None \<and> cc_version (config c) = PROTOCOL_VERSION_V2"
  using assms
  by (auto simp: connect_attempt_def PROTOCOL_VERSION_V2_def[symmetric] dest: connect_version_plain
      split: option.splits prod.splits sum.splits if_splits)

definition plain_result :: "nat \<times> (am_error + ('r, 'j) started) \<Rightarrow> bool" where
  "plain_result y = (case y of
     (t, Inr (s, c)) \<Rightarrow> c_recovery c = None \<and> cc_version (config c) = PROTOCOL_VERSION_V2 | _ \<Rightarrow> True)"

lemma connect_loop_plain:
  fixes y :: "nat \<times> (am_error + ('r, 'j) started)"
  assumes "connect_loop cl reg use_recovery deadline env now k backoff last_err = Some y"
  shows "\<not> use_recovery \<longrightarrow> plain_result y"
  using assms
proof (rule connect_loop.raw_induct[where P = "\<lambda>cl reg use_recovery deadline env now k backoff last_err y.
    \<not> use_recovery \<longrightarrow> plain_result y", rotated], goal_cases)
  case (1 loop cl reg use_recovery deadline env now k backoff last_err y)
  show ?case
  proof
    assume no: "\<not> use_recovery"
    with 1(2) obtain t k' and res :: "connect_error + ('r, 'j) started" where
      a: "connect_attempt cl reg False deadline env now k = Some (t, k', res)"
      by (auto split: option.splits)
    show "plain_result y"
    proof (cases res)
      case (Inl e)
      with a no 1 show ?thesis by (cases e) (auto simp: plain_result_def split: option.splits)
    next
      case (Inr x)
      with a no 1(2) connect_attempt_plain[of cl reg deadline env now k t k' "fst x" "snd x"] show ?thesis
        by (auto simp: plain_result_def)
    qed
  qed
qed

lemma once_never_recovers:
  assumes "once_connect reg latest env now (connect_once cl addr) = Some (Returns t (Inr (s, c)))"
  shows "c_recovery c = None \<and> cc_version (config c) = PROTOCOL_VERSION_V2"
  using assms
  by (auto simp: once_connect_def connect_with_def connect_once_def plain_result_def dest!: connect_loop_plain
      split: option.splits)

text \<open>
  A call that returns leaves its connection closed. The connection has no \<open>Owner\<close>, though: where the
  future of the call is dropped, nothing on this side closes it, whatever the user does.
\<close>

lemma once_end_closed: "c_closed (snd (once_end res c))"
  by (simp add: once_end_def)

lemma dropped_once_stays_open:
  fixes h :: "('v, 'r, 'j) handles"
  assumes "(handle_op runtime)\<^sup>*\<^sup>* (new_handles c) h"
  shows "hs_owner h = None \<and> hs_spawned h = 0 \<and> c_closed (hs_conn h) = c_closed c \<and> c_closing (hs_conn h) = c_closing c"
  using assms
proof induction
  case base
  show ?case by (simp add: new_handles_def)
next
  case (step h h')
  have new: "c_closing (snd (new_stream x)) = c_closing x \<and> c_closed (snd (new_stream x)) = c_closed x" for x :: "('r, 'j) connection"
    by (simp add: new_stream_def make_stream_def alloc_stream_def Let_def note_conn_failure_def split: option.split prod.split)
  have drop: "drop_handle runtime s x = x" if "hs_owner x = None" for s and x :: "('v, 'r, 'j) handles"
    using that by (simp add: drop_handle_def)
  have own: "stream_handle r x = (StreamHandle r False, x)" if "hs_owner x = None" for r and x :: "('v, 'r, 'j) handles"
    using that by (simp add: stream_handle_def upgrade_def)
  note no = step(3)
  from step(2) show ?case
  proof cases
    case NewStream
    with no new show ?thesis by (simp add: new_stream_handle_def own split: prod.split) (metis snd_conv)
  next
    case (Clone s)
    with no show ?thesis by (simp add: clone_handle_def)
  next
    case (Release k)
    with no drop show ?thesis by (simp add: release_def)
  next
    case (NewTask a)
    with no drop show ?thesis by (simp add: new_task_def own)
  next
    case (EndTask j)
    with no drop show ?thesis by (simp add: end_task_def task_guard_drop_def split: prod.split)
  qed (use no in simp_all)
qed

end
