(* ===== verification/CloseSignal.thy ===== *)
theory CloseSignal
  imports Server
begin

text \<open>
  Waiting for a close: \<open>wait_closed\<close> of a stream and of a connection, \<open>wait_stopped\<close> of a server, and the
  operations that set the flag and wake the waiters (\<open>close_channels\<close>, \<open>mark_closed\<close>, \<open>stop\<close>). In the rest
  of the development each is one step; here the flag and the notification are two, with any other task in
  between.
\<close>

section \<open>The notification\<close>

text \<open>
  \<open>Notify\<close> of tokio: the future that \<open>notified\<close> creates, \<open>notify_waiters\<close>, and whether a future is ready.
  What the code relies on is documented: \<open>notify_waiters\<close> completes the futures that exist already, also
  those that were not polled yet; a future is not ready before (nobody calls \<open>notify_one\<close> here), and
  stays ready.
\<close>

record ('n, 'f) notify_ops =
  nt_notified :: "'n \<Rightarrow> 'f"
  nt_notify_waiters :: "'n \<Rightarrow> 'n"
  nt_ready :: "'n \<Rightarrow> 'f \<Rightarrow> bool"

definition notify_spec :: "('n, 'f) notify_ops \<Rightarrow> bool" where
  "notify_spec ops \<longleftrightarrow>
     (\<forall>n. \<not> nt_ready ops n (nt_notified ops n)) \<and>
     (\<forall>n. nt_ready ops (nt_notify_waiters ops n) (nt_notified ops n)) \<and>
     (\<forall>n f. nt_ready ops n f \<longrightarrow> nt_ready ops (nt_notify_waiters ops n) f)"

section \<open>The two sides\<close>

text \<open>A waiter: before it created its future, before it looks at the flag, in its \<open>await\<close>, returned.\<close>

datatype 'f waiter = WaitStarts | WaitChecks 'f | WaitAwaits 'f | WaitReturned

definition wait_closed :: "('n, 'f) notify_ops \<Rightarrow> bool \<Rightarrow> 'n \<Rightarrow> 'f waiter \<Rightarrow> 'f waiter" where
  "wait_closed ops closed n w = (case w of
     WaitStarts \<Rightarrow> WaitChecks (nt_notified ops n)
   | WaitChecks notified \<Rightarrow> if closed then WaitReturned else WaitAwaits notified
   | WaitAwaits notified \<Rightarrow> if nt_ready ops n notified then WaitReturned else WaitAwaits notified
   | WaitReturned \<Rightarrow> WaitReturned)"

text \<open>The same of a connection and of a server, whose flag is the map that \<open>stop\<close> takes.\<close>

definition conn_wait_closed :: "('n, 'f) notify_ops \<Rightarrow> ('r, 'j) connection \<Rightarrow> 'n \<Rightarrow> 'f waiter \<Rightarrow> 'f waiter" where
  "conn_wait_closed ops c = wait_closed ops (c_closed c)"

definition wait_stopped :: "('n, 'f) notify_ops \<Rightarrow> ('r, 'j) serving \<Rightarrow> 'n \<Rightarrow> 'f waiter \<Rightarrow> 'f waiter" where
  "wait_stopped ops g = wait_closed ops (sg_tracked g = None)"

text \<open>
  A closer: before the swap of the flag, before the notification, returned with the result of
  \<open>close_channels\<close> (of \<open>mark_closed\<close>: whether it went on). \<open>again\<close> tells whether it notifies also when the
  flag was set already, as \<open>stop\<close> does.
\<close>

datatype closer = CloseStarts | CloseNotifies | CloseReturned bool

definition close_step :: "('n, 'f) notify_ops \<Rightarrow> bool \<Rightarrow> bool \<Rightarrow> 'n \<Rightarrow> closer \<Rightarrow> bool \<times> 'n \<times> closer" where
  "close_step ops again closed n t = (case t of
     CloseStarts \<Rightarrow> if closed \<and> \<not> again then (closed, n, CloseReturned False) else (True, n, CloseNotifies)
   | CloseNotifies \<Rightarrow> (closed, nt_notify_waiters ops n, CloseReturned True)
   | CloseReturned b \<Rightarrow> (closed, n, CloseReturned b))"

section \<open>All of them together\<close>

record ('n, 'f) close_signal =
  cl_closed :: bool
  cl_notify :: 'n
  cl_waiters :: "'f waiter list"
  cl_closers :: "closer list"

definition signal_init :: "'n \<Rightarrow> ('n, 'f) close_signal" where
  "signal_init n = \<lparr>cl_closed = False, cl_notify = n, cl_waiters = [], cl_closers = []\<rparr>"

inductive signal_step :: "('n, 'f) notify_ops \<Rightarrow> bool \<Rightarrow> ('n, 'f) close_signal \<Rightarrow> ('n, 'f) close_signal \<Rightarrow> bool"
  for ops again where
  NewWaiter: "signal_step ops again s (s\<lparr>cl_waiters := cl_waiters s @ [WaitStarts]\<rparr>)"
| NewCloser: "signal_step ops again s (s\<lparr>cl_closers := cl_closers s @ [CloseStarts]\<rparr>)"
| Wait: "i < length (cl_waiters s) \<Longrightarrow> signal_step ops again s (s\<lparr>cl_waiters :=
     (cl_waiters s)[i := wait_closed ops (cl_closed s) (cl_notify s) (cl_waiters s ! i)]\<rparr>)"
| Close: "j < length (cl_closers s) \<Longrightarrow> close_step ops again (cl_closed s) (cl_notify s) (cl_closers s ! j) = (b, n, t) \<Longrightarrow>
     signal_step ops again s (s\<lparr>cl_closed := b, cl_notify := n, cl_closers := (cl_closers s)[j := t]\<rparr>)"

abbreviation signal_run where "signal_run ops again \<equiv> (signal_step ops again)\<^sup>*\<^sup>*"

text \<open>
  The invariant: a future of a waiter that saw the flag unset is the one of the first state of the
  notification, which the first closer to notify completes.
\<close>

fun awaits :: "'f waiter \<Rightarrow> 'f \<Rightarrow> bool" where
  "awaits (WaitAwaits g) f = (g = f)"
| "awaits _ f = True"

fun holds :: "'f waiter \<Rightarrow> 'f \<Rightarrow> bool" where
  "holds (WaitAwaits g) f = (g = f)"
| "holds (WaitChecks g) f = (g = f)"
| "holds w f = (w = WaitStarts)"

definition notifying :: "closer \<Rightarrow> bool" where
  "notifying t \<longleftrightarrow> t = CloseNotifies \<or> t = CloseReturned True"

definition signal_ok :: "('n, 'f) notify_ops \<Rightarrow> bool \<Rightarrow> 'n \<Rightarrow> ('n, 'f) close_signal \<Rightarrow> bool" where
  "signal_ok ops again n0 s \<longleftrightarrow> (let f = nt_notified ops n0 in
     (if cl_closed s then \<forall>w \<in> set (cl_waiters s). awaits w f
      else cl_notify s = n0 \<and> (\<forall>w \<in> set (cl_waiters s). holds w f) \<and> (\<forall>t \<in> set (cl_closers s). t = CloseStarts)) \<and>
     (cl_notify s = n0 \<or> nt_ready ops (cl_notify s) f) \<and>
     (CloseReturned True \<in> set (cl_closers s) \<longrightarrow> nt_ready ops (cl_notify s) f) \<and>
     (again \<or> length (filter notifying (cl_closers s)) = (if cl_closed s then 1 else 0)))"

lemma holds_awaits: "holds w f \<Longrightarrow> awaits w f"
  by (cases w) auto

lemma filter_update:
  "j < length xs \<Longrightarrow> length (filter P (xs[j := x])) + (if P (xs ! j) then 1 else 0) =
     length (filter P xs) + (if P x then 1 else 0)"
proof -
  assume j: "j < length xs"
  have "length (filter P xs) = length (filter P (take j xs)) + (if P (xs ! j) then 1 else 0) + length (filter P (drop (Suc j) xs))"
    by (subst (1) id_take_nth_drop[OF j]) simp
  with j show ?thesis by (simp add: upd_conv_take_nth_drop)
qed

lemma signal_step_ok:
  assumes spec: "notify_spec ops" and ok: "signal_ok ops again n0 s" and step: "signal_step ops again s s'"
  shows "signal_ok ops again n0 s'"
  using step
proof cases
  case NewWaiter
  with ok show ?thesis by (auto simp: signal_ok_def Let_def)
next
  case NewCloser
  with ok show ?thesis by (auto simp: signal_ok_def Let_def notifying_def)
next
  case (Wait i)
  let ?w = "cl_waiters s ! i"
  have mem: "?w \<in> set (cl_waiters s)" using Wait(2) by simp
  have no: "\<not> nt_ready ops n0 (nt_notified ops n0)" using spec by (simp add: notify_spec_def)
  have "cl_closed s \<Longrightarrow> awaits (wait_closed ops True (cl_notify s) ?w) (nt_notified ops n0)"
    using ok mem by (cases ?w) (auto simp: signal_ok_def Let_def wait_closed_def)
  moreover have "\<not> cl_closed s \<Longrightarrow> holds (wait_closed ops False (cl_notify s) ?w) (nt_notified ops n0)"
    using ok mem no by (cases ?w) (auto simp: signal_ok_def Let_def wait_closed_def)
  ultimately show ?thesis
    using ok Wait by (auto simp: signal_ok_def Let_def dest!: set_update_subset_insert[THEN subsetD])
next
  case (Close j b n t)
  let ?t = "cl_closers s ! j"
  have mem: "?t \<in> set (cl_closers s)" using Close(2) by simp
  have upd: "x = t \<or> x \<in> set (cl_closers s)" if "x \<in> set ((cl_closers s)[j := t])" for x
    using that set_update_subset_insert[of "cl_closers s" j t] by auto
  note cnt = filter_update[OF Close(2), of notifying t]
  show ?thesis
  proof (cases ?t)
    case CloseStarts
    with Close ok upd cnt show ?thesis
      by (auto simp: signal_ok_def Let_def close_step_def notifying_def intro: holds_awaits split: if_splits)
  next
    case CloseNotifies
    with mem ok have "cl_closed s" by (auto simp: signal_ok_def Let_def split: if_splits)
    moreover have "nt_ready ops (nt_notify_waiters ops (cl_notify s)) (nt_notified ops n0)"
      using spec ok by (auto simp: notify_spec_def signal_ok_def Let_def)
    ultimately show ?thesis using CloseNotifies Close ok cnt
      by (auto simp: signal_ok_def Let_def close_step_def notifying_def)
  next
    case (CloseReturned x)
    with Close have "s' = s" by (auto simp: close_step_def)
    with ok show ?thesis by simp
  qed
qed

lemma signal_run_ok:
  assumes "notify_spec ops" "signal_run ops again (signal_init n0) s"
  shows "signal_ok ops again n0 s"
  using assms(2)
proof induction
  case base
  show ?case by (simp add: signal_ok_def signal_init_def Let_def)
next
  case (step s s')
  with assms(1) show ?case by (blast intro: signal_step_ok)
qed

text \<open>
  C21: A close wakes every waiter, and only a close does. Once a closer has notified, every waiter, wherever
  it was when the flag was set, returns by its third poll, so none sleeps through the close; no
  waiter returns while the flag is unset. And of the closers of a stream or a connection, exactly one
  is told that it closed it once the flag is set, and none before.
\<close>

theorem close_wakes_every_waiter:
  assumes "notify_spec ops" "signal_run ops again (signal_init n0) s"
  shows "(CloseReturned True \<in> set (cl_closers s) \<longrightarrow> cl_closed s \<and> (\<forall>w \<in> set (cl_waiters s).
      (wait_closed ops (cl_closed s) (cl_notify s) ^^ 3) w = WaitReturned)) \<and>
    (WaitReturned \<in> set (cl_waiters s) \<longrightarrow> cl_closed s) \<and>
    (\<not> again \<longrightarrow> length (filter notifying (cl_closers s)) = (if cl_closed s then 1 else 0))"
proof -
  note ok = signal_run_ok[OF assms]
  have "(wait_closed ops True (cl_notify s) ^^ 3) w = WaitReturned"
    if "CloseReturned True \<in> set (cl_closers s)" "w \<in> set (cl_waiters s)" for w
    using ok that by (cases w) (auto simp: signal_ok_def Let_def wait_closed_def eval_nat_numeral split: if_splits)
  then show ?thesis using ok by (auto simp: signal_ok_def Let_def split: if_splits)
qed

text \<open>
  A notification that counts its calls. The first waiter waits when the flag is set, the second begins
  before the notification, the third after it.
\<close>

definition ex_notify :: "(nat, nat) notify_ops" where
  "ex_notify = \<lparr>nt_notified = (\<lambda>n. n), nt_notify_waiters = Suc, nt_ready = (\<lambda>n f. f < n)\<rparr>"

datatype signal_move = MoveNewWaiter | MoveNewCloser | MoveWait nat | MoveClose nat

fun signal_act :: "('n, 'f) notify_ops \<Rightarrow> bool \<Rightarrow> signal_move \<Rightarrow> ('n, 'f) close_signal \<Rightarrow> ('n, 'f) close_signal" where
  "signal_act ops again MoveNewWaiter s = s\<lparr>cl_waiters := cl_waiters s @ [WaitStarts]\<rparr>"
| "signal_act ops again MoveNewCloser s = s\<lparr>cl_closers := cl_closers s @ [CloseStarts]\<rparr>"
| "signal_act ops again (MoveWait i) s = (if i < length (cl_waiters s) then s\<lparr>cl_waiters :=
     (cl_waiters s)[i := wait_closed ops (cl_closed s) (cl_notify s) (cl_waiters s ! i)]\<rparr> else s)"
| "signal_act ops again (MoveClose j) s = (if j < length (cl_closers s)
     then (case close_step ops again (cl_closed s) (cl_notify s) (cl_closers s ! j) of
       (b, n, t) \<Rightarrow> s\<lparr>cl_closed := b, cl_notify := n, cl_closers := (cl_closers s)[j := t]\<rparr>) else s)"

lemma signal_act_run: "signal_run ops again s (signal_act ops again m s)"
proof (cases m)
  case (MoveClose j)
  then show ?thesis
    by (cases "close_step ops again (cl_closed s) (cl_notify s) (cl_closers s ! j)") (auto intro: signal_step.Close)
qed (auto intro: signal_step.intros)

lemma signal_moves_run: "signal_run ops again s (fold (signal_act ops again) ms s)"
proof (induction ms arbitrary: s)
  case (Cons m ms)
  from signal_act_run Cons show ?case by (simp, rule rtranclp_trans)
qed simp

definition ex_signal :: "(nat, nat) close_signal" where
  "ex_signal = fold (signal_act ex_notify False)
     [MoveNewWaiter, MoveWait 0, MoveWait 0, MoveNewCloser, MoveNewCloser, MoveClose 1, MoveNewWaiter, MoveWait 1,
      MoveClose 0, MoveClose 1, MoveNewWaiter] (signal_init 0)"

lemma ex_signal_facts:
  "CloseReturned True \<in> set (cl_closers ex_signal) \<and> length (cl_waiters ex_signal) = 3 \<and> WaitAwaits 0 \<in> set (cl_waiters ex_signal)"
  by code_simp

lemma close_wakes_every_waiter_witness:
  "cl_closed ex_signal \<and>
   map (wait_closed ex_notify (cl_closed ex_signal) (cl_notify ex_signal) ^^ 3) (cl_waiters ex_signal) = replicate 3 WaitReturned"
proof -
  have "notify_spec ex_notify" by (simp add: notify_spec_def ex_notify_def)
  moreover have "signal_run ex_notify False (signal_init 0) ex_signal" unfolding ex_signal_def by (rule signal_moves_run)
  ultimately have "(CloseReturned True \<in> set (cl_closers ex_signal) \<longrightarrow> cl_closed ex_signal \<and>
      (\<forall>w \<in> set (cl_waiters ex_signal). (wait_closed ex_notify (cl_closed ex_signal) (cl_notify ex_signal) ^^ 3) w = WaitReturned))"
    by (rule close_wakes_every_waiter[THEN conjunct1])
  with ex_signal_facts have all: "cl_closed ex_signal" "\<forall>w \<in> set (cl_waiters ex_signal).
      (wait_closed ex_notify (cl_closed ex_signal) (cl_notify ex_signal) ^^ 3) w = WaitReturned" by blast+
  then have "map (wait_closed ex_notify (cl_closed ex_signal) (cl_notify ex_signal) ^^ 3) (cl_waiters ex_signal) =
      replicate (length (cl_waiters ex_signal)) WaitReturned"
    by (simp add: map_replicate_const[symmetric])
  moreover have "length (cl_waiters ex_signal) = 3" using ex_signal_facts by blast
  ultimately show ?thesis using all(1) by metis
qed

end
