(* ===== verification/ConnectionSetup.thy ===== *)
theory ConnectionSetup
  imports ServerGuarantees ClientProperties
begin

text \<open>
  A client and a server over one transport: what the two ends of a new recovery connection agree on,
  and that they start as the two sides of a link of \<open>RecoverySystem\<close>.
\<close>

section \<open>The server's side\<close>

lemma refuse_task: "i < length (sg_tasks g) \<Longrightarrow> sg_tasks (refuse i w g) ! i = TaskEnded w"
  by (simp add: refuse_def put_task_def close_now_def update_conn_def on_closed_def put_conn_def split: option.splits)

lemma put_task_task: "i < length (sg_tasks g) \<Longrightarrow> sg_tasks (put_task i t g) ! i = t"
  by (simp add: put_task_def)

lemma server_start_task: "server_start sv reg ok hc rs r w i g = (b, g') \<Longrightarrow> sg_tasks g' = sg_tasks g"
  by (auto simp: server_start_def update_conn_def on_closed_def put_conn_def Let_def split: sum.splits option.splits if_splits)

lemma start_branch_task:
  assumes "i < length (sg_tasks g)"
    and "(case server_start sv reg ok hc rs r w i g of
       (True, g1) \<Rightarrow> put_task i Starting g1 | (False, g1) \<Rightarrow> refuse i None g1) = g'"
  shows "sg_tasks g' ! i = Starting \<or> sg_tasks g' ! i = TaskEnded None"
proof -
  obtain b g1 where *: "server_start sv reg ok hc rs r w i g = (b, g1)" by fastforce
  from server_start_task[OF this] assms * show ?thesis
    by (cases b) (auto simp: put_task_task refuse_task)
qed

lemma handshake_step_value:
  "handshake_step dl now st (if ready then Some res else None) = StepValue x \<Longrightarrow> res = Inr x"
  by (auto simp: handshake_step_def split: if_splits option.splits sum.splits)

lemma handshake_server_writes:
  assumes "handshake_server reg codecs mx rec r w = (Inr (hc, r'), w')" "good_writer w"
  shows "wr_out w' = wr_out w @ handshake_reply 1 (hc_version hc) (hc_codec_id hc) (hc_max_frame hc) \<and> good_writer w'"
  using assms
  by (auto simp: handshake_server_def Let_def write_handshake_reply_good good_writer_def split: sum.splits if_splits option.splits prod.splits)

lemma handshaking_attaches:
  assumes "sg_tasks g ! i = Handshaking dl r w" "i < length (sg_tasks g)"
    and "sg_tasks (handle_conn sv reg inp i g) ! i = Attaching hc dl' r' w'"
  shows "handshake_server reg (sv_codecs sv) (sv_max_frame sv) (sro_enable (sv_recovery sv)) r w = (Inr (hc, r'), w') \<and>
    hc_version hc = PROTOCOL_VERSION_V3 \<and> sg_conns (handle_conn sv reg inp i g) = sg_conns g"
proof -
  obtain res w1 where hs: "handshake_server reg (sv_codecs sv) (sv_max_frame sv) (sro_enable (sv_recovery sv)) r w = (res, w1)"
    by fastforce
  let ?step = "handshake_step dl (sg_now g) (stopped g) (if in_ready inp then Some res else None)"
  have eq: "handle_conn sv reg inp i g = (case ?step of
      StepPending \<Rightarrow> g | StepNone \<Rightarrow> refuse i None g
    | StepValue (hc, r') \<Rightarrow>
        if hc_version hc \<noteq> PROTOCOL_VERSION_V3
        then (case server_start sv reg (in_connect_ok inp) hc None r' w1 i g of
            (True, g1) \<Rightarrow> put_task i Starting g1 | (False, g1) \<Rightarrow> refuse i None g1)
        else put_task i (Attaching hc dl r' w1) g)"
    using assms(1) hs by (simp add: handle_conn_def)
  show ?thesis
  proof (cases ?step)
    case (StepValue x)
    obtain hc1 r1 where x: "x = (hc1, r1)" by fastforce
    from handshake_step_value[OF StepValue] x have res: "res = Inr (hc1, r1)" by simp
    show ?thesis
    proof (cases "hc_version hc1 \<noteq> PROTOCOL_VERSION_V3")
      case True
      with eq StepValue x start_branch_task[OF assms(2), of sv reg "in_connect_ok inp" hc1 None r1 w1 "handle_conn sv reg inp i g"]
        assms(3) show ?thesis by auto
    next
      case False
      with eq StepValue x assms(2,3) hs res show ?thesis by (simp add: put_task_def)
    qed
  qed (use eq assms refuse_task[OF assms(2)] in auto)
qed

lemma attaching_responds:
  assumes "sg_tasks g ! i = Attaching hc dl r w" "i < length (sg_tasks g)"
    and "sg_tasks (handle_conn sv reg inp i g) ! i = RespondingNew hc' rs r' w'"
  shows "hc' = hc \<and> w' = w \<and> rs = new_server (sv_recovery sv) (in_token inp) (in_secret inp) \<and>
    sg_conns (handle_conn sv reg inp i g) = sg_conns g"
proof -
  let ?step = "handshake_step dl (sg_now g) (stopped g) (if in_ready inp then Some (read_attach_request r) else None)"
  have eq: "handle_conn sv reg inp i g = (case ?step of
      StepPending \<Rightarrow> g | StepNone \<Rightarrow> refuse i None g
    | StepValue (req, r') \<Rightarrow> server_attach sv inp hc req r' w i g)"
    using assms(1) by (simp add: handle_conn_def)
  show ?thesis
  proof (cases ?step)
    case (StepValue x)
    obtain req r1 where x: "x = (req, r1)" by fastforce
    with StepValue eq have "handle_conn sv reg inp i g = server_attach sv inp hc req r1 w i g" by simp
    with assms(2,3) show ?thesis
      by (auto simp: server_attach_def attach_new_begin_def attach_resume_begin_def Let_def put_task_def refuse_task
          split: if_splits option.splits)
  qed (use eq assms refuse_task[OF assms(2)] in auto)
qed

lemma responding_starts:
  assumes "sg_tasks g ! i = RespondingNew hc rs r w" "i < length (sg_tasks g)" "i < length (sg_conns g)"
    and "sg_tasks (handle_conn sv reg inp i g) ! i = Starting"
  obtains w' st c where "write_attach_response (attach_new_response sv rs) w = (Inr (), w')"
    "start_with_config reg hc (Some rs) 0 r w' (conn_at g i) = Inr (st, c)"
    "conn_at (handle_conn sv reg inp i g) i = c"
proof -
  have eq: "handle_conn sv reg inp i g =
      (if in_ready inp then attach_new_end sv reg (in_connect_ok inp) hc rs r w i g else g)"
    using assms(1) by (simp add: handle_conn_def)
  with assms(1,4) have ready: "in_ready inp" by (auto split: if_splits)
  obtain res w' where wr: "write_attach_response (attach_new_response sv rs) w = (res, w')" by fastforce
  obtain b g1 where st: "(case write_attach_response (attach_new_response sv rs) w of
      (Inr _, w') \<Rightarrow> server_start sv reg (in_connect_ok inp) hc (Some rs) r w' i g | (Inl e, w') \<Rightarrow> (False, g)) = (b, g1)"
    by fastforce
  have tasks: "sg_tasks g1 = sg_tasks g" using st wr by (cases res) (auto dest: server_start_task)
  have b: "b"
  proof (rule ccontr)
    assume "\<not> b"
    with eq ready st assms(2,4) tasks show False by (simp add: attach_new_end_def refuse_task)
  qed
  with st wr obtain u where res: "res = Inr u" and start: "server_start sv reg (in_connect_ok inp) hc (Some rs) r w' i g = (True, g1)"
    by (cases res) auto
  define g2 where "g2 = (if sv_on_connect sv then g\<lparr>sg_connected := sg_connected g @ [i]\<rparr> else g)"
  from start obtain s c where c: "start_with_config reg hc (Some rs) 0 r w' (conn_at g i) = Inr (s, c)" "g1 = update_conn i c g2"
    by (auto simp: server_start_def g2_def Let_def split: if_splits sum.splits)
  from c(2) assms(3) have "conn_at g1 i = c"
    by (auto simp: g2_def update_conn_def on_closed_def put_conn_def split: option.splits)
  moreover have "handle_conn sv reg inp i g = put_task i Starting g1"
    using eq ready st b by (simp add: attach_new_end_def)
  ultimately show thesis using that wr res c(1) by (simp add: put_task_def)
qed

section \<open>The client's side\<close>

lemma write_response_bytes:
  assumes "write_attach_response resp w = (Inr (), w')" "good_writer w"
  obtains enc where "encode_negotiated (arp_negotiated resp) = Inr enc" "wr_out w' = wr_out w @ attach_response_bytes resp enc"
  using assms by (auto simp: write_attach_response_def split: sum.splits)

lemma read_response_bytes:
  assumes "encode_negotiated (arp_negotiated resp) = Inr enc"
    and "length (arp_connection_id resp) = 16" "length (arp_resume_secret resp) = 16"
    and "rd_bytes r = attach_response_bytes resp enc @ rest" "read_attach_response r = Inr (resp', r')"
  shows "resp' = resp\<lparr>arp_negotiated := in_whole_millis (negotiated_normalized (arp_negotiated resp))\<rparr> \<and>
    negotiated_ok (arp_negotiated resp')"
proof -
  from assms(2-4) obtain r1 where "read_exact 60 r = Inr (attach_response_bytes resp enc, r1)"
    by (metis length_attach_response read_exact_append)
  with assms(5) have "parse_attach_response (attach_response_bytes resp enc) = Inr resp'"
    by (auto simp: read_attach_response_def attach_len_defs try_res_Inr_iff)
  with parse_attach_response_bytes[OF assms(2,3), of enc]
  have "try_res (decode_negotiated (eo_ack_every enc) (eo_ack_delay_ms enc) (eo_heartbeat_interval_ms enc)
      (eo_heartbeat_timeout_ms enc)) (\<lambda>n. Inr (resp\<lparr>arp_negotiated := n\<rparr>)) = Inr resp'" by simp
  then obtain n where
    n: "decode_negotiated (eo_ack_every enc) (eo_ack_delay_ms enc) (eo_heartbeat_interval_ms enc)
        (eo_heartbeat_timeout_ms enc) = Inr n" "resp' = resp\<lparr>arp_negotiated := n\<rparr>"
    unfolding try_res_Inr_iff by blast
  with decode_negotiated_Inr[OF n(1)] encode_negotiated_Inr[OF assms(1) refl] show ?thesis
    by (simp add: in_whole_millis_def)
qed

lemma client_reads_server:
  assumes "connect_version cl reg PROTOCOL_VERSION_V3 deadline now env = Some (t, Inr (st, a))"
    and "de_dial env = Some (d, Inr (r, w))"
    and "rd_bytes r = handshake_reply 1 PROTOCOL_VERSION_V3 codec mx @ rest"
  obtains r1 r2 w2 resp where "rd_bytes r1 = rest" "read_attach_response r1 = Inr (resp, r2)"
    "start_with_config reg \<lparr>hc_version = PROTOCOL_VERSION_V3, hc_codec_id = codec, hc_max_frame = mx\<rparr>
       (Some (new_client (client_normalized (cl_recovery cl)) (arp_negotiated resp) (arp_connection_id resp)
          (arp_resume_secret resp) (cl_connect_timeout cl))) (arp_last_recv_seq resp) r2 w2 (pending_client cl) = Inr (st, a)"
proof -
  have dialled: "r' = r \<and> w' = w" if "before deadline now (de_dial env) = Some (t0, Inr (r', w'))" for t0 r' w'
    using that assms(2) by (auto simp: before_def split: option.splits if_splits)
  have reply: "hc = \<lparr>hc_version = PROTOCOL_VERSION_V3, hc_codec_id = codec, hc_max_frame = mx\<rparr> \<and> rd_bytes r1 = rest"
    if "handshake_client reg (cl_codecs cl) (cl_max_frame cl) PROTOCOL_VERSION_V3 r w = (Inr (hc, r1), w1)" for hc r1 w1
    using that handshake_client_on_reply[OF assms(3), of reg "cl_codecs cl" PROTOCOL_VERSION_V3]
    by (auto simp: handshake_client_def split: sum.splits if_splits prod.splits)
  have ended: "x = hs" if "before deadline t0 (map_option (\<lambda>d. (d, hs)) fut) = Some (t1, x)" "is_ok x" for t0 t1 hs fut and x :: "am_error + 'c"
    using that by (auto simp: before_def split: option.splits if_splits)
  from assms(1) show thesis
  proof (cases rule: connect_version_cases)
    case (plain t0 r' w' hs w1 hc r1)
    with ended[OF plain(3)] dialled[OF plain(1)] reply[of hc r1 w1] show thesis by simp
  next
    case (recovery t0 t1 r' w' hs w1 hc r1 at w2 resp r2)
    from recovery(3) ended[OF recovery(3)] have "hs = Inr (hc, r1)" by simp
    with recovery(2) dialled[OF recovery(1)] reply[of hc r1 w1]
    have hc: "hc = \<lparr>hc_version = PROTOCOL_VERSION_V3, hc_codec_id = codec, hc_max_frame = mx\<rparr>" "rd_bytes r1 = rest" by auto
    from ended[OF recovery(6)] have "at = Inr (resp, r2)" by simp
    with recovery(5) have "read_attach_response r1 = Inr (resp, r2)"
      by (auto simp: client_attach_def split: sum.splits prod.splits)
    with hc recovery(7) that show thesis
      by (auto simp: start_or_error_def split: if_splits sum.splits)
  qed (simp_all)
qed

section \<open>The pair\<close>

lemma start_with_config_new:
  assumes "start_with_config reg hc (Some rs) n r w c = Inr (st, c')" "c_config c = None" "c_recovery c = None"
  obtains cfg where "build_config reg hc = Inr cfg"
    "c' = snd (attach_transport_parts r w n (c\<lparr>c_config := Some cfg, c_recovery := Some rs, c_writer_started := True\<rparr>))"
  using assms by (auto simp: start_with_config_def try_res_Inr_iff)

lemma build_config_same:
  "build_config reg hc = Inr cfg \<Longrightarrow> build_config reg' hc = Inr cfg' \<Longrightarrow> cfg' = cfg"
  by (auto simp: build_config_def try_res_Inr_iff split: if_splits)

lemma pending_client_fields:
  "c_config (pending_client cl) = None" "c_recovery (pending_client cl) = None" "c_next_send_seq (pending_client cl) = 0"
  "c_cmds (pending_client cl) = []" "c_outbound (pending_client cl) = []" "\<not> c_closed (pending_client cl)" "c_transport_gen (pending_client cl) = 0"
  by (auto simp: pending_client_def Let_def new_unstarted_def set_stream_queue_size_def set_default_recv_timeout_def
      split: option.splits)

definition pending_server :: "server \<Rightarrow> ('r, 'j) connection" where
  "pending_server sv = set_stream_queue_size (sv_stream_queue_size sv)
     (new_unstarted (sv_has_handlers sv) (sv_on_new_stream sv) (sv_on_close_stream sv))"

lemma pending_server_fields:
  "c_config (pending_server sv) = None" "c_recovery (pending_server sv) = None" "c_next_send_seq (pending_server sv) = 0"
  "c_cmds (pending_server sv) = []" "c_outbound (pending_server sv) = []" "\<not> c_closed (pending_server sv)" "c_transport_gen (pending_server sv) = 0"
  by (auto simp: pending_server_def new_unstarted_def set_stream_queue_size_def)

lemma attach_keeps:
  "c_config (snd (attach_transport_parts r w n c)) = c_config c"
  "c_recovery (snd (attach_transport_parts r w n c)) = c_recovery c"
  by (auto simp: attach_transport_parts_def Let_def abort_reader_def signal_send_def split: option.splits)

lemma attached_link:
  assumes "c_transport_gen a1 = 0"
  shows "link_run io (link_init a1 b1) (link_init a1 b1
    \<lparr>lk_sender := snd (attach_transport_parts ra wa 0 a1), lk_receiver := snd (attach_transport_parts rb wb 0 b1)\<rparr>)"
proof -
  let ?a = "snd (attach_transport_parts ra wa 0 a1)" and ?b = "snd (attach_transport_parts rb wb 0 b1)"
  have "link_step io (link_init a1 b1) (link_init a1 b1\<lparr>lk_sender := ?a\<rparr>)"
    using assms link_step.AttachSender[of 0 "link_init a1 b1" io ra wa] by (simp add: link_init_def)
  note s1 = this
  have "link_step io (link_init a1 b1\<lparr>lk_sender := ?a\<rparr>) (link_init a1 b1\<lparr>lk_sender := ?a, lk_receiver := ?b\<rparr>)"
    using link_step.ReceiverTasks[of "link_init a1 b1\<lparr>lk_sender := ?a\<rparr>" ?b io]
    by (simp add: link_init_def recv_same_def attach_keeps)
  with s1 show ?thesis by (rule rtranclp.rtrancl_into_rtrancl[OF r_into_rtranclp[where r = "link_step io"]])
qed

lemma started_pair:
  assumes "start_with_config reg hc (Some rs) 0 r w c = Inr (st, c')" "c_config c = None" "c_recovery c = None"
    and "c_next_send_seq c = 0" "c_cmds c = []" "c_outbound c = []" "c_transport_gen c = 0"
    and rs: "\<exists>co neg cid sec t so. rs = new_client co neg cid sec t \<or> rs = new_server so cid sec"
  obtains cfg c1 where "build_config reg hc = Inr cfg" "fresh_side c1" "c_transport_gen c1 = 0"
    "c' = snd (attach_transport_parts r w 0 c1)" "c_config c' = Some cfg" "c_recovery c' = Some rs"
proof -
  from start_with_config_new[OF assms(1-3)] obtain cfg where cfg: "build_config reg hc = Inr cfg"
    "c' = snd (attach_transport_parts r w 0 (c\<lparr>c_config := Some cfg, c_recovery := Some rs, c_writer_started := True\<rparr>))"
    by blast
  moreover have "fresh_side (c\<lparr>c_config := Some cfg, c_recovery := Some rs, c_writer_started := True\<rparr>)"
    using assms(4-6) rs by (simp add: fresh_side_def)
  ultimately show thesis using that assms(7) by (simp add: attach_keeps)
qed

text \<open>The connection of the server, and what it wrote on the way.\<close>

lemma server_side:
  assumes srv: "sg_tasks g0 ! i = Handshaking dl rs ws" "i < length (sg_tasks g0)" "good_writer ws" "wr_out ws = []"
    "sg_tasks (handle_conn sv reg inp0 i g0) ! i = Attaching hc dl' rs1 ws1"
    and att: "sg_tasks g1 ! i = Attaching hc dl' rs1 ws1" "i < length (sg_tasks g1)"
    "sg_tasks (handle_conn sv reg inp1 i g1) ! i = RespondingNew hc' state rs2 ws2"
    and resp: "sg_tasks g2 ! i = RespondingNew hc' state rs2 ws2" "i < length (sg_tasks g2)" "i < length (sg_conns g2)"
    "conn_at g2 i = pending_server sv" "sg_tasks (handle_conn sv reg inp2 i g2) ! i = Starting"
  obtains ws3 enc cfg b1 where "hc_version hc = PROTOCOL_VERSION_V3" "state = new_server (sv_recovery sv) (in_token inp1) (in_secret inp1)"
    "encode_negotiated (arp_negotiated (attach_new_response sv state)) = Inr enc"
    "wr_out (snd (write_attach_response (attach_new_response sv state) ws2)) =
       handshake_reply 1 PROTOCOL_VERSION_V3 (hc_codec_id hc) (hc_max_frame hc) @
       attach_response_bytes (attach_new_response sv state) enc"
    "build_config reg hc = Inr cfg" "fresh_side b1" "c_transport_gen b1 = 0"
    "conn_at (handle_conn sv reg inp2 i g2) i = snd (attach_transport_parts rs2 ws3 0 b1)"
    "c_config (conn_at (handle_conn sv reg inp2 i g2) i) = Some cfg"
    "c_recovery (conn_at (handle_conn sv reg inp2 i g2) i) = Some state"
proof -
  from handshaking_attaches[OF srv(1,2,5)]
  have h: "handshake_server reg (sv_codecs sv) (sv_max_frame sv) (sro_enable (sv_recovery sv)) rs ws = (Inr (hc, rs1), ws1)"
    "hc_version hc = PROTOCOL_VERSION_V3" by simp_all
  from handshake_server_writes[OF h(1) srv(3)] srv(4) h(2)
  have w1: "wr_out ws1 = handshake_reply 1 PROTOCOL_VERSION_V3 (hc_codec_id hc) (hc_max_frame hc)" "good_writer ws1" by simp_all
  from attaching_responds[OF att(1,2,3)]
  have r: "hc' = hc" "ws2 = ws1" "state = new_server (sv_recovery sv) (in_token inp1) (in_secret inp1)" by simp_all
  define b where "b = conn_at (handle_conn sv reg inp2 i g2) i"
  from responding_starts[OF resp(1,2,3,5)] obtain ws3 stb where
    wr: "write_attach_response (attach_new_response sv state) ws2 = (Inr (), ws3)"
    and b: "start_with_config reg hc' (Some state) 0 rs2 ws3 (conn_at g2 i) = Inr (stb, b)" by (metis b_def)
  from write_response_bytes[OF wr[unfolded r(2)] w1(2)] obtain enc where
    enc: "encode_negotiated (arp_negotiated (attach_new_response sv state)) = Inr enc"
    and out: "wr_out ws3 = wr_out ws1 @ attach_response_bytes (attach_new_response sv state) enc" by blast
  have side: "\<exists>co neg cid sec t so. state = new_client co neg cid sec t \<or> state = new_server so cid sec"
    unfolding r(3) by blast
  obtain cfg b1 where b1: "build_config reg hc = Inr cfg" "fresh_side b1"
    "c_transport_gen b1 = 0" "b = snd (attach_transport_parts rs2 ws3 0 b1)" "c_config b = Some cfg" "c_recovery b = Some state"
    by (rule started_pair[OF b[unfolded r(1) resp(4)] pending_server_fields(1-5) pending_server_fields(7) side]) (rule that)
  show thesis by (rule that[OF h(2) r(3) enc _ b1(1,2,3) b1(4-6)[unfolded b_def]]) (simp add: wr out w1(1))
qed

text \<open>
  C26: A client and a server that complete an attach are the two sides of one link. Let the task of a
  connection on the server go through its handshake and attach to the start, and the client read, on
  its transport, what the server wrote. Then both connections have the same configuration, connection
  ID and resume secret, and the client works with the recovery options of the server, in whole
  milliseconds. Each is the first attach of a fresh side, so that in both directions the two are a
  state of a link of \<open>RecoverySystem\<close>, with all that holds of it.
\<close>

theorem attached_pair_is_a_link:
  fixes g0 g1 g2 :: "('r, 'j) serving" and a :: "('r, 'j) connection"
  assumes srv: "sg_tasks g0 ! i = Handshaking dl rs ws" "i < length (sg_tasks g0)" "good_writer ws" "wr_out ws = []"
    "sg_tasks (handle_conn sv reg_s inp0 i g0) ! i = Attaching hc dl' rs1 ws1"
    and att: "sg_tasks g1 ! i = Attaching hc dl' rs1 ws1" "i < length (sg_tasks g1)"
    "sg_tasks (handle_conn sv reg_s inp1 i g1) ! i = RespondingNew hc' state rs2 ws2"
    "length (in_token inp1) = 16" "length (in_secret inp1) = 16"
    and resp: "sg_tasks g2 ! i = RespondingNew hc' state rs2 ws2" "i < length (sg_tasks g2)" "i < length (sg_conns g2)"
    "conn_at g2 i = pending_server sv" "sg_tasks (handle_conn sv reg_s inp2 i g2) ! i = Starting"
    and client: "connect_version cl reg_c PROTOCOL_VERSION_V3 deadline now env = Some (t, Inr (st, a))"
    "de_dial env = Some (d, Inr (rc, wc))"
    and net: "rd_bytes rc = wr_out (snd (write_attach_response (attach_new_response sv state) ws2)) @ rest"
  defines "b \<equiv> conn_at (handle_conn sv reg_s inp2 i g2) i"
  shows "\<exists>a1 b1 ra wa rb wb x y. fresh_side a1 \<and> fresh_side b1 \<and>
    a = snd (attach_transport_parts ra wa 0 a1) \<and> b = snd (attach_transport_parts rb wb 0 b1) \<and>
    c_config a = Some (config b) \<and> c_config b = Some (config b) \<and> cc_version (config b) = PROTOCOL_VERSION_V3 \<and>
    c_recovery a = Some x \<and> c_recovery b = Some y \<and> rs_role x = RoleClient \<and> rs_role y = RoleServer \<and>
    rs_connection_id x = rs_connection_id y \<and> rs_resume_secret x = rs_resume_secret y \<and>
    rs_shared x = in_whole_millis (rs_shared y) \<and>
    link_run io (link_init a1 b1) (link_init a1 b1\<lparr>lk_sender := a, lk_receiver := b\<rparr>) \<and>
    link_run io (link_init b1 a1) (link_init b1 a1\<lparr>lk_sender := b, lk_receiver := a\<rparr>)"
proof -
  obtain ws3 enc cfg' b1 where h: "hc_version hc = PROTOCOL_VERSION_V3"
    and state: "state = new_server (sv_recovery sv) (in_token inp1) (in_secret inp1)"
    and enc: "encode_negotiated (arp_negotiated (attach_new_response sv state)) = Inr enc"
    and out: "wr_out (snd (write_attach_response (attach_new_response sv state) ws2)) =
       handshake_reply 1 PROTOCOL_VERSION_V3 (hc_codec_id hc) (hc_max_frame hc) @
       attach_response_bytes (attach_new_response sv state) enc"
    and b1: "build_config reg_s hc = Inr cfg'" "fresh_side b1" "c_transport_gen b1 = 0"
      "b = snd (attach_transport_parts rs2 ws3 0 b1)" "c_config b = Some cfg'" "c_recovery b = Some state"
    by (rule server_side[OF srv att(1-3) resp, folded b_def]) (rule that)
  have lens: "length (arp_connection_id (attach_new_response sv state)) = 16"
    "length (arp_resume_secret (attach_new_response sv state)) = 16"
    using att(4,5) by (simp_all add: attach_new_response_def state new_server_def Let_def)
  from net out have bytes: "rd_bytes rc = handshake_reply 1 PROTOCOL_VERSION_V3 (hc_codec_id hc) (hc_max_frame hc) @
      attach_response_bytes (attach_new_response sv state) enc @ rest" by simp
  obtain r1 r2 wa resp where
    c: "rd_bytes r1 = attach_response_bytes (attach_new_response sv state) enc @ rest" "read_attach_response r1 = Inr (resp, r2)"
    and a: "start_with_config reg_c \<lparr>hc_version = PROTOCOL_VERSION_V3, hc_codec_id = hc_codec_id hc, hc_max_frame = hc_max_frame hc\<rparr>
       (Some (new_client (client_normalized (cl_recovery cl)) (arp_negotiated resp) (arp_connection_id resp)
          (arp_resume_secret resp) (cl_connect_timeout cl))) (arp_last_recv_seq resp) r2 wa (pending_client cl) = Inr (st, a)"
    (is "start_with_config _ _ (Some ?x) _ _ _ _ = _") by (rule client_reads_server[OF client bytes]) (rule that)
  note read = read_response_bytes[OF enc lens c]
  have resp_eq: "arp_connection_id resp = in_token inp1" "arp_resume_secret resp = in_secret inp1" "arp_last_recv_seq resp = 0"
    "arp_negotiated resp = in_whole_millis (server_negotiated (sv_recovery sv))" "negotiated_ok (arp_negotiated resp)"
    using read[THEN conjunct1] read[THEN conjunct2] negotiated_normalized_id[OF server_negotiated_ok[of "sv_recovery sv"]]
    by (simp_all add: attach_new_response_def state new_server_def Let_def)
  have hc: "\<lparr>hc_version = PROTOCOL_VERSION_V3, hc_codec_id = hc_codec_id hc, hc_max_frame = hc_max_frame hc\<rparr> = hc"
    using h by simp
  have side: "\<exists>co neg cid sec t so. ?x = new_client co neg cid sec t \<or> ?x = new_server so cid sec" by blast
  obtain cfg a1 where a1: "build_config reg_c hc = Inr cfg" "fresh_side a1"
    "c_transport_gen a1 = 0" "a = snd (attach_transport_parts r2 wa 0 a1)" "c_config a = Some cfg" "c_recovery a = Some ?x"
    by (rule started_pair[OF a[unfolded hc resp_eq(3)] pending_client_fields(1-5) pending_client_fields(7) side]) (rule that)
  have configs: "c_config a = Some (config b)" "c_config b = Some (config b)" "cc_version (config b) = PROTOCOL_VERSION_V3"
    using build_config_same[OF a1(1) b1(1)] a1(1,5) b1(5) h
    by (auto simp: build_config_def config_def try_res_Inr_iff split: if_splits)
  have agree: "rs_role ?x = RoleClient" "rs_role state = RoleServer" "rs_connection_id ?x = rs_connection_id state"
    "rs_resume_secret ?x = rs_resume_secret state" "rs_shared ?x = in_whole_millis (rs_shared state)"
    using negotiated_normalized_id[OF resp_eq(5)] server_normalized_id[OF server_normalized_ok[of "sv_recovery sv"]]
    by (simp_all add: new_client_def new_server_def state resp_eq(1,2,4) Let_def server_negotiated_def)
  have links: "link_run io (link_init a1 b1) (link_init a1 b1\<lparr>lk_sender := a, lk_receiver := b\<rparr>)"
    "link_run io (link_init b1 a1) (link_init b1 a1\<lparr>lk_sender := b, lk_receiver := a\<rparr>)"
    unfolding a1(4) b1(4) using a1(3) b1(3) by (simp_all add: attached_link)
  note all = a1(2) b1(2) a1(4) b1(4) configs a1(6) b1(6) agree links
  show ?thesis by (rule exI[of _ a1], rule exI[of _ b1], rule exI[of _ r2], rule exI[of _ wa], rule exI[of _ rs2],
      rule exI[of _ ws3], rule exI[of _ ?x], rule exI[of _ state]) (intro conjI; rule all)
qed

text \<open>One client and one server.\<close>

definition ex_g0 :: "(unit, unit) serving" where
  "ex_g0 = accept_conn ex_server 0 (ex_reader (ex_request PROTOCOL_VERSION_V3 @ ex_attach_new)) ex_writer serving_init"

definition ex_g1 :: "(unit, unit) serving" where "ex_g1 = handle_conn ex_server ex_codecs ex_input 0 ex_g0"
definition ex_g2 :: "(unit, unit) serving" where "ex_g2 = handle_conn ex_server ex_codecs ex_input 0 ex_g1"
definition ex_g3 :: "(unit, unit) serving" where "ex_g3 = handle_conn ex_server ex_codecs ex_input 0 ex_g2"

definition ex_answer :: bytes where
  "ex_answer = (case sg_tasks ex_g2 ! 0 of
     RespondingNew hc state r w \<Rightarrow> wr_out (snd (write_attach_response (attach_new_response ex_server state) w)) | _ \<Rightarrow> [])"

definition ex_dial :: dial_env where
  "ex_dial = \<lparr>de_dial = Some (1, Inr (ex_reader ex_answer, ex_writer)), de_handshake = Some 1, de_attach = Some 1\<rparr>"

definition ex_connected :: "(unit, unit) connection option" where
  "ex_connected = (case connect_version (default_client False) ex_codecs PROTOCOL_VERSION_V3 None 0 ex_dial of
     Some (t, Inr (st, a)) \<Rightarrow> Some a | _ \<Rightarrow> None)"

lemma ex_setup_run:
  "length (sg_tasks ex_g0) = 1 \<and> length (sg_tasks ex_g1) = 1 \<and> length (sg_tasks ex_g2) = 1 \<and>
   (case sg_tasks ex_g0 ! 0 of Handshaking dl r w \<Rightarrow> good_writer w \<and> wr_out w = [] | _ \<Rightarrow> False) \<and>
   (case sg_tasks ex_g1 ! 0 of Attaching hc dl r w \<Rightarrow> True | _ \<Rightarrow> False) \<and>
   (case sg_tasks ex_g2 ! 0 of RespondingNew hc state r w \<Rightarrow> True | _ \<Rightarrow> False) \<and>
   (case sg_tasks ex_g3 ! 0 of Starting \<Rightarrow> True | _ \<Rightarrow> False) \<and> ex_connected \<noteq> None"
  by code_simp

lemma ex_server_tasks:
  obtains dl rs ws hc dl' rs1 ws1 hc' state rs2 ws2 where
    "sg_tasks ex_g0 ! 0 = Handshaking dl rs ws" "good_writer ws" "wr_out ws = []"
    "sg_tasks ex_g1 ! 0 = Attaching hc dl' rs1 ws1" "sg_tasks ex_g2 ! 0 = RespondingNew hc' state rs2 ws2"
    "sg_tasks ex_g3 ! 0 = Starting"
  using ex_setup_run by (auto split: serve_task.splits)

lemma ex_server_conns: "sg_conns ex_g2 = [pending_server ex_server]"
proof -
  obtain dl rs ws hc dl' rs1 ws1 hc' state rs2 ws2 where t: "sg_tasks ex_g0 ! 0 = Handshaking dl rs ws"
    "sg_tasks ex_g1 ! 0 = Attaching hc dl' rs1 ws1" "sg_tasks ex_g2 ! 0 = RespondingNew hc' state rs2 ws2"
    by (rule ex_server_tasks)
  have len: "0 < length (sg_tasks ex_g0)" "0 < length (sg_tasks ex_g1)" using ex_setup_run by simp_all
  have "sg_conns ex_g2 = sg_conns ex_g1"
    using attaching_responds[OF t(2) len(2) t(3)[unfolded ex_g2_def]] by (simp add: ex_g2_def)
  also have "\<dots> = sg_conns ex_g0"
    using handshaking_attaches[OF t(1) len(1) t(2)[unfolded ex_g1_def]] by (simp add: ex_g1_def)
  finally show ?thesis by (simp add: ex_g0_def accept_conn_def serving_init_def pending_server_def Let_def)
qed

lemma ex_connected_run:
  obtains t st a where "ex_connected = Some a"
    "connect_version (default_client False) ex_codecs PROTOCOL_VERSION_V3 None 0 ex_dial = Some (t, Inr (st, a))"
  using ex_setup_run by (auto simp: ex_connected_def split: option.splits sum.splits)

lemma attached_pair_is_a_link_witness:
  "case ex_connected of None \<Rightarrow> False
   | Some a \<Rightarrow> \<exists>a1 b1. fresh_side a1 \<and> fresh_side b1 \<and> c_config a = c_config (conn_at ex_g3 0) \<and>
       map_option rs_resume_secret (c_recovery a) = map_option rs_resume_secret (c_recovery (conn_at ex_g3 0)) \<and>
       link_run (\<lambda>k. ''io'') (link_init a1 b1) (link_init a1 b1\<lparr>lk_sender := a, lk_receiver := conn_at ex_g3 0\<rparr>)"
proof -
  obtain dl rs ws hc dl' rs1 ws1 hc' state rs2 ws2 where t: "sg_tasks ex_g0 ! 0 = Handshaking dl rs ws" "good_writer ws" "wr_out ws = []"
    "sg_tasks ex_g1 ! 0 = Attaching hc dl' rs1 ws1" "sg_tasks ex_g2 ! 0 = RespondingNew hc' state rs2 ws2"
    "sg_tasks ex_g3 ! 0 = Starting" by (rule ex_server_tasks)
  obtain tm st a where a: "ex_connected = Some a"
    "connect_version (default_client False) ex_codecs PROTOCOL_VERSION_V3 None 0 ex_dial = Some (tm, Inr (st, a))"
    by (rule ex_connected_run)
  have len: "0 < length (sg_tasks ex_g0)" "0 < length (sg_tasks ex_g1)" "0 < length (sg_tasks ex_g2)" using ex_setup_run by simp_all
  have conn: "0 < length (sg_conns ex_g2)" "conn_at ex_g2 0 = pending_server ex_server" by (simp_all add: ex_server_conns)
  have tok: "length (in_token ex_input) = 16" "length (in_secret ex_input) = 16" by (simp_all add: ex_input_def)
  have dial: "de_dial ex_dial = Some (1, Inr (ex_reader ex_answer, ex_writer))" by (simp add: ex_dial_def)
  have net: "rd_bytes (ex_reader ex_answer) =
      wr_out (snd (write_attach_response (attach_new_response ex_server state) ws2)) @ []"
    by (simp add: ex_reader_def ex_answer_def t(5) rd_bytes_def)
  from attached_pair_is_a_link[OF t(1) len(1) t(2,3) t(4)[unfolded ex_g1_def] t(4) len(2) t(5)[unfolded ex_g2_def] tok
      t(5) len(3) conn t(6)[unfolded ex_g3_def] a(2) dial net, of "\<lambda>k. ''io''"]
  show ?thesis unfolding a(1) ex_g3_def by (elim exE conjE) auto
qed

end
