(* ===== verification/Messages.thy ===== *)
theory Messages
  imports CodecRegistry Stream
begin

unbundle bit_operations_syntax

text \<open>
  Messages on the wire: the envelopes of the three codecs (\<open>src/src/codec_postcard.rs\<close>,
  \<open>src/src/codec_msgpack.rs\<close>, \<open>src/src/message.rs\<close>), the code that \<open>#[message]\<close> writes for a type
  (\<open>src/macros/src/lib.rs\<close>), decoding of a received message (\<open>src/src/raw_message.rs\<close>), and the registry
  of handlers and message types (\<open>src/src/registry.rs\<close>). At the end they are put together to the
  environment that the streams of \<open>Stream\<close> run in.

  rmpv, rmp, rmp-serde and postcard, and the serde implementations of a message's fields, are
  parameters: the records \<open>codec_libs\<close> and \<open>message_type\<close> name the calls of them. A Rust string is the
  list of its bytes.
\<close>

section \<open>Third-party calls\<close>

text \<open>
  \<open>rmpv::Value\<close>, with the variants that the runtime looks at; a string that is not UTF-8 has no
  \<open>into_str\<close>. Errors of these libraries are known by their text only.
\<close>

datatype 'o msgpack_value = Array "'o msgpack_value list" | StringValue "string option" | OtherValue 'o

record 'o codec_libs =
  lib_write_array_len :: "u32 \<Rightarrow> string + bytes"
  lib_write_str :: "string \<Rightarrow> string + bytes"
  lib_write_value :: "'o msgpack_value \<Rightarrow> string + bytes"
  lib_read_value :: "bytes \<Rightarrow> string + 'o msgpack_value"
  lib_map_envelope :: "bytes \<Rightarrow> string + (string \<times> 'o msgpack_value)"
  lib_postcard_envelope :: "bytes \<Rightarrow> string + (string \<times> bytes)"

text \<open>The \<open>From\<close> conversions of \<open>src/src/error.rs\<close>.\<close>

definition codec_err :: "string + 'a \<Rightarrow> am_error + 'a" where
  "codec_err res = (case res of Inl text \<Rightarrow> Inl (Codec text) | Inr x \<Rightarrow> Inr x)"

lemma codec_err_simps [simp]: "codec_err (Inl e) = Inl (Codec e)" "codec_err (Inr x) = Inr x"
  by (simp_all add: codec_err_def)

definition str_bytes :: "string \<Rightarrow> bytes" where
  "str_bytes s = map of_char s"

lemma length_str_bytes [simp]: "length (str_bytes s) = length s"
  by (simp add: str_bytes_def)

section \<open>Message types\<close>

text \<open>
  A struct under \<open>#[message]\<close>: the arguments of the attribute, the module and the name of the struct,
  the number of its fields, and what serde and the codec libraries do with it: \<open>rmpv::ext::to_value\<close>
  and \<open>from_value\<close>, \<open>rmp_serde::to_vec_named\<close> of its map envelope, \<open>postcard::to_stdvec\<close> and
  \<open>from_bytes\<close>. Values of all message types together have type \<open>'v\<close>.
\<close>

record ('v, 'o) message_type =
  mt_ns :: "string option"
  mt_name :: "string option"
  mt_module_path :: string
  mt_ident :: string
  mt_field_count :: nat
  mt_to_value :: "'v \<Rightarrow> string + 'o msgpack_value"
  mt_from_value :: "'o msgpack_value \<Rightarrow> string + 'v"
  mt_to_vec_named :: "string \<Rightarrow> 'v \<Rightarrow> string + bytes"
  mt_to_stdvec :: "'v \<Rightarrow> string + bytes"
  mt_from_bytes :: "bytes \<Rightarrow> string + 'v"

text \<open>\<open>rsplit("::").next()\<close>, which looks for the separator from the right.\<close>

fun until_colons :: "string \<Rightarrow> string" where
  "until_colons (c # d # s) =
     (if c = CHR '':'' \<and> d = CHR '':'' then [] else c # until_colons (d # s))"
| "until_colons s = s"

definition module_leaf :: "string \<Rightarrow> string" where
  "module_leaf path = rev (until_colons (rev path))"

definition wire_name_static :: "('v, 'o) message_type \<Rightarrow> string" where
  "wire_name_static t =
     (let ns = (case mt_ns t of Some ns \<Rightarrow> ns | None \<Rightarrow> ''am'');
          base = (case mt_name t of Some name \<Rightarrow> name
                  | None \<Rightarrow> module_leaf (mt_module_path t) @ ''.'' @ mt_ident t)
      in ns @ ''.'' @ base)"

fun write_values :: "'o codec_libs \<Rightarrow> 'o msgpack_value list \<Rightarrow> am_error + bytes" where
  "write_values libs [] = Inr []"
| "write_values libs (f # fs) =
     try_res (codec_err (lib_write_value libs f)) (\<lambda>b.
       try_res (write_values libs fs) (\<lambda>bs. Inr (b @ bs)))"

definition encode_compact_value :: "'o codec_libs \<Rightarrow> string \<Rightarrow> 'o msgpack_value \<Rightarrow> am_error + bytes" where
  "encode_compact_value libs wire value = (case value of
     Array fs \<Rightarrow>
       try_res (codec_err (lib_write_array_len libs (as_u32 (length fs + 1)))) (\<lambda>head.
         try_res (codec_err (lib_write_str libs wire)) (\<lambda>name.
           try_res (write_values libs fs) (\<lambda>body. Inr (head @ name @ body))))
   | _ \<Rightarrow> Inl (Codec ''compact message must serialize as an array''))"

definition decode_compact_values :: "('v, 'o) message_type \<Rightarrow> 'o msgpack_value list \<Rightarrow> nat \<Rightarrow> am_error + 'v" where
  "decode_compact_values t values field_count =
     (if length values \<noteq> field_count then Inl (CompactFieldCount field_count (length values))
      else codec_err (mt_from_value t (Array values)))"

text \<open>The methods of \<open>Message\<close> and \<open>MessageDecode\<close> that the macro writes.\<close>

definition encode_map :: "('v, 'o) message_type \<Rightarrow> 'v \<Rightarrow> am_error + bytes" where
  "encode_map t v = codec_err (mt_to_vec_named t (wire_name_static t) v)"

definition encode_compact :: "'o codec_libs \<Rightarrow> ('v, 'o) message_type \<Rightarrow> 'v \<Rightarrow> am_error + bytes" where
  "encode_compact libs t v =
     try_res (codec_err (mt_to_value t v)) (encode_compact_value libs (wire_name_static t))"

definition encode_postcard :: "('v, 'o) message_type \<Rightarrow> 'v \<Rightarrow> am_error + bytes" where
  "encode_postcard t v = codec_err (mt_to_stdvec t v)"

definition decode_map :: "('v, 'o) message_type \<Rightarrow> 'o msgpack_value \<Rightarrow> am_error + 'v" where
  "decode_map t v = codec_err (mt_from_value t v)"

definition decode_compact :: "('v, 'o) message_type \<Rightarrow> 'o msgpack_value list \<Rightarrow> am_error + 'v" where
  "decode_compact t values = decode_compact_values t values (mt_field_count t)"

definition decode_postcard :: "('v, 'o) message_type \<Rightarrow> bytes \<Rightarrow> am_error + 'v" where
  "decode_postcard t payload = codec_err (mt_from_bytes t payload)"

section \<open>The codecs\<close>

datatype codec = MsgpackMapCodec | MsgpackCompactCodec | PostcardCodec

fun codec_id :: "codec \<Rightarrow> codec_id" where
  "codec_id MsgpackMapCodec = CodecMsgpackMap"
| "codec_id MsgpackCompactCodec = CodecMsgpackCompact"
| "codec_id PostcardCodec = CodecPostcard"

definition MAX_LEN_VARINT :: nat where "MAX_LEN_VARINT = 10"

text \<open>A length is a \<open>usize\<close> of 64 bits; the cast to a byte truncates.\<close>

function push_len_varint :: "bytes \<Rightarrow> u64 \<Rightarrow> bytes" where
  "push_len_varint out len =
     (if 0x80 \<le> len then push_len_varint (out @ [ucast len OR 0x80]) (drop_bit 7 len)
      else out @ [ucast len])"
  by pat_completeness auto
termination
proof (relation "measure (\<lambda>(out, len). unat len)")
  fix out :: bytes and len :: u64
  assume "0x80 \<le> len"
  then have "128 \<le> unat len" by (simp add: word_le_nat_alt)
  moreover have "unat (drop_bit 7 len) = unat len div 128" by (simp add: drop_bit_eq_div unat_div)
  ultimately show "((out @ [ucast len OR 0x80], drop_bit 7 len), out, len) \<in> measure (\<lambda>(out, len). unat len)"
    by simp
qed simp

declare push_len_varint.simps [simp del]

definition postcard_envelope :: "string \<Rightarrow> bytes \<Rightarrow> bytes" where
  "postcard_envelope wire data =
     (let out = push_len_varint [] (word_of_nat (length wire)) @ str_bytes wire
      in push_len_varint out (word_of_nat (length data)) @ data)"

definition postcard_encode :: "('v, 'o) message_type \<Rightarrow> 'v \<Rightarrow> am_error + bytes" where
  "postcard_encode t v =
     try_res (encode_postcard t v) (\<lambda>data. Inr (postcard_envelope (wire_name_static t) data))"

fun codec_encode :: "'o codec_libs \<Rightarrow> codec \<Rightarrow> ('v, 'o) message_type \<Rightarrow> 'v \<Rightarrow> am_error + bytes" where
  "codec_encode libs MsgpackMapCodec t v = encode_map t v"
| "codec_encode libs MsgpackCompactCodec t v = encode_compact libs t v"
| "codec_encode libs PostcardCodec t v = postcard_encode t v"

text \<open>An envelope: the wire name and the body, of the type that its codec puts into the \<open>Box<dyn Any>\<close>.\<close>

datatype 'o body = ValueBody "'o msgpack_value" | ValuesBody "'o msgpack_value list" | BytesBody bytes

definition decode_map_envelope :: "'o codec_libs \<Rightarrow> bytes \<Rightarrow> am_error + (string \<times> 'o body)" where
  "decode_map_envelope libs payload =
     try_res (codec_err (lib_map_envelope libs payload)) (\<lambda>(wire, data).
       if wire = [] then Inl (Codec ''map payload missing type'') else Inr (wire, ValueBody data))"

definition decode_compact_envelope :: "'o codec_libs \<Rightarrow> bytes \<Rightarrow> am_error + (string \<times> 'o body)" where
  "decode_compact_envelope libs payload =
     try_res (codec_err (lib_read_value libs payload)) (\<lambda>value. case value of
       Array (name # values) \<Rightarrow> (case name of
           StringValue (Some wire) \<Rightarrow> Inr (wire, ValuesBody values)
         | StringValue None \<Rightarrow> Inl (Codec ''compact message name must be utf-8'')
         | _ \<Rightarrow> Inl (Codec ''compact message name must be a string''))
     | _ \<Rightarrow> Inl (Codec ''compact payload must be a non-empty array''))"

definition decode_postcard_envelope :: "'o codec_libs \<Rightarrow> bytes \<Rightarrow> am_error + (string \<times> 'o body)" where
  "decode_postcard_envelope libs payload =
     try_res (codec_err (lib_postcard_envelope libs payload)) (\<lambda>(wire, data).
       if wire = [] then Inl (Codec ''postcard payload missing type'') else Inr (wire, BytesBody data))"

fun codec_decode_envelope :: "'o codec_libs \<Rightarrow> codec \<Rightarrow> bytes \<Rightarrow> am_error + (string \<times> 'o body)" where
  "codec_decode_envelope libs MsgpackMapCodec payload = decode_map_envelope libs payload"
| "codec_decode_envelope libs MsgpackCompactCodec payload = decode_compact_envelope libs payload"
| "codec_decode_envelope libs PostcardCodec payload = decode_postcard_envelope libs payload"

text \<open>
  \<open>DecodeTarget\<close>: \<open>TypedTarget\<close> and \<open>FactoryTarget\<close> hold the message type to decode, and a slot that a
  successful decode fills.
\<close>

definition fill_slot :: "am_error + 'v \<Rightarrow> 'v option \<Rightarrow> (am_error + unit) \<times> 'v option" where
  "fill_slot res slot = (case res of Inl e \<Rightarrow> (Inl e, slot) | Inr v \<Rightarrow> (Inr (), Some v))"

definition map_decode_into :: "'o body \<Rightarrow> ('v, 'o) message_type \<Rightarrow> 'v option \<Rightarrow> (am_error + unit) \<times> 'v option" where
  "map_decode_into body t slot = (case body of
     ValueBody value \<Rightarrow> fill_slot (decode_map t value) slot
   | _ \<Rightarrow> (Inl (Codec ''map body must be rmpv value''), slot))"

definition compact_decode_into :: "'o body \<Rightarrow> ('v, 'o) message_type \<Rightarrow> 'v option \<Rightarrow> (am_error + unit) \<times> 'v option" where
  "compact_decode_into body t slot = (case body of
     ValuesBody values \<Rightarrow> fill_slot (decode_compact t values) slot
   | _ \<Rightarrow> (Inl (Codec ''compact body must be value array''), slot))"

definition postcard_decode_into :: "'o body \<Rightarrow> ('v, 'o) message_type \<Rightarrow> 'v option \<Rightarrow> (am_error + unit) \<times> 'v option" where
  "postcard_decode_into body t slot = (case body of
     BytesBody data \<Rightarrow> fill_slot (decode_postcard t data) slot
   | _ \<Rightarrow> (Inl (Codec ''postcard body must be byte buffer''), slot))"

fun codec_decode_into :: "codec \<Rightarrow> 'o body \<Rightarrow> ('v, 'o) message_type \<Rightarrow> 'v option \<Rightarrow>
    (am_error + unit) \<times> 'v option" where
  "codec_decode_into MsgpackMapCodec body t slot = map_decode_into body t slot"
| "codec_decode_into MsgpackCompactCodec body t slot = compact_decode_into body t slot"
| "codec_decode_into PostcardCodec body t slot = postcard_decode_into body t slot"

definition into_value :: "'v option \<Rightarrow> am_error + 'v" where
  "into_value slot = (case slot of
     None \<Rightarrow> Inl (Codec ''decode target did not produce value'') | Some v \<Rightarrow> Inr v)"

section \<open>Raw messages and the registry\<close>

record 'o raw_message =
  rm_wire :: string
  rm_codec :: codec
  rm_body :: "'o body"

definition decode_target :: "('v, 'o) message_type \<Rightarrow> 'o raw_message \<Rightarrow> am_error + 'v" where
  "decode_target t raw = (case codec_decode_into (rm_codec raw) (rm_body raw) t None of
     (Inl e, slot) \<Rightarrow> Inl e | (Inr _, slot) \<Rightarrow> into_value slot)"

definition decode_raw_as :: "('v, 'o) message_type \<Rightarrow> 'o raw_message \<Rightarrow> am_error + 'v" where
  "decode_raw_as t raw =
     (if rm_wire raw \<noteq> wire_name_static t then Inl (TypeMismatch (wire_name_static t) (rm_wire raw))
      else decode_target t raw)"

text \<open>
  A program numbers its message types, as \<open>TypeId\<close> does: \<open>types\<close> is their table, a \<open>Box<dyn Message>\<close> the
  number of a type with a value. The handler \<open>KnownHandler<T>\<close> and the factory \<open>KnownMessage<T>\<close> are
  known by \<open>T\<close>.
\<close>

type_synonym 'v dyn_message = "nat \<times> 'v"

record registry =
  rg_handlers :: "(string \<times> nat) list"
  rg_messages :: "(string \<times> nat) list"

definition new_registry :: registry where
  "new_registry = \<lparr>rg_handlers = [], rg_messages = []\<rparr>"

definition register :: "(nat \<Rightarrow> ('v, 'o) message_type) \<Rightarrow> nat \<Rightarrow> registry \<Rightarrow> registry" where
  "register types T reg = reg\<lparr>rg_handlers := AList.update (wire_name_static (types T)) T (rg_handlers reg)\<rparr>"

definition register_message :: "(nat \<Rightarrow> ('v, 'o) message_type) \<Rightarrow> nat \<Rightarrow> registry \<Rightarrow> registry" where
  "register_message types T reg = reg\<lparr>rg_messages := AList.update (wire_name_static (types T)) T (rg_messages reg)\<rparr>"

definition registry_handler :: "registry \<Rightarrow> string \<Rightarrow> nat option" where
  "registry_handler reg wire = map_of (rg_handlers reg) wire"

definition registry_message :: "registry \<Rightarrow> string \<Rightarrow> nat option" where
  "registry_message reg wire = map_of (rg_messages reg) wire"

definition has_handlers :: "registry \<Rightarrow> bool" where
  "has_handlers reg \<longleftrightarrow> rg_handlers reg \<noteq> []"

text \<open>
  What a program submits to the inventory: \<open>#[message_handler]\<close> on the handler of a type an entry of
  each kind, \<open>#[message(register)]\<close> one for the message. The order of the inventory is the linker's.
\<close>

datatype submission = HandlerOf nat | MessageOf nat

definition known_entries :: "submission list \<Rightarrow> nat list" where
  "known_entries subs = concat (map (\<lambda>s. case s of HandlerOf T \<Rightarrow> [T] | MessageOf T \<Rightarrow> []) subs)"

definition known_message_entries :: "submission list \<Rightarrow> nat list" where
  "known_message_entries subs = map (\<lambda>s. case s of HandlerOf T \<Rightarrow> T | MessageOf T \<Rightarrow> T) subs"

definition from_inventory :: "(nat \<Rightarrow> ('v, 'o) message_type) \<Rightarrow> nat list \<Rightarrow> nat list \<Rightarrow> registry" where
  "from_inventory types entries message_entries =
     fold (register_message types) message_entries (fold (register types) entries new_registry)"

definition decode_raw_with_registry :: "(nat \<Rightarrow> ('v, 'o) message_type) \<Rightarrow> 'o raw_message \<Rightarrow> registry \<Rightarrow>
    am_error + 'v dyn_message" where
  "decode_raw_with_registry types raw reg = (case registry_message reg (rm_wire raw) of
     None \<Rightarrow> Inl (UnknownMessage (rm_wire raw))
   | Some T \<Rightarrow> (case decode_target (types T) raw of Inl e \<Rightarrow> Inl e | Inr v \<Rightarrow> Inr (T, v)))"

text \<open>\<open>KnownHandler<T>::handle\<close>: the value for the handler of \<open>T\<close>, or the error of the downcast.\<close>

definition known_handler_handle :: "(nat \<Rightarrow> ('v, 'o) message_type) \<Rightarrow> nat \<Rightarrow> 'v dyn_message \<Rightarrow> am_error + 'v" where
  "known_handler_handle types T msg =
     (if fst msg = T then Inr (snd msg)
      else Inl (TypeMismatch (wire_name_static (types T)) (wire_name_static (types (fst msg)))))"

section \<open>The environment of the streams\<close>

text \<open>
  \<open>OkReply\<close> and \<open>ErrorReply\<close> are the types 0 and 1 of every program, given with their constructors.
\<close>

definition ok_reply_type :: nat where "ok_reply_type = 0"
definition error_reply_type :: nat where "error_reply_type = 1"

record ('v, 'o) program =
  pr_io :: "io_kind \<Rightarrow> string"
  pr_libs :: "'o codec_libs"
  pr_types :: "nat \<Rightarrow> ('v, 'o) message_type"
  pr_registry :: registry
  pr_ok_reply :: 'v
  pr_error_reply :: "string \<Rightarrow> string \<Rightarrow> 'v"
  pr_into_parts :: "'v \<Rightarrow> string \<times> string"

definition codec_of :: "codec_id \<Rightarrow> codec option" where
  "codec_of i = find (\<lambda>c. codec_id c = i) [MsgpackMapCodec, MsgpackCompactCodec, PostcardCodec]"

text \<open>\<open>decode_envelope\<close> of the connection, and the decoding of a message that has a handler.\<close>

definition conn_decode_envelope :: "('v, 'o) program \<Rightarrow> codec_id \<Rightarrow> bytes \<Rightarrow> am_error + 'o raw_message" where
  "conn_decode_envelope p i payload = (case codec_of i of
     None \<Rightarrow> Inl (UnsupportedCodec i)
   | Some codec \<Rightarrow> try_res (codec_decode_envelope (pr_libs p) codec payload) (\<lambda>(wire, body).
       Inr \<lparr>rm_wire = wire, rm_codec = codec, rm_body = body\<rparr>))"

definition encode_dyn :: "('v, 'o) program \<Rightarrow> codec_id \<Rightarrow> 'v dyn_message \<Rightarrow> am_error + bytes" where
  "encode_dyn p i msg = (case codec_of i of
     None \<Rightarrow> Inl (UnsupportedCodec i)
   | Some codec \<Rightarrow> codec_encode (pr_libs p) codec (pr_types p (fst msg)) (snd msg))"

definition decode_job :: "('v, 'o) program \<Rightarrow> 'o raw_message \<Rightarrow> am_error + (nat \<times> 'v dyn_message)" where
  "decode_job p raw = (case registry_handler (pr_registry p) (rm_wire raw) of
     None \<Rightarrow> Inl (UnknownMessage (rm_wire raw))
   | Some T \<Rightarrow> try_res (decode_raw_with_registry (pr_types p) raw (pr_registry p)) (\<lambda>msg. Inr (T, msg)))"

definition message_env :: "('v, 'o) program \<Rightarrow> ('o raw_message, nat \<times> 'v dyn_message, 'v dyn_message) stream_env" where
  "message_env p =
     \<lparr>se_io = pr_io p, se_encode = encode_dyn p, se_decode_envelope = conn_decode_envelope p, se_wire = rm_wire,
      se_has_handler = (\<lambda>wire. registry_handler (pr_registry p) wire \<noteq> None), se_decode_job = decode_job p,
      se_decode_error_reply = (\<lambda>raw. try_res (decode_raw_as (pr_types p error_reply_type) raw) (\<lambda>v. Inr (pr_into_parts p v))),
      se_error_reply = (\<lambda>code text. (error_reply_type, pr_error_reply p code text)),
      se_ok_reply = (ok_reply_type, pr_ok_reply p),
      se_error_reply_wire = wire_name_static (pr_types p error_reply_type)\<rparr>"

end
