(* ===== verification/MessageProperties.thy ===== *)
theory MessageProperties
  imports Messages "HOL-Library.Code_Target_Nat"
begin

text \<open>
  What a message keeps on its way: the varint of the postcard envelope, the round trip through each
  codec and through the decode task of a connection, and the types of the handlers.
\<close>

section \<open>The length prefix of postcard\<close>

text \<open>
  The wire format of postcard, as a reader: a varint has seven bits per byte, the lowest first, and
  the high bit set in all bytes but the last; a string or byte slice is its length and its bytes.
\<close>

fun varint_value :: "bytes \<Rightarrow> (nat \<times> bytes) option" where
  "varint_value [] = None"
| "varint_value (b # bs) =
     (if unat b < 128 then Some (unat b, bs)
      else (case varint_value bs of
          None \<Rightarrow> None | Some (n, rest) \<Rightarrow> Some (unat b - 128 + 128 * n, rest)))"

definition slice_value :: "bytes \<Rightarrow> (bytes \<times> bytes) option" where
  "slice_value bs = (case varint_value bs of
     None \<Rightarrow> None
   | Some (n, rest) \<Rightarrow> if n \<le> length rest then Some (take n rest, drop n rest) else None)"

definition postcard_fields :: "bytes \<Rightarrow> (bytes \<times> bytes) option" where
  "postcard_fields bs = (case slice_value bs of
     None \<Rightarrow> None
   | Some (wire, rest) \<Rightarrow> (case slice_value rest of None \<Rightarrow> None | Some (data, _) \<Rightarrow> Some (wire, data)))"

lemma unat_shift_7: "unat (drop_bit 7 (len :: u64)) = unat len div 128"
  by (simp add: drop_bit_eq_div unat_div)

lemma push_len_varint_out: "push_len_varint out len = out @ push_len_varint [] len"
proof (induction len arbitrary: out rule: measure_induct_rule[of unat])
  case (less len)
  show ?case
  proof (cases "0x80 \<le> len")
    case True
    then have "128 \<le> unat len" by (simp add: word_le_nat_alt)
    then have "unat (drop_bit 7 len) < unat len" by (simp add: unat_shift_7)
    from less.IH[OF this, of "out @ [_]"] less.IH[OF this, of "[_]"] True show ?thesis
      by (simp add: push_len_varint.simps[of _ len])
  qed (simp add: push_len_varint.simps[of _ len])
qed

lemma push_len_varint_step:
  "push_len_varint [] len =
     (if 0x80 \<le> len then (ucast len OR 0x80) # push_len_varint [] (drop_bit 7 len) else [ucast len])"
  by (simp add: push_len_varint.simps[of _ len] push_len_varint_out[of "[_]"])

lemma unat_varint_byte: "unat (ucast (len :: u64) OR 0x80 :: u8) = 128 + unat len mod 128"
proof -
  have "ucast len OR 0x80 = ucast (take_bit 7 len) OR (0x80 :: u8)"
    by (rule bit_word_eqI) (auto simp: bit_simps numeral_eq_Suc less_Suc_eq)
  moreover have "ucast (take_bit 7 len) OR (0x80 :: u8) = ucast (take_bit 7 len) + 0x80"
    by (rule disjunctive_add [symmetric]) (auto simp: bit_simps numeral_eq_Suc less_Suc_eq)
  moreover have "unat (ucast (take_bit 7 len) :: u8) = unat len mod 128"
    by (simp add: unsigned_ucast_eq take_bit_eq_mod unat_mod)
  ultimately show ?thesis by (simp add: unat_word_ariths)
qed

lemma varint_value_push: "varint_value (push_len_varint [] len @ rest) = Some (unat len, rest)"
proof (induction len rule: measure_induct_rule[of unat])
  case (less len)
  show ?case
  proof (cases "0x80 \<le> len")
    case True
    then have "128 \<le> unat len" by (simp add: word_le_nat_alt)
    moreover note unat_shift_7[of len]
    ultimately have "varint_value (push_len_varint [] (drop_bit 7 len) @ rest) = Some (unat len div 128, rest)"
      using less by simp
    with True show ?thesis by (simp add: push_len_varint_step[of len] unat_varint_byte mod_mult_div_eq)
  next
    case False
    then have "unat len < 128" by (simp add: word_le_nat_alt)
    moreover from this have "unat (ucast len :: u8) = unat len" by (simp add: unsigned_ucast_eq take_bit_eq_mod)
    ultimately show ?thesis using False by (simp add: push_len_varint_step[of len])
  qed
qed

lemma push_len_varint_length:
  "unat len < 128 ^ n \<Longrightarrow> 0 < n \<Longrightarrow> length (push_len_varint [] len) \<le> n"
proof (induction n arbitrary: len)
  case (Suc n)
  show ?case
  proof (cases "0x80 \<le> len")
    case True
    then have "128 \<le> unat len" by (simp add: word_le_nat_alt)
    with Suc.prems have "0 < n" by (cases n) simp_all
    moreover have "unat (drop_bit 7 len) < 128 ^ n"
      using Suc.prems by (simp add: unat_shift_7 less_mult_imp_div_less mult.commute)
    ultimately show ?thesis using Suc.IH True by (simp add: push_len_varint_step[of len])
  qed (simp add: push_len_varint_step[of len])
qed simp

lemma push_len_varint_max: "length (push_len_varint [] len) \<le> MAX_LEN_VARINT"
proof -
  have "unat len < 2 ^ 64" using unsigned_less[of len] by simp
  then have "unat len < 128 ^ 10" by simp
  then show ?thesis unfolding MAX_LEN_VARINT_def by (rule push_len_varint_length) simp
qed

lemma slice_value_push:
  "length bs < 2 ^ 64 \<Longrightarrow> slice_value (push_len_varint [] (word_of_nat (length bs)) @ bs @ rest) = Some (bs, rest)"
  by (simp add: slice_value_def varint_value_push unat_word_of_nat)

lemma postcard_fields_envelope:
  assumes "length wire < 2 ^ 64" "length data < 2 ^ 64"
  shows "postcard_fields (postcard_envelope wire data) = Some (str_bytes wire, data)"
proof -
  have "postcard_envelope wire data = push_len_varint [] (word_of_nat (length (str_bytes wire))) @ str_bytes wire @
      (push_len_varint [] (word_of_nat (length data)) @ data @ [])"
    by (simp add: postcard_envelope_def Let_def push_len_varint_out[of "_ @ _"])
  moreover have "length (str_bytes wire) < 2 ^ 64" using assms(1) by simp
  ultimately show ?thesis by (simp only: postcard_fields_def slice_value_push assms(2) option.case prod.case)
qed

section \<open>Round trips\<close>

text \<open>
  What serde and the codec libraries promise for a message: each of them reads back what it wrote. A
  struct is given as an array of all its fields, so none may be skipped; nothing is read from no bytes.
\<close>

definition message_laws :: "'o codec_libs \<Rightarrow> ('v, 'o) message_type \<Rightarrow> 'v \<Rightarrow> bool" where
  "message_laws libs t v \<longleftrightarrow>
     (\<forall>x. lib_map_envelope libs [] \<noteq> Inr x) \<and> (\<forall>x. lib_read_value libs [] \<noteq> Inr x) \<and>
     (\<forall>b. mt_to_vec_named t (wire_name_static t) v = Inr b \<longrightarrow>
        (\<exists>x. lib_map_envelope libs b = Inr (wire_name_static t, x) \<and> mt_from_value t x = Inr v)) \<and>
     (\<forall>fs. mt_to_value t v = Inr (Array fs) \<longrightarrow>
        length fs = mt_field_count t \<and> mt_from_value t (Array fs) = Inr v \<and>
        (\<forall>h n b. lib_write_array_len libs (word_of_nat (length fs + 1)) = Inr h \<and>
           lib_write_str libs (wire_name_static t) = Inr n \<and> write_values libs fs = Inr b \<longrightarrow>
           lib_read_value libs (h @ n @ b) = Inr (Array (StringValue (Some (wire_name_static t)) # fs)))) \<and>
     (\<forall>b. mt_to_stdvec t v = Inr b \<longrightarrow> mt_from_bytes t b = Inr v) \<and>
     (\<forall>bs d. postcard_fields bs = Some (str_bytes (wire_name_static t), d) \<longrightarrow>
        lib_postcard_envelope libs bs = Inr (wire_name_static t, d))"

lemma codec_err_Inr_iff [simp]: "codec_err res = Inr x \<longleftrightarrow> res = Inr x"
  by (cases res) simp_all

lemma wire_name_nonempty: "wire_name_static t \<noteq> []"
  by (simp add: wire_name_static_def Let_def split: option.splits)

text \<open>
  The contract of \<open>CodecImpl\<close>: the envelope of an encoded message has its wire name, and a body that
  decodes to its value; a message is never encoded as nothing, which would be a FIN.
\<close>

locale message_codec =
  fixes encode :: "('v, 'o) message_type \<Rightarrow> 'v \<Rightarrow> am_error + bytes"
    and decode_envelope :: "bytes \<Rightarrow> am_error + (string \<times> 'o body)"
    and decode_into :: "'o body \<Rightarrow> ('v, 'o) message_type \<Rightarrow> 'v option \<Rightarrow> (am_error + unit) \<times> 'v option"
    and laws :: "('v, 'o) message_type \<Rightarrow> 'v \<Rightarrow> bool"
  assumes roundtrip: "laws t v \<Longrightarrow> encode t v = Inr payload \<Longrightarrow> length payload < 2 ^ 64 \<Longrightarrow>
    payload \<noteq> [] \<and> (\<exists>body. decode_envelope payload = Inr (wire_name_static t, body) \<and>
      decode_into body t None = (Inr (), Some v))"
begin

lemma wire_determined:
  assumes "laws t v" "laws u w" "encode t v = Inr payload" "encode u w = Inr payload" "length payload < 2 ^ 64"
  shows "wire_name_static t = wire_name_static u"
  using roundtrip[OF assms(1,3,5)] roundtrip[OF assms(2,4,5)] by auto

lemma encode_inject:
  assumes "laws t v" "laws t w" "encode t v = Inr payload" "encode t w = Inr payload" "length payload < 2 ^ 64"
  shows "v = w"
  using roundtrip[OF assms(1,3,5)] roundtrip[OF assms(2,4,5)] by auto

end

interpretation map_codec: message_codec "codec_encode libs MsgpackMapCodec" "codec_decode_envelope libs MsgpackMapCodec"
  "codec_decode_into MsgpackMapCodec" "message_laws libs" for libs :: "'o codec_libs"
proof unfold_locales
  fix t :: "('v, 'o) message_type" and v payload
  assume *: "message_laws libs t v" "codec_encode libs MsgpackMapCodec t v = Inr payload"
  then obtain x where "lib_map_envelope libs payload = Inr (wire_name_static t, x)" "mt_from_value t x = Inr v"
    by (auto simp: message_laws_def encode_map_def)
  moreover from this *(1) have "payload \<noteq> []" by (auto simp: message_laws_def)
  ultimately show "payload \<noteq> [] \<and> (\<exists>body. codec_decode_envelope libs MsgpackMapCodec payload = Inr (wire_name_static t, body) \<and>
    codec_decode_into MsgpackMapCodec body t None = (Inr (), Some v))"
    by (simp add: decode_map_envelope_def wire_name_nonempty map_decode_into_def fill_slot_def decode_map_def)
qed

interpretation compact_codec: message_codec "codec_encode libs MsgpackCompactCodec"
  "codec_decode_envelope libs MsgpackCompactCodec" "codec_decode_into MsgpackCompactCodec" "message_laws libs" for libs :: "'o codec_libs"
proof unfold_locales
  fix t :: "('v, 'o) message_type" and v payload
  assume *: "message_laws libs t v" "codec_encode libs MsgpackCompactCodec t v = Inr payload"
  from *(2) obtain x where x: "mt_to_value t v = Inr x"
      "encode_compact_value libs (wire_name_static t) x = Inr payload"
    by (auto simp: encode_compact_def try_res_Inr_iff)
  then obtain fs h n b where fs: "mt_to_value t v = Inr (Array fs)"
    and w: "lib_write_array_len libs (as_u32 (length fs + 1)) = Inr h" "lib_write_str libs (wire_name_static t) = Inr n"
      "write_values libs fs = Inr b" "payload = h @ n @ b"
    by (cases x) (auto simp: encode_compact_value_def try_res_Inr_iff)
  with *(1) have r: "length fs = mt_field_count t" "mt_from_value t (Array fs) = Inr v"
    "lib_read_value libs payload = Inr (Array (StringValue (Some (wire_name_static t)) # fs))"
    by (simp_all add: message_laws_def as_u32_def)
  moreover from r(3) *(1) have "payload \<noteq> []" by (auto simp: message_laws_def)
  ultimately show "payload \<noteq> [] \<and> (\<exists>body. codec_decode_envelope libs MsgpackCompactCodec payload = Inr (wire_name_static t, body) \<and>
    codec_decode_into MsgpackCompactCodec body t None = (Inr (), Some v))"
    by (simp add: decode_compact_envelope_def compact_decode_into_def fill_slot_def decode_compact_def
        decode_compact_values_def)
qed

interpretation postcard_codec: message_codec "codec_encode libs PostcardCodec" "codec_decode_envelope libs PostcardCodec"
  "codec_decode_into PostcardCodec" "message_laws libs" for libs :: "'o codec_libs"
proof unfold_locales
  fix t :: "('v, 'o) message_type" and v and payload :: bytes
  assume *: "message_laws libs t v" "codec_encode libs PostcardCodec t v = Inr payload" "length payload < 2 ^ 64"
  from *(2) obtain d where d: "mt_to_stdvec t v = Inr d" "payload = postcard_envelope (wire_name_static t) d"
    by (auto simp: postcard_encode_def encode_postcard_def try_res_Inr_iff)
  have "length (wire_name_static t) + length d \<le> length payload"
    by (simp add: d(2) postcard_envelope_def Let_def push_len_varint_out[of "_ @ _"])
  with *(3) d(2) have "postcard_fields payload = Some (str_bytes (wire_name_static t), d)" "payload \<noteq> []"
    using postcard_fields_envelope[of "wire_name_static t" d] wire_name_nonempty[of t] by auto
  with *(1) d(1) show "payload \<noteq> [] \<and> (\<exists>body. codec_decode_envelope libs PostcardCodec payload = Inr (wire_name_static t, body) \<and>
    codec_decode_into PostcardCodec body t None = (Inr (), Some v))"
    by (simp add: message_laws_def decode_postcard_envelope_def wire_name_nonempty postcard_decode_into_def
        fill_slot_def decode_postcard_def)
qed

lemma codec_roundtrip:
  assumes "message_laws libs t v" "codec_encode libs codec t v = Inr payload" "length payload < 2 ^ 64"
  shows "payload \<noteq> [] \<and> (\<exists>body. codec_decode_envelope libs codec payload = Inr (wire_name_static t, body) \<and>
    codec_decode_into codec body t None = (Inr (), Some v))"
  using assms by (cases codec) (auto simp only: dest: map_codec.roundtrip compact_codec.roundtrip postcard_codec.roundtrip)

text \<open>
  C15: A message arrives as it was sent, with each codec. What \<open>send\<close> encodes for a connection, the
  decode task of the peer takes for a message of that wire name; it hands the value, as that type, to
  the handler of the type, or puts into the inbox what \<open>recv\<close> of the type turns into the value, and
  \<open>recv\<close> of a type of another name refuses.
\<close>

theorem message_arrives:
  fixes s c :: "('o raw_message, nat \<times> 'v dyn_message) connection"
  assumes "message_laws (pr_libs p) t v" "pr_types p T = t"
    and enc: "encode_message (se_encode (message_env p)) (T, v) s = Inr payload"
    and "cc_codec_id (config c) = cc_codec_id (config s)" "st_incoming (stream_at c r) = payload # rest"
    and h: "registry_handler (pr_registry p) (wire_name_static t) = None \<or>
      registry_handler (pr_registry p) (wire_name_static t) = Some T \<and>
      registry_message (pr_registry p) (wire_name_static t) = Some T"
  shows "\<exists>raw. rm_wire raw = wire_name_static t \<and> decode_raw_as t raw = Inr v \<and>
    (\<forall>u. wire_name_static u \<noteq> wire_name_static t \<longrightarrow>
       decode_raw_as u raw = (Inl (TypeMismatch (wire_name_static u) (wire_name_static t)) :: am_error + 'v)) \<and>
    decode_frame (message_env p) r c =
      decode_resume (if registry_handler (pr_registry p) (wire_name_static t) = None then InboxWaits raw
          else HandlerWaits (T, (T, v))) r
        (update_stream r (\<lambda>s. s\<lparr>st_incoming := rest\<rparr>) c)"
proof -
  from enc have e: "encode_dyn p (cc_codec_id (config s)) (T, v) = Inr payload"
    and "length payload \<le> unat (cc_max_frame (config s))"
    by (auto simp: encode_message_def message_env_def try_res_Inr_iff split: if_splits)
  then have "length payload < 2 ^ 64" using unat_u32_bound[of "cc_max_frame (config s)"] by simp
  moreover from e assms(2) obtain codec where codec: "codec_of (cc_codec_id (config s)) = Some codec"
      "codec_encode (pr_libs p) codec t v = Inr payload"
    by (auto simp: encode_dyn_def split: option.splits)
  ultimately obtain body where p: "payload \<noteq> []"
      "codec_decode_envelope (pr_libs p) codec payload = Inr (wire_name_static t, body)"
      "codec_decode_into codec body t None = (Inr (), Some v)"
    using codec_roundtrip[OF assms(1)] by blast
  define raw where "raw = \<lparr>rm_wire = wire_name_static t, rm_codec = codec, rm_body = body\<rparr>"
  have raw: "rm_wire raw = wire_name_static t" "decode_target t raw = Inr v"
    using p(3) by (simp_all add: raw_def decode_target_def into_value_def)
  have env: "se_decode_envelope (message_env p) (cc_codec_id (config s)) payload = Inr raw"
    using codec(1) p(2) by (simp add: message_env_def conn_decode_envelope_def raw_def)
  have job: "se_decode_job (message_env p) raw = Inr (T, (T, v))"
    if "registry_handler (pr_registry p) (wire_name_static t) = Some T"
    using that raw h assms(2)
    by (simp add: message_env_def decode_job_def decode_raw_with_registry_def)
  have c1: "config (update_stream r f c) = config c" for f
    by (simp add: config_def update_stream_def)
  have "decode_frame (message_env p) r c =
      dispatch_raw (message_env p) raw r (update_stream r (\<lambda>s. s\<lparr>st_incoming := rest\<rparr>) c)"
    using assms(4,5) p(1) env by (simp add: decode_frame_def Let_def c1)
  also have "\<dots> = decode_resume (if registry_handler (pr_registry p) (wire_name_static t) = None then InboxWaits raw
          else HandlerWaits (T, (T, v))) r (update_stream r (\<lambda>s. s\<lparr>st_incoming := rest\<rparr>) c)"
    using h job raw(1) by (auto simp: dispatch_raw_def message_env_def)
  finally show ?thesis using raw by (intro exI[of _ raw]) (simp add: decode_raw_as_def)
qed


definition bytes_str :: "bytes \<Rightarrow> string" where
  "bytes_str bs = map (\<lambda>b. char_of (unat b)) bs"

lemma bytes_str_bytes [simp]: "bytes_str (str_bytes s) = s"
proof -
  have "char_of (unat (of_char c :: u8)) = c" for c
  proof -
    have "(of_char c :: nat) < 256" using range_nat_of_char by (metis atLeastLessThan_iff rangeI)
    then have "unat (word_of_nat (of_char c) :: u8) = of_char c" by (intro unat_word_of_nat) simp
    then have "unat (of_char c :: u8) = of_char c" by (simp only: of_nat_of_char)
    then show ?thesis by (simp only: char_of_char)
  qed
  then show ?thesis by (simp add: bytes_str_def str_bytes_def comp_def)
qed

text \<open>A message of one byte, and libraries that can write and read it.\<close>

definition ex_libs :: "u8 codec_libs" where
  "ex_libs = \<lparr>lib_write_array_len = (\<lambda>n. Inr [0x90 OR ucast n]),
     lib_write_str = (\<lambda>s. Inr ((0xa0 OR word_of_nat (length s)) # str_bytes s)),
     lib_write_value = (\<lambda>x. case x of OtherValue b \<Rightarrow> Inr [b] | _ \<Rightarrow> Inl ''unsupported''),
     lib_read_value = (\<lambda>bs. case bs of
         a # n # bs' \<Rightarrow> (let k = unat (n AND 0x1f) in
           Inr (Array (StringValue (Some (bytes_str (take k bs'))) # map OtherValue (drop k bs'))))
       | _ \<Rightarrow> Inl ''failed to fill whole buffer''),
     lib_map_envelope = (\<lambda>bs. case bs of
         n # bs' \<Rightarrow> Inr (bytes_str (take (unat n) bs'), Array (map OtherValue (drop (unat n) bs')))
       | [] \<Rightarrow> Inl ''failed to fill whole buffer''),
     lib_postcard_envelope = (\<lambda>bs. case postcard_fields bs of
         Some (w, d) \<Rightarrow> Inr (bytes_str w, d) | None \<Rightarrow> Inl ''hit the end of buffer'')\<rparr>"

definition ex_type :: "string \<Rightarrow> (u8, u8) message_type" where
  "ex_type name = \<lparr>mt_ns = None, mt_name = None, mt_module_path = ''app::messages'', mt_ident = name, mt_field_count = 1,
     mt_to_value = (\<lambda>v. Inr (Array [OtherValue v])),
     mt_from_value = (\<lambda>x. case x of Array [OtherValue v] \<Rightarrow> Inr v | _ \<Rightarrow> Inl ''invalid type''),
     mt_to_vec_named = (\<lambda>w v. Inr (word_of_nat (length w) # str_bytes w @ [v])),
     mt_to_stdvec = (\<lambda>v. Inr [v]), mt_from_bytes = (\<lambda>bs. case bs of [v] \<Rightarrow> Inr v | _ \<Rightarrow> Inl ''end'')\<rparr>"

definition ex_types :: "nat \<Rightarrow> (u8, u8) message_type" where
  "ex_types T = ex_type (if T = 0 then ''OkReply'' else if T = 1 then ''ErrorReply'' else if T = 2 then ''Ping'' else ''Pong'')"

lemma ex_wire_name: "wire_name_static (ex_type name) = ''am.messages.'' @ name"
proof -
  have "module_leaf ''app::messages'' = ''messages''" by (simp add: module_leaf_def)
  then show ?thesis by (simp add: wire_name_static_def ex_type_def)
qed



lemma ex_message_laws:
  fixes v :: u8
  shows "message_laws ex_libs (ex_types 2) v"
proof -
  have w: "wire_name_static (ex_types 2) = ''am.messages.Ping''" by (simp add: ex_types_def ex_wire_name)
  have "lib_map_envelope ex_libs (word_of_nat 16 # str_bytes ''am.messages.Ping'' @ [v]) =
      Inr (''am.messages.Ping'', Array [OtherValue v])"
    by (simp add: ex_libs_def)
  moreover have "lib_read_value ex_libs ([0x90 OR ucast (2 :: u32)] @ (0xa0 OR word_of_nat 16) # str_bytes ''am.messages.Ping'' @ [v]) =
      Inr (Array [StringValue (Some ''am.messages.Ping''), OtherValue v])"
    by (simp add: ex_libs_def)
  moreover have "lib_postcard_envelope ex_libs bs = Inr (''am.messages.Ping'', d)"
    if "postcard_fields bs = Some (str_bytes ''am.messages.Ping'', d)" for bs d
    using that by (simp add: ex_libs_def)
  moreover have "lib_map_envelope ex_libs [] \<noteq> Inr x" "lib_read_value ex_libs [] \<noteq> Inr y" for x y
    by (simp_all add: ex_libs_def)
  ultimately show ?thesis unfolding message_laws_def w
    by (simp add: ex_types_def ex_type_def) (simp add: ex_libs_def)
qed

section \<open>Handlers and types\<close>

lemma fold_register:
  "rg_messages (fold (register types) Ts reg) = rg_messages reg"
  "map_of (rg_handlers (fold (register types) Ts reg)) w =
     (case find (\<lambda>T. wire_name_static (types T) = w) (rev Ts) of Some T \<Rightarrow> Some T | None \<Rightarrow> map_of (rg_handlers reg) w)"
  by (induction Ts rule: rev_induct) (simp_all add: register_def update_conv')

lemma fold_register_message:
  "rg_handlers (fold (register_message types) Ts reg) = rg_handlers reg"
  "map_of (rg_messages (fold (register_message types) Ts reg)) w =
     (case find (\<lambda>T. wire_name_static (types T) = w) (rev Ts) of Some T \<Rightarrow> Some T | None \<Rightarrow> map_of (rg_messages reg) w)"
  by (induction Ts rule: rev_induct) (simp_all add: register_message_def update_conv')

lemma from_inventory_lookup:
  "registry_handler (from_inventory types es ms) w = find (\<lambda>T. wire_name_static (types T) = w) (rev es)"
  "registry_message (from_inventory types es ms) w = find (\<lambda>T. wire_name_static (types T) = w) (rev ms)"
  unfolding registry_handler_def registry_message_def from_inventory_def fold_register fold_register_message
    new_registry_def registry.simps map_of.simps
  by (simp_all split: option.splits)

lemma find_wire_name:
  assumes "inj_on (\<lambda>T. wire_name_static (types T)) A" "set Ts \<subseteq> A"
  shows "find (\<lambda>T. wire_name_static (types T) = w) (rev Ts) = Some T \<longleftrightarrow> T \<in> set Ts \<and> wire_name_static (types T) = w"
proof
  assume "find (\<lambda>T. wire_name_static (types T) = w) (rev Ts) = Some T"
  then show "T \<in> set Ts \<and> wire_name_static (types T) = w" by (auto simp: find_Some_iff rev_nth)
next
  assume T: "T \<in> set Ts \<and> wire_name_static (types T) = w"
  then have "find (\<lambda>T. wire_name_static (types T) = w) (rev Ts) \<noteq> None" by (auto simp: find_None_iff)
  then obtain U where U: "find (\<lambda>T. wire_name_static (types T) = w) (rev Ts) = Some U" by auto
  then have "U \<in> set Ts \<and> wire_name_static (types U) = w" by (auto simp: find_Some_iff rev_nth)
  with T assms have "U = T" by (auto simp: inj_on_def)
  with U show "find (\<lambda>T. wire_name_static (types T) = w) (rev Ts) = Some T" by simp
qed

text \<open>
  C18: A handler is given messages of its own type. In the registry of a program whose registered
  messages have names of their own, a wire name has a handler exactly if it is the name of a type with
  a handler. A message of that name is then decoded as that type, and the downcast in the handler
  cannot fail. (The inventory has the entries in any order.)
\<close>

theorem handler_gets_its_type:
  assumes "set entries = set (known_entries subs)" "set message_entries = set (known_message_entries subs)"
    and "inj_on (\<lambda>T. wire_name_static (types T)) (set (known_message_entries subs))"
  defines "reg \<equiv> from_inventory types entries message_entries"
  shows "(registry_handler reg w = Some T \<longleftrightarrow> HandlerOf T \<in> set subs \<and> wire_name_static (types T) = w) \<and>
    (registry_handler reg (rm_wire raw) = Some T \<longrightarrow>
      decode_raw_with_registry types raw reg = (case decode_raw_as (types T) raw of Inl e \<Rightarrow> Inl e | Inr v \<Rightarrow> Inr (T, v)) \<and>
      (\<forall>msg. decode_raw_with_registry types raw reg = Inr msg \<longrightarrow> is_ok (known_handler_handle types T msg)))"
proof -
  let ?name = "\<lambda>T. wire_name_static (types T)"
  have known: "set (known_entries subs) = {T. HandlerOf T \<in> set subs}" "set (known_entries subs) \<subseteq> set (known_message_entries subs)"
    by (force simp: known_entries_def known_message_entries_def split: submission.splits)+
  have handler: "registry_handler reg w = Some T \<longleftrightarrow> HandlerOf T \<in> set subs \<and> ?name T = w" for w T
    using find_wire_name[OF assms(3), of entries w T] assms(1) known by (simp add: reg_def from_inventory_lookup)
  moreover have "registry_message reg (?name T) = Some T" if "HandlerOf T \<in> set subs" for T
    using find_wire_name[OF assms(3), of message_entries "?name T" T] assms(2) known that
    by (auto simp: reg_def from_inventory_lookup)
  ultimately have "registry_message reg (rm_wire raw) = Some T \<and> ?name T = rm_wire raw"
    if "registry_handler reg (rm_wire raw) = Some T" using that by metis
  with handler[of w T] show ?thesis
    by (auto simp: decode_raw_with_registry_def decode_raw_as_def known_handler_handle_def split: sum.splits)
qed

definition ex_subs :: "submission list" where
  "ex_subs = [MessageOf 0, MessageOf 1, HandlerOf 2]"

definition ex_registry :: registry where
  "ex_registry = from_inventory ex_types (known_entries ex_subs) (known_message_entries ex_subs)"

definition ex_ping :: "u8 raw_message" where
  "ex_ping = \<lparr>rm_wire = ''am.messages.Ping'', rm_codec = PostcardCodec, rm_body = BytesBody [7]\<rparr>"

lemma ex_type_names: "wire_name_static (ex_types 0) = ''am.messages.OkReply''"
  "wire_name_static (ex_types (Suc 0)) = ''am.messages.ErrorReply''" "wire_name_static (ex_types 2) = ''am.messages.Ping''"
  by (simp_all add: ex_types_def ex_wire_name)

lemma handler_gets_its_type_witness:
  "registry_handler ex_registry ''am.messages.Ping'' = Some 2 \<and>
   decode_raw_with_registry ex_types ex_ping ex_registry = Inr (2, 7) \<and>
   is_ok (known_handler_handle ex_types 2 (2, 7))"
proof -
  have inj: "inj_on (\<lambda>T. wire_name_static (ex_types T)) (set (known_message_entries ex_subs))"
    by (simp add: known_message_entries_def ex_subs_def ex_type_names)
  note t = handler_gets_its_type[OF refl refl inj, folded ex_registry_def]
  from t[of "''am.messages.Ping''" 2] have h: "registry_handler ex_registry ''am.messages.Ping'' = Some 2"
    by (simp add: ex_subs_def ex_type_names)
  have "decode_raw_as (ex_types 2) ex_ping = Inr 7" by code_simp
  with t[where raw = ex_ping and T = 2] h show ?thesis by (simp add: ex_ping_def)
qed

definition ex_program :: "(u8, u8) program" where
  "ex_program = \<lparr>pr_io = (\<lambda>_. ''io''), pr_libs = ex_libs, pr_types = ex_types, pr_registry = ex_registry,
     pr_ok_reply = 0, pr_error_reply = (\<lambda>_ _. 1), pr_into_parts = (\<lambda>_. (''code'', ''text''))\<rparr>"

definition ex_payload :: bytes where
  "ex_payload = postcard_envelope ''am.messages.Ping'' [7]"

definition ex_receiver :: "(u8 raw_message, nat \<times> u8 dyn_message) connection" where
  "ex_receiver = snd (accept_frame 1 0 ex_payload ((new_unstarted True False False)\<lparr>c_config :=
     Some \<lparr>cc_version = PROTOCOL_VERSION_V2, cc_codec_id = CodecPostcard, cc_max_frame = 1000, cc_header_len = 10\<rparr>\<rparr>))"

lemma message_arrives_witness:
  "st_handler_q (stream_at (snd (decode_frame (message_env ex_program) 0 ex_receiver)) 0) = [(2, (2, 7))]"
proof -
  have enc: "encode_message (se_encode (message_env ex_program)) (2, 7) ex_receiver = Inr ex_payload"
    by code_simp
  have inc: "st_incoming (stream_at ex_receiver 0) = ex_payload # []" by code_simp
  have reg: "registry_handler ex_registry ''am.messages.Ping'' = Some 2"
    "registry_message ex_registry ''am.messages.Ping'' = Some 2" by code_simp+
  have "\<exists>raw. decode_frame (message_env ex_program) 0 ex_receiver =
      decode_resume (HandlerWaits (2, (2, 7))) 0 (update_stream 0 (\<lambda>s. s\<lparr>st_incoming := []\<rparr>) ex_receiver)"
    using message_arrives[OF _ _ enc refl inc, of "ex_types 2"] ex_message_laws reg
    by (auto simp: ex_program_def ex_type_names)
  moreover have "st_handler_q (stream_at (snd (decode_resume (HandlerWaits (2, (2, 7))) 0
      (update_stream 0 (\<lambda>s. s\<lparr>st_incoming := []\<rparr>) ex_receiver))) 0) = [(2, (2, 7))]" by code_simp
  ultimately show ?thesis by simp
qed

end
