(* ===== verification/Amgen.thy ===== *)
theory Amgen
  imports Prelude
begin

text \<open>
  \<open>src/cmd/amgen/src/main.rs\<close>: the generator of Go bindings for the message structs of a Rust file.
  The parser syn is a third party: its syntax trees are the datatypes below, with the constructors that
  the generator matches on, and parsing a file is a parameter. The file system is a parameter as well,
  and a run gives the list of files it wrote. Paths are absolute, as lists of components; white space
  and letters are those of ASCII.
\<close>

section \<open>Syntax trees\<close>

datatype array_length = IntLiteral string | OtherLength

datatype rust_type =
    TypePath bool "path_segment list"
  | TypeArray rust_type array_length
  | TypeSlice rust_type | TypeParen rust_type | TypeGroup rust_type
  | TypeReference | TypeTuple | TypePtr | TypeBareFn | TypeNever | TypeTraitObject | TypeImplTrait
  | TypeMacro | TypeInfer | TypeOther
and path_segment = Segment (seg_ident: string) (seg_arguments: path_arguments)
and path_arguments = NoArguments | AngleBracketed "generic_argument list" | Parenthesized
and generic_argument = TypeArgument rust_type | OtherArgument

text \<open>
  An attribute: its path, and what follows: nothing, a list of nested items, or \<open>= expression\<close>. A
  nested item has a name, and nothing, \<open>= "literal"\<close>, \<open>= expression\<close> or arguments in parentheses after it.
\<close>

datatype nested_value = NoArgument | LiteralArgument string | ExprArgument | ParenArguments

datatype attr_meta = MetaPath | MetaList "(string \<times> nested_value) list" | MetaNameValue "string option"

record attribute =
  at_path :: "string list"
  at_meta :: attr_meta

record rust_field =
  rf_ident :: "string option"
  rf_attrs :: "attribute list"
  rf_type :: rust_type

datatype rust_fields = NamedFields "rust_field list" | OtherFields

datatype rust_item =
    ItemMod string "attribute list" "rust_item list option"
  | ItemStruct string "attribute list" rust_fields
  | OtherItem

text \<open>Errors: a text of the generator, or an error of syn, or of the file system.\<close>

datatype gen_error = Bail string | SynError | IoError

section \<open>Strings\<close>

definition dquote :: char where "dquote = CHR 0x22"
definition backslash :: char where "backslash = CHR 0x5C"
definition backtick :: char where "backtick = CHR 0x60"
definition tab :: char where "tab = CHR 0x09"
definition newline :: char where "newline = CHR 0x0A"

lemmas char_defs = dquote_def backslash_def backtick_def tab_def newline_def

text \<open>\<open>split\<close> of a string at a character, \<open>trim\<close>, \<open>lines\<close> and \<open>to_ascii_uppercase\<close>.\<close>

fun split_char :: "char \<Rightarrow> string \<Rightarrow> string list" where
  "split_char d [] = [[]]"
| "split_char d (c # s) =
     (if c = d then [] # split_char d s
      else (case split_char d s of part # parts \<Rightarrow> (c # part) # parts | [] \<Rightarrow> [[c]]))"

definition is_space :: "char \<Rightarrow> bool" where
  "is_space c \<longleftrightarrow> c \<in> {CHR 0x20, CHR 0x09, CHR 0x0A, CHR 0x0B, CHR 0x0C, CHR 0x0D}"

definition trim :: "string \<Rightarrow> string" where
  "trim s = rev (dropWhile is_space (rev (dropWhile is_space s)))"

definition strip_cr :: "string \<Rightarrow> string" where
  "strip_cr s = (case strip_suffix [CHR 0x0D] s of Some s' \<Rightarrow> s' | None \<Rightarrow> s)"

fun lines_from :: "string \<Rightarrow> string \<Rightarrow> string list" where
  "lines_from cur [] = (if cur = [] then [] else [cur])"
| "lines_from cur (c # s) = (if c = newline then strip_cr cur # lines_from [] s else lines_from (cur @ [c]) s)"

definition to_ascii_uppercase :: "char \<Rightarrow> char" where
  "to_ascii_uppercase c = (if 97 \<le> (of_char c :: nat) \<and> (of_char c :: nat) \<le> 122 then char_of (of_char c - 32 :: nat) else c)"

section \<open>Paths and files\<close>

text \<open>\<open>file_name\<close>, \<open>file_stem\<close> and \<open>with_extension\<close> of the standard library.\<close>

type_synonym path = "string list"

definition file_name :: "path \<Rightarrow> string option" where
  "file_name p = (if p = [] \<or> last p = ''..'' then None else Some (last p))"

definition parent :: "path \<Rightarrow> path option" where
  "parent p = (if p = [] then None else Some (butlast p))"

definition stem_of :: "string \<Rightarrow> string" where
  "stem_of name = (if CHR ''.'' \<notin> set name then name
     else let before = rev (tl (dropWhile (\<lambda>c. c \<noteq> CHR ''.'') (rev name)))
          in if before = [] then name else before)"

definition file_stem :: "path \<Rightarrow> string option" where
  "file_stem p = map_option stem_of (file_name p)"

definition default_output_path :: "path \<Rightarrow> path" where
  "default_output_path input = (case file_stem input of
     None \<Rightarrow> input | Some stem \<Rightarrow> butlast input @ [stem @ ''.go''])"

record file_system =
  fs_is_file :: "path \<Rightarrow> bool"
  fs_is_dir :: "path \<Rightarrow> bool"
  fs_exists :: "path \<Rightarrow> bool"
  fs_read :: "path \<Rightarrow> string option"
  fs_canonicalize :: "path \<Rightarrow> path option"
  fs_current_dir :: "path option"
  fs_writable :: "path \<Rightarrow> bool"
  fs_parse :: "string \<Rightarrow> rust_item list option"

definition package_name_from_output :: "path \<Rightarrow> gen_error + string" where
  "package_name_from_output output =
     (case (case parent output of Some dir \<Rightarrow> file_name dir | None \<Rightarrow> None) of
        Some name \<Rightarrow> if name \<noteq> [] then Inr name
          else (case file_stem output of Some stem \<Rightarrow> if stem \<noteq> [] then Inr stem
              else Inl (Bail ''cannot infer package name from output path'')
            | None \<Rightarrow> Inl (Bail ''cannot infer package name from output path''))
      | None \<Rightarrow> (case file_stem output of Some stem \<Rightarrow> if stem \<noteq> [] then Inr stem
              else Inl (Bail ''cannot infer package name from output path'')
            | None \<Rightarrow> Inl (Bail ''cannot infer package name from output path'')))"

text \<open>The loop of \<open>repo_root_for_input\<close> from a directory upwards; \<open>pop\<close> fails at the root.\<close>

function repo_root_from :: "file_system \<Rightarrow> path \<Rightarrow> path option" where
  "repo_root_from fs dir =
     (if fs_is_file fs (dir @ [''Cargo.toml'']) then Some dir
      else if dir = [] then None else repo_root_from fs (butlast dir))"
  by pat_completeness auto
termination
  by (relation "measure (\<lambda>(fs, dir). length dir)") auto

declare repo_root_from.simps [simp del]

definition repo_root_for_input :: "file_system \<Rightarrow> path \<Rightarrow> path option" where
  "repo_root_for_input fs input =
     (if fs_is_dir fs input then repo_root_from fs input
      else (case parent input of Some dir \<Rightarrow> repo_root_from fs dir | None \<Rightarrow> None))"

definition default_go_mod_path :: "file_system \<Rightarrow> path \<Rightarrow> path option" where
  "default_go_mod_path fs input = (case repo_root_for_input fs input of
     Some root \<Rightarrow> Some (root @ [''go.mod''])
   | None \<Rightarrow> map_option (\<lambda>dir. dir @ [''go.mod'']) (parent input))"

text \<open>\<open>module_from_git_config\<close>, from the lines of the file.\<close>

definition url_module :: "string \<Rightarrow> string" where
  "url_module url =
     (let module = (case strip_prefix ''https://'' url of Some m \<Rightarrow> m
          | None \<Rightarrow> (case strip_prefix ''http://'' url of Some m \<Rightarrow> m | None \<Rightarrow> url))
      in case strip_suffix ''.git'' module of Some m \<Rightarrow> m | None \<Rightarrow> module)"

fun origin_module :: "bool \<Rightarrow> string list \<Rightarrow> string option" where
  "origin_module in_origin [] = None"
| "origin_module in_origin (line # ls) =
     (let trimmed = trim line in
      if strip_prefix ''['' trimmed \<noteq> None
      then origin_module (trimmed = ''[remote '' @ [dquote] @ ''origin'' @ [dquote] @ '']'') ls
      else if in_origin
      then (case strip_prefix ''url = '' trimmed of
          Some url \<Rightarrow> (let module = url_module (trim url) in
            if module \<noteq> [] then Some module else origin_module in_origin ls)
        | None \<Rightarrow> origin_module in_origin ls)
      else origin_module in_origin ls)"

definition module_from_git_config :: "file_system \<Rightarrow> path \<Rightarrow> string option" where
  "module_from_git_config fs go_mod = (case parent go_mod of
     None \<Rightarrow> None
   | Some root \<Rightarrow> (case fs_read fs (root @ [''.git'', ''config'']) of
       None \<Rightarrow> None | Some content \<Rightarrow> origin_module False (lines_from [] content)))"

definition named_dir :: "path option \<Rightarrow> string option" where
  "named_dir dir = (case dir of None \<Rightarrow> None
     | Some d \<Rightarrow> (case file_name d of Some name \<Rightarrow> if name \<noteq> [] then Some name else None | None \<Rightarrow> None))"

definition default_go_module :: "file_system \<Rightarrow> path \<Rightarrow> gen_error + string" where
  "default_go_module fs go_mod = (case module_from_git_config fs go_mod of
     Some module \<Rightarrow> Inr module
   | None \<Rightarrow> (case named_dir (parent go_mod) of
       Some name \<Rightarrow> Inr name
     | None \<Rightarrow> (case named_dir (fs_current_dir fs) of
         Some name \<Rightarrow> Inr name
       | None \<Rightarrow> Inl (Bail ''cannot infer module name for go.mod''))))"

end
