(* ===== verification/AmgenGo.thy ===== *)
theory AmgenGo
  imports Amgen Errors
begin

text \<open>
  The second half of \<open>src/cmd/amgen/src/main.rs\<close>: from the items of a file to the messages, the Go
  names and types of their fields, and the Go source.
\<close>

section \<open>Go types\<close>

definition is_named :: "rust_type \<Rightarrow> string \<Rightarrow> bool" where
  "is_named ty name = (case ty of
     TypePath qself segments \<Rightarrow> segments \<noteq> [] \<and>
       seg_ident (last segments) = name \<and> seg_arguments (last segments) = NoArguments
   | _ \<Rightarrow> False)"

definition type_arguments :: "generic_argument list \<Rightarrow> rust_type list" where
  "type_arguments args = concat (map (\<lambda>arg. case arg of TypeArgument ty \<Rightarrow> [ty] | OtherArgument \<Rightarrow> []) args)"

definition single_generic_type :: "path_segment \<Rightarrow> gen_error + rust_type" where
  "single_generic_type segment = (case seg_arguments segment of
     AngleBracketed args \<Rightarrow> (case type_arguments args of
         [] \<Rightarrow> Inl (Bail ''missing generic type'')
       | [first] \<Rightarrow> Inr first
       | _ \<Rightarrow> Inl (Bail ''expected a single generic type''))
   | _ \<Rightarrow> Inl (Bail ''generic type requires angle brackets''))"

definition two_generic_types :: "path_segment \<Rightarrow> gen_error + (rust_type \<times> rust_type)" where
  "two_generic_types segment = (case seg_arguments segment of
     AngleBracketed args \<Rightarrow> (case type_arguments args of
         [] \<Rightarrow> Inl (Bail ''missing map key type'')
       | [first] \<Rightarrow> Inl (Bail ''missing map value type'')
       | [first, second] \<Rightarrow> Inr (first, second)
       | _ \<Rightarrow> Inl (Bail ''expected exactly two generic types''))
   | _ \<Rightarrow> Inl (Bail ''generic type requires angle brackets''))"

definition array_len :: "array_length \<Rightarrow> gen_error + string" where
  "array_len len = (case len of
     IntLiteral digits \<Rightarrow> Inr digits | OtherLength \<Rightarrow> Inl (Bail ''array length must be an integer literal''))"

lemma type_arguments_size: "ty \<in> set (type_arguments args) \<Longrightarrow> size ty < size_list size args"
  by (induction args) (auto simp: type_arguments_def split: generic_argument.splits)

lemma last_segment_size:
  "segments \<noteq> [] \<Longrightarrow> size (last segments) < Suc (size_list size segments)"
  by (metis last_in_set less_SucI less_Suc_eq_le size_list_estimation' order_refl)

lemma segment_arguments_size:
  "seg_arguments segment = AngleBracketed args \<Longrightarrow> size_list size args < size segment"
  by (cases segment) simp

lemma single_generic_type_size: "single_generic_type segment = Inr ty \<Longrightarrow> size ty < size segment"
  using type_arguments_size segment_arguments_size
  by (auto simp: single_generic_type_def split: path_arguments.splits list.splits)
     (metis list.set_intros(1) order.strict_trans)

lemma two_generic_types_size:
  assumes "two_generic_types segment = Inr (key, value)" shows "size key < size segment \<and> size value < size segment"
proof -
  from assms obtain args where args: "seg_arguments segment = AngleBracketed args" "type_arguments args = [key, value]"
    by (auto simp: two_generic_types_def split: path_arguments.splits list.splits)
  then have "key \<in> set (type_arguments args)" "value \<in> set (type_arguments args)" by simp_all
  with args(1) show ?thesis using type_arguments_size segment_arguments_size by (metis order.strict_trans)
qed

text \<open>The types with a Go type of their own, and those that the generator refuses.\<close>

definition scalar_type :: "string \<Rightarrow> string option" where
  "scalar_type ident = map_of
     [(''String'', ''string''), (''bool'', ''bool''), (''i8'', ''int8''), (''i16'', ''int16''), (''i32'', ''int32''),
      (''i64'', ''int64''), (''u8'', ''uint8''), (''u16'', ''uint16''), (''u32'', ''uint32''), (''u64'', ''uint64''),
      (''f32'', ''float32''), (''f64'', ''float64'')] ident"

definition vec_u8_text :: string where
  "vec_u8_text = ''Vec<u8> is encoded as an array of integers, which Go's []byte '' @
     ''cannot decode; mark the field #[serde(with = '' @ [dquote] @ ''serde_bytes'' @ [dquote] @ '')], '' @
     ''or use serde_bytes::ByteBuf inside other types''"

function (sequential) go_type :: "rust_type \<Rightarrow> gen_error + string" where
  "go_type (TypePath qself segments) =
     (if qself then Inl (Bail ''qualified types are not supported'')
      else if segments = [] then Inl (Bail ''empty type path'')
      else let segment = last segments; ident = seg_ident segment in
        (case scalar_type ident of
           Some go \<Rightarrow> Inr go
         | None \<Rightarrow>
           if ident \<in> {''isize'', ''usize'', ''i128'', ''u128''}
           then Inl (Bail (ident @ '' is not supported; use a fixed-width integer''))
           else if ident = ''Option''
           then (case single_generic_type segment of
               Inl e \<Rightarrow> Inl e
             | Inr inner \<Rightarrow> (case go_type inner of Inl e \<Rightarrow> Inl e | Inr inner_go \<Rightarrow> Inr (''*'' @ inner_go)))
           else if ident = ''Vec''
           then (case single_generic_type segment of
               Inl e \<Rightarrow> Inl e
             | Inr inner \<Rightarrow> if is_named inner ''u8'' then Inl (Bail vec_u8_text)
                 else (case go_type inner of Inl e \<Rightarrow> Inl e | Inr inner_go \<Rightarrow> Inr (''[]'' @ inner_go)))
           else if ident = ''ByteBuf'' then Inr ''[]byte''
           else if ident = ''BTreeMap'' \<or> ident = ''HashMap''
           then (case two_generic_types segment of
               Inl e \<Rightarrow> Inl e
             | Inr (key, value) \<Rightarrow> (case go_type key of
                   Inl e \<Rightarrow> Inl e
                 | Inr key_go \<Rightarrow> (case go_type value of
                       Inl e \<Rightarrow> Inl e
                     | Inr value_go \<Rightarrow> Inr (''map['' @ key_go @ '']'' @ value_go))))
           else Inr ident))"
| "go_type (TypeArray elem len) = (case array_len len of
     Inl e \<Rightarrow> Inl e
   | Inr n \<Rightarrow> (case go_type elem of Inl e \<Rightarrow> Inl e | Inr inner \<Rightarrow> Inr (''['' @ n @ '']'' @ inner)))"
| "go_type (TypeSlice elem) = (case go_type elem of Inl e \<Rightarrow> Inl e | Inr inner \<Rightarrow> Inr (''[]'' @ inner))"
| "go_type (TypeParen elem) = go_type elem"
| "go_type (TypeGroup elem) = go_type elem"
| "go_type TypeReference = Inl (Bail ''references are not supported; use owned types'')"
| "go_type TypeTuple = Inl (Bail ''tuple types are not supported'')"
| "go_type TypePtr = Inl (Bail ''raw pointers are not supported'')"
| "go_type TypeBareFn = Inl (Bail ''function types are not supported'')"
| "go_type TypeNever = Inl (Bail ''never type is not supported'')"
| "go_type TypeTraitObject = Inl (Bail ''trait objects are not supported'')"
| "go_type TypeImplTrait = Inl (Bail ''impl traits are not supported'')"
| "go_type TypeMacro = Inl (Bail ''macro types are not supported'')"
| "go_type TypeInfer = Inl (Bail ''inferred types are not supported'')"
| "go_type TypeOther = Inl (Bail ''unsupported type'')"
  by pat_completeness auto
termination
proof (relation "measure size", goal_cases)
  case (2 qself segments x xa inner)
  then show ?case using single_generic_type_size[of "last segments" inner] last_segment_size[of segments] by simp
next
  case (3 qself segments x xa inner)
  then show ?case using single_generic_type_size[of "last segments" inner] last_segment_size[of segments] by simp
next
  case (4 qself segments x xa p key val)
  then show ?case using two_generic_types_size[of "last segments" key val] last_segment_size[of segments] by simp
next
  case (5 qself segments x xa p key val)
  then show ?case using two_generic_types_size[of "last segments" key val] last_segment_size[of segments] by simp
qed simp_all

definition option_inner :: "rust_type \<Rightarrow> rust_type option" where
  "option_inner ty = (case ty of
     TypePath qself segments \<Rightarrow>
       if segments = [] \<or> seg_ident (last segments) \<noteq> ''Option'' then None
       else (case seg_arguments (last segments) of
           AngleBracketed (TypeArgument inner # _) \<Rightarrow> Some inner | _ \<Rightarrow> None)
   | _ \<Rightarrow> None)"

definition is_byte_vec :: "rust_type \<Rightarrow> bool" where
  "is_byte_vec ty = (case ty of
     TypePath qself segments \<Rightarrow> segments \<noteq> [] \<and> seg_ident (last segments) = ''Vec'' \<and>
       (case single_generic_type (last segments) of Inr inner \<Rightarrow> is_named inner ''u8'' | Inl e \<Rightarrow> False)
   | _ \<Rightarrow> False)"

definition serde_bytes_go_type :: "rust_type \<Rightarrow> gen_error + string" where
  "serde_bytes_go_type ty =
     (let inner = (case option_inner ty of Some inner \<Rightarrow> inner | None \<Rightarrow> ty)
      in if is_byte_vec inner \<or> is_named inner ''ByteBuf'' then Inr ''[]byte''
         else Inl (Bail ''serde_bytes fields must be Vec<u8>, ByteBuf, or an Option of either''))"

end
