(* ===== verification/AmgenMessages.thy ===== *)
theory AmgenMessages
  imports AmgenGo
begin

text \<open>
  The rest of \<open>src/cmd/amgen/src/main.rs\<close>: the arguments, the module with the messages, the attributes
  and fields of a message, the Go source, and a run of the generator.
\<close>

section \<open>Names of fields\<close>

definition is_initialism :: "string \<Rightarrow> bool" where
  "is_initialism val \<longleftrightarrow> val \<in> set
     [''API'', ''ASCII'', ''CPU'', ''CSS'', ''DNS'', ''EOF'', ''GUID'', ''HTML'', ''HTTP'', ''HTTPS'', ''ID'', ''IP'',
      ''JSON'', ''LHS'', ''RHS'', ''QPS'', ''RAM'', ''RPC'', ''SLA'', ''SMTP'', ''SQL'', ''SSH'', ''TCP'', ''TLS'', ''TTL'',
      ''UDP'', ''UI'', ''UID'', ''UUID'', ''URI'', ''URL'', ''UTF8'', ''VM'', ''XML'', ''XMPP'', ''XSRF'', ''XSS'']"

definition go_part :: "string \<Rightarrow> string" where
  "go_part part =
     (let upper = map to_ascii_uppercase part
      in if is_initialism upper then upper
         else (case part of [] \<Rightarrow> [] | first # chars \<Rightarrow> to_ascii_uppercase first # chars))"

definition to_go_field_name :: "string \<Rightarrow> gen_error + string" where
  "to_go_field_name name =
     (let parts = filter (\<lambda>part. part \<noteq> []) (split_char CHR ''_'' name)
      in if parts = [] then Inl (Bail (''invalid field name '' @ name)) else Inr (concat (map go_part parts)))"

section \<open>Attributes\<close>

record message_attr =
  ma_ns :: "string option"
  ma_name :: "string option"

definition is_am_message_attr :: "attribute \<Rightarrow> bool" where
  "is_am_message_attr attr \<longleftrightarrow> at_path attr = [''am'', ''message'']"

fun find_message_attr :: "attribute option \<Rightarrow> attribute list \<Rightarrow> gen_error + attribute option" where
  "find_message_attr found [] = Inr found"
| "find_message_attr found (attr # attrs) =
     (if is_am_message_attr attr
      then (if found \<noteq> None then Inl (Bail ''multiple #[am::message] attributes are not supported'')
            else find_message_attr (Some attr) attrs)
      else find_message_attr found attrs)"

text \<open>
  \<open>parse_nested_meta\<close> runs a closure on each item, which has to take the argument of the item: syn
  refuses what is left of it.
\<close>

definition message_attr_item :: "string \<times> nested_value \<Rightarrow> message_attr \<Rightarrow> gen_error + message_attr" where
  "message_attr_item item out =
     (if fst item = ''ns''
      then (case snd item of LiteralArgument lit \<Rightarrow> Inr (out\<lparr>ma_ns := Some lit\<rparr>) | _ \<Rightarrow> Inl SynError)
      else if fst item = ''name''
      then (case snd item of LiteralArgument lit \<Rightarrow> Inr (out\<lparr>ma_name := Some lit\<rparr>) | _ \<Rightarrow> Inl SynError)
      else if fst item = ''register'' then (if snd item = NoArgument then Inr out else Inl SynError)
      else Inl (Bail (''unsupported am::message attribute; use ns='' @ [dquote] @ ''...'' @ [dquote] @ '', name='' @
             [dquote] @ ''...'' @ [dquote] @ '', or register'')))"

fun nested_items :: "('i \<Rightarrow> 'a \<Rightarrow> gen_error + 'a) \<Rightarrow> 'i list \<Rightarrow> 'a \<Rightarrow> gen_error + 'a" where
  "nested_items f [] out = Inr out"
| "nested_items f (item # items) out = try_res (f item out) (nested_items f items)"

definition parse_message_attr :: "attribute \<Rightarrow> gen_error + message_attr" where
  "parse_message_attr attr = (let out = \<lparr>ma_ns = None, ma_name = None\<rparr> in (case at_meta attr of
     MetaPath \<Rightarrow> Inr out
   | MetaNameValue _ \<Rightarrow> Inl (Bail ''unsupported am::message attribute form'')
   | MetaList items \<Rightarrow> nested_items message_attr_item items out))"

definition compute_wire_name :: "string \<Rightarrow> string \<Rightarrow> message_attr \<Rightarrow> bool \<Rightarrow> string option" where
  "compute_wire_name module_name type_name attr force =
     (let ns = (case ma_ns attr of Some ns \<Rightarrow> ns | None \<Rightarrow> ''am'');
          base = (case ma_name attr of Some name \<Rightarrow> name | None \<Rightarrow> module_name @ ''.'' @ type_name);
          has_override = (ma_name attr \<noteq> None \<or> (case ma_ns attr of Some ns \<Rightarrow> ns \<noteq> ''am'' | None \<Rightarrow> False))
      in if force \<or> has_override then Some (ns @ ''.'' @ base) else None)"

section \<open>Fields\<close>

record serde_attrs =
  sa_rename :: "string option"
  sa_with :: "string option"

definition serde_item :: "string \<times> nested_value \<Rightarrow> serde_attrs \<Rightarrow> gen_error + serde_attrs" where
  "serde_item item out =
     (if fst item = ''rename''
      then (if sa_rename out \<noteq> None then Inl (Bail ''duplicate serde(rename)'')
            else (case snd item of LiteralArgument lit \<Rightarrow> Inr (out\<lparr>sa_rename := Some lit\<rparr>) | _ \<Rightarrow> Inl SynError))
      else if fst item = ''with''
      then (case snd item of LiteralArgument lit \<Rightarrow> Inr (out\<lparr>sa_with := Some lit\<rparr>) | _ \<Rightarrow> Inl SynError)
      else if fst item = ''rename_all''
      then Inl (Bail ''serde(rename_all) is not supported; use per-field rename'')
      else if fst item \<in> {''skip'', ''skip_serializing'', ''skip_deserializing'', ''skip_serializing_if''}
      then Inl (Bail ''serde(skip) is not supported for amgen-rs'')
      else if snd item = ParenArguments then Inl SynError else Inr out)"

fun serde_attributes :: "attribute list \<Rightarrow> serde_attrs \<Rightarrow> gen_error + serde_attrs" where
  "serde_attributes [] out = Inr out"
| "serde_attributes (attr # attrs) out =
     (if at_path attr \<noteq> [''serde''] then serde_attributes attrs out
      else (case at_meta attr of
          MetaList items \<Rightarrow> try_res (nested_items serde_item items out) (serde_attributes attrs)
        | _ \<Rightarrow> Inl SynError))"

definition serde_field_attrs :: "attribute list \<Rightarrow> gen_error + serde_attrs" where
  "serde_field_attrs attrs = serde_attributes attrs \<lparr>sa_rename = None, sa_with = None\<rparr>"

definition is_serde_bytes_path :: "string \<Rightarrow> bool" where
  "is_serde_bytes_path path \<longleftrightarrow> path = ''serde_bytes'' \<or> strip_suffix ''::serde_bytes'' path \<noteq> None"

record field_def =
  fd_name :: string
  fd_ty :: string
  fd_tag :: string

definition parse_field :: "rust_field \<Rightarrow> gen_error + field_def" where
  "parse_field field = (case rf_ident field of
     None \<Rightarrow> Inl (Bail ''unnamed field'')
   | Some rust_name \<Rightarrow>
       try_res (serde_field_attrs (rf_attrs field)) (\<lambda>serde.
         try_res (to_go_field_name rust_name) (\<lambda>go_name.
           try_res (if (case sa_with serde of Some path \<Rightarrow> is_serde_bytes_path path | None \<Rightarrow> False)
                    then serde_bytes_go_type (rf_type field) else go_type (rf_type field)) (\<lambda>go.
             Inr \<lparr>fd_name = go_name, fd_ty = go,
               fd_tag = (case sa_rename serde of Some tag \<Rightarrow> tag | None \<Rightarrow> rust_name)\<rparr>))))"

fun parse_named_fields :: "rust_field list \<Rightarrow> gen_error + field_def list" where
  "parse_named_fields [] = Inr []"
| "parse_named_fields (field # named) =
     try_res (parse_field field) (\<lambda>fd. try_res (parse_named_fields named) (\<lambda>out. Inr (fd # out)))"

definition parse_fields :: "rust_fields \<Rightarrow> gen_error + field_def list" where
  "parse_fields fields_of = (case fields_of of
     NamedFields named \<Rightarrow> parse_named_fields named
   | OtherFields \<Rightarrow> Inl (Bail ''message structs must use named fields''))"

section \<open>Messages\<close>

record message_def =
  md_name :: string
  md_fields :: "field_def list"
  md_wire_name :: "string option"

fun collect_messages :: "string \<Rightarrow> rust_item list \<Rightarrow> bool \<Rightarrow> gen_error + message_def list" where
  "collect_messages module_name [] force = Inr []"
| "collect_messages module_name (ItemStruct ident attrs fields_of # items) force =
     try_res (find_message_attr None attrs) (\<lambda>found. case found of
         None \<Rightarrow> collect_messages module_name items force
       | Some attr \<Rightarrow>
           try_res (parse_message_attr attr) (\<lambda>ma.
             try_res (parse_fields fields_of) (\<lambda>fds.
               try_res (collect_messages module_name items force) (\<lambda>out.
                 Inr (\<lparr>md_name = ident, md_fields = fds,
                    md_wire_name = compute_wire_name module_name ident ma force\<rparr> # out)))))"
| "collect_messages module_name (item # items) force = collect_messages module_name items force"

text \<open>
  The module of the messages. \<open>PathBuf::from\<close> drops empty components and \<open>.\<close>, but for a leading \<open>.\<close> of a
  relative path.
\<close>

definition path_of :: "string \<Rightarrow> bool \<times> path" where
  "path_of text =
     (let parts = split_char CHR ''/'' text;
          absolute = (case text of c # _ \<Rightarrow> c = CHR ''/'' | [] \<Rightarrow> False)
      in (absolute, (if \<not> absolute \<and> hd parts = ''.'' then [''.''] else []) @
            filter (\<lambda>part. part \<noteq> [] \<and> part \<noteq> ''.'') parts))"

definition path_attr_names :: "path \<Rightarrow> attribute \<Rightarrow> bool" where
  "path_attr_names input attr = (case at_meta attr of
     MetaNameValue (Some lit) \<Rightarrow> at_path attr = [''path''] \<and> path_of lit \<in> {(False, [last input]), (True, input)}
   | _ \<Rightarrow> False)"

fun declared_module :: "path \<Rightarrow> rust_item list \<Rightarrow> string option" where
  "declared_module input [] = None"
| "declared_module input (ItemMod ident attrs None # items) =
     (if list_ex (path_attr_names input) attrs then Some ident else declared_module input items)"
| "declared_module input (item # items) = declared_module input items"

definition module_name_from_lib :: "file_system \<Rightarrow> path \<Rightarrow> gen_error + string option" where
  "module_name_from_lib fs input =
     (let input_abs = (case fs_canonicalize fs input of Some p \<Rightarrow> p | None \<Rightarrow> input)
      in (case parent input_abs of
          None \<Rightarrow> Inr None
        | Some dir \<Rightarrow> (let lib_path = dir @ [''lib.rs''] in
            if \<not> fs_exists fs lib_path then Inr None
            else (case fs_read fs lib_path of
                None \<Rightarrow> Inl IoError
              | Some content \<Rightarrow> (case fs_parse fs content of
                    None \<Rightarrow> Inl SynError
                  | Some items \<Rightarrow> Inr (declared_module input_abs items))))))"

definition inline_modules :: "rust_item list \<Rightarrow> (string \<times> rust_item list) list" where
  "inline_modules items =
     concat (map (\<lambda>item. case item of ItemMod ident attrs (Some content) \<Rightarrow> [(ident, content)] | _ \<Rightarrow> []) items)"

definition find_message_scope :: "file_system \<Rightarrow> rust_item list \<Rightarrow> path \<Rightarrow> path \<Rightarrow>
    gen_error + (string \<times> rust_item list)" where
  "find_message_scope fs items input output = (case inline_modules items of
     [module] \<Rightarrow> Inr module
   | [] \<Rightarrow> try_res (module_name_from_lib fs input) (\<lambda>name. case name of
         Some module_name \<Rightarrow> Inr (module_name, items)
       | None \<Rightarrow> try_res (package_name_from_output output) (\<lambda>module_name. Inr (module_name, items)))
   | _ \<Rightarrow> Inl (Bail ''expected exactly one inline module containing messages''))"

section \<open>Go source\<close>

definition push_line :: "string \<Rightarrow> string \<Rightarrow> string" where
  "push_line out line = out @ line @ [newline]"

fun escape_go :: "string \<Rightarrow> string" where
  "escape_go [] = []"
| "escape_go (c # s) =
     (if c = backslash then [backslash, backslash]
      else if c = dquote then [backslash, dquote] else [c]) @ escape_go s"

definition format_go_string :: "string \<Rightarrow> string" where
  "format_go_string val = [dquote] @ escape_go val @ [dquote]"

definition tag_text :: "string \<Rightarrow> string" where
  "tag_text tag = concat (map (\<lambda>c. if c = dquote then [backslash, dquote] else [c]) tag)"

definition field_line :: "field_def \<Rightarrow> string" where
  "field_line field = [tab] @ fd_name field @ '' '' @ fd_ty field @ '' '' @ [backtick] @ ''am:'' @ [dquote] @
     tag_text (fd_tag field) @ [dquote, backtick]"

definition render_message :: "message_def \<Rightarrow> string \<Rightarrow> string" where
  "render_message msg out =
     (let out = push_line out (''type '' @ md_name msg @ '' struct {'');
          out = foldl (\<lambda>out field. push_line out (field_line field)) out (md_fields msg);
          out = push_line out ''}''
      in (case md_wire_name msg of
          None \<Rightarrow> out
        | Some wire \<Rightarrow>
            push_line (push_line (push_line (push_line out [])
              (''func (*'' @ md_name msg @ '') WireName() string {''))
              ([tab] @ ''return '' @ format_go_string wire)) ''}''))"

fun render_messages :: "bool \<Rightarrow> message_def list \<Rightarrow> string \<Rightarrow> string" where
  "render_messages later [] out = out"
| "render_messages later (msg # messages) out =
     render_messages True messages (render_message msg (if later then push_line out [] else out))"

definition render_go :: "string \<Rightarrow> message_def list \<Rightarrow> string" where
  "render_go package_name messages =
     (let out = push_line (push_line (push_line (push_line []
            ''// Code generated by amgen-rs; DO NOT EDIT.'') []) (''package '' @ package_name)) []
      in push_line (render_messages False messages out) [])"

definition render_go_mod :: "string \<Rightarrow> string" where
  "render_go_mod module_name = push_line (push_line (push_line [] (''module '' @ module_name)) []) ''go 1.22''"

section \<open>A run\<close>

datatype parsed_args = InputArg string | HelpArg | ArgsError gen_error

fun parse_args :: "string option \<Rightarrow> string list \<Rightarrow> parsed_args" where
  "parse_args input [] = (case input of Some path \<Rightarrow> InputArg path | None \<Rightarrow> ArgsError (Bail ''--in is required''))"
| "parse_args input (arg # args) =
     (if arg = ''--in'' then (case args of
          [] \<Rightarrow> ArgsError (Bail ''--in requires a path'') | val # args' \<Rightarrow> parse_args (Some val) args')
      else if arg = ''-h'' \<or> arg = ''--help'' then HelpArg
      else ArgsError (Bail (''unknown argument '' @ arg)))"

text \<open>
  \<open>run\<close> from the resolved input on: the result, and the files written, in order.
\<close>

definition write_output :: "file_system \<Rightarrow> path \<Rightarrow> gen_error + unit" where
  "write_output fs p = (if fs_writable fs p then Inr () else Inl IoError)"

definition generate :: "file_system \<Rightarrow> path \<Rightarrow> gen_error + (string \<times> message_def list)" where
  "generate fs input_abs =
     (let output = default_output_path input_abs in
      try_res (case fs_read fs input_abs of Some content \<Rightarrow> Inr content | None \<Rightarrow> Inl IoError) (\<lambda>content.
      try_res (case fs_parse fs content of Some items \<Rightarrow> Inr items | None \<Rightarrow> Inl SynError) (\<lambda>file.
      try_res (find_message_scope fs file input_abs output) (\<lambda>(module_name, items).
      try_res (package_name_from_output output) (\<lambda>package_name.
      try_res (collect_messages module_name items (package_name \<noteq> module_name)) (\<lambda>messages.
        if messages = [] then Inl (Bail (''no #[am::message] structs found in module '' @ module_name))
        else Inr (package_name, messages)))))))"

definition run :: "file_system \<Rightarrow> path \<Rightarrow> (gen_error + unit) \<times> (path \<times> string) list" where
  "run fs input_abs = (case generate fs input_abs of
     Inl e \<Rightarrow> (Inl e, [])
   | Inr (package_name, messages) \<Rightarrow>
       let output = default_output_path input_abs;
           written = [(output, render_go package_name messages)]
       in (case write_output fs output of
           Inl e \<Rightarrow> (Inl e, [])
         | Inr _ \<Rightarrow> (case default_go_mod_path fs input_abs of
             None \<Rightarrow> (Inr (), written)
           | Some go_mod \<Rightarrow>
               if fs_exists fs go_mod then (Inr (), written)
               else (case default_go_module fs go_mod of
                   Inl e \<Rightarrow> (Inl e, written)
                 | Inr module_name \<Rightarrow> (case write_output fs go_mod of
                       Inl e \<Rightarrow> (Inl e, written)
                     | Inr _ \<Rightarrow> (Inr (), written @ [(go_mod, render_go_mod module_name)]))))))"

end
