(* ===== verification/MessageMacro.thy ===== *)
theory MessageMacro
  imports AmgenMessages Messages
begin

text \<open>
  \<open>src/macros/src/lib.rs\<close>: what \<open>#[message]\<close> and \<open>#[message_handler]\<close> accept, and what they make of
  it: a message type, with the module that the compiler expands it in, and the submissions to the
  inventory. The syntax trees are those of \<open>Amgen\<close>; an error carries the text for the compiler.
\<close>

record macro_args =
  mg_ns :: "string option"
  mg_name :: "string option"
  mg_register :: bool

definition macro_item :: "string \<times> nested_value \<Rightarrow> macro_args \<Rightarrow> gen_error + macro_args" where
  "macro_item item out =
     (if fst item = ''ns''
      then (case snd item of LiteralArgument lit \<Rightarrow> Inr (out\<lparr>mg_ns := Some lit\<rparr>) | _ \<Rightarrow> Inl SynError)
      else if fst item = ''name''
      then (case snd item of LiteralArgument lit \<Rightarrow> Inr (out\<lparr>mg_name := Some lit\<rparr>) | _ \<Rightarrow> Inl SynError)
      else if fst item = ''register''
      then (if snd item = NoArgument then Inr (out\<lparr>mg_register := True\<rparr>) else Inl SynError)
      else Inl (Bail (''unsupported message attribute; use ns='' @ [dquote] @ ''...'' @ [dquote] @ '', name='' @
             [dquote] @ ''...'' @ [dquote] @ '', or register'')))"

text \<open>
  The arguments of the attribute, as the compiler passes them: none, or the items in the parentheses;
  it does not accept \<open>= expression\<close> after an attribute macro.
\<close>

definition macro_attr :: "attribute \<Rightarrow> gen_error + macro_args" where
  "macro_attr attr = (let out = \<lparr>mg_ns = None, mg_name = None, mg_register = False\<rparr> in (case at_meta attr of
     MetaPath \<Rightarrow> Inr out
   | MetaList items \<Rightarrow> nested_items macro_item items out
   | MetaNameValue _ \<Rightarrow> Inl SynError))"

text \<open>\<open>message\<close> on a struct, which may be generic; the result has the number of its fields.\<close>

definition message_macro :: "attribute \<Rightarrow> bool \<Rightarrow> rust_fields \<Rightarrow> gen_error + (macro_args \<times> nat)" where
  "message_macro attr generic fields_of =
     try_res (macro_attr attr) (\<lambda>args.
       if generic then Inl (Bail ''message does not support generic structs'')
       else (case fields_of of
           NamedFields named \<Rightarrow> Inr (args, length named)
         | OtherFields \<Rightarrow> Inl (Bail ''message only supports structs with named fields'')))"

text \<open>The implementation written for the struct; \<open>serde\<close> has what serde derives for it.\<close>

definition expanded_type :: "('v, 'o) message_type \<Rightarrow> string \<Rightarrow> string \<Rightarrow> macro_args \<Rightarrow> nat \<Rightarrow> ('v, 'o) message_type" where
  "expanded_type serde module_path ident args field_count = serde
     \<lparr>mt_ns := mg_ns args, mt_name := mg_name args, mt_module_path := module_path, mt_ident := ident,
      mt_field_count := field_count\<rparr>"

definition register_submit :: "macro_args \<Rightarrow> nat \<Rightarrow> submission list" where
  "register_submit args T = (if mg_register args then [MessageOf T] else [])"

text \<open>\<open>message_handler\<close> on an implementation of a trait (its path), or of none, for type number \<open>T\<close>.\<close>

definition message_handler_macro :: "string list option \<Rightarrow> bool \<Rightarrow> nat \<Rightarrow> gen_error + submission list" where
  "message_handler_macro trait_path generic T = (case trait_path of
     None \<Rightarrow> Inl (Bail ''message_handler must be used on an impl of MessageHandler'')
   | Some segments \<Rightarrow>
       if \<not> (segments \<noteq> [] \<and> last segments = ''MessageHandler'')
       then Inl (Bail ''message_handler must be used on an impl of MessageHandler'')
       else if generic then Inl (Bail ''message_handler does not support generic impls'')
       else Inr [HandlerOf T])"

end
