(* ===== verification/AmgenProperties.thy ===== *)
theory AmgenProperties
  imports MessageMacro "HOL-Library.Code_Target_Nat"
begin

text \<open>
  The Go bindings agree with the Rust messages: the wire names and the number of fields that the
  generator finds are those of the macro, and names survive the quoting of Go.
\<close>

section \<open>The generator and the macro\<close>

text \<open>The message structs of a file: the name, the attribute and the fields of each.\<close>

definition message_structs :: "rust_item list \<Rightarrow> (string \<times> attribute \<times> rust_fields) list" where
  "message_structs items = concat (map (\<lambda>item. case item of
     ItemStruct ident attrs fields_of \<Rightarrow> (case filter is_am_message_attr attrs of
         [] \<Rightarrow> [] | attr # _ \<Rightarrow> [(ident, attr, fields_of)])
   | _ \<Rightarrow> []) items)"

lemma find_message_attr_filter:
  "find_message_attr found attrs = Inr res \<Longrightarrow>
     res = (case found of Some a \<Rightarrow> Some a | None \<Rightarrow> (case filter is_am_message_attr attrs of [] \<Rightarrow> None | a # _ \<Rightarrow> Some a))"
  by (induction found attrs rule: find_message_attr.induct) (auto split: if_splits option.splits)

text \<open>Both read the arguments of the attribute in the same way.\<close>

lemma attr_items_agree:
  assumes "nested_items message_attr_item items ma = Inr ma'" "mg_ns ga = ma_ns ma" "mg_name ga = ma_name ma"
  shows "\<exists>ga'. nested_items macro_item items ga = Inr ga' \<and> mg_ns ga' = ma_ns ma' \<and> mg_name ga' = ma_name ma'"
  using assms
proof (induction items arbitrary: ma ga)
  case (Cons item items)
  from Cons.prems(1) obtain ma1 where step: "message_attr_item item ma = Inr ma1"
    and rest: "nested_items message_attr_item items ma1 = Inr ma'"
    by (auto simp: try_res_Inr_iff)
  obtain ga1 where "macro_item item ga = Inr ga1" "mg_ns ga1 = ma_ns ma1" "mg_name ga1 = ma_name ma1"
  proof (cases "snd item")
    case (LiteralArgument lit)
    with step Cons.prems(2,3) that show ?thesis
      by (auto simp: message_attr_item_def macro_item_def split: if_splits)
  qed (use step Cons.prems(2,3) that in \<open>auto simp: message_attr_item_def macro_item_def split: if_splits\<close>)
  with Cons.IH[OF rest] show ?case by simp
qed simp

lemma attrs_agree:
  assumes "parse_message_attr attr = Inr ma"
  shows "\<exists>args. macro_attr attr = Inr args \<and> mg_ns args = ma_ns ma \<and> mg_name args = ma_name ma"
  using assms attr_items_agree[where ma = "\<lparr>ma_ns = None, ma_name = None\<rparr>"
      and ga = "\<lparr>mg_ns = None, mg_name = None, mg_register = False\<rparr>"]
  by (auto simp: parse_message_attr_def macro_attr_def Let_def split: attr_meta.splits)

lemma length_parse_named: "parse_named_fields named = Inr fds \<Longrightarrow> length fds = length named"
  by (induction named arbitrary: fds) (auto simp: try_res_Inr_iff)

definition go_wire_name :: "(string \<Rightarrow> string \<Rightarrow> string) \<Rightarrow> string \<Rightarrow> message_def \<Rightarrow> string" where
  "go_wire_name go_default package_name msg =
     (case md_wire_name msg of Some wire \<Rightarrow> wire | None \<Rightarrow> go_default package_name (md_name msg))"

lemma go_wire_name_simp [simp]:
  "go_wire_name go_default package_name \<lparr>md_name = n, md_fields = fds, md_wire_name = w\<rparr> =
     (case w of Some wire \<Rightarrow> wire | None \<Rightarrow> go_default package_name n)"
  by (cases w) (simp_all add: go_wire_name_def)

lemma wire_names_agree:
  assumes "mg_ns args = ma_ns ma" "mg_name args = ma_name ma" "module_leaf path = module_name"
    and "go_default package_name ident = ''am.'' @ package_name @ ''.'' @ ident"
  shows "(case compute_wire_name module_name ident ma (package_name \<noteq> module_name) of
      Some wire \<Rightarrow> wire | None \<Rightarrow> go_default package_name ident) =
    wire_name_static (expanded_type serde path ident args n)"
  using assms
  by (auto simp: compute_wire_name_def wire_name_static_def expanded_type_def Let_def split: option.splits)

text \<open>
  C32: The Go bindings have the wire names of the Rust messages. For the structs with \<open>#[am::message]\<close>
  in a module, if the generator accepts them, then the macro does (unless a struct is generic), and
  each Go type has the wire name and the number of fields that the macro gives its struct: where the
  generator leaves out \<open>WireName\<close>, the name that Go derives from the package and the type is the right
  one. (\<open>go_default\<close> is that name, in the Go runtime.)
\<close>

theorem amgen_agrees_with_macro:
  assumes "collect_messages module_name items (package_name \<noteq> module_name) = Inr messages"
    and "module_leaf path = module_name"
    and "\<And>T. go_default package_name T = ''am.'' @ package_name @ ''.'' @ T"
  shows "list_all2 (\<lambda>msg (ident, attr, fields_of). \<exists>args. md_name msg = ident \<and>
      message_macro attr False fields_of = Inr (args, length (md_fields msg)) \<and>
      go_wire_name go_default package_name msg =
        wire_name_static (expanded_type serde path ident args (length (md_fields msg))))
    messages (message_structs items)"
  using assms(1)
proof (induction items arbitrary: messages)
  case (Cons item items)
  show ?case
  proof (cases item)
    case (ItemStruct ident attrs fields_of)
    with Cons.prems obtain found where found: "find_message_attr None attrs = Inr found"
      by (auto simp: try_res_Inr_iff)
    note first = find_message_attr_filter[OF found]
    show ?thesis
    proof (cases found)
      case None
      with first have "filter is_am_message_attr attrs = []" by (simp split: list.splits)
      with None found Cons ItemStruct show ?thesis by (simp add: message_structs_def)
    next
      case (Some attr)
      with first obtain more where attr: "filter is_am_message_attr attrs = attr # more" by (simp split: list.splits)
      from Cons.prems found Some ItemStruct obtain ma fds out
        where *: "parse_message_attr attr = Inr ma" "parse_fields fields_of = Inr fds"
          "collect_messages module_name items (package_name \<noteq> module_name) = Inr out"
          "messages = \<lparr>md_name = ident, md_fields = fds,
             md_wire_name = compute_wire_name module_name ident ma (package_name \<noteq> module_name)\<rparr> # out"
        by (auto simp: try_res_Inr_iff)
      from attrs_agree[OF *(1)] obtain args where args: "macro_attr attr = Inr args" "mg_ns args = ma_ns ma" "mg_name args = ma_name ma"
        by blast
      from *(2) have "message_macro attr False fields_of = Inr (args, length fds)"
        by (cases fields_of) (simp_all add: parse_fields_def message_macro_def args(1) length_parse_named)
      with wire_names_agree[where serde = serde and n = "length fds" and ident = ident and go_default = go_default,
          OF args(2,3) assms(2) assms(3)[of ident]] Cons.IH[OF *(3)] attr *(4) ItemStruct
      show ?thesis by (simp add: message_structs_def)
    qed
  qed (use Cons in \<open>auto simp: message_structs_def split: option.splits\<close>)
qed (simp add: message_structs_def)

definition ex_attr :: "(string \<times> nested_value) list \<Rightarrow> attribute" where
  "ex_attr items = \<lparr>at_path = [''am'', ''message''], at_meta = MetaList items\<rparr>"

definition ex_items :: "rust_item list" where
  "ex_items =
     [ItemStruct ''Ping'' [ex_attr []]
        (NamedFields [\<lparr>rf_ident = Some ''user_id'', rf_attrs = [], rf_type = TypePath False [Segment ''u32'' NoArguments]\<rparr>]),
      OtherItem, ItemStruct ''Pong'' [ex_attr [(''ns'', LiteralArgument ''app'')]] (NamedFields [])]"

definition ex_messages :: "message_def list" where
  "ex_messages =
     [\<lparr>md_name = ''Ping'', md_fields = [\<lparr>fd_name = ''UserID'', fd_ty = ''uint32'', fd_tag = ''user_id''\<rparr>], md_wire_name = None\<rparr>,
      \<lparr>md_name = ''Pong'', md_fields = [], md_wire_name = Some ''app.msgs.Pong''\<rparr>]"

definition ex_default :: "string \<Rightarrow> string \<Rightarrow> string" where
  "ex_default package_name T = ''am.'' @ package_name @ ''.'' @ T"

lemma ex_collect: "collect_messages ''msgs'' ex_items (''msgs'' \<noteq> ''msgs'') = Inr ex_messages"
  by code_simp

definition ex_serde :: "(nat, nat) message_type" where
  "ex_serde = \<lparr>mt_ns = None, mt_name = None, mt_module_path = [], mt_ident = [], mt_field_count = 0,
     mt_to_value = (\<lambda>v. Inr (Array [OtherValue v])), mt_from_value = (\<lambda>x. Inr 0), mt_to_vec_named = (\<lambda>w v. Inr []),
     mt_to_stdvec = (\<lambda>v. Inr []), mt_from_bytes = (\<lambda>bs. Inr 0)\<rparr>"

lemma amgen_agrees_with_macro_witness:
  "\<exists>args. message_macro (ex_attr []) False (NamedFields [\<lparr>rf_ident = Some ''user_id'', rf_attrs = [],
       rf_type = TypePath False [Segment ''u32'' NoArguments]\<rparr>]) = Inr (args, 1) \<and>
     ''am.msgs.Ping'' = wire_name_static (expanded_type ex_serde ''app::msgs'' ''Ping'' args 1)"
proof -
  have "module_leaf ''app::msgs'' = ''msgs''" by (simp add: module_leaf_def)
  from amgen_agrees_with_macro[OF ex_collect this, of ex_default ex_serde]
  have "list_all2 (\<lambda>msg (ident, attr, fields_of). \<exists>args. md_name msg = ident \<and>
      message_macro attr False fields_of = Inr (args, length (md_fields msg)) \<and>
      go_wire_name ex_default ''msgs'' msg =
        wire_name_static (expanded_type ex_serde ''app::msgs'' ident args (length (md_fields msg))))
    ex_messages (message_structs ex_items)" by (simp add: ex_default_def)
  then show ?thesis
    by (simp add: ex_messages_def message_structs_def ex_items_def ex_attr_def is_am_message_attr_def go_wire_name_def ex_default_def)
qed

section \<open>Quoting\<close>

text \<open>
  How Go reads a quoted text, from behind its opening quote: up to the closing quote, which it does not
  reach past a line end. Of the escapes only those that the generator writes are known here.
\<close>

fun read_quoted :: "string \<Rightarrow> (string \<times> string) option" where
  "read_quoted [] = None"
| "read_quoted (c # s) =
     (if c = dquote then Some ([], s)
      else if c = newline then None
      else if c = backslash
      then (case s of
          d # s' \<Rightarrow> if d = backslash \<or> d = dquote
            then map_option (\<lambda>(val, rest). (d # val, rest)) (read_quoted s') else None
        | [] \<Rightarrow> None)
      else map_option (\<lambda>(val, rest). (c # val, rest)) (read_quoted s))"

lemma read_escaped: "newline \<notin> set val \<Longrightarrow> read_quoted (escape_go val @ dquote # rest) = Some (val, rest)"
  by (induction val) (auto simp: char_defs)

lemma read_tag:
  "set tag \<inter> {backslash, newline} = {} \<Longrightarrow> read_quoted (tag_text tag @ dquote # rest) = Some (tag, rest)"
  by (induction tag) (auto simp: tag_text_def char_defs)

text \<open>
  Names survive the quoting of Go. The wire name that \<open>WireName\<close> returns in Go is the one it was
  rendered from, if that is on one line; and the tag of a field, a raw string with a quoted part, ends
  where it should and has the name of the field, if the name has no backslash and no backtick.
\<close>

theorem go_names_survive:
  assumes "newline \<notin> set wire" "set tag \<inter> {backslash, backtick, newline} = {}"
    and "backtick \<notin> set go \<union> set ty" "format_go_string wire = dquote # body"
  shows "read_quoted body = Some (wire, []) \<and>
    (\<exists>quoted. field_line \<lparr>fd_name = go, fd_ty = ty, fd_tag = tag\<rparr> =
        tab # go @ '' '' @ ty @ '' '' @ [backtick] @ ''am:'' @ [dquote] @ quoted @ [backtick] \<and>
      backtick \<notin> set quoted \<and> read_quoted quoted = Some (tag, []))"
proof -
  from assms(4) have "body = escape_go wire @ dquote # []" by (simp add: format_go_string_def)
  with read_escaped[OF assms(1)] have "read_quoted body = Some (wire, [])" by blast
  moreover have "backtick \<notin> set (tag_text tag @ [dquote])"
    using assms(2) by (auto simp: tag_text_def char_defs)
  moreover have "read_quoted (tag_text tag @ [dquote]) = Some (tag, [])" using read_tag[of tag "[]"] assms(2) by auto
  ultimately show ?thesis by (intro conjI exI[of _ "tag_text tag @ [dquote]"]) (simp_all add: field_line_def)
qed

lemma go_names_survive_witness:
  "read_quoted (''am.Ping'' @ [dquote]) = Some (''am.Ping'', []) \<and>
   (\<exists>quoted. field_line \<lparr>fd_name = ''UserID'', fd_ty = ''uint32'', fd_tag = ''user_id''\<rparr> =
      tab # ''UserID'' @ '' '' @ ''uint32'' @ '' '' @ [backtick] @ ''am:'' @ [dquote] @ quoted @ [backtick] \<and>
      backtick \<notin> set quoted \<and> read_quoted quoted = Some (''user_id'', []))"
  by (rule go_names_survive) (simp_all add: char_defs format_go_string_def)

text \<open>A backslash in the name of a field is not escaped: the quote behind it then is.\<close>

lemma tag_backslash_breaks:
  "set name \<inter> {backslash, newline} = {} \<Longrightarrow> read_quoted (tag_text (name @ [backslash]) @ [dquote]) = None"
  by (induction name) (auto simp: tag_text_def char_defs)

section \<open>Names that are not kept\<close>

text \<open>
  A raw identifier keeps its prefix, which serde drops, and is then no Go name; and two fields may
  become the same Go field.
\<close>

lemma raw_identifier_prefix_kept:
  "to_go_field_name ''r#type'' = Inr ''R#type'' \<and> to_go_field_name ''_id'' = to_go_field_name ''id''"
  by code_simp

text \<open>An SSH address stays as it is, though it is no module path.\<close>

lemma ssh_url_kept: "url_module ''git@github.com:o/r.git'' = ''git@github.com:o/r''"
  by code_simp

text \<open>
  A module that \<open>lib.rs\<close> declares without a path gets the name of the directory, which is the name of
  the package: then no message has a \<open>WireName\<close> but for one with a name or another namespace of its own.
\<close>

lemma plain_module_gets_package_name:
  assumes "inline_modules items = []" "fs_canonicalize fs input = Some input" "parent input = Some dir"
    and "fs_exists fs (dir @ [''lib.rs''])" "fs_read fs (dir @ [''lib.rs'']) = Some content"
    and "fs_parse fs content = Some [ItemMod ident [] None]"
    and "package_name_from_output output = Inr package_name"
  shows "find_message_scope fs items input output = Inr (package_name, items) \<and>
    compute_wire_name package_name T \<lparr>ma_ns = None, ma_name = None\<rparr> (package_name \<noteq> package_name) = None"
  using assms by (simp add: find_message_scope_def module_name_from_lib_def Let_def compute_wire_name_def)

end
