(* ===== verification/Spec2Isabelle.thy ===== *)
theory Spec2Isabelle
  imports FrameStream RecoveryProtocol LinkRefinement TableRaces RuntimeProperties FrameProperties ServerGuarantees ClientProperties
    StreamRouting RequestReply ServeLoop OnceConn CloseSignal ConnectionSetup Context MessageProperties AmgenProperties
begin

text \<open>
  A model of the Rust runtime of adaptivemsg and of its two build tools.

  \<^bold>\<open>The program.\<close> A connection carries numbered streams of messages over one transport (TCP, a Unix
  socket, QUIC). Client and server first shake hands over a version, a codec and a frame limit. In
  version 2 a lost transport ends the connection. In version 3 an attach follows: both sides number
  their data frames and keep those not acknowledged, the client reconnects, the server finds the
  connection again by its ID and secret, and each side replays what the other lacks. A connection has a
  reader and a writer task, each stream a task that decodes and, with handlers, one that runs them. The
  tasks share the connection through locks, channels and atomics.

  \<^bold>\<open>How it is modelled.\<close> The state shared by the tasks of a connection is one record
  (\<open>Connection.connection\<close>), with a store for the streams, since handles outlive the table. An operation
  is a function on it, one atomic step as the code runs it under its locks; a task is a value that says
  what it waits for, with a function for its progress to the next wait. Channels are lists, the clock is
  a field. Step relations put the tasks together in any order: \<open>conn_step\<close> (a stream table), \<open>race_step\<close> (its
  table at the grain of single locks and atomics), \<open>lane_step\<close>,
  \<open>route_step\<close> and \<open>exchange_step\<close> (one stream), \<open>loop_step\<close> (a server with its accept loop), \<open>signal_step\<close> (a close),
  \<open>reconnect_step\<close>, \<open>link_step\<close> (both ends of a version 3 connection with its transports),
  \<open>serve_step\<close> (a server), \<open>handle_step\<close> (the handles of a user). Errors are values of \<open>am_error\<close>, an
  \<open>expect\<close> that could fail is an option. Widths are those of the code: \<open>u32\<close>, \<open>u64\<close> with their
  wrap-around, lengths and \<open>Duration\<close> as natural numbers.

  \<^bold>\<open>Theories and sources\<close> (below \<open>src/src\<close>, unless named in full).
    \<^item> \<open>Prelude\<close>, \<open>Errors\<close> (\<open>error.rs\<close>), \<open>Debug\<close> (\<open>debug.rs\<close>), \<open>CodecRegistry\<close> (\<open>codec.rs\<close>,
      \<open>codec_registry.rs\<close>).
    \<^item> \<open>ByteIO\<close> is a transport: its bytes arrive in any cut into chunks, and writes may fail.
    \<^item> \<open>Frame\<close> (\<open>frame.rs\<close>), \<open>FrameIO\<close> (\<open>read_frame\<close>, \<open>write_frame_counted\<close> and \<open>build_config\<close> of
      \<open>connection.rs\<close>), \<open>Handshake\<close> (\<open>protocol.rs\<close>), \<open>RecoveryOptions\<close>, \<open>RecoveryState\<close> (\<open>recovery.rs\<close>),
      \<open>RecoveryProtocol\<close> (\<open>recovery_protocol.rs\<close>), \<open>Replay\<close> (\<open>replay.rs\<close>).
    \<^item> \<open>Connection\<close>, \<open>ConnectionOps\<close> (\<open>connection.rs\<close>: stream table, routing, version 2 tasks, close,
      start), \<open>Stream\<close> (\<open>stream.rs\<close>, with the decode and handler tasks), \<open>Context\<close> (\<open>context.rs\<close>, and the
      handles of \<open>connection.rs\<close> with their \<open>Owner\<close>).
    \<^item> \<open>RecoveryRuntime\<close>, \<open>RecoveryWriter\<close> (\<open>recovery_runtime.rs\<close>: attach, detach, reconnect, expiry, the
      reader; the writer task).
    \<^item> \<open>Transport\<close> (addresses and paths: \<open>transport/mod.rs\<close>, \<open>transport/uds.rs\<close>), \<open>Sockets\<close> (\<open>tcp.rs\<close>, \<open>uds.rs\<close>,
      \<open>quic.rs\<close> around the calls of the system and of quinn), \<open>Server\<close> (the tasks of \<open>server.rs\<close>), \<open>ServeLoop\<close>
      (\<open>serve_with_shutdown\<close> from the address to the return), \<open>Client\<close>, \<open>OnceConn\<close> (\<open>client.rs\<close>).
    \<^item> \<open>CloseSignal\<close> (\<open>wait_closed\<close>, \<open>wait_stopped\<close> and \<open>close_channels\<close> in steps finer than elsewhere).
    \<^item> \<open>Messages\<close> (\<open>message.rs\<close>, \<open>codec_msgpack.rs\<close>, \<open>codec_postcard.rs\<close>, \<open>raw_message.rs\<close>,
      \<open>registry.rs\<close>), \<open>MessageMacro\<close> (\<open>src/macros/src/lib.rs\<close>), \<open>Amgen\<close>, \<open>AmgenGo\<close>, \<open>AmgenMessages\<close>
      (\<open>src/cmd/amgen/src/main.rs\<close>, the generator of Go bindings).

  \<^bold>\<open>What is shown.\<close>
    \<^item> Bytes: \<open>WireCodec\<close> states what a reader may expect of a writer as two locales, with frames
      (\<open>FrameStream\<close>) and attach messages (\<open>RecoveryProtocol\<close>) as instances; \<open>FrameProperties\<close> has the
      frames of version 2 from the queue to the peer's reader. The handshake is at the end of this theory.
    \<^item> One connection: \<open>StreamTable\<close> (an invariant of the table of streams over all operations, stream IDs
      never come back), \<open>TableRaces\<close> (the table survives every interleaving of opening, removing and closing, down
      to single locks and atomics, whose uninterrupted runs are the operations of \<open>Connection\<close>), \<open>Replay\<close> (the buffer is an acknowledged queue, locale \<open>replay_store\<close>),
      \<open>RecoveryState\<close> (every frame is acknowledged in time), \<open>Context\<close> (open while a handle is left).
    \<^item> One stream: \<open>StreamQueues\<close> (which operations leave the queues of a stream alone), \<open>StreamOrder\<close> (from
      the incoming channel over the decode task to the user and the handler, a stream is a pair of queues),
      \<open>StreamRouting\<close> (from the frames of a connection, routed by ID, to the user of one stream),
      \<open>RequestReply\<close> (a request gets its own reply, also after timeouts, unless a call was dropped).
    \<^item> A version 3 link: \<open>RecoveryFields\<close>, \<open>LinkSender\<close> and \<open>LinkReceiver\<close> (what each side keeps true),
      \<open>RecoverySystem\<close> (the system and its invariant), \<open>LinkProperties\<close> (exactly once and in order,
      whatever happens to the transports), \<open>LinkRefinement\<close> (step by step, the link is a FIFO queue from the
      sender's outbound queue to what the receiver hands on),
      \<open>RuntimeProperties\<close> (heartbeats, the reconnect loop, stale events, expiry).
    \<^item> The ends: \<open>ServerProperties\<close> and \<open>ServerGuarantees\<close> (the invariant of a server; resume, stop,
      callbacks, the accept loop), \<open>ServeLoop\<close> (when \<open>serve\<close> returns, all is closed), \<open>CloseSignal\<close> (no waiter
      sleeps through a close), \<open>ClientProperties\<close> (when connecting returns), \<open>ConnectionSetup\<close> (a client
      and a server that complete an attach are the two ends of such a link).
    \<^item> Messages: \<open>MessageProperties\<close> (locale \<open>message_codec\<close>, with the three codecs as instances, and a
      message from \<open>encode\<close> to the handler of its type), \<open>AmgenProperties\<close> (the generated Go code has the
      wire names of the Rust code).

  \<^bold>\<open>Bounds.\<close> No function has fuel. Loops are structural recursion on chunks, queues or lists, or end by a
  measure (the varint by its value, the parsers of \<open>Amgen\<close> by their input). The retry loop of
  \<open>connect\<close> may run for ever and is a \<open>partial_function\<close>; that it returns is a theorem, and so is that it
  does not. Properties of a link assume that fewer than \<open>2 ^ 64 - 1\<close> frames are sent in a direction.

  \<^bold>\<open>Coarser than the code.\<close> The lock that a stream holds while it sends (\<open>send_lock\<close>) is not modelled:
  more interleavings are possible in the model. But for \<open>TableRaces\<close> and \<open>CloseSignal\<close>, an operation that takes
  several locks one after the other is one step (\<open>mark_closed\<close>, \<open>remove_stream\<close>, \<open>make_stream\<close>), and the
  version 2 writer takes the frames of a batch at once, where the code takes one before each write. The
  snapshot of \<open>debug_state\<close> is read at one instant; the code reads its fields one after the other. The abort of a writer task is the end of its steps, that
  of a reader is a note of its generation. The wait of the accept loop doubles as a natural number:
  \<open>Duration\<close> cannot overflow there, as the wait is at most a second.

  \<^bold>\<open>Not modelled.\<close> tokio and the operating system below it, quinn, syn, serde, rmpv, rmp-serde, postcard,
  the file system and random numbers: third-party code, parameters of the definitions that use it. The
  methods of \<open>Connection\<close> that only call those of its default stream, logging, the examples, tests and
  benchmarks.
\<close>

section \<open>Handshake\<close>

text \<open>
  C6: Agreement of the handshake. When the client's request reaches the server and the server's
  reply reaches the client, either both sides end with the same configuration (the client's
  version, the first codec of the client's list that the server supports, the smaller of the two
  frame limits), or both fail: with the unsupported version, or with no common codec.
\<close>

theorem handshake_agreement:
  assumes "validate_codec_list reg_c ccs = Inr ()" "validate_codec_list reg_s scs = Inr ()"
    and v: "is_supported_protocol_version v"
    and w: "good_writer wc" "good_writer ws" "wr_out wc = []" "wr_out ws = []"
    and c: "handshake_client reg_c ccs cmx v rc wc = (cres, wc')"
    and s: "handshake_server reg_s scs smx rec rs ws = (sres, ws')"
    and net: "rd_bytes rs = wr_out wc' @ rest_s" "rd_bytes rc = wr_out ws' @ rest_c"
  shows "if v = PROTOCOL_VERSION_V3 \<and> \<not> rec
    then sres = Inl (UnsupportedFrameVersion v) \<and> cres = Inl (UnsupportedFrameVersion PROTOCOL_VERSION_V2)
    else case find (\<lambda>i. i \<in> set scs) ccs of
        None \<Rightarrow> sres = Inl NoCommonCodec \<and> cres = Inl NoCommonCodec
      | Some i \<Rightarrow> (\<exists>rs' rc'. let cfg = \<lparr>hc_version = v, hc_codec_id = i, hc_max_frame = min cmx smx\<rparr>
          in sres = Inr (cfg, rs') \<and> rd_bytes rs' = rest_s \<and> cres = Inr (cfg, rc') \<and> rd_bytes rc' = rest_c)"
proof -
  from handshake_client_writes[OF assms(1) v w(1), of cmx rc] c w(3)
  have cres: "cres = handshake_client_reply reg_c ccs v rc"
    and "wr_out wc' = handshake_request ccs cmx v @ ccs" by auto
  with net(1) have rs: "rd_bytes rs = handshake_request ccs cmx v @ ccs @ rest_s" by simp
  from assms(1) have ccs: "ccs \<noteq> []" "length ccs \<le> 16" "\<And>i. i \<in> set ccs \<Longrightarrow> codec_known reg_c i"
    by (auto simp: validate_codec_list_iff)
  note on_reply = handshake_client_on_reply[of rc _ _ _ _ rest_c reg_c ccs v]
  obtain rs' where rs': "rd_bytes rs' = rest_s" and eq: "handshake_server reg_s scs smx rec rs ws =
     (if \<not> is_supported_protocol_version v \<or> v = PROTOCOL_VERSION_V3 \<and> \<not> rec
      then (Inl (UnsupportedFrameVersion v),
            ws\<lparr>wr_out := wr_out ws @ handshake_reply 0 (supported_protocol_version rec) 0 0\<rparr>)
      else case select_codec ccs scs of
        None \<Rightarrow> (Inl NoCommonCodec, ws\<lparr>wr_out := wr_out ws @ handshake_reply 0 v 0 0\<rparr>)
      | Some i \<Rightarrow> (Inr (\<lparr>hc_version = v, hc_codec_id = i, hc_max_frame = min cmx smx\<rparr>, rs'),
                   ws\<lparr>wr_out := wr_out ws @ handshake_reply 1 v i (min cmx smx)\<rparr>))"
    using handshake_server_on_request[OF assms(2) w(2) rs ccs(1,2), of smx rec] by (elim exE conjE) rule
  note srv = trans[OF s[symmetric] eq]
  show ?thesis
  proof (cases "v = PROTOCOL_VERSION_V3 \<and> \<not> rec")
    case True
    with srv net(2) w(4) have "sres = Inl (UnsupportedFrameVersion v)"
      "rd_bytes rc = handshake_reply 0 PROTOCOL_VERSION_V2 0 0 @ rest_c"
      by (auto simp: supported_protocol_version_def)
    with on_reply[of 0 PROTOCOL_VERSION_V2 0 0] True cres show ?thesis by (auto simp: version_defs)
  next
    case False
    show ?thesis
    proof (cases "find (\<lambda>i. i \<in> set scs) ccs")
      case None
      with srv False v net(2) w(4) have "sres = Inl NoCommonCodec"
        "rd_bytes rc = handshake_reply 0 v 0 0 @ rest_c"
        by (auto simp: select_codec_find)
      with on_reply[of 0 v 0 0] None False cres show ?thesis by auto
    next
      case (Some i)
      then have i: "i \<in> set ccs" by (auto simp: find_Some_iff)
      from Some srv False v net(2) w(4)
      have "sres = Inr (\<lparr>hc_version = v, hc_codec_id = i, hc_max_frame = min cmx smx\<rparr>, rs')"
        "rd_bytes rc = handshake_reply 1 v i (min cmx smx) @ rest_c"
        by (auto simp: select_codec_find)
      with on_reply[of 1 v i "min cmx smx"] Some False cres ccs(3)[OF i] i rs' show ?thesis
        by (auto simp: Let_def)
    qed
  qed
qed

definition ex_reg :: codec_registry where "ex_reg = ensure_builtin_codecs new_codec_registry"
definition ex_reader :: "bytes \<Rightarrow> reader" where "ex_reader bs = \<lparr>rd_chunks = [take 5 bs, drop 5 bs], rd_end = None\<rparr>"
definition ex_writer :: writer where
  "ex_writer = \<lparr>wr_out = [], wr_room = None, wr_flush_error = None, wr_shut = False\<rparr>"

lemma handshake_agreement_witness:
  "let creq = handshake_request [CodecPostcard, CodecMsgpackMap] 4096 3 @ [CodecPostcard, CodecMsgpackMap];
       srep = handshake_reply 1 3 CodecMsgpackMap 1024
   in \<exists>cr sr. fst (handshake_client ex_reg [CodecPostcard, CodecMsgpackMap] 4096 3 (ex_reader srep) ex_writer)
        = Inr (\<lparr>hc_version = 3, hc_codec_id = CodecMsgpackMap, hc_max_frame = 1024\<rparr>, cr) \<and>
      fst (handshake_server ex_reg [CodecMsgpackMap] 1024 True (ex_reader creq) ex_writer)
        = Inr (\<lparr>hc_version = 3, hc_codec_id = CodecMsgpackMap, hc_max_frame = 1024\<rparr>, sr)"
proof -
  define creq where "creq = handshake_request [CodecPostcard, CodecMsgpackMap] 4096 3 @
    [CodecPostcard, CodecMsgpackMap]"
  define srep where "srep = handshake_reply 1 3 CodecMsgpackMap 1024"
  obtain cres cw where c: "handshake_client ex_reg [CodecPostcard, CodecMsgpackMap] 4096 3
    (ex_reader srep) ex_writer = (cres, cw)" by fastforce
  obtain sres sw where s: "handshake_server ex_reg [CodecMsgpackMap] 1024 True
    (ex_reader creq) ex_writer = (sres, sw)" by fastforce
  have v: "validate_codec_list ex_reg [CodecPostcard, CodecMsgpackMap] = Inr ()"
    "validate_codec_list ex_reg [CodecMsgpackMap] = Inr ()" "is_supported_protocol_version 3"
    by code_simp+
  have w: "good_writer ex_writer" "wr_out ex_writer = []" by (simp_all add: good_writer_def ex_writer_def)
  have "wr_out (snd (handshake_client ex_reg [CodecPostcard, CodecMsgpackMap] 4096 3
      (ex_reader srep) ex_writer)) = creq" unfolding creq_def srep_def by code_simp
  with c have cw: "rd_bytes (ex_reader creq) = wr_out cw @ []" by (simp add: ex_reader_def rd_bytes_def)
  have "wr_out (snd (handshake_server ex_reg [CodecMsgpackMap] 1024 True
      (ex_reader creq) ex_writer)) = srep" unfolding creq_def srep_def by code_simp
  with s have sw: "rd_bytes (ex_reader srep) = wr_out sw @ []" by (simp add: ex_reader_def rd_bytes_def)
  have "find (\<lambda>i. i \<in> set [CodecMsgpackMap]) [CodecPostcard, CodecMsgpackMap] = Some CodecMsgpackMap"
    by (simp add: CodecPostcard_def CodecMsgpackMap_def)
  with handshake_agreement[OF v w(1) w(1) w(2) w(2) c s cw sw]
  obtain sr cr where "sres = Inr (\<lparr>hc_version = 3, hc_codec_id = CodecMsgpackMap, hc_max_frame = 1024\<rparr>, sr)"
    "cres = Inr (\<lparr>hc_version = 3, hc_codec_id = CodecMsgpackMap, hc_max_frame = 1024\<rparr>, cr)"
    by (auto simp: Let_def min_def)
  with c s show ?thesis by (simp add: Let_def creq_def srep_def)
qed

end
